(* ===== verification/Prelude.thy ===== *)
theory Prelude
  imports Main "HOL-Library.Word" "HOL-Library.AList"
begin

text \<open>
  Shared vocabulary of the development: the Go types every component uses (64-bit counters,
  instants, durations), the fact collections the component proofs draw on, and the generic
  lemmas on words, maps, lists and decimal numerals that no component should prove twice.

  Instants are nanoseconds since Go's zero time, so \<open>time.Time.IsZero\<close> is the test against
  \<open>0\<close>; durations are nanoseconds. Both are unbounded integers here: \<open>time.Time\<close> carries
  seconds and nanoseconds separately and does not wrap on the values the code adds.
  Fencing tokens and versions are \<open>uint64\<close>, and their wrap-around matters, so they are words.
\<close>

named_theorems op_defs "the definitions of the methods of the backends, for proofs over all calls"

type_synonym u64 = "64 word"
type_synonym time = int
type_synonym duration = int
type_synonym OperationID = string

section \<open>Instants and durations\<close>

definition Millisecond :: duration where "Millisecond = 1000000"
definition Second :: duration where "Second = 1000 * Millisecond"
definition Minute :: duration where "Minute = 60 * Second"
definition Hour :: duration where "Hour = 60 * Minute"

definition IsZero :: "time \<Rightarrow> bool" where "IsZero t \<longleftrightarrow> t = 0"

text \<open>Go's integer division truncates towards zero.\<close>

definition go_div :: "int \<Rightarrow> int \<Rightarrow> int" where
  "go_div a b = sgn a * sgn b * (\<bar>a\<bar> div \<bar>b\<bar>)"

lemma go_div_pos: "0 < a \<Longrightarrow> 0 < b \<Longrightarrow> go_div a b = a div b"
  by (simp add: go_div_def)

lemma go_div_less: "0 < a \<Longrightarrow> 1 < b \<Longrightarrow> go_div a b < a"
  by (simp add: go_div_pos int_div_less_self)

section \<open>64-bit counters\<close>

lemma unat_Suc_less: "(a::'a::len word) < b \<Longrightarrow> unat (a + 1) = Suc (unat a)"
proof -
  assume "a < b"
  then have "Suc (unat a) \<le> unat b" by (simp add: word_less_nat_alt)
  also have "unat b < 2 ^ LENGTH('a)" by (rule unsigned_less)
  finally have "Suc (unat a) mod 2 ^ LENGTH('a) = Suc (unat a)" by (rule mod_less)
  then show ?thesis by (simp add: unat_word_ariths)
qed

lemma word_Suc_less: "(a::'a::len word) < b \<Longrightarrow> a < a + 1"
  by (simp add: word_less_nat_alt unat_Suc_less)

section \<open>Decimal numerals\<close>

text \<open>
  \<open>fmt\<close>'s \<open>%d\<close>. The digits are appended most significant first; \<open>dec_loop\<close> is the same
  computation with an accumulator, the shape of the code's own conversion loops.
\<close>

definition digit :: "nat \<Rightarrow> char" where "digit d = char_of (48 + d)"

definition is_digit :: "char \<Rightarrow> bool" where
  "is_digit c \<longleftrightarrow> 48 \<le> (of_char c :: nat) \<and> (of_char c :: nat) < 58"

fun decimal :: "nat \<Rightarrow> string" where
  "decimal n = (if n < 10 then [digit n] else decimal (n div 10) @ [digit (n mod 10)])"

fun dec_loop :: "nat \<Rightarrow> string \<Rightarrow> string" where
  "dec_loop n acc = (if n = 0 then acc else dec_loop (n div 10) (digit (n mod 10) # acc))"

declare decimal.simps [simp del] dec_loop.simps [simp del]

fun undec :: "nat \<Rightarrow> string \<Rightarrow> nat" where
  "undec acc [] = acc"
| "undec acc (c # cs) = undec (10 * acc + (of_char c - 48)) cs"

definition int_decimal :: "int \<Rightarrow> string" where
  "int_decimal i = (if i < 0 then ''-'' @ decimal (nat (- i)) else decimal (nat i))"

lemma of_char_digit: "d < 10 \<Longrightarrow> of_char (digit d) = 48 + d"
  by (simp add: digit_def)

lemma is_digit_digit: "d < 10 \<Longrightarrow> is_digit (digit d)"
  by (simp add: is_digit_def of_char_digit)

lemma undec_append: "undec acc (xs @ ys) = undec (undec acc xs) ys"
  by (induction xs arbitrary: acc) auto

lemma dec_loop_append: "dec_loop n acc = dec_loop n [] @ acc"
proof (induction n arbitrary: acc rule: less_induct)
  case (less n)
  show ?case
  proof (cases "n = 0")
    case True then show ?thesis by (simp add: dec_loop.simps)
  next
    case False
    then have "n div 10 < n" by simp
    note IH = less.IH [OF this]
    show ?thesis
      using False IH [of "digit (n mod 10) # acc"] IH [of "[digit (n mod 10)]"]
      by (simp add: dec_loop.simps [of n])
  qed
qed

lemma decimal_dec_loop: "0 < n \<Longrightarrow> dec_loop n [] = decimal n"
proof (induction n rule: less_induct)
  case (less n)
  show ?case
  proof (cases "n < 10")
    case True
    with less.prems show ?thesis
      by (simp add: dec_loop.simps [of n] dec_loop.simps [of 0] decimal.simps [of n])
  next
    case False
    with less.IH [of "n div 10"] have "dec_loop (n div 10) [] = decimal (n div 10)" by simp
    with False less.prems show ?thesis
      by (simp add: dec_loop.simps [of n] decimal.simps [of n]
            dec_loop_append [of "n div 10" "[digit (n mod 10)]"])
  qed
qed

lemma undec_decimal: "undec 0 (decimal n) = n"
proof (induction n rule: decimal.induct)
  case (1 n)
  then show ?case
    by (subst decimal.simps) (auto simp: undec_append of_char_digit)
qed

lemma decimal_inject [simp]: "decimal m = decimal n \<longleftrightarrow> m = n"
  by (metis undec_decimal)

lemma decimal_digits: "c \<in> set (decimal n) \<Longrightarrow> is_digit c"
proof (induction n rule: decimal.induct)
  case (1 n)
  then show ?case
    by (subst (asm) (2) decimal.simps) (auto simp: is_digit_digit split: if_splits)
qed

lemma decimal_length: "n < 10 ^ Suc k \<Longrightarrow> length (decimal n) \<le> Suc k"
proof (induction k arbitrary: n)
  case 0
  then show ?case by (subst decimal.simps) simp
next
  case (Suc k)
  show ?case
  proof (cases "n < 10")
    case True then show ?thesis by (subst decimal.simps) simp
  next
    case False
    from Suc.prems have "n div 10 < 10 ^ Suc k" by (simp add: div_less_iff_less_mult mult.commute)
    then have "length (decimal (n div 10)) \<le> Suc k" by (rule Suc.IH)
    with False show ?thesis by (subst decimal.simps) simp
  qed
qed

lemma decimal_nonempty [simp]: "decimal n \<noteq> []"
  by (subst decimal.simps) simp

section \<open>Maps and lists\<close>

lemma append_sep_inject:
  assumes "xs @ c # ds = ys @ c # es" and "c \<notin> set ds" and "c \<notin> set es"
  shows "xs = ys \<and> ds = es"
proof -
  have "rev ds @ c # rev xs = rev es @ c # rev ys"
    using arg_cong [OF assms(1), of rev] by simp
  moreover have "takeWhile (\<lambda>x. x \<noteq> c) (rev ds @ c # rev xs) = rev ds"
    and "takeWhile (\<lambda>x. x \<noteq> c) (rev es @ c # rev ys) = rev es"
    using assms(2,3) by (auto simp: takeWhile_append takeWhile_eq_all_conv)
  ultimately have "rev ds = rev es" by metis
  with assms(1) show ?thesis by simp
qed

lemma sorted_wrt_last:
  assumes "sorted_wrt R xs" and "x \<in> set xs" and "R (last xs) (last xs)"
  shows "R x (last xs)"
proof -
  have xs: "xs = butlast xs @ [last xs]" using assms(2) by (metis append_butlast_last_id empty_iff empty_set)
  with assms(1) have "\<forall>y \<in> set (butlast xs). R y (last xs)" by (metis list.set_intros(1) sorted_wrt_append)
  moreover have "x \<in> set (butlast xs) \<or> x = last xs" using assms(2) xs by (metis Un_iff empty_iff empty_set set_ConsD set_append)
  ultimately show ?thesis using assms(3) by blast
qed

section \<open>Association lists\<close>

text \<open>Go maps whose size or contents the code inspects are association lists.\<close>

lemma length_update_new: "map_of xs k = None \<Longrightarrow> length (AList.update k v xs) = Suc (length xs)"
  by (induction xs) (auto split: if_splits)

lemma length_update_old: "map_of xs k \<noteq> None \<Longrightarrow> length (AList.update k v xs) = length xs"
  by (induction xs) (auto split: if_splits)

lemma set_alist_update: "set (AList.update k v al) \<subseteq> insert (k, v) (set al)"
  by (induction al) auto

lemma map_of_filter_kept:
  "map_of al k = Some v \<Longrightarrow> Q (k, v) \<Longrightarrow> distinct (map fst al) \<Longrightarrow> map_of (filter Q al) k = Some v"
  by (rule map_of_is_SomeI) (auto simp: distinct_map_filter dest: map_of_SomeD)

end
