(* ===== verification/Lifecycle.thy ===== *)
theory Lifecycle
  imports Prelude
begin

text \<open>
  The enumerations of \<open>state.go\<close>, the \<open>Generation\<close> record of \<open>generation.go\<close> and the
  transition table of \<open>internal/stategraph\<close>. The Go enumerations are string types: each
  becomes a datatype with the source's constants and one more constructor for a string that is
  none of them (the empty string is the zero value).
\<close>

section \<open>Enumerations\<close>

datatype GenerationState =
    StateJoining | StateStandby | StatePreparing | StateActive | StateDraining
  | StateTransferring | StateRetired | StateFailed | StateOther string

primrec GenerationState_string :: "GenerationState \<Rightarrow> string" where
  "GenerationState_string StateJoining = ''joining''"
| "GenerationState_string StateStandby = ''standby''"
| "GenerationState_string StatePreparing = ''preparing''"
| "GenerationState_string StateActive = ''active''"
| "GenerationState_string StateDraining = ''draining''"
| "GenerationState_string StateTransferring = ''transferring''"
| "GenerationState_string StateRetired = ''retired''"
| "GenerationState_string StateFailed = ''failed''"
| "GenerationState_string (StateOther s) = s"

definition GenerationState_Valid :: "GenerationState \<Rightarrow> bool" where
  "GenerationState_Valid s = (case s of StateOther _ \<Rightarrow> False | _ \<Rightarrow> True)"

definition GenerationState_Terminal :: "GenerationState \<Rightarrow> bool" where
  "GenerationState_Terminal s \<longleftrightarrow> s = StateRetired \<or> s = StateFailed"

datatype ClaimPhase =
    ClaimUnowned | ClaimOwned | ClaimReserved | ClaimDraining | ClaimPhaseOther string

primrec ClaimPhase_string :: "ClaimPhase \<Rightarrow> string" where
  "ClaimPhase_string ClaimUnowned = ''unowned''"
| "ClaimPhase_string ClaimOwned = ''owned''"
| "ClaimPhase_string ClaimReserved = ''reserved''"
| "ClaimPhase_string ClaimDraining = ''draining''"
| "ClaimPhase_string (ClaimPhaseOther s) = s"

datatype TransitionReason =
    ReasonRegistered | ReasonReadinessPassed | ReasonReadinessFailed | ReasonAcquired
  | ReasonRenewed | ReasonDrainStarted | ReasonDrainComplete | ReasonTransferPrepared
  | ReasonTransferCommitted | ReasonTransferAborted | ReasonReleased | ReasonExpired
  | ReasonFencedOut | ReasonRetired | ReasonFailed | ReasonClosed | ReasonRollback
  | ReasonTimeout | ReasonPartition | ReasonOther string

abbreviation ReasonNone :: TransitionReason where "ReasonNone \<equiv> ReasonOther ''''"

record Generation =
  gen_ID :: string
  gen_Service :: string
  gen_InstanceID :: string
  gen_State :: GenerationState
  gen_StartedAt :: time
  gen_UpdatedAt :: time
  gen_Reason :: TransitionReason

section \<open>The generation state graph\<close>

text \<open>
  \<open>stategraph.State\<close> mirrors \<open>GenerationState\<close>, and \<open>setState\<close> converts between the two
  string types, so one datatype serves for both. A key missing from the Go map reads as the
  nil slice.
\<close>

fun allowed :: "GenerationState \<Rightarrow> GenerationState list" where
  "allowed StateJoining = [StateStandby, StatePreparing, StateFailed, StateRetired]"
| "allowed StateStandby = [StatePreparing, StateActive, StateFailed, StateRetired]"
| "allowed StatePreparing = [StateStandby, StateActive, StateFailed, StateRetired]"
| "allowed StateActive = [StateDraining, StateTransferring, StateRetired, StateFailed]"
| "allowed StateDraining = [StateTransferring, StateActive, StateRetired, StateFailed]"
| "allowed StateTransferring = [StateRetired, StateActive, StateFailed, StateStandby]"
| "allowed StateRetired = []"
| "allowed StateFailed = []"
| "allowed (StateOther _) = []"

fun scan_states :: "GenerationState list \<Rightarrow> GenerationState \<Rightarrow> bool" where
  "scan_states [] to = False"
| "scan_states (s # ss) to = (if s = to then True else scan_states ss to)"

definition CanTransition :: "GenerationState \<Rightarrow> GenerationState \<Rightarrow> bool" where
  "CanTransition from to = scan_states (allowed from) to"

definition AllStates :: "GenerationState list" where
  "AllStates = [StateJoining, StateStandby, StatePreparing, StateActive, StateDraining,
                StateTransferring, StateRetired, StateFailed]"

lemma scan_states_iff [simp]: "scan_states ss to \<longleftrightarrow> to \<in> set ss"
  by (induction ss) auto

lemma CanTransition_iff: "CanTransition from to \<longleftrightarrow> to \<in> set (allowed from)"
  by (simp add: CanTransition_def)

lemma AllStates_iff: "s \<in> set AllStates \<longleftrightarrow> GenerationState_Valid s"
  by (cases s) (auto simp: AllStates_def GenerationState_Valid_def)

text \<open>One legal move of a generation; the graph's paths are its closure.\<close>

inductive gen_moves :: "GenerationState \<Rightarrow> GenerationState \<Rightarrow> bool" where
  gm_refl: "gen_moves s s"
| gm_step: "gen_moves s t \<Longrightarrow> CanTransition t u \<Longrightarrow> gen_moves s u"

lemma Terminal_no_transition: "GenerationState_Terminal s \<Longrightarrow> \<not> CanTransition s t"
  by (auto simp: GenerationState_Terminal_def CanTransition_iff)

lemma CanTransition_Valid: "CanTransition s t \<Longrightarrow> GenerationState_Valid s \<and> GenerationState_Valid t"
  by (cases s) (auto simp: CanTransition_iff GenerationState_Valid_def)

lemma CanTransition_irrefl: "\<not> CanTransition s s"
  by (cases s) (auto simp: CanTransition_iff)

lemma gen_moves_Terminal: "gen_moves s t \<Longrightarrow> GenerationState_Terminal s \<Longrightarrow> t = s"
  by (induction rule: gen_moves.induct) (auto simp: Terminal_no_transition)

lemma live_can_stop:
  assumes "GenerationState_Valid s" and "\<not> GenerationState_Terminal s"
  shows "CanTransition s StateRetired \<and> CanTransition s StateFailed"
  using assms
  by (cases s) (auto simp: CanTransition_iff GenerationState_Valid_def GenerationState_Terminal_def)

text \<open>
  The generation graph is a sound lifecycle: a valid state that is not terminal can always
  be retired or failed in one step, a terminal state is left by no path, and the only way into
  the draining state is from the active state.
\<close>

theorem stategraph_lifecycle:
  "(GenerationState_Valid s \<and> \<not> GenerationState_Terminal s \<longrightarrow>
      CanTransition s StateRetired \<and> CanTransition s StateFailed)
   \<and> (GenerationState_Terminal s \<longrightarrow> (\<forall>t. gen_moves s t \<longrightarrow> t = s))
   \<and> (CanTransition s StateDraining \<longleftrightarrow> s = StateActive)"
proof (intro conjI impI allI)
  assume "GenerationState_Valid s \<and> \<not> GenerationState_Terminal s"
  then show "CanTransition s StateRetired" and "CanTransition s StateFailed"
    by (auto dest: live_can_stop)
next
  fix t assume "GenerationState_Terminal s" and "gen_moves s t"
  then show "t = s" by (blast dest: gen_moves_Terminal)
next
  show "CanTransition s StateDraining \<longleftrightarrow> s = StateActive"
    by (cases s) (auto simp: CanTransition_iff)
qed

theorem stategraph_lifecycle_witness:
  "CanTransition StateStandby StateRetired \<and> CanTransition StateActive StateDraining
   \<and> \<not> gen_moves StateRetired StateActive"
  using stategraph_lifecycle [of StateStandby] stategraph_lifecycle [of StateRetired]
    stategraph_lifecycle [of StateActive]
  by (auto simp: GenerationState_Valid_def GenerationState_Terminal_def)

end
