(* ===== verification/Go_Strings.thy ===== *)
theory Go_Strings
  imports Prelude
begin

text \<open>
  What the program uses of Go's strings. A Go string is a sequence of bytes, here a list of
  characters (codes 0 to 255). Ranging over a string decodes UTF-8: \<open>chunks\<close> gives the runes with
  the bytes they were read from, an invalid byte being the rune \<open>0xFFFD\<close> of width one. On top of it
  the functions of package \<open>strings\<close> and \<open>unicode\<close> the components call.
\<close>

section \<open>UTF-8\<close>

definition byte :: "char \<Rightarrow> nat" where
  "byte c = of_char c"

definition cont :: "char \<Rightarrow> bool" where
  "cont c \<longleftrightarrow> 128 \<le> byte c \<and> byte c \<le> 191"

definition in_range :: "nat \<Rightarrow> nat \<Rightarrow> char \<Rightarrow> bool" where
  "in_range lo hi c \<longleftrightarrow> lo \<le> byte c \<and> byte c \<le> hi"

definition RuneError :: nat where
  "RuneError = 65533"

text \<open>The bounds of the second byte, by the first byte of a three- or four-byte sequence.\<close>

definition second3 :: "nat \<Rightarrow> char \<Rightarrow> bool" where
  "second3 b c = (if b = 224 then in_range 160 191 c else if b = 237 then in_range 128 159 c else cont c)"

definition second4 :: "nat \<Rightarrow> char \<Rightarrow> bool" where
  "second4 b c = (if b = 240 then in_range 144 191 c else if b = 244 then in_range 128 143 c else cont c)"

fun decode_rune :: "char \<Rightarrow> string \<Rightarrow> nat \<times> nat" where
  "decode_rune a rest =
     (let b = byte a
      in if b < 128 then (b, 1)
         else if 194 \<le> b \<and> b \<le> 223 then
           (case rest of
              x # _ \<Rightarrow> if cont x then ((b - 192) * 64 + (byte x - 128), 2) else (RuneError, 1)
            | _ \<Rightarrow> (RuneError, 1))
         else if 224 \<le> b \<and> b \<le> 239 then
           (case rest of
              x # y # _ \<Rightarrow>
                if second3 b x \<and> cont y
                then ((b - 224) * 4096 + (byte x - 128) * 64 + (byte y - 128), 3) else (RuneError, 1)
            | _ \<Rightarrow> (RuneError, 1))
         else if 240 \<le> b \<and> b \<le> 244 then
           (case rest of
              x # y # z # _ \<Rightarrow>
                if second4 b x \<and> cont y \<and> cont z
                then ((b - 240) * 262144 + (byte x - 128) * 4096 + (byte y - 128) * 64 + (byte z - 128), 4)
                else (RuneError, 1)
            | _ \<Rightarrow> (RuneError, 1))
         else (RuneError, 1))"

declare decode_rune.simps [simp del]

fun chunks :: "string \<Rightarrow> (nat \<times> string) list" where
  "chunks [] = []"
| "chunks (a # rest) =
     (case decode_rune a rest of
        (r, w) \<Rightarrow> (r, a # take (w - 1) rest) # chunks (drop (w - 1) rest))"

definition runes :: "string \<Rightarrow> nat list" where
  "runes s = map fst (chunks s)"

text \<open>Gluing the bytes of the chunks together gives the string back.\<close>

lemma concat_chunks [simp]: "concat (map snd (chunks s)) = s"
  by (induction s rule: chunks.induct) (auto split: prod.splits)

lemma decode_rune_width: "decode_rune a rest = (r, w) \<Longrightarrow> 1 \<le> w \<and> w \<le> Suc (length rest)"
  by (auto simp: decode_rune.simps Let_def split: if_splits list.splits)

definition ascii :: "char \<Rightarrow> bool" where
  "ascii c \<longleftrightarrow> byte c < 128"

lemma ascii_not_cont:
  assumes "ascii c"
  shows "\<not> cont c" "\<not> second3 b c" "\<not> second4 b c"
  using assms by (auto simp: ascii_def cont_def second3_def second4_def in_range_def)

text \<open>An ASCII byte ends whatever sequence was being decoded, so decoding splits there.\<close>

lemma decode_rune_append:
  assumes "ascii c"
  shows "decode_rune a (rest @ c # s) = decode_rune a rest"
  using ascii_not_cont [OF assms]
  by (auto simp: decode_rune.simps Let_def split: list.splits)

lemma chunks_append: "ascii c \<Longrightarrow> chunks (a @ c # b) = chunks a @ chunks (c # b)"
proof (induction a rule: chunks.induct)
  case (2 a rest)
  obtain r w where d: "decode_rune a rest = (r, w)" by force
  have w: "w - 1 \<le> length rest" using decode_rune_width [OF d] by linarith
  from 2 d w decode_rune_append [OF \<open>ascii c\<close>, of a rest b] show ?case by simp
qed simp

lemma chunks_ascii: "ascii c \<Longrightarrow> chunks (c # s) = (byte c, [c]) # chunks s"
  by (simp add: decode_rune.simps ascii_def)

lemma chunks_join: "ascii c \<Longrightarrow> chunks (a @ c # b) = chunks a @ (byte c, [c]) # chunks b"
  using chunks_append [of c a b] chunks_ascii [of c b] by simp

lemma chunks_eq_Nil [simp]: "chunks s = [] \<longleftrightarrow> s = []"
  by (cases s) (auto split: prod.splits)

lemma runes_ascii: "list_all ascii s \<Longrightarrow> runes s = map byte s"
proof (induction s)
  case (Cons c s)
  then show ?case using chunks_ascii [of c s] by (simp add: runes_def)
qed (simp add: runes_def)

section \<open>White space\<close>

definition IsSpace :: "nat \<Rightarrow> bool" where
  "IsSpace r \<longleftrightarrow> (9 \<le> r \<and> r \<le> 13) \<or> r = 32 \<or> r = 133 \<or> r = 160 \<or> r = 5760
     \<or> (8192 \<le> r \<and> r \<le> 8202) \<or> r = 8232 \<or> r = 8233 \<or> r = 8239 \<or> r = 8287 \<or> r = 12288"

definition TrimSpace :: "string \<Rightarrow> string" where
  "TrimSpace s =
     concat (map snd (rev (dropWhile (\<lambda>(r, _). IsSpace r)
       (rev (dropWhile (\<lambda>(r, _). IsSpace r) (chunks s))))))"

lemma dropWhile_none: "(\<And>x. x \<in> set xs \<Longrightarrow> \<not> P x) \<Longrightarrow> dropWhile P xs = xs"
  by (cases xs) auto

lemma TrimSpace_id:
  assumes "\<not> (\<exists>r \<in> set (runes s). IsSpace r)"
  shows "TrimSpace s = s"
proof -
  have "\<not> (case x of (r, _) \<Rightarrow> IsSpace r)" if "x \<in> set (chunks s)" for x
    using assms that by (force simp: runes_def)
  then have "dropWhile (\<lambda>(r, _). IsSpace r) (chunks s) = chunks s"
    "dropWhile (\<lambda>(r, _). IsSpace r) (rev (chunks s)) = rev (chunks s)"
    by (intro dropWhile_none; simp)+
  then show ?thesis by (simp add: TrimSpace_def)
qed

section \<open>Splitting, prefixes and substrings\<close>

fun Split :: "char \<Rightarrow> string \<Rightarrow> string list" where
  "Split c [] = [[]]"
| "Split c (a # s) =
     (if a = c then [] # Split c s
      else (case Split c s of [] \<Rightarrow> [[a]] | p # ps \<Rightarrow> (a # p) # ps))"

lemma Split_nonempty [simp]: "Split c s \<noteq> []"
  by (induction s) (auto split: list.splits)

lemma Split_none: "c \<notin> set s \<Longrightarrow> Split c s = [s]"
  by (induction s) auto

lemma Split_append: "c \<notin> set a \<Longrightarrow> Split c (a @ c # s) = a # Split c s"
  by (induction a) auto

fun join_with :: "char \<Rightarrow> string list \<Rightarrow> string" where
  "join_with c [] = []"
| "join_with c [p] = p"
| "join_with c (p # q # ps) = p @ c # join_with c (q # ps)"

lemma join_Split: "join_with c (Split c s) = s"
proof (induction s)
  case (Cons a s)
  obtain p ps where "Split c s = p # ps" by (cases "Split c s") auto
  with Cons show ?case by (cases ps) auto
qed simp

lemma Split_no_sep: "p \<in> set (Split c s) \<Longrightarrow> c \<notin> set p"
  by (induction s arbitrary: p) (auto split: if_splits list.splits)

fun HasPrefix :: "string \<Rightarrow> string \<Rightarrow> bool" where
  "HasPrefix s [] = True"
| "HasPrefix [] (b # bs) = False"
| "HasPrefix (a # as) (b # bs) = (a = b \<and> HasPrefix as bs)"

lemma HasPrefix_iff: "HasPrefix s p \<longleftrightarrow> (\<exists>t. s = p @ t)"
  by (induction s p rule: HasPrefix.induct) auto

definition HasSuffix :: "string \<Rightarrow> string \<Rightarrow> bool" where
  "HasSuffix s p = HasPrefix (rev s) (rev p)"

lemma HasSuffix_iff: "HasSuffix s p \<longleftrightarrow> (\<exists>t. s = t @ p)"
proof
  assume "HasSuffix s p"
  then obtain t where "rev s = rev p @ t" by (auto simp: HasSuffix_def HasPrefix_iff)
  then have "s = rev t @ p" by (metis rev_append rev_rev_ident)
  then show "\<exists>t. s = t @ p" by blast
next
  assume "\<exists>t. s = t @ p"
  then show "HasSuffix s p" by (auto simp: HasSuffix_def HasPrefix_iff)
qed

definition TrimSuffix :: "string \<Rightarrow> string \<Rightarrow> string" where
  "TrimSuffix s p = (if HasSuffix s p then take (length s - length p) s else s)"

fun Contains :: "string \<Rightarrow> string \<Rightarrow> bool" where
  "Contains [] sub = (sub = [])"
| "Contains (a # s) sub = (HasPrefix (a # s) sub \<or> Contains s sub)"

lemma Contains_iff: "Contains s sub \<longleftrightarrow> (\<exists>u v. s = u @ sub @ v)"
proof (induction s)
  case (Cons a s)
  show ?case
  proof
    assume "Contains (a # s) sub"
    then consider v where "a # s = sub @ v" | u v where "s = u @ sub @ v"
      using Cons by (auto simp: HasPrefix_iff)
    then show "\<exists>u v. a # s = u @ sub @ v" by cases (metis append_Nil, metis append_Cons)
  next
    assume "\<exists>u v. a # s = u @ sub @ v"
    then obtain u v where uv: "a # s = u @ sub @ v" by blast
    show "Contains (a # s) sub"
    proof (cases u)
      case Nil
      with uv have "HasPrefix (a # s) sub" unfolding HasPrefix_iff by auto
      then show ?thesis by simp
    next
      case (Cons b u')
      with uv have "s = u' @ sub @ v" by simp
      with Cons.IH show ?thesis by auto
    qed
  qed
qed auto

section \<open>Quoting\<close>

text \<open>\<open>%q\<close> on a printable ASCII string: quotes around it, quote and backslash escaped.\<close>

fun quote_body :: "string \<Rightarrow> string" where
  "quote_body [] = []"
| "quote_body (c # cs) =
     (if c = CHR 0x22 \<or> c = CHR 0x5C then CHR 0x5C # c # quote_body cs else c # quote_body cs)"

definition go_quote :: "string \<Rightarrow> string" where
  "go_quote s = [CHR 0x22] @ quote_body s @ [CHR 0x22]"

end
