(* ===== verification/Go_Errors.thy ===== *)
theory Go_Errors
  imports Lifecycle Go_Strings
begin

text \<open>
  \<open>errors.go\<close>: the sentinel errors, the typed \<open>Error\<close> value with its cause, matching by
  \<open>errors.Is\<close>, rendering by \<open>Error()\<close>, and the two wrapping helpers every public method uses.
  A nil error is \<open>None\<close>.
\<close>

datatype sentinel =
    ErrClosed | ErrNotOwner | ErrAlreadyOwner | ErrClaimHeld | ErrStaleToken | ErrInvalidState
  | ErrDraining | ErrTransferPending | ErrNoTransfer | ErrTransferFailed | ErrHandoffAborted
  | ErrTimeout | ErrNotReady | ErrPolicy | ErrBackend | ErrGenerationRetired | ErrGenerationFailed
  | ErrClaimNotFound | ErrGenerationNotFound | ErrConcurrentTransfer | ErrLeaseLost | ErrCanceled
  | ErrTokenOverflow | ErrAmbiguous | ErrClaimUnavailable | ErrCapability | ErrSplitBrain
  | ErrUnauthorized | ErrForbidden | ErrReplay | ErrCapabilityToken | ErrSecurityEpochOverflow
  | ErrAuditTamper | ErrLockdown | ErrMaintenance | ErrQuarantined | ErrGuardDenied | ErrExecDenied
  | ErrRateLimited | ErrRuntimeClosed

primrec sentinel_text :: "sentinel \<Rightarrow> string" where
  "sentinel_text ErrClosed = ''shiftlock: coordinator closed''"
| "sentinel_text ErrNotOwner = ''shiftlock: not claim owner''"
| "sentinel_text ErrAlreadyOwner = ''shiftlock: already claim owner''"
| "sentinel_text ErrClaimHeld = ''shiftlock: claim held by another generation''"
| "sentinel_text ErrStaleToken = ''shiftlock: stale fencing token''"
| "sentinel_text ErrInvalidState = ''shiftlock: invalid state transition''"
| "sentinel_text ErrDraining = ''shiftlock: draining in progress''"
| "sentinel_text ErrTransferPending = ''shiftlock: transfer already pending''"
| "sentinel_text ErrNoTransfer = ''shiftlock: no pending transfer''"
| "sentinel_text ErrTransferFailed = ''shiftlock: transfer failed''"
| "sentinel_text ErrHandoffAborted = ''shiftlock: handoff aborted''"
| "sentinel_text ErrTimeout = ''shiftlock: operation timed out''"
| "sentinel_text ErrNotReady = ''shiftlock: readiness gates not satisfied''"
| "sentinel_text ErrPolicy = ''shiftlock: policy validation failed''"
| "sentinel_text ErrBackend = ''shiftlock: backend error''"
| "sentinel_text ErrGenerationRetired = ''shiftlock: generation retired''"
| "sentinel_text ErrGenerationFailed = ''shiftlock: generation failed''"
| "sentinel_text ErrClaimNotFound = ''shiftlock: claim not found''"
| "sentinel_text ErrGenerationNotFound = ''shiftlock: generation not found''"
| "sentinel_text ErrConcurrentTransfer = ''shiftlock: concurrent transfer conflict''"
| "sentinel_text ErrLeaseLost = ''shiftlock: lease lost''"
| "sentinel_text ErrCanceled = ''shiftlock: canceled''"
| "sentinel_text ErrTokenOverflow = ''shiftlock: fencing token overflow''"
| "sentinel_text ErrAmbiguous = ''shiftlock: ambiguous backend outcome''"
| "sentinel_text ErrClaimUnavailable = ''shiftlock: claim unavailable''"
| "sentinel_text ErrCapability = ''shiftlock: backend capability mismatch''"
| "sentinel_text ErrSplitBrain = ''shiftlock: split-brain detected''"
| "sentinel_text ErrUnauthorized = ''shiftlock: unauthorized''"
| "sentinel_text ErrForbidden = ''shiftlock: forbidden''"
| "sentinel_text ErrReplay = ''shiftlock: replay detected''"
| "sentinel_text ErrCapabilityToken = ''shiftlock: capability token invalid''"
| "sentinel_text ErrSecurityEpochOverflow = ''shiftlock: security epoch overflow''"
| "sentinel_text ErrAuditTamper = ''shiftlock: audit chain tamper detected''"
| "sentinel_text ErrLockdown = ''shiftlock: lockdown active''"
| "sentinel_text ErrMaintenance = ''shiftlock: maintenance active''"
| "sentinel_text ErrQuarantined = ''shiftlock: generation quarantined''"
| "sentinel_text ErrGuardDenied = ''shiftlock: guard denied''"
| "sentinel_text ErrExecDenied = ''shiftlock: exec denied''"
| "sentinel_text ErrRateLimited = ''shiftlock: rate limited''"
| "sentinel_text ErrRuntimeClosed = ''shiftlock: runtime closed''"

record error_fields =
  er_Op :: string
  er_Claim :: string
  er_Gen :: string
  er_Token :: u64
  er_Reason :: TransitionReason
  er_Message :: string
  er_Code :: string
  er_Category :: string

text \<open>
  An error value: a sentinel, a typed \<open>*Error\<close> with its optional cause, the rendering of
  \<open>fmt.Errorf("...%w", e)\<close> with the error it wraps, an error with a text only, or one of the
  two errors of a finished context.
\<close>

datatype go_error =
    Sentinel sentinel
  | EError error_fields "go_error option"
  | EWrap string go_error
  | EText string
  | ContextCanceled
  | DeadlineExceeded

definition no_fields :: error_fields where
  "no_fields = \<lparr>er_Op = '''', er_Claim = '''', er_Gen = '''', er_Token = 0, er_Reason = ReasonNone,
                er_Message = '''', er_Code = '''', er_Category = ''''\<rparr>"

definition op_error :: "string \<Rightarrow> sentinel \<Rightarrow> string \<Rightarrow> go_error" where
  "op_error op s msg = EError (no_fields\<lparr>er_Op := op, er_Message := msg\<rparr>) (Some (Sentinel s))"

section \<open>errors.Is and rendering\<close>

fun errors_Is :: "go_error \<Rightarrow> sentinel \<Rightarrow> bool" where
  "errors_Is (Sentinel s) t = (s = t)"
| "errors_Is (EError f None) t = False"
| "errors_Is (EError f (Some e)) t = errors_Is e t"
| "errors_Is (EWrap m e) t = errors_Is e t"
| "errors_Is (EText m) t = False"
| "errors_Is ContextCanceled t = False"
| "errors_Is DeadlineExceeded t = False"

definition render_error :: "error_fields \<Rightarrow> string \<Rightarrow> string" where
  "render_error f cause =
     (let msg = er_Message f;
          msg = (if msg = '''' then cause else msg);
          msg = (if msg = '''' then ''error'' else msg)
      in if er_Op f \<noteq> '''' \<and> er_Claim f \<noteq> '''' then
           ''shiftlock: '' @ er_Op f @ '' claim='' @ go_quote (er_Claim f) @ '': '' @ msg
         else if er_Op f \<noteq> '''' then ''shiftlock: '' @ er_Op f @ '': '' @ msg
         else ''shiftlock: '' @ msg)"

fun Error_string :: "go_error \<Rightarrow> string" where
  "Error_string (Sentinel s) = sentinel_text s"
| "Error_string (EError f None) = render_error f ''''"
| "Error_string (EError f (Some e)) = render_error f (Error_string e)"
| "Error_string (EWrap m e) = m"
| "Error_string (EText m) = m"
| "Error_string ContextCanceled = ''context canceled''"
| "Error_string DeadlineExceeded = ''context deadline exceeded''"

section \<open>wrap and wrapClaim\<close>

text \<open>
  \<open>errors.As(err, &se)\<close> finds the first \<open>*Error\<close> in the chain; the helpers fill in its empty
  fields and return it in place of the error they were given.
\<close>

fun errors_As :: "go_error \<Rightarrow> (error_fields \<times> go_error option) option" where
  "errors_As (EError f c) = Some (f, c)"
| "errors_As (EWrap m e) = errors_As e"
| "errors_As (Sentinel s) = None"
| "errors_As (EText m) = None"
| "errors_As ContextCanceled = None"
| "errors_As DeadlineExceeded = None"

definition wrap :: "string \<Rightarrow> go_error \<Rightarrow> go_error" where
  "wrap op e =
     (case errors_As e of
        Some (f, c) \<Rightarrow> EError (if er_Op f = '''' then f\<lparr>er_Op := op\<rparr> else f) c
      | None \<Rightarrow> EError (no_fields\<lparr>er_Op := op, er_Message := Error_string e\<rparr>) (Some e))"

definition wrapClaim :: "string \<Rightarrow> string \<Rightarrow> go_error \<Rightarrow> go_error" where
  "wrapClaim op claim e =
     (case errors_As e of
        Some (f, c) \<Rightarrow>
          (let f = (if er_Op f = '''' then f\<lparr>er_Op := op\<rparr> else f);
               f = (if er_Claim f = '''' then f\<lparr>er_Claim := claim\<rparr> else f)
           in EError f c)
      | None \<Rightarrow> EError (no_fields\<lparr>er_Op := op, er_Claim := claim, er_Message := Error_string e\<rparr>)
                       (Some e))"

lemma errors_Is_EError: "errors_Is (EError f c) t \<longleftrightarrow> (\<exists>e. c = Some e \<and> errors_Is e t)"
  by (cases c) auto

lemma errors_As_Is: "errors_As e = Some (f, c) \<Longrightarrow> errors_Is e t \<longleftrightarrow> errors_Is (EError f c) t"
  by (induction e rule: errors_As.induct) auto

lemma errors_Is_op_error [simp]: "errors_Is (op_error op s msg) t \<longleftrightarrow> s = t"
  by (simp add: op_error_def)

lemma errors_Is_wrap [simp]: "errors_Is (wrap op e) t \<longleftrightarrow> errors_Is e t"
  by (auto simp: wrap_def errors_Is_EError errors_As_Is split: option.splits)

lemma errors_Is_wrapClaim [simp]: "errors_Is (wrapClaim op cl e) t \<longleftrightarrow> errors_Is e t"
  by (auto simp: wrapClaim_def errors_Is_EError errors_As_Is Let_def split: option.splits)

end
