(* ===== verification/Ownership.thy ===== *)
theory Ownership
  imports Go_Errors
begin

text \<open>
  The data of ownership: fencing tokens, the durable \<open>ClaimRecord\<close> of \<open>backend.go\<close>, the
  public \<open>Ownership\<close> snapshot of \<open>ownership.go\<close>, backend capabilities (\<open>capabilities.go\<close>),
  the safety policy (\<open>policy.go\<close>) and the coordinator configuration with its defaults
  (\<open>config.go\<close>).
\<close>

type_synonym FencingToken = u64

definition FencingToken_Zero :: "FencingToken \<Rightarrow> bool" where
  "FencingToken_Zero t \<longleftrightarrow> t = 0"

definition FencingToken_Less :: "FencingToken \<Rightarrow> FencingToken \<Rightarrow> bool" where
  "FencingToken_Less t other \<longleftrightarrow> t < other"

definition MaxSafeFencingToken :: FencingToken where
  "MaxSafeFencingToken = not 0 - 1"

lemma unat_MaxSafe: "unat MaxSafeFencingToken = 2 ^ 64 - 2"
  by (simp add: MaxSafeFencingToken_def)

lemma MaxSafe_pos [simp]: "0 < MaxSafeFencingToken"
  by (simp add: MaxSafeFencingToken_def word_less_nat_alt)

lemma MaxSafe_nonzero [simp]: "MaxSafeFencingToken \<noteq> 0"
  using MaxSafe_pos by (metis less_irrefl)

section \<open>Claim records and ownership snapshots\<close>

record ClaimRecord =
  cr_Name :: string
  cr_OwnerGeneration :: string
  cr_FencingToken :: FencingToken
  cr_Phase :: ClaimPhase
  cr_AcquiredAt :: time
  cr_ExpiresAt :: time
  cr_PreviousOwner :: string
  cr_PendingSuccessor :: string
  cr_DrainStatus :: string
  cr_TransferStatus :: string
  cr_LastHeartbeat :: time
  cr_Reason :: TransitionReason
  cr_Version :: u64

definition new_record :: "string \<Rightarrow> ClaimRecord" where
  "new_record name =
     \<lparr>cr_Name = name, cr_OwnerGeneration = '''', cr_FencingToken = 0, cr_Phase = ClaimUnowned,
      cr_AcquiredAt = 0, cr_ExpiresAt = 0, cr_PreviousOwner = '''', cr_PendingSuccessor = '''',
      cr_DrainStatus = '''', cr_TransferStatus = '''', cr_LastHeartbeat = 0,
      cr_Reason = ReasonNone, cr_Version = 0\<rparr>"

record Ownership =
  ow_ClaimName :: string
  ow_OwnerGeneration :: string
  ow_FencingToken :: FencingToken
  ow_Phase :: ClaimPhase
  ow_AcquiredAt :: time
  ow_ExpiresAt :: time
  ow_PreviousOwner :: string
  ow_PendingSuccessor :: string
  ow_DrainStatus :: string
  ow_TransferStatus :: string
  ow_LastHeartbeat :: time
  ow_Reason :: TransitionReason

text \<open>The method has a pointer receiver: a nil record converts to the zero snapshot.\<close>

definition ToOwnership :: "ClaimRecord option \<Rightarrow> Ownership" where
  "ToOwnership r =
     (case r of
        None \<Rightarrow>
          \<lparr>ow_ClaimName = '''', ow_OwnerGeneration = '''', ow_FencingToken = 0,
           ow_Phase = ClaimPhaseOther '''', ow_AcquiredAt = 0, ow_ExpiresAt = 0,
           ow_PreviousOwner = '''', ow_PendingSuccessor = '''', ow_DrainStatus = '''',
           ow_TransferStatus = '''', ow_LastHeartbeat = 0, ow_Reason = ReasonNone\<rparr>
      | Some r \<Rightarrow>
          \<lparr>ow_ClaimName = cr_Name r, ow_OwnerGeneration = cr_OwnerGeneration r,
           ow_FencingToken = cr_FencingToken r, ow_Phase = cr_Phase r,
           ow_AcquiredAt = cr_AcquiredAt r, ow_ExpiresAt = cr_ExpiresAt r,
           ow_PreviousOwner = cr_PreviousOwner r, ow_PendingSuccessor = cr_PendingSuccessor r,
           ow_DrainStatus = cr_DrainStatus r, ow_TransferStatus = cr_TransferStatus r,
           ow_LastHeartbeat = cr_LastHeartbeat r, ow_Reason = cr_Reason r\<rparr>)"

definition OwnedBy :: "Ownership \<Rightarrow> string \<Rightarrow> bool" where
  "OwnedBy o' genID \<longleftrightarrow>
     ow_Phase o' = ClaimOwned \<and> ow_OwnerGeneration o' = genID \<and> \<not> FencingToken_Zero (ow_FencingToken o')"

definition Controls :: "Ownership \<Rightarrow> string \<Rightarrow> bool" where
  "Controls o' genID =
     (if ow_OwnerGeneration o' \<noteq> genID \<or> FencingToken_Zero (ow_FencingToken o') then False
      else ow_Phase o' = ClaimOwned \<or> ow_Phase o' = ClaimReserved \<or> ow_Phase o' = ClaimDraining)"

text \<open>The three phases in which a claim is held; the backends test them in this combination.\<close>

definition held_phase :: "ClaimPhase \<Rightarrow> bool" where
  "held_phase p \<longleftrightarrow> p = ClaimOwned \<or> p = ClaimReserved \<or> p = ClaimDraining"

lemma held_phase_simps [simp]:
  "held_phase ClaimOwned" "held_phase ClaimReserved" "held_phase ClaimDraining"
  "\<not> held_phase ClaimUnowned" "\<not> held_phase (ClaimPhaseOther s)"
  by (simp_all add: held_phase_def)

lemma OwnedBy_Controls: "OwnedBy o' g \<Longrightarrow> Controls o' g"
  by (simp add: OwnedBy_def Controls_def)

lemma Controls_iff:
  "Controls o' g \<longleftrightarrow> ow_OwnerGeneration o' = g \<and> ow_FencingToken o' \<noteq> 0 \<and> held_phase (ow_Phase o')"
  by (auto simp: Controls_def FencingToken_Zero_def held_phase_def)

section \<open>Capabilities\<close>

record Capabilities =
  cap_AtomicCAS :: bool
  cap_IdempotentMutations :: bool
  cap_WatchSupported :: bool
  cap_DurableStorage :: bool
  cap_ExpireBeforeMutate :: bool
  cap_RenewDuringReserved :: bool
  cap_GlobalExclusive :: bool
  cap_MaxFencingToken :: FencingToken

definition DefaultMemoryCapabilities :: Capabilities where
  "DefaultMemoryCapabilities =
     \<lparr>cap_AtomicCAS = True, cap_IdempotentMutations = True, cap_WatchSupported = True,
      cap_DurableStorage = False, cap_ExpireBeforeMutate = True, cap_RenewDuringReserved = True,
      cap_GlobalExclusive = True, cap_MaxFencingToken = not 0 - 1\<rparr>"

text \<open>A backend that does not implement \<open>Capabler\<close> is assumed to offer compare-and-swap only.\<close>

definition resolveCapabilities :: "Capabilities option \<Rightarrow> Capabilities" where
  "resolveCapabilities c =
     (case c of
        Some caps \<Rightarrow> caps
      | None \<Rightarrow> \<lparr>cap_AtomicCAS = True, cap_IdempotentMutations = False, cap_WatchSupported = False,
                cap_DurableStorage = False, cap_ExpireBeforeMutate = False,
                cap_RenewDuringReserved = False, cap_GlobalExclusive = True,
                cap_MaxFencingToken = 0\<rparr>)"

definition reservationTTL :: "duration \<Rightarrow> duration \<Rightarrow> duration" where
  "reservationTTL leaseTTL transferTimeout =
     (if transferTimeout > leaseTTL then transferTimeout + go_div leaseTTL 3 else leaseTTL)"

lemma reservationTTL_ge:
  assumes "0 < leaseTTL"
  shows "leaseTTL \<le> reservationTTL leaseTTL tt" and "tt \<le> reservationTTL leaseTTL tt"
  using assms by (auto simp: reservationTTL_def go_div_pos)

section \<open>Policy and configuration\<close>

record Policy =
  pol_MinLeaseTTL :: duration
  pol_MaxLeaseTTL :: duration
  pol_RequireRenewBelowTTL :: bool
  pol_MaxConcurrentClaims :: int
  pol_AllowForceRelease :: bool
  pol_RejectStaleRelease :: bool
  pol_RequireDurable :: bool
  pol_RequireIdempotent :: bool
  pol_RequireGlobalExclusive :: bool
  pol_FailClosedOnAmbiguous :: bool
  pol_AllowLocalDegradation :: bool

definition Policy_withDefaults :: "Policy \<Rightarrow> Policy" where
  "Policy_withDefaults p =
     (let p = (if pol_MinLeaseTTL p \<le> 0 then p\<lparr>pol_MinLeaseTTL := 100 * Millisecond\<rparr> else p);
          p = (if pol_MaxLeaseTTL p \<le> 0 then p\<lparr>pol_MaxLeaseTTL := 24 * Hour\<rparr> else p);
          p = (if \<not> pol_RequireRenewBelowTTL p then p\<lparr>pol_RequireRenewBelowTTL := True\<rparr> else p);
          p = p\<lparr>pol_RejectStaleRelease := True\<rparr>;
          p = p\<lparr>pol_FailClosedOnAmbiguous := True\<rparr>
      in if \<not> pol_AllowLocalDegradation p \<and> \<not> pol_RequireDurable p
         then p\<lparr>pol_AllowLocalDegradation := True\<rparr> else p)"

text \<open>
  \<open>Config\<close>: the interface-typed fields are type parameters, \<open>None\<close> being the nil interface.
\<close>

record ('b, 'c, 'h, 'o) Config =
  cfg_Service :: string
  cfg_InstanceID :: string
  cfg_Backend :: "'b option"
  cfg_GenerationID :: string
  cfg_LeaseTTL :: duration
  cfg_RenewInterval :: duration
  cfg_AcquireInterval :: duration
  cfg_TransferTimeout :: duration
  cfg_DrainTimeout :: duration
  cfg_ReadinessTimeout :: duration
  cfg_WatchBuffer :: int
  cfg_EventBuffer :: int
  cfg_Policy :: Policy
  cfg_Clock :: "'c option"
  cfg_Hooks :: "'h list"
  cfg_Observers :: "'o list"

text \<open>
  \<open>Duration.String\<close> of the standard library, which the policy errors print: the largest unit
  that fits, a fraction without trailing zeros (\<open>fmtFrac\<close>), hours and minutes above a second.
\<close>

fun pad_left :: "nat \<Rightarrow> string \<Rightarrow> string" where
  "pad_left k s = replicate (k - length s) (CHR ''0'') @ s"

definition fmtFrac :: "nat \<Rightarrow> nat \<Rightarrow> string" where
  "fmtFrac u prec =
     (let ds = rev (dropWhile (\<lambda>c. c = CHR ''0'') (rev (pad_left prec (decimal (u mod 10 ^ prec)))))
      in if prec = 0 \<or> ds = [] then '''' else ''.'' @ ds)"

definition Duration_String :: "duration \<Rightarrow> string" where
  "Duration_String d =
     (let u = nat \<bar>d\<bar>;
          body =
            (if u = 0 then ''0s''
             else if u < 1000 then decimal u @ ''ns''
             else if u < 1000000 then
               decimal (u div 10 ^ 3) @ fmtFrac u 3 @ [CHR 0xC2, CHR 0xB5] @ ''s''
             else if u < 1000000000 then decimal (u div 10 ^ 6) @ fmtFrac u 6 @ ''ms''
             else
               (let secs = u div 10 ^ 9;
                    m = secs div 60;
                    sec = decimal (secs mod 60) @ fmtFrac u 9 @ ''s''
                in if m = 0 then sec
                   else if m div 60 = 0 then decimal m @ ''m'' @ sec
                   else decimal (m div 60) @ ''h'' @ decimal (m mod 60) @ ''m'' @ sec))
      in if d < 0 then ''-'' @ body else body)"

definition Policy_Validate :: "Policy \<Rightarrow> ('b, 'c, 'h, 'o) Config \<Rightarrow> go_error option" where
  "Policy_Validate p cfg =
     (if cfg_LeaseTTL cfg < pol_MinLeaseTTL p then
        Some (op_error ''policy'' ErrPolicy (''LeaseTTL '' @ Duration_String (cfg_LeaseTTL cfg) @
          '' below minimum '' @ Duration_String (pol_MinLeaseTTL p)))
      else if cfg_LeaseTTL cfg > pol_MaxLeaseTTL p then
        Some (op_error ''policy'' ErrPolicy (''LeaseTTL '' @ Duration_String (cfg_LeaseTTL cfg) @
          '' above maximum '' @ Duration_String (pol_MaxLeaseTTL p)))
      else if pol_RequireRenewBelowTTL p \<and> cfg_RenewInterval cfg \<ge> cfg_LeaseTTL cfg then
        Some (op_error ''policy'' ErrPolicy (''RenewInterval '' @
          Duration_String (cfg_RenewInterval cfg) @ '' must be < LeaseTTL '' @
          Duration_String (cfg_LeaseTTL cfg)))
      else None)"

definition ValidateCapabilities ::
  "('b, 'c, 'h, 'o) Config \<Rightarrow> Capabilities \<Rightarrow> go_error option" where
  "ValidateCapabilities cfg caps =
     (if pol_RequireDurable (cfg_Policy cfg) \<and> \<not> cap_DurableStorage caps then
        Some (op_error ''capabilities'' ErrPolicy
          ''policy requires durable storage; backend is not durable'')
      else if pol_RequireIdempotent (cfg_Policy cfg) \<and> \<not> cap_IdempotentMutations caps then
        Some (op_error ''capabilities'' ErrPolicy
          ''policy requires idempotent mutations; backend lacks OperationID support'')
      else if pol_RequireGlobalExclusive (cfg_Policy cfg) \<and> \<not> cap_GlobalExclusive caps then
        Some (op_error ''capabilities'' ErrPolicy
          ''policy requires global exclusive ownership; backend cannot guarantee it'')
      else if \<not> cap_AtomicCAS caps then
        Some (op_error ''capabilities'' ErrPolicy ''backend lacks atomic CAS; refusing to start'')
      else None)"

text \<open>The Unix epoch, counted from Go's zero time.\<close>

definition unix_epoch :: time where "unix_epoch = 62135596800 * Second"

definition UnixNano :: "time \<Rightarrow> int" where
  "UnixNano t = (t - unix_epoch + 2 ^ 63) mod 2 ^ 64 - 2 ^ 63"

text \<open>
  \<open>Config.defaults\<close>: \<open>real\<close> is the wall clock used when no clock is configured, and
  \<open>now c\<close> the reading of clock \<open>c\<close> at the call. The assignments of the defaults come first,
  then the checks around them.
\<close>

definition default_duration :: "duration \<Rightarrow> duration \<Rightarrow> duration" where
  "default_duration d x = (if x \<le> 0 then d else x)"

definition Config_fill ::
  "'c \<Rightarrow> ('c \<Rightarrow> time) \<Rightarrow> ('b, 'c, 'h, 'o) Config \<Rightarrow> ('b, 'c, 'h, 'o) Config" where
  "Config_fill real now c =
     (let lease = default_duration (15 * Second) (cfg_LeaseTTL c);
          clk = (case cfg_Clock c of None \<Rightarrow> real | Some k \<Rightarrow> k)
      in c\<lparr>cfg_LeaseTTL := lease,
           cfg_RenewInterval := default_duration (go_div lease 3) (cfg_RenewInterval c),
           cfg_AcquireInterval := default_duration (500 * Millisecond) (cfg_AcquireInterval c),
           cfg_TransferTimeout := default_duration (30 * Second) (cfg_TransferTimeout c),
           cfg_DrainTimeout := default_duration (30 * Second) (cfg_DrainTimeout c),
           cfg_ReadinessTimeout := default_duration (30 * Second) (cfg_ReadinessTimeout c),
           cfg_WatchBuffer := default_duration 16 (cfg_WatchBuffer c),
           cfg_EventBuffer := default_duration 64 (cfg_EventBuffer c),
           cfg_Clock := Some clk,
           cfg_GenerationID :=
             (if cfg_GenerationID c = ''''
              then cfg_Service c @ ''-'' @ cfg_InstanceID c @ ''-'' @
                     int_decimal (UnixNano (now clk))
              else cfg_GenerationID c),
           cfg_Policy := Policy_withDefaults (cfg_Policy c)\<rparr>)"

definition Config_defaults ::
  "'c \<Rightarrow> ('c \<Rightarrow> time) \<Rightarrow> ('b, 'c, 'h, 'o) Config \<Rightarrow> ('b, 'c, 'h, 'o) Config \<times> go_error option" where
  "Config_defaults real now c =
     (if cfg_Service c = '''' then (c, Some (op_error ''config'' ErrPolicy ''Service is required''))
      else if cfg_InstanceID c = '''' then
        (c, Some (op_error ''config'' ErrPolicy ''InstanceID is required''))
      else if cfg_Backend c = None then
        (c, Some (op_error ''config'' ErrPolicy ''Backend is required''))
      else
        (let c = Config_fill real now c
         in case Policy_Validate (cfg_Policy c) c of
              Some e \<Rightarrow> (c, Some e)
            | None \<Rightarrow> (c, None)))"

lemma Policy_withDefaults_min:
  "0 < pol_MinLeaseTTL (Policy_withDefaults p)"
  "pol_RequireRenewBelowTTL (Policy_withDefaults p)"
  "pol_RejectStaleRelease (Policy_withDefaults p)"
  "pol_FailClosedOnAmbiguous (Policy_withDefaults p)"
  "pol_AllowLocalDegradation (Policy_withDefaults p) \<or> pol_RequireDurable (Policy_withDefaults p)"
  by (auto simp: Policy_withDefaults_def Let_def Millisecond_def)

lemma Policy_Validate_None:
  "Policy_Validate p cfg = None \<longleftrightarrow>
     pol_MinLeaseTTL p \<le> cfg_LeaseTTL cfg \<and> cfg_LeaseTTL cfg \<le> pol_MaxLeaseTTL p
     \<and> (pol_RequireRenewBelowTTL p \<longrightarrow> cfg_RenewInterval cfg < cfg_LeaseTTL cfg)"
  by (auto simp: Policy_Validate_def)

lemma Policy_Validate_ErrPolicy:
  "Policy_Validate p cfg = Some e \<Longrightarrow> errors_Is e ErrPolicy"
  by (auto simp: Policy_Validate_def split: if_splits)

text \<open>What \<open>defaults\<close> establishes for every configuration it accepts.\<close>

definition config_ok :: "('b, 'c, 'h, 'o) Config \<Rightarrow> bool" where
  "config_ok c \<longleftrightarrow>
     cfg_Service c \<noteq> '''' \<and> cfg_InstanceID c \<noteq> '''' \<and> cfg_GenerationID c \<noteq> ''''
     \<and> cfg_Backend c \<noteq> None \<and> cfg_Clock c \<noteq> None
     \<and> cfg_RenewInterval c < cfg_LeaseTTL c \<and> (0 < cfg_RenewInterval c \<or> cfg_LeaseTTL c < 3)
     \<and> pol_MinLeaseTTL (cfg_Policy c) \<le> cfg_LeaseTTL c
     \<and> cfg_LeaseTTL c \<le> pol_MaxLeaseTTL (cfg_Policy c)
     \<and> 0 < cfg_AcquireInterval c \<and> 0 < cfg_TransferTimeout c \<and> 0 < cfg_DrainTimeout c
     \<and> 0 < cfg_ReadinessTimeout c \<and> 0 < cfg_WatchBuffer c \<and> 0 < cfg_EventBuffer c
     \<and> pol_RejectStaleRelease (cfg_Policy c) \<and> pol_FailClosedOnAmbiguous (cfg_Policy c)"

lemma go_div_3_bounds: "0 < a \<Longrightarrow> go_div a 3 < a \<and> (0 < go_div a 3 \<or> a < 3)"
  by (auto simp: go_div_less go_div_pos pos_imp_zdiv_pos_iff)

lemma default_duration_pos: "0 < d \<Longrightarrow> 0 < default_duration d x"
  by (simp add: default_duration_def)

lemma renew_default:
  "0 < lease \<Longrightarrow> 0 < default_duration (go_div lease 3) x \<or> lease < 3"
  using go_div_3_bounds [of lease] by (auto simp: default_duration_def)

lemma Config_fill_ok:
  assumes "cfg_Service c \<noteq> ''''" "cfg_InstanceID c \<noteq> ''''" "cfg_Backend c \<noteq> None"
    and "Policy_Validate (cfg_Policy (Config_fill real now c)) (Config_fill real now c) = None"
  shows "config_ok (Config_fill real now c)"
  using assms Policy_withDefaults_min [of "cfg_Policy c"]
    renew_default [OF default_duration_pos, of "15 * Second" "cfg_LeaseTTL c" "cfg_RenewInterval c"]
  by (simp add: config_ok_def Config_fill_def Let_def Policy_Validate_None default_duration_pos
        Second_def Millisecond_def)

lemma Config_defaults_accepts:
  "Config_defaults real now c = (c', None) \<Longrightarrow> config_ok c'"
  by (auto simp: Config_defaults_def Let_def intro!: Config_fill_ok
        split: if_split_asm option.split_asm)

lemma Config_defaults_refuses:
  "Config_defaults real now c = (c', Some e) \<Longrightarrow> errors_Is e ErrPolicy"
  by (auto simp: Config_defaults_def Let_def dest: Policy_Validate_ErrPolicy
        split: if_splits(2) option.splits)

text \<open>
  Defaulting and validation of a coordinator configuration: whenever \<open>defaults\<close> returns no
  error, the result names a service, an instance, a generation, a backend and a clock, renews
  strictly more often than the lease expires, keeps the lease inside the policy's bounds, has
  positive timeouts and buffers and cannot switch off stale-release rejection; and every error it
  returns matches \<open>ErrPolicy\<close>.
\<close>

theorem Config_defaults_correct:
  assumes "Config_defaults real now c = (c', r)"
  shows "case r of None \<Rightarrow> config_ok c' | Some e \<Rightarrow> errors_Is e ErrPolicy"
  using assms by (cases r) (auto dest: Config_defaults_accepts Config_defaults_refuses)

definition sample_config :: "(unit, unit, unit, unit) Config" where
  "sample_config =
     \<lparr>cfg_Service = ''billing'', cfg_InstanceID = ''pod-a'', cfg_Backend = Some (),
      cfg_GenerationID = '''', cfg_LeaseTTL = 0, cfg_RenewInterval = 0, cfg_AcquireInterval = 0,
      cfg_TransferTimeout = 0, cfg_DrainTimeout = 0, cfg_ReadinessTimeout = 0,
      cfg_WatchBuffer = 0, cfg_EventBuffer = 0,
      cfg_Policy = \<lparr>pol_MinLeaseTTL = 0, pol_MaxLeaseTTL = 0, pol_RequireRenewBelowTTL = False,
        pol_MaxConcurrentClaims = 0, pol_AllowForceRelease = False, pol_RejectStaleRelease = False,
        pol_RequireDurable = False, pol_RequireIdempotent = False,
        pol_RequireGlobalExclusive = False, pol_FailClosedOnAmbiguous = False,
        pol_AllowLocalDegradation = False\<rparr>,
      cfg_Clock = None, cfg_Hooks = [], cfg_Observers = []\<rparr>"

lemma sample_config_accepted: "snd (Config_defaults () (\<lambda>_. unix_epoch) sample_config) = None"
  by (simp add: Config_defaults_def Config_fill_def default_duration_def sample_config_def Let_def
      Policy_withDefaults_def
      Policy_Validate_def go_div_def Second_def Millisecond_def Hour_def Minute_def)

theorem Config_defaults_correct_witness:
  "config_ok (fst (Config_defaults () (\<lambda>_. unix_epoch) sample_config))"
  using Config_defaults_correct [of "()" "\<lambda>_. unix_epoch" sample_config
      "fst (Config_defaults () (\<lambda>_. unix_epoch) sample_config)" None] sample_config_accepted
  by (metis option.simps(4) prod.collapse)

end
