(* ===== verification/Backend_Spec.thy ===== *)
theory Backend_Spec
  imports Ownership
begin

text \<open>
  The \<open>Backend\<close> interface of \<open>backend.go\<close> and the contract every ownership store must meet.

  A Go interface value is a table of methods, so the interface is a record of functions over the
  store's own state type. A method takes the store, the environment of the call and the request,
  and returns the store afterwards with the record and the error the Go method returns (both may
  be present: a denied acquire returns the current record together with \<open>ErrClaimHeld\<close>).

  The contract is stated over an abstract view of one claim: who holds it, whether a transfer to
  a successor is reserved, and the fencing token. \<open>fence_step\<close> lists the only ways a claim may
  evolve; the safety of ownership (one holder per token, tokens never decrease) is proved here
  once, from those steps alone, and every backend inherits it by interpreting the locale.
\<close>

section \<open>Requests and the environment of a call\<close>

text \<open>
  What the outside world decides during one call: whether the caller's context is finished when
  the call waits, and what the clock reads at the points where the method reads it (when it
  expires leases, when it stamps the record, when it notifies watchers).
\<close>

record env =
  ctxErr :: "go_error option"
  tExpire :: time
  tNow :: time
  tNotify :: time

record AcquireRequest =
  aq_ClaimName :: string
  aq_GenerationID :: string
  aq_TTL :: duration
  aq_AllowEmptyOnly :: bool
  aq_OperationID :: OperationID

record RenewRequest =
  rn_ClaimName :: string
  rn_GenerationID :: string
  rn_Token :: FencingToken
  rn_TTL :: duration
  rn_OperationID :: OperationID

record TransferRequest =
  tr_ClaimName :: string
  tr_FromGeneration :: string
  tr_ToGeneration :: string
  tr_Token :: FencingToken
  tr_TTL :: duration
  tr_OperationID :: OperationID

record CommitRequest =
  cm_ClaimName :: string
  cm_FromGeneration :: string
  cm_ToGeneration :: string
  cm_ExpectedToken :: FencingToken
  cm_TTL :: duration
  cm_OperationID :: OperationID

record AbortRequest =
  ab_ClaimName :: string
  ab_FromGeneration :: string
  ab_ToGeneration :: string
  ab_ExpectedToken :: FencingToken
  ab_OperationID :: OperationID

record ReleaseRequest =
  rl_ClaimName :: string
  rl_GenerationID :: string
  rl_Token :: FencingToken
  rl_OperationID :: OperationID

type_synonym rec_result = "ClaimRecord option \<times> go_error option"

record 'b Backend =
  RegisterGeneration :: "'b \<Rightarrow> env \<Rightarrow> Generation \<Rightarrow> 'b \<times> go_error option"
  AcquireClaim :: "'b \<Rightarrow> env \<Rightarrow> AcquireRequest \<Rightarrow> 'b \<times> rec_result"
  RenewClaim :: "'b \<Rightarrow> env \<Rightarrow> RenewRequest \<Rightarrow> 'b \<times> rec_result"
  PrepareTransfer :: "'b \<Rightarrow> env \<Rightarrow> TransferRequest \<Rightarrow> 'b \<times> rec_result"
  CommitTransfer :: "'b \<Rightarrow> env \<Rightarrow> CommitRequest \<Rightarrow> 'b \<times> rec_result"
  AbortTransfer :: "'b \<Rightarrow> env \<Rightarrow> AbortRequest \<Rightarrow> 'b \<times> rec_result"
  ReleaseClaim :: "'b \<Rightarrow> env \<Rightarrow> ReleaseRequest \<Rightarrow> 'b \<times> go_error option"
  UpdateGeneration :: "'b \<Rightarrow> env \<Rightarrow> Generation \<Rightarrow> 'b \<times> go_error option"
  GetClaim :: "'b \<Rightarrow> env \<Rightarrow> string \<Rightarrow> 'b \<times> rec_result"
  GetGeneration :: "'b \<Rightarrow> env \<Rightarrow> string \<Rightarrow> 'b \<times> Generation option \<times> go_error option"

text \<open>
  One call by some client. Calls that only concern generations return no claim record.
\<close>

datatype call =
    CRegister Generation
  | CUpdate Generation
  | CAcquire AcquireRequest
  | CRenew RenewRequest
  | CPrepare TransferRequest
  | CCommit CommitRequest
  | CAbort AbortRequest
  | CRelease ReleaseRequest
  | CGet string

primrec call_claim :: "call \<Rightarrow> string option" where
  "call_claim (CRegister g) = None"
| "call_claim (CUpdate g) = None"
| "call_claim (CAcquire r) = Some (aq_ClaimName r)"
| "call_claim (CRenew r) = Some (rn_ClaimName r)"
| "call_claim (CPrepare r) = Some (tr_ClaimName r)"
| "call_claim (CCommit r) = Some (cm_ClaimName r)"
| "call_claim (CAbort r) = Some (ab_ClaimName r)"
| "call_claim (CRelease r) = Some (rl_ClaimName r)"
| "call_claim (CGet n) = Some n"

primrec call_op :: "call \<Rightarrow> OperationID" where
  "call_op (CRegister g) = ''''"
| "call_op (CUpdate g) = ''''"
| "call_op (CAcquire r) = aq_OperationID r"
| "call_op (CRenew r) = rn_OperationID r"
| "call_op (CPrepare r) = tr_OperationID r"
| "call_op (CCommit r) = cm_OperationID r"
| "call_op (CAbort r) = ab_OperationID r"
| "call_op (CRelease r) = rl_OperationID r"
| "call_op (CGet n) = ''''"

primrec invoke :: "'b Backend \<Rightarrow> 'b \<Rightarrow> env \<Rightarrow> call \<Rightarrow> 'b \<times> rec_result" where
  "invoke B b e (CRegister g) = (case RegisterGeneration B b e g of (b', er) \<Rightarrow> (b', None, er))"
| "invoke B b e (CUpdate g) = (case UpdateGeneration B b e g of (b', er) \<Rightarrow> (b', None, er))"
| "invoke B b e (CAcquire r) = AcquireClaim B b e r"
| "invoke B b e (CRenew r) = RenewClaim B b e r"
| "invoke B b e (CPrepare r) = PrepareTransfer B b e r"
| "invoke B b e (CCommit r) = CommitTransfer B b e r"
| "invoke B b e (CAbort r) = AbortTransfer B b e r"
| "invoke B b e (CRelease r) = (case ReleaseClaim B b e r of (b', er) \<Rightarrow> (b', None, er))"
| "invoke B b e (CGet n) = GetClaim B b e n"

text \<open>
  Any interleaving of the calls of any number of clients is a list of calls: every method body
  runs under the store's lock (or in its transaction), so calls do not overlap.
\<close>

fun run_calls :: "'b Backend \<Rightarrow> 'b \<Rightarrow> (env \<times> call) list \<Rightarrow> 'b" where
  "run_calls B b [] = b"
| "run_calls B b ((e, c) # cs) = run_calls B (fst (invoke B b e c)) cs"

lemma run_calls_append: "run_calls B b (xs @ ys) = run_calls B (run_calls B b xs) ys"
  by (induction xs arbitrary: b) (auto split: prod.splits)

section \<open>The abstract claim\<close>

record claim_view =
  v_holder :: string
  v_pending :: "string option"
  v_token :: FencingToken

abbreviation vacant :: "FencingToken \<Rightarrow> claim_view" where
  "vacant t \<equiv> \<lparr>v_holder = '''', v_pending = None, v_token = t\<rparr>"

definition rec_view :: "ClaimRecord \<Rightarrow> claim_view" where
  "rec_view r =
     \<lparr>v_holder = (if held_phase (cr_Phase r) then cr_OwnerGeneration r else ''''),
      v_pending = (if cr_Phase r = ClaimReserved then Some (cr_PendingSuccessor r) else None),
      v_token = cr_FencingToken r\<rparr>"

definition map_view :: "(string \<rightharpoonup> ClaimRecord) \<Rightarrow> string \<Rightarrow> claim_view" where
  "map_view m n = (case m n of None \<Rightarrow> vacant 0 | Some r \<Rightarrow> rec_view r)"

text \<open>The only ways a claim evolves: by vacating, acquiring, reserving, committing, aborting.\<close>

inductive fence_step :: "claim_view \<Rightarrow> claim_view \<Rightarrow> bool" where
  fs_vacate: "fence_step v (vacant (v_token v))"
| fs_acquire: "t < MaxSafeFencingToken \<Longrightarrow>
     fence_step (vacant t) \<lparr>v_holder = g, v_pending = None, v_token = t + 1\<rparr>"
| fs_reserve: "fence_step v (v\<lparr>v_pending := Some s\<rparr>)"
| fs_commit: "v_pending v = Some s \<Longrightarrow> v_token v < MaxSafeFencingToken \<Longrightarrow>
     fence_step v \<lparr>v_holder = s, v_pending = None, v_token = v_token v + 1\<rparr>"
| fs_abort: "fence_step v (v\<lparr>v_pending := None\<rparr>)"

abbreviation fence_steps :: "claim_view \<Rightarrow> claim_view \<Rightarrow> bool" where
  "fence_steps \<equiv> fence_step\<^sup>*\<^sup>*"

lemma fence_step_token_mono: "fence_step v v' \<Longrightarrow> v_token v \<le> v_token v'"
  by (induction rule: fence_step.induct) (auto dest: word_Suc_less)

lemma fence_steps_token_mono: "fence_steps v v' \<Longrightarrow> v_token v \<le> v_token v'"
  by (induction rule: rtranclp_induct) (auto dest: fence_step_token_mono)

lemma fence_step_epoch:
  "fence_step v v' \<Longrightarrow> v_token v' = v_token v \<Longrightarrow> v_holder v' \<noteq> '''' \<Longrightarrow> v_holder v = v_holder v'"
  by (induction rule: fence_step.induct) auto

text \<open>
  Inside one epoch (one token) the holder never changes from one generation to another, and a
  holder that vacated never comes back: a held claim was already held by the same generation at
  every earlier moment with the same token.
\<close>

lemma fence_steps_epoch:
  "fence_steps v v' \<Longrightarrow> v_token v' = v_token v \<Longrightarrow> v_holder v' \<noteq> '''' \<Longrightarrow> v_holder v = v_holder v'"
proof (induction rule: rtranclp_induct)
  case base
  then show ?case by simp
next
  case (step y z)
  from step.hyps have "v_token v \<le> v_token y" and "v_token y \<le> v_token z"
    by (auto dest: fence_steps_token_mono fence_step_token_mono)
  with step.prems(1) have eq: "v_token y = v_token v" "v_token z = v_token y" by auto
  from step.hyps(2) eq(2) step.prems(2) have "v_holder y = v_holder z"
    by (rule fence_step_epoch)
  with eq(1) step.IH step.prems(2) show ?case by simp
qed

lemma fence_steps_refl [simp]: "fence_steps v v"
  by simp

lemma fence_step_one [intro]: "fence_step v v' \<Longrightarrow> fence_steps v v'"
  by (rule r_into_rtranclp)

text \<open>Vacating an expired lease first and then making one more step is the usual shape of a call.\<close>

lemma fence_steps_two: "fence_steps u v \<Longrightarrow> fence_step v w \<Longrightarrow> fence_steps u w"
  by (rule rtranclp.rtrancl_into_rtrancl)

section \<open>Stores that keep one record per claim\<close>

text \<open>
  Both in-process backends keep a map from claim names to records. A record is well formed when
  it carries its own name and an unheld claim has no owner; \<open>evolves n\<close> says that only claim
  \<open>n\<close> was touched, well-formedness is kept and the claim moved along \<open>fence_step\<close>s.
\<close>

definition claims_ok :: "(string \<rightharpoonup> ClaimRecord) \<Rightarrow> bool" where
  "claims_ok m \<longleftrightarrow> (\<forall>n cl. m n = Some cl \<longrightarrow>
     cr_Name cl = n \<and> (\<not> held_phase (cr_Phase cl) \<longrightarrow> cr_OwnerGeneration cl = ''''))"

definition evolves :: "string \<Rightarrow> (string \<rightharpoonup> ClaimRecord) \<Rightarrow> (string \<rightharpoonup> ClaimRecord) \<Rightarrow> bool" where
  "evolves n m m' \<longleftrightarrow> (claims_ok m \<longrightarrow>
     claims_ok m' \<and> (\<forall>k. k \<noteq> n \<longrightarrow> m' k = m k) \<and> fence_steps (map_view m n) (map_view m' n))"

lemma claims_ok_empty [simp]: "claims_ok Map.empty"
  by (simp add: claims_ok_def)

lemma claims_okD:
  "claims_ok m \<Longrightarrow> m n = Some cl \<Longrightarrow> cr_Name cl = n"
  "claims_ok m \<Longrightarrow> m n = Some cl \<Longrightarrow> \<not> held_phase (cr_Phase cl) \<Longrightarrow> cr_OwnerGeneration cl = ''''"
  by (auto simp: claims_ok_def)

lemma claims_ok_upd:
  "claims_ok m \<Longrightarrow> cr_Name cl = n \<Longrightarrow> (\<not> held_phase (cr_Phase cl) \<Longrightarrow> cr_OwnerGeneration cl = '''')
   \<Longrightarrow> claims_ok (m(n \<mapsto> cl))"
  by (auto simp: claims_ok_def)

lemma evolves_refl [simp]: "evolves n m m"
  by (simp add: evolves_def)

lemma evolves_trans: "evolves n m m' \<Longrightarrow> evolves n m' m'' \<Longrightarrow> evolves n m m''"
  by (auto simp: evolves_def)

lemma map_view_upd [simp]: "map_view (m(n \<mapsto> cl)) n = rec_view cl"
  by (simp add: map_view_def)

lemma map_view_Some: "m n = Some cl \<Longrightarrow> map_view m n = rec_view cl"
  by (simp add: map_view_def)

lemma rec_view_new [simp]: "rec_view (new_record n) = vacant 0"
  by (simp add: rec_view_def new_record_def)

lemma rec_view_unheld: "\<not> held_phase (cr_Phase cl) \<Longrightarrow> rec_view cl = vacant (cr_FencingToken cl)"
  by (auto simp: rec_view_def)

lemma rec_view_irrelevant [simp]:
  "rec_view (cl\<lparr>cr_AcquiredAt := t\<rparr>) = rec_view cl"
  "rec_view (cl\<lparr>cr_ExpiresAt := t\<rparr>) = rec_view cl"
  "rec_view (cl\<lparr>cr_PreviousOwner := s\<rparr>) = rec_view cl"
  "rec_view (cl\<lparr>cr_DrainStatus := s\<rparr>) = rec_view cl"
  "rec_view (cl\<lparr>cr_TransferStatus := s\<rparr>) = rec_view cl"
  "rec_view (cl\<lparr>cr_LastHeartbeat := t\<rparr>) = rec_view cl"
  "rec_view (cl\<lparr>cr_Reason := r\<rparr>) = rec_view cl"
  "rec_view (cl\<lparr>cr_Version := v\<rparr>) = rec_view cl"
  by (simp_all add: rec_view_def)

text \<open>Storing a record that is reached from the stored one, or from the fresh one, by steps.\<close>

lemma evolves_put:
  assumes "\<And>old. m n = Some old \<or> (m n = None \<and> old = new_record n) \<Longrightarrow>
      cr_Name old = n \<Longrightarrow> (\<not> held_phase (cr_Phase old) \<Longrightarrow> cr_OwnerGeneration old = '''') \<Longrightarrow>
      cr_Name cl = n \<and> (\<not> held_phase (cr_Phase cl) \<longrightarrow> cr_OwnerGeneration cl = '''')
      \<and> fence_steps (rec_view old) (rec_view cl)"
  shows "evolves n m (m(n \<mapsto> cl))"
proof -
  define old where "old = (case m n of Some o' \<Rightarrow> o' | None \<Rightarrow> new_record n)"
  have old: "m n = Some old \<or> (m n = None \<and> old = new_record n)" "rec_view old = map_view m n"
    by (auto simp: old_def map_view_def split: option.splits)
  show ?thesis
    unfolding evolves_def
  proof (intro impI)
    assume ok: "claims_ok m"
    then have "cr_Name old = n" and "\<not> held_phase (cr_Phase old) \<Longrightarrow> cr_OwnerGeneration old = ''''"
      using old(1) by (auto simp: claims_ok_def new_record_def)
    from assms [OF old(1) this] ok old(2)
    show "claims_ok (m(n \<mapsto> cl)) \<and> (\<forall>k. k \<noteq> n \<longrightarrow> (m(n \<mapsto> cl)) k = m k)
          \<and> fence_steps (map_view m n) (map_view (m(n \<mapsto> cl)) n)"
      by (auto intro: claims_ok_upd)
  qed
qed

lemma evolves_put_Some:
  assumes "m n = Some old"
    and "cr_Name old = n \<Longrightarrow> (\<not> held_phase (cr_Phase old) \<Longrightarrow> cr_OwnerGeneration old = '''') \<Longrightarrow>
      cr_Name cl = n \<and> (\<not> held_phase (cr_Phase cl) \<longrightarrow> cr_OwnerGeneration cl = '''')
      \<and> fence_steps (rec_view old) (rec_view cl)"
  shows "evolves n m (m(n \<mapsto> cl))"
  using assms by (intro evolves_put) auto

text \<open>The record changes the backends make, as steps of the abstract claim.\<close>

lemma steps_same: "rec_view cl = rec_view old \<Longrightarrow> fence_steps (rec_view old) (rec_view cl)"
  by simp

lemma steps_vacate:
  "\<not> held_phase (cr_Phase cl) \<Longrightarrow> cr_FencingToken cl = cr_FencingToken old \<Longrightarrow>
   fence_steps (rec_view old) (rec_view cl)"
  using fs_vacate [of "rec_view old"] by (auto simp: rec_view_def)

lemma steps_acquire:
  assumes "\<not> held_phase (cr_Phase old)" and "cr_FencingToken old < MaxSafeFencingToken"
    and "cr_Phase cl = ClaimOwned" and "cr_FencingToken cl = cr_FencingToken old + 1"
  shows "fence_steps (rec_view old) (rec_view cl)"
  using fs_acquire [OF assms(2), of "cr_OwnerGeneration cl"] assms
  by (auto simp: rec_view_unheld) (auto simp: rec_view_def)

lemma steps_reserve:
  assumes "\<not> held_phase (cr_Phase old) \<Longrightarrow> cr_OwnerGeneration old = ''''"
    and "cr_Phase cl = ClaimReserved" and "cr_OwnerGeneration cl = cr_OwnerGeneration old"
    and "cr_FencingToken cl = cr_FencingToken old"
  shows "fence_steps (rec_view old) (rec_view cl)"
  using fs_reserve [of "rec_view old" "cr_PendingSuccessor cl"] assms
  by (auto simp: rec_view_def split: if_splits)

lemma steps_commit:
  assumes "cr_Phase old = ClaimReserved" and "cr_FencingToken old < MaxSafeFencingToken"
    and "cr_Phase cl = ClaimOwned" and "cr_OwnerGeneration cl = cr_PendingSuccessor old"
    and "cr_FencingToken cl = cr_FencingToken old + 1"
  shows "fence_steps (rec_view old) (rec_view cl)"
  using fs_commit [of "rec_view old" "cr_PendingSuccessor old"] assms
  by (auto simp: rec_view_def)

lemma steps_abort:
  assumes "cr_Phase old = ClaimReserved" and "cr_Phase cl = ClaimOwned"
    and "cr_OwnerGeneration cl = cr_OwnerGeneration old"
    and "cr_FencingToken cl = cr_FencingToken old"
  shows "fence_steps (rec_view old) (rec_view cl)"
  using fs_abort [of "rec_view old"] assms by (auto simp: rec_view_def)

lemmas claim_steps = steps_same steps_vacate steps_acquire steps_reserve steps_commit steps_abort

section \<open>Operation logs\<close>

text \<open>A call adds at most its own identifier to the log, and never overwrites an entry.\<close>

definition logs :: "OperationID \<Rightarrow> (OperationID \<rightharpoonup> 'r) \<Rightarrow> (OperationID \<rightharpoonup> 'r) \<Rightarrow> bool" where
  "logs i m m' \<longleftrightarrow> m' = m \<or> (i \<noteq> '''' \<and> m i = None \<and> (\<exists>r. m' = m(i \<mapsto> r)))"

lemma logs_refl [simp]: "logs i m m"
  by (simp add: logs_def)

lemma logs_keeps: "logs i m m' \<Longrightarrow> m j = Some r \<Longrightarrow> m' j = Some r"
  by (auto simp: logs_def)

section \<open>The contract\<close>

text \<open>
  Two contracts. \<open>fenced_store\<close> is what safety rests on: every call moves only its own claim, and
  only along the abstract steps. \<open>fenced_backend\<close> adds what a client may conclude from a call
  that reports success under an operation identifier the store has not seen.
\<close>

locale fenced_store =
  fixes B :: "'b Backend"
    and wf :: "'b \<Rightarrow> bool"
    and view :: "'b \<Rightarrow> string \<Rightarrow> claim_view"
    and seen :: "'b \<Rightarrow> OperationID \<Rightarrow> bool"
  assumes wf_call: "wf b \<Longrightarrow> wf (fst (invoke B b e c))"
    and view_frame: "wf b \<Longrightarrow> call_claim c \<noteq> Some n \<Longrightarrow> view (fst (invoke B b e c)) n = view b n"
    and view_step: "wf b \<Longrightarrow> call_claim c = Some n \<Longrightarrow>
          fence_steps (view b n) (view (fst (invoke B b e c)) n)"
    and seen_call: "wf b \<Longrightarrow> seen (fst (invoke B b e c)) i \<Longrightarrow> seen b i \<or> (i = call_op c \<and> i \<noteq> '''')"
begin

lemma view_steps: "wf b \<Longrightarrow> fence_steps (view b n) (view (fst (invoke B b e c)) n)"
  by (cases "call_claim c = Some n") (auto simp: view_step view_frame)

lemma wf_run: "wf b \<Longrightarrow> wf (run_calls B b cs)"
proof (induction cs arbitrary: b)
  case (Cons ec cs)
  then show ?case by (cases ec) (simp add: wf_call)
qed simp

lemma view_run: "wf b \<Longrightarrow> fence_steps (view b n) (view (run_calls B b cs) n)"
proof (induction cs arbitrary: b)
  case (Cons ec cs)
  obtain e c where ec: "ec = (e, c)" by force
  have "fence_steps (view b n) (view (fst (invoke B b e c)) n)"
    using Cons.prems by (rule view_steps)
  also have "fence_steps (view (fst (invoke B b e c)) n) (view (run_calls B b (ec # cs)) n)"
    using Cons.IH [OF wf_call [OF Cons.prems]] ec by simp
  finally show ?case .
qed simp

lemma token_never_decreases: "wf b \<Longrightarrow> v_token (view b n) \<le> v_token (view (run_calls B b cs) n)"
  by (blast intro: fence_steps_token_mono view_run)

text \<open>Two generations never hold the same claim under the same token, at any two moments.\<close>

lemma one_holder_per_token:
  assumes "wf b"
    and "v_holder (view (run_calls B b cs) n) = g" and "g \<noteq> ''''"
    and "v_holder (view (run_calls B b (cs @ ds)) n) = h" and "h \<noteq> ''''"
    and "v_token (view (run_calls B b (cs @ ds)) n) = v_token (view (run_calls B b cs) n)"
  shows "g = h"
proof -
  have "fence_steps (view (run_calls B b cs) n) (view (run_calls B b (cs @ ds)) n)"
    unfolding run_calls_append by (rule view_run) (simp add: assms(1) wf_run)
  then have "v_holder (view (run_calls B b cs) n) = v_holder (view (run_calls B b (cs @ ds)) n)"
    using assms by (intro fence_steps_epoch) auto
  with assms show ?thesis by simp
qed

text \<open>A change of hands always strictly raises the token.\<close>

lemma handover_raises_token:
  assumes "wf b"
    and "v_holder (view (run_calls B b cs) n) = g" and "g \<noteq> ''''"
    and "v_holder (view (run_calls B b (cs @ ds)) n) = h" and "h \<noteq> ''''" and "g \<noteq> h"
  shows "v_token (view (run_calls B b cs) n) < v_token (view (run_calls B b (cs @ ds)) n)"
proof -
  have "v_token (view (run_calls B b cs) n) \<le> v_token (view (run_calls B b (cs @ ds)) n)"
    unfolding run_calls_append by (rule token_never_decreases) (simp add: assms(1) wf_run)
  with one_holder_per_token [OF assms(1-5)] assms(6) show ?thesis
    by (metis order_le_less)
qed

lemma seen_run:
  "wf b \<Longrightarrow> seen (run_calls B b cs) i \<Longrightarrow> seen b i \<or> (\<exists>ec \<in> set cs. call_op (snd ec) = i)"
proof (induction cs arbitrary: b)
  case (Cons ec cs)
  obtain e c where ec: "ec = (e, c)" by force
  from Cons.prems(2) ec have "seen (run_calls B (fst (invoke B b e c)) cs) i" by simp
  then have "seen (fst (invoke B b e c)) i \<or> (\<exists>ec \<in> set cs. call_op (snd ec) = i)"
    by (rule Cons.IH [OF wf_call [OF Cons.prems(1)]])
  with seen_call [OF Cons.prems(1)] ec show ?case by auto
qed simp

end

locale fenced_backend = fenced_store +
  assumes acquire_ok: "wf b \<Longrightarrow> \<not> seen b (aq_OperationID qaq) \<Longrightarrow>
          AcquireClaim B b e qaq = (b', rec, None) \<Longrightarrow>
          \<exists>c. rec = Some c \<and> view b' (aq_ClaimName qaq) = rec_view c
            \<and> held_phase (cr_Phase c) \<and> cr_OwnerGeneration c = aq_GenerationID qaq"
    and renew_ok: "wf b \<Longrightarrow> \<not> seen b (rn_OperationID qrn) \<Longrightarrow>
          RenewClaim B b e qrn = (b', rec, None) \<Longrightarrow>
          \<exists>c. rec = Some c \<and> view b' (rn_ClaimName qrn) = rec_view c \<and> held_phase (cr_Phase c)
            \<and> cr_OwnerGeneration c = rn_GenerationID qrn \<and> cr_FencingToken c = rn_Token qrn"
    and prepare_ok: "wf b \<Longrightarrow> \<not> seen b (tr_OperationID qtr) \<Longrightarrow>
          PrepareTransfer B b e qtr = (b', rec, None) \<Longrightarrow>
          \<exists>c. rec = Some c \<and> view b' (tr_ClaimName qtr) = rec_view c \<and> cr_Phase c = ClaimReserved
            \<and> cr_OwnerGeneration c = tr_FromGeneration qtr
            \<and> cr_PendingSuccessor c = tr_ToGeneration qtr \<and> cr_FencingToken c = tr_Token qtr"
    and commit_ok: "wf b \<Longrightarrow> \<not> seen b (cm_OperationID qcm) \<Longrightarrow>
          CommitTransfer B b e qcm = (b', rec, None) \<Longrightarrow>
          \<exists>c. rec = Some c \<and> view b' (cm_ClaimName qcm) = rec_view c \<and> cr_Phase c = ClaimOwned
            \<and> cr_OwnerGeneration c = cm_ToGeneration qcm
            \<and> cr_FencingToken c = cm_ExpectedToken qcm + 1"
    and abort_ok: "wf b \<Longrightarrow> \<not> seen b (ab_OperationID qab) \<Longrightarrow>
          AbortTransfer B b e qab = (b', rec, None) \<Longrightarrow>
          \<exists>c. rec = Some c \<and> view b' (ab_ClaimName qab) = rec_view c \<and> cr_Phase c = ClaimOwned
            \<and> cr_OwnerGeneration c = ab_FromGeneration qab
            \<and> cr_FencingToken c = v_token (view b (ab_ClaimName qab))"
    and release_ok: "wf b \<Longrightarrow> \<not> seen b (rl_OperationID qrl) \<Longrightarrow>
          ReleaseClaim B b e qrl = (b', None) \<Longrightarrow>
          view b' (rl_ClaimName qrl) = vacant (rl_Token qrl)"

section \<open>Building calls\<close>

text \<open>Shorthands for concrete histories: a call at an instant, with a live context.\<close>

definition at_time :: "time \<Rightarrow> env" where
  "at_time t = \<lparr>ctxErr = None, tExpire = t, tNow = t, tNotify = t\<rparr>"

definition acquire_call :: "string \<Rightarrow> string \<Rightarrow> duration \<Rightarrow> OperationID \<Rightarrow> call" where
  "acquire_call n g ttl i =
     CAcquire \<lparr>aq_ClaimName = n, aq_GenerationID = g, aq_TTL = ttl, aq_AllowEmptyOnly = False,
              aq_OperationID = i\<rparr>"

definition renew_call :: "string \<Rightarrow> string \<Rightarrow> FencingToken \<Rightarrow> duration \<Rightarrow> OperationID \<Rightarrow> call" where
  "renew_call n g tok ttl i =
     CRenew \<lparr>rn_ClaimName = n, rn_GenerationID = g, rn_Token = tok, rn_TTL = ttl,
            rn_OperationID = i\<rparr>"

definition prepare_call ::
  "string \<Rightarrow> string \<Rightarrow> string \<Rightarrow> FencingToken \<Rightarrow> duration \<Rightarrow> OperationID \<Rightarrow> call" where
  "prepare_call n g h tok ttl i =
     CPrepare \<lparr>tr_ClaimName = n, tr_FromGeneration = g, tr_ToGeneration = h, tr_Token = tok,
              tr_TTL = ttl, tr_OperationID = i\<rparr>"

definition commit_call ::
  "string \<Rightarrow> string \<Rightarrow> string \<Rightarrow> FencingToken \<Rightarrow> duration \<Rightarrow> OperationID \<Rightarrow> call" where
  "commit_call n g h tok ttl i =
     CCommit \<lparr>cm_ClaimName = n, cm_FromGeneration = g, cm_ToGeneration = h,
             cm_ExpectedToken = tok, cm_TTL = ttl, cm_OperationID = i\<rparr>"

definition release_call :: "string \<Rightarrow> string \<Rightarrow> FencingToken \<Rightarrow> OperationID \<Rightarrow> call" where
  "release_call n g tok i =
     CRelease \<lparr>rl_ClaimName = n, rl_GenerationID = g, rl_Token = tok, rl_OperationID = i\<rparr>"

lemmas call_defs = at_time_def acquire_call_def renew_call_def prepare_call_def commit_call_def
  release_call_def

end
