(* ===== verification/Memory_Backend.thy ===== *)
theory Memory_Backend
  imports Backend_Spec "HOL-Library.AList"
begin

text \<open>
  \<open>backend/memory/memory.go\<close>: the in-process ownership store, with its operation log for
  idempotent retries, its watchers and its fault-injection switches. A mutating method takes the
  lock twice: \<open>beforeMutate\<close> takes it to test the fault switches and to consume an injected
  failure, then the body takes it for all it reads and writes of claims and operations. The two
  critical sections are one atomic function on the store here. The first touches no claim and no
  recorded operation, so what other calls do between the two amounts to doing it before the
  call, except that a switch thrown in between (closing, a partition) stops the call here and not in
  the source. Watch channels live in an explicit heap, because \<open>Close\<close> and the goroutine of
  \<open>WatchClaim\<close> reach the same channel.
\<close>

record ClaimEvent =
  ce_Claim :: ClaimRecord
  ce_Time :: time
  ce_Reason :: TransitionReason

record watchChan =
  wc_name :: string
  wc_ch :: "ClaimEvent list"
  wc_closed :: bool

record opResult =
  or_rec :: "ClaimRecord option"
  or_err :: "go_error option"

record mem_backend =
  mb_gens :: "string \<rightharpoonup> Generation"
  mb_claims :: "string \<rightharpoonup> ClaimRecord"
  mb_watchers :: "(string \<times> nat list) list"
  mb_chans :: "nat \<rightharpoonup> watchChan"
  mb_nextChan :: nat
  mb_ops :: "OperationID \<rightharpoonup> opResult"
  mb_partitionEnabled :: bool
  mb_partitioned :: bool
  mb_failNext :: "go_error option"
  mb_delay :: duration
  mb_crashOnCommit :: bool
  mb_failPrepareAt :: int
  mb_prepareCount :: int
  mb_closed :: bool

definition mem_New :: "bool \<Rightarrow> mem_backend" where
  "mem_New partitionSimulation =
     \<lparr>mb_gens = Map.empty, mb_claims = Map.empty, mb_watchers = [], mb_chans = Map.empty,
      mb_nextChan = 0, mb_ops = Map.empty, mb_partitionEnabled = partitionSimulation,
      mb_partitioned = False, mb_failNext = None, mb_delay = 0, mb_crashOnCommit = False,
      mb_failPrepareAt = 0, mb_prepareCount = 0, mb_closed = False\<rparr>"

section \<open>Helpers\<close>

definition watchers_of :: "(string \<times> nat list) list \<Rightarrow> string \<Rightarrow> nat list" where
  "watchers_of ws n = (case map_of ws n of None \<Rightarrow> [] | Some is \<Rightarrow> is)"

definition mem_recallOp :: "mem_backend \<Rightarrow> OperationID \<Rightarrow> opResult option" where
  "mem_recallOp b i = (if i = '''' then None else mb_ops b i)"

definition mem_storeOp ::
  "mem_backend \<Rightarrow> OperationID \<Rightarrow> ClaimRecord option \<Rightarrow> go_error option \<Rightarrow> mem_backend" where
  "mem_storeOp b i rec err =
     (if i = '''' then b else b\<lparr>mb_ops := (mb_ops b)(i \<mapsto> \<lparr>or_rec = rec, or_err = err\<rparr>)\<rparr>)"

definition advanceToken :: "FencingToken \<Rightarrow> FencingToken \<times> go_error option" where
  "advanceToken cur =
     (if cur \<ge> MaxSafeFencingToken then (cur, Some (Sentinel ErrTokenOverflow))
      else (cur + 1, None))"

definition mem_put :: "mem_backend \<Rightarrow> string \<Rightarrow> ClaimRecord \<Rightarrow> mem_backend" where
  "mem_put b n cl = b\<lparr>mb_claims := (mb_claims b)(n \<mapsto> cl)\<rparr>"

definition mem_beforeMutate :: "mem_backend \<Rightarrow> env \<Rightarrow> mem_backend \<times> go_error option" where
  "mem_beforeMutate b e =
     (if mb_closed b then (b, Some (Sentinel ErrClosed))
      else if mb_partitionEnabled b \<and> mb_partitioned b then
        (b, Some (EError (no_fields\<lparr>er_Op := ''memory'', er_Message := ''partitioned'',
                                    er_Reason := ReasonPartition\<rparr>) (Some (Sentinel ErrBackend))))
      else
        (let err = mb_failNext b;
             b = b\<lparr>mb_failNext := None\<rparr>
         in case err of
              Some er \<Rightarrow> (b, Some er)
            | None \<Rightarrow> if mb_delay b > 0 then (b, ctxErr e) else (b, None)))"

definition expire_record :: "time \<Rightarrow> ClaimRecord \<Rightarrow> ClaimRecord" where
  "expire_record now cl =
     (if held_phase (cr_Phase cl) \<and> \<not> IsZero (cr_ExpiresAt cl) \<and> now > cr_ExpiresAt cl then
        cl\<lparr>cr_PreviousOwner := cr_OwnerGeneration cl, cr_OwnerGeneration := '''',
           cr_PendingSuccessor := '''', cr_Phase := ClaimUnowned, cr_DrainStatus := '''',
           cr_TransferStatus := '''', cr_Reason := ReasonExpired,
           cr_Version := cr_Version cl + 1\<rparr>
      else cl)"

definition mem_expireLocked :: "mem_backend \<Rightarrow> time \<Rightarrow> string \<Rightarrow> mem_backend" where
  "mem_expireLocked b now n =
     (case mb_claims b n of
        None \<Rightarrow> b
      | Some cl \<Rightarrow> mem_put b n (expire_record now cl))"

text \<open>A send in a \<open>select\<close> with a default branch: dropped when the channel of 16 is full.\<close>

definition chan_offer :: "ClaimEvent \<Rightarrow> watchChan \<Rightarrow> watchChan" where
  "chan_offer ev w =
     (if wc_closed w then w
      else if length (wc_ch w) < 16 then w\<lparr>wc_ch := wc_ch w @ [ev]\<rparr> else w)"

fun notify_chans :: "ClaimEvent \<Rightarrow> nat list \<Rightarrow> (nat \<rightharpoonup> watchChan) \<Rightarrow> (nat \<rightharpoonup> watchChan)" where
  "notify_chans ev [] h = h"
| "notify_chans ev (i # is) h =
     notify_chans ev is (case h i of None \<Rightarrow> h | Some w \<Rightarrow> h(i \<mapsto> chan_offer ev w))"

definition mem_notifyLocked ::
  "mem_backend \<Rightarrow> time \<Rightarrow> ClaimRecord \<Rightarrow> TransitionReason \<Rightarrow> mem_backend" where
  "mem_notifyLocked b now rec reason =
     b\<lparr>mb_chans := notify_chans \<lparr>ce_Claim = rec, ce_Time = now, ce_Reason = reason\<rparr>
                     (watchers_of (mb_watchers b) (cr_Name rec)) (mb_chans b)\<rparr>"

section \<open>The Backend methods\<close>

definition mem_RegisterGeneration ::
  "mem_backend \<Rightarrow> env \<Rightarrow> Generation \<Rightarrow> mem_backend \<times> go_error option" where
  "mem_RegisterGeneration b e gen =
     (case mem_beforeMutate b e of
        (b, Some er) \<Rightarrow> (b, Some er)
      | (b, None) \<Rightarrow> (b\<lparr>mb_gens := (mb_gens b)(gen_ID gen \<mapsto> gen)\<rparr>, None))"

definition mem_UpdateGeneration ::
  "mem_backend \<Rightarrow> env \<Rightarrow> Generation \<Rightarrow> mem_backend \<times> go_error option" where
  "mem_UpdateGeneration b e gen =
     (case mem_beforeMutate b e of
        (b, Some er) \<Rightarrow> (b, Some er)
      | (b, None) \<Rightarrow> (b\<lparr>mb_gens := (mb_gens b)(gen_ID gen \<mapsto> gen)\<rparr>, None))"

definition mem_GetGeneration ::
  "mem_backend \<Rightarrow> env \<Rightarrow> string \<Rightarrow> mem_backend \<times> Generation option \<times> go_error option" where
  "mem_GetGeneration b e i =
     (case mb_gens b i of
        None \<Rightarrow> (b, None, Some (Sentinel ErrGenerationNotFound))
      | Some g \<Rightarrow> (b, Some g, None))"

definition mem_GetClaim :: "mem_backend \<Rightarrow> env \<Rightarrow> string \<Rightarrow> mem_backend \<times> rec_result" where
  "mem_GetClaim b e n =
     (let b = mem_expireLocked b (tExpire e) n
      in case mb_claims b n of
           None \<Rightarrow> (b, None, Some (Sentinel ErrClaimNotFound))
         | Some cl \<Rightarrow> (b, Some cl, None))"

definition mem_AcquireClaim ::
  "mem_backend \<Rightarrow> env \<Rightarrow> AcquireRequest \<Rightarrow> mem_backend \<times> rec_result" where
  "mem_AcquireClaim b e req =
     (case mem_beforeMutate b e of
        (b, Some er) \<Rightarrow> (b, None, Some er)
      | (b, None) \<Rightarrow>
     (case mem_recallOp b (aq_OperationID req) of
        Some r \<Rightarrow> (b, or_rec r, or_err r)
      | None \<Rightarrow>
     (let b = mem_expireLocked b (tExpire e) (aq_ClaimName req);
          now = tNow e;
          cl = (case mb_claims b (aq_ClaimName req) of
                  Some cl \<Rightarrow> cl | None \<Rightarrow> new_record (aq_ClaimName req));
          b = mem_put b (aq_ClaimName req) cl
      in if held_phase (cr_Phase cl) then
           (if cr_OwnerGeneration cl = aq_GenerationID req then
              (let cl = cl\<lparr>cr_ExpiresAt := now + aq_TTL req, cr_LastHeartbeat := now,
                          cr_Reason := ReasonRenewed\<rparr>;
                   b = mem_put b (aq_ClaimName req) cl
               in (mem_storeOp b (aq_OperationID req) (Some cl) None, Some cl, None))
            else
              (mem_storeOp b (aq_OperationID req) (Some cl) (Some (Sentinel ErrClaimHeld)),
               Some cl, Some (Sentinel ErrClaimHeld)))
         else
           (case advanceToken (cr_FencingToken cl) of
              (_, Some err) \<Rightarrow>
                (mem_storeOp b (aq_OperationID req) None (Some err), None,
                 Some (EError (no_fields\<lparr>er_Op := ''AcquireClaim'',
                         er_Message := ''claim unavailable due to token overflow''\<rparr>) (Some err)))
            | (next, None) \<Rightarrow>
                (let cl = cl\<lparr>cr_PreviousOwner := cr_OwnerGeneration cl,
                            cr_OwnerGeneration := aq_GenerationID req, cr_FencingToken := next,
                            cr_Phase := ClaimOwned, cr_AcquiredAt := now,
                            cr_ExpiresAt := now + aq_TTL req, cr_LastHeartbeat := now,
                            cr_PendingSuccessor := '''', cr_TransferStatus := '''',
                            cr_DrainStatus := '''', cr_Reason := ReasonAcquired,
                            cr_Version := cr_Version cl + 1\<rparr>;
                     b = mem_put b (aq_ClaimName req) cl;
                     b = mem_notifyLocked b (tNotify e) cl ReasonAcquired
                 in (mem_storeOp b (aq_OperationID req) (Some cl) None, Some cl, None))))))"

definition mem_RenewClaim ::
  "mem_backend \<Rightarrow> env \<Rightarrow> RenewRequest \<Rightarrow> mem_backend \<times> rec_result" where
  "mem_RenewClaim b e req =
     (case mem_beforeMutate b e of
        (b, Some er) \<Rightarrow> (b, None, Some er)
      | (b, None) \<Rightarrow>
     (case mem_recallOp b (rn_OperationID req) of
        Some r \<Rightarrow> (b, or_rec r, or_err r)
      | None \<Rightarrow>
     (let b = mem_expireLocked b (tExpire e) (rn_ClaimName req)
      in case mb_claims b (rn_ClaimName req) of
           None \<Rightarrow> (b, None, Some (Sentinel ErrClaimNotFound))
         | Some cl \<Rightarrow>
             if cr_OwnerGeneration cl \<noteq> rn_GenerationID req then
               (b, None, Some (Sentinel ErrNotOwner))
             else if cr_FencingToken cl \<noteq> rn_Token req then
               (b, None, Some (Sentinel ErrStaleToken))
             else if cr_Phase cl \<noteq> ClaimOwned \<and> cr_Phase cl \<noteq> ClaimDraining
                     \<and> cr_Phase cl \<noteq> ClaimReserved then
               (b, None, Some (Sentinel ErrNotOwner))
             else
               (let now = tNow e;
                    cl = cl\<lparr>cr_ExpiresAt := now + rn_TTL req, cr_LastHeartbeat := now,
                           cr_Reason := ReasonRenewed, cr_Version := cr_Version cl + 1\<rparr>;
                    b = mem_put b (rn_ClaimName req) cl
                in (mem_storeOp b (rn_OperationID req) (Some cl) None, Some cl, None)))))"

definition mem_PrepareTransfer ::
  "mem_backend \<Rightarrow> env \<Rightarrow> TransferRequest \<Rightarrow> mem_backend \<times> rec_result" where
  "mem_PrepareTransfer b e req =
     (case mem_beforeMutate b e of
        (b, Some er) \<Rightarrow> (b, None, Some er)
      | (b, None) \<Rightarrow>
     (let b = b\<lparr>mb_prepareCount := mb_prepareCount b + 1\<rparr>
      in if mb_failPrepareAt b > 0 \<and> mb_prepareCount b = mb_failPrepareAt b then
           (b\<lparr>mb_failPrepareAt := 0\<rparr>, None,
            Some (op_error ''PrepareTransfer'' ErrBackend ''injected prepare failure''))
         else
     (case mem_recallOp b (tr_OperationID req) of
        Some r \<Rightarrow> (b, or_rec r, or_err r)
      | None \<Rightarrow>
     (let b = mem_expireLocked b (tExpire e) (tr_ClaimName req)
      in case mb_claims b (tr_ClaimName req) of
           None \<Rightarrow> (b, None, Some (Sentinel ErrClaimNotFound))
         | Some cl \<Rightarrow>
             if cr_OwnerGeneration cl \<noteq> tr_FromGeneration req then
               (b, None, Some (Sentinel ErrNotOwner))
             else if cr_FencingToken cl \<noteq> tr_Token req then
               (b, None, Some (Sentinel ErrStaleToken))
             else if cr_Phase cl = ClaimReserved \<and> cr_PendingSuccessor cl \<noteq> ''''
                     \<and> cr_PendingSuccessor cl \<noteq> tr_ToGeneration req then
               (b, None, Some (Sentinel ErrConcurrentTransfer))
             else if cr_Phase cl = ClaimReserved \<and> cr_PendingSuccessor cl = tr_ToGeneration req then
               (mem_storeOp b (tr_OperationID req) (Some cl) None, Some cl, None)
             else
               (let now = tNow e;
                    cl = cl\<lparr>cr_Phase := ClaimReserved, cr_PendingSuccessor := tr_ToGeneration req,
                           cr_TransferStatus := ''prepared'', cr_DrainStatus := ''complete'',
                           cr_ExpiresAt := now + tr_TTL req, cr_LastHeartbeat := now,
                           cr_Reason := ReasonTransferPrepared, cr_Version := cr_Version cl + 1\<rparr>;
                    b = mem_put b (tr_ClaimName req) cl;
                    b = mem_notifyLocked b (tNotify e) cl ReasonTransferPrepared
                in (mem_storeOp b (tr_OperationID req) (Some cl) None, Some cl, None))))))"

definition mem_CommitTransfer ::
  "mem_backend \<Rightarrow> env \<Rightarrow> CommitRequest \<Rightarrow> mem_backend \<times> rec_result" where
  "mem_CommitTransfer b e req =
     (case mem_beforeMutate b e of
        (b, Some er) \<Rightarrow> (b, None, Some er)
      | (b, None) \<Rightarrow>
     (case mem_recallOp b (cm_OperationID req) of
        Some r \<Rightarrow> (b, or_rec r, or_err r)
      | None \<Rightarrow>
     (if mb_crashOnCommit b then
        (b\<lparr>mb_crashOnCommit := False\<rparr>, None,
         Some (op_error ''CommitTransfer'' ErrBackend ''simulated crash''))
      else
     (let b = mem_expireLocked b (tExpire e) (cm_ClaimName req)
      in case mb_claims b (cm_ClaimName req) of
           None \<Rightarrow> (b, None, Some (Sentinel ErrClaimNotFound))
         | Some cl \<Rightarrow>
             if cr_Phase cl = ClaimOwned \<and> cr_OwnerGeneration cl = cm_ToGeneration req
                \<and> cr_FencingToken cl = cm_ExpectedToken req + 1
                \<and> cr_TransferStatus cl = ''committed'' then
               (mem_storeOp b (cm_OperationID req) (Some cl) None, Some cl, None)
             else if cr_Phase cl \<noteq> ClaimReserved then (b, None, Some (Sentinel ErrNoTransfer))
             else if cr_OwnerGeneration cl \<noteq> cm_FromGeneration req
                     \<or> cr_PendingSuccessor cl \<noteq> cm_ToGeneration req then
               (b, None, Some (Sentinel ErrConcurrentTransfer))
             else if cr_FencingToken cl \<noteq> cm_ExpectedToken req then
               (b, None, Some (Sentinel ErrStaleToken))
             else
               (case advanceToken (cr_FencingToken cl) of
                  (_, Some err) \<Rightarrow>
                    (mem_storeOp b (cm_OperationID req) None (Some err), None, Some err)
                | (next, None) \<Rightarrow>
                    (let now = tNow e;
                         cl = cl\<lparr>cr_PreviousOwner := cr_OwnerGeneration cl,
                                cr_OwnerGeneration := cm_ToGeneration req, cr_FencingToken := next,
                                cr_Phase := ClaimOwned, cr_PendingSuccessor := '''',
                                cr_TransferStatus := ''committed'', cr_DrainStatus := '''',
                                cr_AcquiredAt := now, cr_ExpiresAt := now + cm_TTL req,
                                cr_LastHeartbeat := now, cr_Reason := ReasonTransferCommitted,
                                cr_Version := cr_Version cl + 1\<rparr>;
                         b = mem_put b (cm_ClaimName req) cl;
                         b = mem_notifyLocked b (tNotify e) cl ReasonTransferCommitted
                     in (mem_storeOp b (cm_OperationID req) (Some cl) None, Some cl, None)))))))"

definition mem_AbortTransfer ::
  "mem_backend \<Rightarrow> env \<Rightarrow> AbortRequest \<Rightarrow> mem_backend \<times> rec_result" where
  "mem_AbortTransfer b e req =
     (case mem_beforeMutate b e of
        (b, Some er) \<Rightarrow> (b, None, Some er)
      | (b, None) \<Rightarrow>
     (case mem_recallOp b (ab_OperationID req) of
        Some r \<Rightarrow> (b, or_rec r, or_err r)
      | None \<Rightarrow>
     (let b = mem_expireLocked b (tExpire e) (ab_ClaimName req)
      in case mb_claims b (ab_ClaimName req) of
           None \<Rightarrow> (b, None, Some (Sentinel ErrClaimNotFound))
         | Some cl \<Rightarrow>
             if cr_Phase cl \<noteq> ClaimReserved then
               (if cr_OwnerGeneration cl = ab_FromGeneration req \<and> cr_Phase cl = ClaimOwned then
                  (mem_storeOp b (ab_OperationID req) (Some cl) None, Some cl, None)
                else (b, None, Some (Sentinel ErrNoTransfer)))
             else if cr_FencingToken cl \<noteq> ab_ExpectedToken req then
               (b, None, Some (Sentinel ErrStaleToken))
             else if cr_OwnerGeneration cl \<noteq> ab_FromGeneration req then
               (b, None, Some (Sentinel ErrNotOwner))
             else
               (let cl = cl\<lparr>cr_PendingSuccessor := '''', cr_Phase := ClaimOwned,
                           cr_TransferStatus := ''aborted'', cr_Reason := ReasonTransferAborted,
                           cr_Version := cr_Version cl + 1\<rparr>;
                    b = mem_put b (ab_ClaimName req) cl;
                    b = mem_notifyLocked b (tNotify e) cl ReasonTransferAborted
                in (mem_storeOp b (ab_OperationID req) (Some cl) None, Some cl, None)))))"

definition mem_ReleaseClaim ::
  "mem_backend \<Rightarrow> env \<Rightarrow> ReleaseRequest \<Rightarrow> mem_backend \<times> go_error option" where
  "mem_ReleaseClaim b e req =
     (case mem_beforeMutate b e of
        (b, Some er) \<Rightarrow> (b, Some er)
      | (b, None) \<Rightarrow>
     (case mem_recallOp b (rl_OperationID req) of
        Some r \<Rightarrow> (b, or_err r)
      | None \<Rightarrow>
     (let b = mem_expireLocked b (tExpire e) (rl_ClaimName req)
      in case mb_claims b (rl_ClaimName req) of
           None \<Rightarrow> (b, Some (Sentinel ErrClaimNotFound))
         | Some cl \<Rightarrow>
             if cr_FencingToken cl \<noteq> rl_Token req then (b, Some (Sentinel ErrStaleToken))
             else if cr_OwnerGeneration cl \<noteq> rl_GenerationID req then
               (if cr_Phase cl = ClaimUnowned then
                  (mem_storeOp b (rl_OperationID req) None None, None)
                else (b, Some (Sentinel ErrNotOwner)))
             else
               (let cl = cl\<lparr>cr_PreviousOwner := cr_OwnerGeneration cl, cr_OwnerGeneration := '''',
                           cr_PendingSuccessor := '''', cr_Phase := ClaimUnowned,
                           cr_TransferStatus := '''', cr_DrainStatus := '''',
                           cr_Reason := ReasonReleased, cr_Version := cr_Version cl + 1\<rparr>;
                    b = mem_put b (rl_ClaimName req) cl;
                    b = mem_notifyLocked b (tNotify e) cl ReasonReleased
                in (mem_storeOp b (rl_OperationID req) (Some cl) None, None)))))"

section \<open>Watching, closing and the test hooks\<close>

definition mem_WatchClaim :: "mem_backend \<Rightarrow> string \<Rightarrow> mem_backend \<times> nat option \<times> go_error option" where
  "mem_WatchClaim b n =
     (if mb_closed b then (b, None, Some (Sentinel ErrClosed))
      else (let w = mb_nextChan b
            in (b\<lparr>mb_nextChan := Suc w,
                  mb_chans := (mb_chans b)(w \<mapsto> \<lparr>wc_name = n, wc_ch = [], wc_closed = False\<rparr>),
                  mb_watchers := AList.update n (watchers_of (mb_watchers b) n @ [w]) (mb_watchers b)\<rparr>,
                Some w, None)))"

text \<open>
  The goroutine of \<open>WatchClaim\<close> once its context is done; it has captured the claim name and
  the channel (the name is kept with the channel).
\<close>

definition mem_watch_done :: "mem_backend \<Rightarrow> nat \<Rightarrow> mem_backend" where
  "mem_watch_done b w =
     (case mb_chans b w of
        None \<Rightarrow> b
      | Some c \<Rightarrow>
          (let ws = watchers_of (mb_watchers b) (wc_name c);
               b = (if w \<in> set ws
                    then b\<lparr>mb_watchers := AList.update (wc_name c) (remove1 w ws) (mb_watchers b)\<rparr>
                    else b)
           in if \<not> wc_closed c
              then b\<lparr>mb_chans := (mb_chans b)(w \<mapsto> c\<lparr>wc_closed := True\<rparr>)\<rparr> else b))"

fun close_chans :: "nat list \<Rightarrow> (nat \<rightharpoonup> watchChan) \<Rightarrow> (nat \<rightharpoonup> watchChan)" where
  "close_chans [] h = h"
| "close_chans (i # is) h =
     close_chans is (case h i of
        None \<Rightarrow> h
      | Some w \<Rightarrow> if \<not> wc_closed w then h(i \<mapsto> w\<lparr>wc_closed := True\<rparr>) else h)"

definition mem_Close :: "mem_backend \<Rightarrow> mem_backend \<times> go_error option" where
  "mem_Close b =
     (if mb_closed b then (b, None)
      else (b\<lparr>mb_closed := True,
              mb_chans := close_chans (concat (map snd (mb_watchers b))) (mb_chans b),
              mb_watchers := []\<rparr>, None))"

definition mem_SetPartition :: "mem_backend \<Rightarrow> bool \<Rightarrow> mem_backend" where
  "mem_SetPartition b on = b\<lparr>mb_partitioned := on\<rparr>"

definition mem_FailNext :: "mem_backend \<Rightarrow> go_error option \<Rightarrow> mem_backend" where
  "mem_FailNext b err = b\<lparr>mb_failNext := err\<rparr>"

definition mem_SetDelay :: "mem_backend \<Rightarrow> duration \<Rightarrow> mem_backend" where
  "mem_SetDelay b d = b\<lparr>mb_delay := d\<rparr>"

definition mem_CrashOnCommit :: "mem_backend \<Rightarrow> bool \<Rightarrow> mem_backend" where
  "mem_CrashOnCommit b v = b\<lparr>mb_crashOnCommit := v\<rparr>"

definition mem_FailPrepareAt :: "mem_backend \<Rightarrow> int \<Rightarrow> mem_backend" where
  "mem_FailPrepareAt b n = b\<lparr>mb_failPrepareAt := n, mb_prepareCount := 0\<rparr>"

definition mem_ForceExpire :: "mem_backend \<Rightarrow> env \<Rightarrow> string \<Rightarrow> mem_backend" where
  "mem_ForceExpire b e n =
     (case mb_claims b n of
        None \<Rightarrow> b
      | Some cl \<Rightarrow> mem_expireLocked (mem_put b n (cl\<lparr>cr_ExpiresAt := tNow e - Second\<rparr>)) (tExpire e) n)"

definition mem_ForceSetToken :: "mem_backend \<Rightarrow> string \<Rightarrow> FencingToken \<Rightarrow> mem_backend" where
  "mem_ForceSetToken b n tok =
     (let cl = (case mb_claims b n of None \<Rightarrow> new_record n | Some cl \<Rightarrow> cl)
      in mem_put b n (cl\<lparr>cr_FencingToken := tok, cr_Phase := ClaimUnowned,
                        cr_OwnerGeneration := ''''\<rparr>))"

definition mem_ops :: "mem_backend Backend" where
  "mem_ops =
     \<lparr>RegisterGeneration = mem_RegisterGeneration, AcquireClaim = mem_AcquireClaim,
      RenewClaim = mem_RenewClaim, PrepareTransfer = mem_PrepareTransfer,
      CommitTransfer = mem_CommitTransfer, AbortTransfer = mem_AbortTransfer,
      ReleaseClaim = mem_ReleaseClaim, UpdateGeneration = mem_UpdateGeneration,
      GetClaim = mem_GetClaim, GetGeneration = mem_GetGeneration\<rparr>"

section \<open>Frame lemmas\<close>

lemmas mem_call_defs [op_defs] = mem_ops_def mem_AcquireClaim_def mem_RenewClaim_def
  mem_PrepareTransfer_def mem_CommitTransfer_def mem_AbortTransfer_def mem_ReleaseClaim_def

lemma mem_before_frame:
  assumes "mem_beforeMutate b e = (b', r)"
  shows "mb_claims b' = mb_claims b" "mb_ops b' = mb_ops b" "mb_gens b' = mb_gens b"
    "mb_watchers b' = mb_watchers b" "mb_chans b' = mb_chans b"
  using assms by (auto simp: mem_beforeMutate_def Let_def split: if_splits option.splits)

lemma mem_storeOp_frame [simp]:
  "mb_claims (mem_storeOp b i rec err) = mb_claims b"
  "mb_gens (mem_storeOp b i rec err) = mb_gens b"
  by (simp_all add: mem_storeOp_def)

lemma mem_put_frame [simp]:
  "mb_claims (mem_put b n cl) = (mb_claims b)(n \<mapsto> cl)" "mb_ops (mem_put b n cl) = mb_ops b"
  by (simp_all add: mem_put_def)

lemma mem_notify_frame [simp]:
  "mb_claims (mem_notifyLocked b t rec r) = mb_claims b"
  "mb_ops (mem_notifyLocked b t rec r) = mb_ops b"
  by (simp_all add: mem_notifyLocked_def)

definition expire_map :: "time \<Rightarrow> string \<Rightarrow> (string \<rightharpoonup> ClaimRecord) \<Rightarrow> (string \<rightharpoonup> ClaimRecord)" where
  "expire_map t n m = (case m n of None \<Rightarrow> m | Some cl \<Rightarrow> m(n \<mapsto> expire_record t cl))"

lemma mem_expire_frame [simp]:
  "mb_claims (mem_expireLocked b t n) = expire_map t n (mb_claims b)"
  "mb_ops (mem_expireLocked b t n) = mb_ops b"
  by (auto simp: mem_expireLocked_def expire_map_def split: option.splits)

lemma expire_record_name [simp]:
  "cr_Name (expire_record t cl) = cr_Name cl" "cr_FencingToken (expire_record t cl) = cr_FencingToken cl"
  by (simp_all add: expire_record_def)

lemma evolves_expire: "evolves n m (expire_map t n m)"
proof (cases "m n")
  case None then show ?thesis by (simp add: expire_map_def)
next
  case (Some cl)
  then show ?thesis
    by (auto simp: expire_map_def expire_record_def
        intro!: evolves_put_Some [where old = cl] intro: steps_vacate)
qed

lemmas evolves_expire_put = evolves_trans [OF evolves_expire evolves_put_Some]
lemmas evolves_expire_new = evolves_trans [OF evolves_expire evolves_put]

lemma advanceToken_cases:
  "advanceToken t = (u, None) \<longleftrightarrow> t < MaxSafeFencingToken \<and> u = t + 1"
  "advanceToken t = (u, Some er) \<longleftrightarrow>
     MaxSafeFencingToken \<le> t \<and> u = t \<and> er = Sentinel ErrTokenOverflow"
  by (auto simp: advanceToken_def)

lemma recallOp_None: "mem_recallOp b i = None \<longleftrightarrow> i = '''' \<or> mb_ops b i = None"
  by (simp add: mem_recallOp_def)

section \<open>Every method moves its claim along the abstract steps\<close>

lemma mem_AcquireClaim_evolves:
  "evolves (aq_ClaimName req) (mb_claims b) (mb_claims (fst (mem_AcquireClaim b e req)))"
proof (cases "mem_beforeMutate b e")
  case (Pair b1 r)
  note before = mem_before_frame [OF Pair]
  show ?thesis
    using Pair before(1)
    by (auto simp: mem_AcquireClaim_def Let_def advanceToken_cases new_record_def
          split: option.splits prod.splits
          intro!: evolves_expire evolves_expire_new intro: claim_steps)
qed

lemma mem_RenewClaim_evolves:
  "evolves (rn_ClaimName req) (mb_claims b) (mb_claims (fst (mem_RenewClaim b e req)))"
proof (cases "mem_beforeMutate b e")
  case (Pair b1 r)
  show ?thesis
    using Pair mem_before_frame(1) [OF Pair]
    by (auto simp: mem_RenewClaim_def Let_def split: option.splits
          intro!: evolves_expire evolves_expire_put intro: claim_steps)
qed

lemma mem_PrepareTransfer_evolves:
  "evolves (tr_ClaimName req) (mb_claims b) (mb_claims (fst (mem_PrepareTransfer b e req)))"
proof (cases "mem_beforeMutate b e")
  case (Pair b1 r)
  show ?thesis
    using Pair mem_before_frame(1) [OF Pair]
    by (auto simp: mem_PrepareTransfer_def Let_def split: option.splits
          intro!: evolves_expire evolves_expire_put intro: claim_steps)
qed

lemma mem_CommitTransfer_evolves:
  "evolves (cm_ClaimName req) (mb_claims b) (mb_claims (fst (mem_CommitTransfer b e req)))"
proof (cases "mem_beforeMutate b e")
  case (Pair b1 r)
  show ?thesis
    using Pair mem_before_frame(1) [OF Pair]
    by (auto simp: mem_CommitTransfer_def Let_def advanceToken_cases split: option.splits prod.splits
          intro!: evolves_expire evolves_expire_put intro: claim_steps)
qed

lemma mem_AbortTransfer_evolves:
  "evolves (ab_ClaimName req) (mb_claims b) (mb_claims (fst (mem_AbortTransfer b e req)))"
proof (cases "mem_beforeMutate b e")
  case (Pair b1 r)
  show ?thesis
    using Pair mem_before_frame(1) [OF Pair]
    by (auto simp: mem_AbortTransfer_def Let_def split: option.splits
          intro!: evolves_expire evolves_expire_put intro: claim_steps)
qed

lemma mem_ReleaseClaim_evolves:
  "evolves (rl_ClaimName req) (mb_claims b) (mb_claims (fst (mem_ReleaseClaim b e req)))"
proof (cases "mem_beforeMutate b e")
  case (Pair b1 r)
  show ?thesis
    using Pair mem_before_frame(1) [OF Pair]
    by (auto simp: mem_ReleaseClaim_def Let_def split: option.splits
          intro!: evolves_expire evolves_expire_put intro: claim_steps)
qed

lemma mem_GetClaim_evolves: "evolves n (mb_claims b) (mb_claims (fst (mem_GetClaim b e n)))"
  by (auto simp: mem_GetClaim_def Let_def evolves_expire split: option.splits)

lemma mem_Generation_frame:
  "mb_claims (fst (mem_RegisterGeneration b e g)) = mb_claims b"
  "mb_ops (fst (mem_RegisterGeneration b e g)) = mb_ops b"
  "mb_claims (fst (mem_UpdateGeneration b e g)) = mb_claims b"
  "mb_ops (fst (mem_UpdateGeneration b e g)) = mb_ops b"
  by (cases "mem_beforeMutate b e"; 
      force simp: mem_RegisterGeneration_def mem_UpdateGeneration_def dest: mem_before_frame
        split: option.splits)+

lemmas mem_evolves = mem_AcquireClaim_evolves mem_RenewClaim_evolves mem_PrepareTransfer_evolves
  mem_CommitTransfer_evolves mem_AbortTransfer_evolves mem_ReleaseClaim_evolves mem_GetClaim_evolves

section \<open>The operation log\<close>

lemma logs_store:
  "mem_recallOp b i = None \<Longrightarrow> mb_ops b' = mb_ops b \<Longrightarrow> logs i (mb_ops b) (mb_ops (mem_storeOp b' i rec err))"
  by (auto simp: logs_def mem_storeOp_def mem_recallOp_def split: if_splits)

lemma recallOp_cong: "mb_ops b' = mb_ops b \<Longrightarrow> mem_recallOp b' i = mem_recallOp b i"
  by (simp add: mem_recallOp_def)

lemma mem_AcquireClaim_logs:
  "logs (aq_OperationID req) (mb_ops b) (mb_ops (fst (mem_AcquireClaim b e req)))"
proof (cases "mem_beforeMutate b e")
  case (Pair b1 r)
  then have "logs (aq_OperationID req) (mb_ops b1) (mb_ops (fst (mem_AcquireClaim b e req)))"
    by (auto simp: mem_AcquireClaim_def Let_def split: option.splits prod.splits intro!: logs_store)
  then show ?thesis by (simp add: mem_before_frame(2) [OF Pair])
qed

lemma mem_RenewClaim_logs:
  "logs (rn_OperationID req) (mb_ops b) (mb_ops (fst (mem_RenewClaim b e req)))"
proof (cases "mem_beforeMutate b e")
  case (Pair b1 r)
  then have "logs (rn_OperationID req) (mb_ops b1) (mb_ops (fst (mem_RenewClaim b e req)))"
    by (auto simp: mem_RenewClaim_def Let_def split: option.splits intro!: logs_store)
  then show ?thesis by (simp add: mem_before_frame(2) [OF Pair])
qed

lemma mem_PrepareTransfer_logs:
  "logs (tr_OperationID req) (mb_ops b) (mb_ops (fst (mem_PrepareTransfer b e req)))"
proof (cases "mem_beforeMutate b e")
  case (Pair b1 r)
  define b2 where "b2 = b1\<lparr>mb_prepareCount := mb_prepareCount b1 + 1\<rparr>"
  from Pair have "logs (tr_OperationID req) (mb_ops b2) (mb_ops (fst (mem_PrepareTransfer b e req)))"
    unfolding mem_PrepareTransfer_def
    by (cases r) (auto simp: Let_def b2_def [symmetric] split: option.splits intro!: logs_store,
        auto simp: b2_def)
  then show ?thesis by (simp add: b2_def mem_before_frame(2) [OF Pair])
qed

lemma mem_CommitTransfer_logs:
  "logs (cm_OperationID req) (mb_ops b) (mb_ops (fst (mem_CommitTransfer b e req)))"
proof (cases "mem_beforeMutate b e")
  case (Pair b1 r)
  then have "logs (cm_OperationID req) (mb_ops b1) (mb_ops (fst (mem_CommitTransfer b e req)))"
    by (auto simp: mem_CommitTransfer_def Let_def split: option.splits prod.splits intro!: logs_store)
  then show ?thesis by (simp add: mem_before_frame(2) [OF Pair])
qed

lemma mem_AbortTransfer_logs:
  "logs (ab_OperationID req) (mb_ops b) (mb_ops (fst (mem_AbortTransfer b e req)))"
proof (cases "mem_beforeMutate b e")
  case (Pair b1 r)
  then have "logs (ab_OperationID req) (mb_ops b1) (mb_ops (fst (mem_AbortTransfer b e req)))"
    by (auto simp: mem_AbortTransfer_def Let_def split: option.splits intro!: logs_store)
  then show ?thesis by (simp add: mem_before_frame(2) [OF Pair])
qed

lemma mem_ReleaseClaim_logs:
  "logs (rl_OperationID req) (mb_ops b) (mb_ops (fst (mem_ReleaseClaim b e req)))"
proof (cases "mem_beforeMutate b e")
  case (Pair b1 r)
  then have "logs (rl_OperationID req) (mb_ops b1) (mb_ops (fst (mem_ReleaseClaim b e req)))"
    by (auto simp: mem_ReleaseClaim_def Let_def split: option.splits intro!: logs_store)
  then show ?thesis by (simp add: mem_before_frame(2) [OF Pair])
qed

lemma mem_GetClaim_ops: "mb_ops (fst (mem_GetClaim b e n)) = mb_ops b"
  by (auto simp: mem_GetClaim_def Let_def split: option.splits)

lemmas mem_logs = mem_AcquireClaim_logs mem_RenewClaim_logs mem_PrepareTransfer_logs
  mem_CommitTransfer_logs mem_AbortTransfer_logs mem_ReleaseClaim_logs

section \<open>What a successful call guarantees\<close>

lemma mem_AcquireClaim_ok:
  assumes "mem_AcquireClaim b e req = (b', rec, None)"
    and "mem_recallOp b (aq_OperationID req) = None"
  shows "\<exists>c. rec = Some c \<and> mb_claims b' (aq_ClaimName req) = Some c
           \<and> held_phase (cr_Phase c) \<and> cr_OwnerGeneration c = aq_GenerationID req"
proof (cases "mem_beforeMutate b e")
  case (Pair b1 r)
  show ?thesis
    using assms Pair recallOp_cong [OF mem_before_frame(2) [OF Pair]]
    by (auto simp: mem_AcquireClaim_def Let_def split: option.splits prod.splits if_splits)
qed

lemma mem_RenewClaim_ok:
  assumes "mem_RenewClaim b e req = (b', rec, None)"
    and "mem_recallOp b (rn_OperationID req) = None"
  shows "\<exists>c. rec = Some c \<and> mb_claims b' (rn_ClaimName req) = Some c \<and> held_phase (cr_Phase c)
           \<and> cr_OwnerGeneration c = rn_GenerationID req \<and> cr_FencingToken c = rn_Token req"
proof (cases "mem_beforeMutate b e")
  case (Pair b1 r)
  show ?thesis
    using assms Pair recallOp_cong [OF mem_before_frame(2) [OF Pair]]
    by (auto simp: mem_RenewClaim_def Let_def split: option.splits if_splits)
qed

lemma mem_PrepareTransfer_ok:
  assumes "mem_PrepareTransfer b e req = (b', rec, None)"
    and "mem_recallOp b (tr_OperationID req) = None"
  shows "\<exists>c. rec = Some c \<and> mb_claims b' (tr_ClaimName req) = Some c \<and> cr_Phase c = ClaimReserved
           \<and> cr_OwnerGeneration c = tr_FromGeneration req
           \<and> cr_PendingSuccessor c = tr_ToGeneration req \<and> cr_FencingToken c = tr_Token req"
proof (cases "mem_beforeMutate b e")
  case (Pair b1 r)
  have "mem_recallOp (b1\<lparr>mb_prepareCount := mb_prepareCount b1 + 1\<rparr>) i = mem_recallOp b i" for i
    by (rule recallOp_cong) (simp add: mem_before_frame(2) [OF Pair])
  with assms Pair show ?thesis
    by (auto simp: mem_PrepareTransfer_def Let_def split: option.splits if_splits; metis)
qed

lemma mem_CommitTransfer_ok:
  assumes "mem_CommitTransfer b e req = (b', rec, None)"
    and "mem_recallOp b (cm_OperationID req) = None"
  shows "\<exists>c. rec = Some c \<and> mb_claims b' (cm_ClaimName req) = Some c \<and> cr_Phase c = ClaimOwned
           \<and> cr_OwnerGeneration c = cm_ToGeneration req
           \<and> cr_FencingToken c = cm_ExpectedToken req + 1"
proof (cases "mem_beforeMutate b e")
  case (Pair b1 r)
  show ?thesis
    using assms Pair recallOp_cong [OF mem_before_frame(2) [OF Pair]]
    by (auto simp: mem_CommitTransfer_def Let_def advanceToken_cases
          split: option.splits prod.splits if_splits; metis)
qed

lemma expire_map_token: "v_token (map_view (expire_map t n m) n) = v_token (map_view m n)"
  by (auto simp: expire_map_def map_view_def rec_view_def split: option.splits)

lemma mem_AbortTransfer_ok:
  assumes "mem_AbortTransfer b e req = (b', rec, None)"
    and "mem_recallOp b (ab_OperationID req) = None"
  shows "\<exists>c. rec = Some c \<and> mb_claims b' (ab_ClaimName req) = Some c \<and> cr_Phase c = ClaimOwned
           \<and> cr_OwnerGeneration c = ab_FromGeneration req
           \<and> cr_FencingToken c = v_token (map_view (mb_claims b) (ab_ClaimName req))"
proof (cases "mem_beforeMutate b e")
  case (Pair b1 r)
  have "v_token (map_view (mb_claims b) (ab_ClaimName req)) =
      v_token (map_view (expire_map (tExpire e) (ab_ClaimName req) (mb_claims b1)) (ab_ClaimName req))"
    by (simp add: expire_map_token mem_before_frame(1) [OF Pair])
  then show ?thesis
    using assms Pair recallOp_cong [OF mem_before_frame(2) [OF Pair]]
    by (auto simp: mem_AbortTransfer_def Let_def map_view_def rec_view_def
          split: option.splits if_splits; metis option.inject)
qed

lemma mem_ReleaseClaim_ok:
  assumes "mem_ReleaseClaim b e req = (b', None)"
    and "mem_recallOp b (rl_OperationID req) = None"
  shows "map_view (mb_claims b') (rl_ClaimName req) = vacant (rl_Token req)"
proof (cases "mem_beforeMutate b e")
  case (Pair b1 r)
  show ?thesis
    using assms Pair recallOp_cong [OF mem_before_frame(2) [OF Pair]]
    by (auto simp: mem_ReleaseClaim_def Let_def map_view_Some rec_view_unheld rec_view_def
          split: option.splits if_splits)
qed

section \<open>The memory backend meets the contract\<close>

definition mem_view :: "mem_backend \<Rightarrow> string \<Rightarrow> claim_view" where
  "mem_view b n = map_view (mb_claims b) n"

definition mem_wf :: "mem_backend \<Rightarrow> bool" where
  "mem_wf b \<longleftrightarrow> claims_ok (mb_claims b)"

definition mem_seen :: "mem_backend \<Rightarrow> OperationID \<Rightarrow> bool" where
  "mem_seen b i \<longleftrightarrow> mem_recallOp b i \<noteq> None"

lemma mem_invoke_evolves:
  "case call_claim c of
     Some n \<Rightarrow> evolves n (mb_claims b) (mb_claims (fst (invoke mem_ops b e c)))
   | None \<Rightarrow> mb_claims (fst (invoke mem_ops b e c)) = mb_claims b"
  by (cases c) (auto simp: mem_ops_def mem_Generation_frame split: prod.splits;
      metis fst_conv mem_evolves mem_Generation_frame)+

lemma mem_invoke_logs: "logs (call_op c) (mb_ops b) (mb_ops (fst (invoke mem_ops b e c)))"
  by (cases c) (auto simp: mem_ops_def mem_logs mem_GetClaim_ops split: prod.splits;
      metis fst_conv mem_logs mem_Generation_frame logs_refl)+

interpretation mem: fenced_backend mem_ops mem_wf mem_view mem_seen
proof (unfold_locales, goal_cases)
  case (1 b e c)
  then show ?case
    using mem_invoke_evolves [where c = c and b = b and e = e]
    by (auto simp: mem_wf_def evolves_def split: option.splits)
next
  case (2 b c n e)
  then show ?case
    using mem_invoke_evolves [where c = c and b = b and e = e]
    by (auto simp: mem_wf_def mem_view_def map_view_def evolves_def split: option.splits)
next
  case (3 b c n e)
  then show ?case
    using mem_invoke_evolves [where c = c and b = b and e = e]
    by (auto simp: mem_wf_def mem_view_def evolves_def)
next
  case (4 b e c i)
  then show ?case
    using mem_invoke_logs [where c = c and b = b and e = e]
    by (auto simp: mem_seen_def logs_def recallOp_None split: if_splits)
next
  case (5 b r e b' rec)
  then show ?case
    using mem_AcquireClaim_ok [of b e r b' rec]
    by (auto simp: mem_ops_def mem_seen_def mem_view_def map_view_Some)
next
  case (6 b r e b' rec)
  then show ?case
    using mem_RenewClaim_ok [of b e r b' rec]
    by (auto simp: mem_ops_def mem_seen_def mem_view_def map_view_Some)
next
  case (7 b r e b' rec)
  then show ?case
    using mem_PrepareTransfer_ok [of b e r b' rec]
    by (auto simp: mem_ops_def mem_seen_def mem_view_def map_view_Some)
next
  case (8 b r e b' rec)
  then show ?case
    using mem_CommitTransfer_ok [of b e r b' rec]
    by (auto simp: mem_ops_def mem_seen_def mem_view_def map_view_Some)
next
  case (9 b r e b' rec)
  then show ?case
    using mem_AbortTransfer_ok [of b e r b' rec]
    by (auto simp: mem_ops_def mem_seen_def mem_view_def map_view_Some)
next
  case (10 b r e b')
  then show ?case
    using mem_ReleaseClaim_ok [of b e r b']
    by (auto simp: mem_ops_def mem_seen_def mem_view_def)
qed

end
