(* ===== verification/Memory_Safety.thy ===== *)
theory Memory_Safety
  imports Memory_Backend
begin

text \<open>
  The safety of the memory backend over whole histories: exclusive ownership per fencing token,
  monotone tokens, idempotent retries, rejection of former owners and of overflow, and the
  outcome of an acquire on every branch.
\<close>

section \<open>Runs with faults, watchers and restarts of the fault switches\<close>

text \<open>
  Everything that can happen to the store in production use or under the fault-injection tests:
  a call of a client, a flip of one of the fault switches, a forced expiry, a watcher coming or
  going, the store closing. (\<open>ForceSetToken\<close> overwrites the token on purpose and is left out.)
\<close>

datatype mem_action =
    ACall env call
  | ASetPartition bool
  | AFailNext "go_error option"
  | ASetDelay duration
  | ACrashOnCommit bool
  | AFailPrepareAt int
  | AForceExpire env string
  | AWatch string
  | AWatchDone nat
  | AClose

primrec mem_act :: "mem_backend \<Rightarrow> mem_action \<Rightarrow> mem_backend" where
  "mem_act b (ACall e c) = fst (invoke mem_ops b e c)"
| "mem_act b (ASetPartition on) = mem_SetPartition b on"
| "mem_act b (AFailNext err) = mem_FailNext b err"
| "mem_act b (ASetDelay d) = mem_SetDelay b d"
| "mem_act b (ACrashOnCommit v) = mem_CrashOnCommit b v"
| "mem_act b (AFailPrepareAt n) = mem_FailPrepareAt b n"
| "mem_act b (AForceExpire e n) = mem_ForceExpire b e n"
| "mem_act b (AWatch n) = fst (mem_WatchClaim b n)"
| "mem_act b (AWatchDone w) = mem_watch_done b w"
| "mem_act b AClose = fst (mem_Close b)"

abbreviation mem_run :: "mem_backend \<Rightarrow> mem_action list \<Rightarrow> mem_backend" where
  "mem_run b as \<equiv> foldl mem_act b as"

lemmas mem_switch_defs = mem_SetPartition_def mem_FailNext_def mem_SetDelay_def
  mem_CrashOnCommit_def mem_FailPrepareAt_def mem_WatchClaim_def mem_watch_done_def mem_Close_def

lemma mem_ForceExpire_evolves: "evolves n (mb_claims b) (mb_claims (mem_ForceExpire b e n))"
  by (auto simp: mem_ForceExpire_def split: option.splits intro: steps_same
      intro!: evolves_trans [OF evolves_put_Some evolves_expire])

lemma mem_ForceExpire_ops: "mb_ops (mem_ForceExpire b e n) = mb_ops b"
  by (auto simp: mem_ForceExpire_def split: option.splits)

lemma mem_act_frame:
  "(\<exists>n. evolves n (mb_claims b) (mb_claims (mem_act b a))) \<and>
   (\<exists>i. logs i (mb_ops b) (mb_ops (mem_act b a)))"
proof (cases a)
  case (ACall e c)
  then show ?thesis
    using mem_invoke_evolves [where c = c and b = b and e = e] mem_invoke_logs [where c = c and b = b and e = e]
    by (cases "call_claim c") (auto intro: evolves_refl)
next
  case (AForceExpire e n)
  then show ?thesis
    using mem_ForceExpire_evolves [of n b e] by (auto simp: mem_ForceExpire_ops intro: logs_refl)
qed (auto simp: mem_switch_defs Let_def intro: evolves_refl logs_refl split: option.splits)

lemma mem_act_steps:
  assumes "mem_wf b"
  shows "mem_wf (mem_act b a) \<and> fence_steps (mem_view b n) (mem_view (mem_act b a) n)"
proof -
  obtain k where "evolves k (mb_claims b) (mb_claims (mem_act b a))"
    using mem_act_frame by blast
  with assms show ?thesis
    by (cases "k = n") (auto simp: evolves_def mem_wf_def mem_view_def map_view_def)
qed

lemma mem_run_steps:
  "mem_wf b \<Longrightarrow> mem_wf (mem_run b as) \<and> fence_steps (mem_view b n) (mem_view (mem_run b as) n)"
proof (induction as rule: rev_induct)
  case (snoc a as)
  then have "mem_wf (mem_run b as)" and "fence_steps (mem_view b n) (mem_view (mem_run b as) n)"
    by auto
  with mem_act_steps [of "mem_run b as" a n] show ?case by auto
qed simp

lemma mem_run_ops: "mb_ops b i = Some r \<Longrightarrow> mb_ops (mem_run b as) i = Some r"
proof (induction as rule: rev_induct)
  case (snoc a as)
  then show ?case using mem_act_frame [of "mem_run b as" a] by (auto dest: logs_keeps)
qed simp

lemma mem_wf_New [simp]: "mem_wf (mem_New p)"
  by (simp add: mem_wf_def mem_New_def)

lemma mem_view_held:
  "mb_claims b n = Some r \<Longrightarrow> held_phase (cr_Phase r) \<Longrightarrow>
   v_holder (mem_view b n) = cr_OwnerGeneration r \<and> v_token (mem_view b n) = cr_FencingToken r"
  by (simp add: mem_view_def map_view_def rec_view_def)

text \<open>
  C4. Exclusive ownership per fencing token. Take any history of the memory backend (any
  interleaving of calls by any clients, with partitions, injected failures, crashes on commit,
  forced expiries, watchers and closing) and any two moments of it. If the same claim is held at
  both moments under the same token, it is held by the same generation.
\<close>

theorem mem_exclusive_epoch:
  assumes "mb_claims (mem_run (mem_New p) as) n = Some r1" and "held_phase (cr_Phase r1)"
    and "mb_claims (mem_run (mem_New p) (as @ bs)) n = Some r2" and "held_phase (cr_Phase r2)"
    and "cr_FencingToken r1 = cr_FencingToken r2" and "cr_OwnerGeneration r2 \<noteq> ''''"
  shows "cr_OwnerGeneration r1 = cr_OwnerGeneration r2"
proof -
  let ?s = "mem_run (mem_New p) as" and ?t = "mem_run (mem_New p) (as @ bs)"
  have "mem_wf ?s" using mem_run_steps [of "mem_New p" as] by simp
  then have "fence_steps (mem_view ?s n) (mem_view ?t n)"
    using mem_run_steps [of ?s bs n] by simp
  with assms(5,6) mem_view_held [OF assms(1,2)] mem_view_held [OF assms(3,4)] show ?thesis
    using fence_steps_epoch by metis
qed

lemma fence_steps_bound:
  "fence_steps v v' \<Longrightarrow> v_token v \<le> MaxSafeFencingToken \<Longrightarrow> v_token v' \<le> MaxSafeFencingToken"
proof (induction rule: rtranclp_induct)
  case (step y z)
  then have "v_token y \<le> MaxSafeFencingToken" by simp
  with step.hyps(2) show ?case
    by (induction rule: fence_step.induct) (auto simp: inc_le)
qed simp

text \<open>
  Fencing tokens never decrease and never wrap: along any history of the memory backend the
  token of a claim grows monotonically and stays at or below \<open>MaxSafeFencingToken\<close>.
\<close>

theorem mem_token_monotone:
  "v_token (mem_view (mem_run (mem_New p) as) n) \<le> v_token (mem_view (mem_run (mem_New p) (as @ bs)) n)
   \<and> unat (v_token (mem_view (mem_run (mem_New p) (as @ bs)) n)) \<le> 2 ^ 64 - 2"
proof -
  let ?s = "mem_run (mem_New p) as" and ?t = "mem_run (mem_New p) (as @ bs)"
  have "mem_wf ?s" using mem_run_steps [of "mem_New p" as] by simp
  then have "fence_steps (mem_view ?s n) (mem_view ?t n)"
    using mem_run_steps [of ?s bs n] by simp
  then have "v_token (mem_view ?s n) \<le> v_token (mem_view ?t n)"
    by (rule fence_steps_token_mono)
  moreover have "fence_steps (mem_view (mem_New p) n) (mem_view ?t n)"
    using mem_run_steps [of "mem_New p" "as @ bs" n] by simp
  then have "v_token (mem_view ?t n) \<le> MaxSafeFencingToken"
    by (rule fence_steps_bound) (simp add: mem_view_def mem_New_def map_view_def less_imp_le)
  then have "unat (v_token (mem_view ?t n)) \<le> 2 ^ 64 - 2"
    by (simp only: word_le_nat_alt unat_MaxSafe)
  ultimately show ?thesis by blast
qed

section \<open>Idempotent retries\<close>

lemma mem_success_stored:
  assumes "invoke mem_ops s e c = (s1, rec, None)" and "call_op c \<noteq> ''''"
  shows "\<exists>r. mb_ops s1 (call_op c) = Some r \<and> or_err r = None
           \<and> (case c of CRelease _ \<Rightarrow> rec = None | _ \<Rightarrow> or_rec r = rec)"
proof (cases "mem_beforeMutate s e")
  case (Pair b1 er)
  with assms show ?thesis
    by (cases c) (auto simp: op_defs
        mem_storeOp_def mem_recallOp_def advanceToken_cases Let_def
        split: option.splits prod.splits if_splits)
qed

lemma mem_recalled_result:
  assumes "mb_ops s (call_op c) = Some r" and "call_op c \<noteq> ''''"
    and "mem_beforeMutate s e = (s1, None)" and "mb_failPrepareAt s \<le> 0"
  shows "snd (invoke mem_ops s e c) = (case c of CRelease _ \<Rightarrow> None | _ \<Rightarrow> or_rec r, or_err r)
       \<and> mb_claims (fst (invoke mem_ops s e c)) = mb_claims s
       \<and> mb_ops (fst (invoke mem_ops s e c)) = mb_ops s"
proof -
  have "mb_failPrepareAt s1 \<le> 0"
    using assms(3,4) by (auto simp: mem_beforeMutate_def Let_def split: if_splits option.splits)
  with assms mem_before_frame [OF assms(3)] show ?thesis
    by (cases c) (auto simp: op_defs
        mem_recallOp_def)
qed

text \<open>
  What the log keeps of an error: \<open>AcquireClaim\<close> records the bare \<open>ErrTokenOverflow\<close> and returns
  it wrapped in an \<open>*Error\<close>; every other recorded outcome is the reply itself.
\<close>

fun logged_error :: "call \<Rightarrow> go_error option \<Rightarrow> go_error option" where
  "logged_error (CAcquire q) (Some (EError f (Some (Sentinel ErrTokenOverflow))))
     = Some (Sentinel ErrTokenOverflow)"
| "logged_error c er = er"

lemma mem_refusal_stored:
  assumes "invoke mem_ops s e c = (s1, rec, Some er)"
    and "mb_ops s (call_op c) = None" and "mb_ops s1 (call_op c) = Some r"
  shows "(case c of CRelease _ \<Rightarrow> None | _ \<Rightarrow> or_rec r) = rec \<and> or_err r = logged_error c (Some er)"
proof (cases "mem_beforeMutate s e")
  case (Pair b1 x)
  with assms mem_before_frame(2) [OF Pair] show ?thesis
    by (cases c) (auto simp: op_defs
        mem_RegisterGeneration_def mem_UpdateGeneration_def mem_GetClaim_def
        mem_storeOp_def mem_recallOp_def advanceToken_cases advanceToken_def Let_def
        split: option.splits prod.splits if_splits)
qed

lemma mem_recalled_state:
  assumes "mb_ops s (call_op c) = Some r" and "call_op c \<noteq> ''''"
    and "mem_beforeMutate s e = (s1, None)" and "mb_failPrepareAt s \<le> 0"
  shows "fst (invoke mem_ops s e c)
       = (case c of CPrepare _ \<Rightarrow> s\<lparr>mb_prepareCount := mb_prepareCount s + 1\<rparr> | _ \<Rightarrow> s)"
proof -
  have "s1 = s"
    using assms(3) by (auto simp: mem_beforeMutate_def Let_def split: if_splits option.splits)
  with assms show ?thesis
    by (cases c) (auto simp: op_defs
        mem_recallOp_def)
qed

text \<open>
  C18. Retrying with the same operation identifier is harmless. Take a call with a non-empty
  \<open>OperationID\<close> that succeeded, or that was refused and left its refusal in the operation log.
  After any further history, a retry of the same call that reaches the store (it is not closed or
  partitioned, no fault is injected) returns the same record and the same success or refusal
  again, whoever holds the claim by then (a refusal for token overflow loses its \<open>*Error\<close> wrapper),
  and the store is left exactly as it was, but for the count of \<open>PrepareTransfer\<close> calls: no token
  is advanced twice and a refusal never turns into a grant.
\<close>

theorem mem_retry_idempotent:
  assumes "invoke mem_ops s e c = (s1, rec, er)" and "call_op c \<noteq> ''''"
    and "er = None \<or> mb_ops s (call_op c) = None \<and> mb_ops s1 (call_op c) \<noteq> None"
    and "mem_beforeMutate (mem_run s1 as) e' = (s2, None)" and "mb_failPrepareAt (mem_run s1 as) \<le> 0"
  shows "snd (invoke mem_ops (mem_run s1 as) e' c) = (rec, logged_error c er)
       \<and> fst (invoke mem_ops (mem_run s1 as) e' c)
         = (case c of
              CPrepare _ \<Rightarrow> (mem_run s1 as)\<lparr>mb_prepareCount := mb_prepareCount (mem_run s1 as) + 1\<rparr>
            | _ \<Rightarrow> mem_run s1 as)"
proof -
  obtain r where r: "mb_ops s1 (call_op c) = Some r" "or_err r = logged_error c er"
      "(case c of CRelease _ \<Rightarrow> None | _ \<Rightarrow> or_rec r) = rec"
  proof (cases er)
    case None
    with mem_success_stored [of s e c s1 rec] assms(1,2) that show ?thesis by (cases c) auto
  next
    case (Some x)
    with mem_refusal_stored [of s e c s1 rec x] assms(1,3) that show ?thesis by auto
  qed
  have "mb_ops (mem_run s1 as) (call_op c) = Some r"
    using r(1) by (rule mem_run_ops)
  from mem_recalled_result [OF this assms(2,4,5)] mem_recalled_state [OF this assms(2,4,5)] r(2,3)
  show ?thesis by (cases c) auto
qed

definition retry_store :: "mem_backend \<times> rec_result" where
  "retry_store = invoke mem_ops (mem_New False) (at_time 10) (acquire_call ''jobs'' ''g1'' 100 ''op-1'')"

definition refused_store :: "mem_backend \<times> rec_result" where
  "refused_store = invoke mem_ops (fst retry_store) (at_time 20) (acquire_call ''jobs'' ''g2'' 100 ''op-2'')"

definition retry_history :: "mem_action list" where
  "retry_history =
     [ACall (at_time 200) (acquire_call ''jobs'' ''g2'' 100 ''op-2''),
      ACall (at_time 250) (release_call ''jobs'' ''g2'' 2 ''op-3'')]"

lemma retry_store_eval:
  "map_option cr_FencingToken (fst (snd retry_store)) = Some 1 \<and> snd (snd retry_store) = None
   \<and> mb_failPrepareAt (mem_run (fst retry_store) retry_history) = 0
   \<and> snd (mem_beforeMutate (mem_run (fst retry_store) retry_history) (at_time 300)) = None"
  by code_simp

definition refused_history :: "mem_action list" where
  "refused_history = [ACall (at_time 30) (release_call ''jobs'' ''g1'' 1 ''op-3'')]"

lemma refused_store_eval:
  "snd (snd refused_store) = Some (Sentinel ErrClaimHeld)
   \<and> mb_ops (fst retry_store) ''op-2'' = None \<and> mb_ops (fst refused_store) ''op-2'' \<noteq> None
   \<and> mb_failPrepareAt (mem_run (fst refused_store) refused_history) = 0
   \<and> map_option cr_Phase (mb_claims (mem_run (fst refused_store) refused_history) ''jobs'')
       = Some ClaimUnowned
   \<and> snd (mem_beforeMutate (mem_run (fst refused_store) refused_history) (at_time 40)) = None"
  by code_simp

theorem mem_retry_idempotent_witness:
  "map_option cr_Phase (mb_claims (mem_run (fst refused_store) refused_history) ''jobs'') = Some ClaimUnowned
   \<and> snd (snd (invoke mem_ops (mem_run (fst refused_store) refused_history) (at_time 40)
            (acquire_call ''jobs'' ''g2'' 100 ''op-2''))) = Some (Sentinel ErrClaimHeld)"
proof -
  let ?c = "acquire_call ''jobs'' ''g2'' 100 ''op-2''"
  let ?t = "mem_run (fst refused_store) refused_history"
  note ev = refused_store_eval
  have "invoke mem_ops (fst retry_store) (at_time 20) ?c
      = (fst refused_store, fst (snd refused_store), Some (Sentinel ErrClaimHeld))"
    using ev by (metis prod.collapse refused_store_def)
  moreover have "mem_beforeMutate ?t (at_time 40) = (fst (mem_beforeMutate ?t (at_time 40)), None)"
    using ev by (metis prod.collapse)
  moreover have "call_op ?c = ''op-2''" by (simp add: acquire_call_def)
  ultimately show ?thesis
    using ev mem_retry_idempotent [of "fst retry_store" "at_time 20" ?c "fst refused_store"
        "fst (snd refused_store)" "Some (Sentinel ErrClaimHeld)" refused_history "at_time 40"]
    by (simp del: foldl_Cons)
qed

section \<open>Former owners are powerless\<close>

text \<open>
  The token a caller presents; and the two calls that the store answers with the record as it
  stands because what they ask for is already so: the commit of the transfer that made the record,
  and an abort that names the present owner while no transfer is pending.
\<close>

fun call_token :: "call \<Rightarrow> FencingToken option" where
  "call_token (CRenew r) = Some (rn_Token r)"
| "call_token (CPrepare r) = Some (tr_Token r)"
| "call_token (CCommit r) = Some (cm_ExpectedToken r)"
| "call_token (CAbort r) = Some (ab_ExpectedToken r)"
| "call_token (CRelease r) = Some (rl_Token r)"
| "call_token _ = None"

fun already_so :: "ClaimRecord \<Rightarrow> call \<Rightarrow> bool" where
  "already_so cl (CCommit r) \<longleftrightarrow>
     cr_Phase cl = ClaimOwned \<and> cr_OwnerGeneration cl = cm_ToGeneration r
     \<and> cr_FencingToken cl = cm_ExpectedToken r + 1 \<and> cr_TransferStatus cl = ''committed''"
| "already_so cl (CAbort r) \<longleftrightarrow> cr_Phase cl = ClaimOwned \<and> cr_OwnerGeneration cl = ab_FromGeneration r"
| "already_so cl _ \<longleftrightarrow> False"

lemma expire_map_live: "m n = Some cl \<Longrightarrow> expire_record t cl = cl \<Longrightarrow> expire_map t n m = m"
  by (auto simp: expire_map_def)

lemma mem_wrong_token_rejected:
  assumes cur: "mb_claims b n = Some cl" and live: "expire_record (tExpire e) cl = cl"
    and c: "call_claim c = Some n" "call_token c = Some tok" "tok \<noteq> cr_FencingToken cl"
    and fresh: "mem_recallOp b (call_op c) = None"
  shows "((\<exists>er. snd (snd (invoke mem_ops b e c)) = Some er)
          \<or> already_so cl c \<and> snd (invoke mem_ops b e c) = (Some cl, None))
       \<and> mb_claims (fst (invoke mem_ops b e c)) n = Some cl"
proof (cases "mem_beforeMutate b e")
  case (Pair b1 r)
  have recall: "mem_recallOp b2 i = mem_recallOp b i" if "mb_ops b2 = mb_ops b1" for b2 i
    using that by (intro recallOp_cong) (simp add: mem_before_frame(2) [OF Pair])
  have cur1: "mb_claims b1 n = Some cl" using cur mem_before_frame(1) [OF Pair] by simp
  have em: "expire_map (tExpire e) n (mb_claims b1) = mb_claims b1"
    by (rule expire_map_live) (fact cur1 live)+
  show ?thesis
    using Pair c fresh recall cur1 em
    by (cases c) (auto simp: mem_ops_def mem_RenewClaim_def mem_PrepareTransfer_def
        mem_CommitTransfer_def mem_AbortTransfer_def mem_ReleaseClaim_def Let_def
        split: option.splits prod.splits)
qed

text \<open>
  C6. A former owner cannot touch its successor's claim. If generation \<open>g\<close> held a claim at some
  moment of a history and later another generation holds it (with an unexpired lease), then every
  new call with the token that was granted to \<open>g\<close> leaves the successor's record exactly as it was.
  Renewing, reserving a transfer and releasing return an error; so do commit and abort, except
  that the commit of the very transfer that made the successor owner, and an abort that names the
  successor itself as the owner, are answered with the successor's record.
\<close>

theorem mem_former_owner_rejected:
  assumes "mb_claims (mem_run (mem_New p) as) n = Some r1" and "held_phase (cr_Phase r1)"
    and "mb_claims (mem_run (mem_New p) (as @ bs)) n = Some r2" and "held_phase (cr_Phase r2)"
    and "cr_OwnerGeneration r2 \<noteq> ''''" and "cr_OwnerGeneration r1 \<noteq> cr_OwnerGeneration r2"
    and "expire_record (tExpire e) r2 = r2"
    and "call_claim c = Some n" and "call_token c = Some (cr_FencingToken r1)"
    and "mem_recallOp (mem_run (mem_New p) (as @ bs)) (call_op c) = None"
  shows "((\<exists>er. snd (snd (invoke mem_ops (mem_run (mem_New p) (as @ bs)) e c)) = Some er)
          \<or> already_so r2 c
            \<and> snd (invoke mem_ops (mem_run (mem_New p) (as @ bs)) e c) = (Some r2, None))
       \<and> mb_claims (fst (invoke mem_ops (mem_run (mem_New p) (as @ bs)) e c)) n = Some r2"
proof -
  let ?s = "mem_run (mem_New p) as" and ?t = "mem_run (mem_New p) (as @ bs)"
  have "mem_wf ?s" using mem_run_steps [of "mem_New p" as] by simp
  then have "fence_steps (mem_view ?s n) (mem_view ?t n)"
    using mem_run_steps [of ?s bs n] by simp
  then have "cr_FencingToken r1 \<noteq> cr_FencingToken r2"
    using fence_steps_epoch mem_view_held [OF assms(1,2)] mem_view_held [OF assms(3,4)] assms(5,6)
    by metis
  then show ?thesis
    by (rule mem_wrong_token_rejected [OF assms(3,7,8,9) _ assms(10)])
qed

definition takeover1 :: "mem_action list" where
  "takeover1 = [ACall (at_time 10) (acquire_call ''jobs'' ''g1'' 100 ''op-1'')]"

definition takeover2 :: "mem_action list" where
  "takeover2 = [ASetPartition True, ACall (at_time 200) (acquire_call ''jobs'' ''g2'' 100 ''op-2'')]"

definition owner_token :: "mem_backend \<Rightarrow> string \<Rightarrow> (string \<times> FencingToken \<times> bool \<times> time) option" where
  "owner_token b n =
     map_option (\<lambda>r. (cr_OwnerGeneration r, cr_FencingToken r, held_phase (cr_Phase r), cr_ExpiresAt r))
       (mb_claims b n)"

lemma takeover_eval:
  "owner_token (mem_run (mem_New False) takeover1) ''jobs'' = Some (''g1'', 1, True, 110)"
  "owner_token (mem_run (mem_New False) (takeover1 @ takeover2)) ''jobs'' = Some (''g2'', 2, True, 300)"
  "mem_recallOp (mem_run (mem_New False) (takeover1 @ takeover2)) ''op-9'' = None"
  by code_simp+

lemma owner_token_Some:
  "owner_token b n = Some (g, t, h, x) \<longleftrightarrow>
     (\<exists>r. mb_claims b n = Some r \<and> cr_OwnerGeneration r = g \<and> cr_FencingToken r = t
        \<and> held_phase (cr_Phase r) = h \<and> cr_ExpiresAt r = x)"
  by (auto simp: owner_token_def)

theorem mem_former_owner_rejected_witness:
  "\<exists>er. snd (snd (invoke mem_ops (mem_run (mem_New False) (takeover1 @ takeover2)) (at_time 250)
            (release_call ''jobs'' ''g1'' 1 ''op-9''))) = Some er"
proof -
  let ?c = "release_call ''jobs'' ''g1'' 1 ''op-9''"
  obtain r1 r2 where
    r1: "mb_claims (mem_run (mem_New False) takeover1) ''jobs'' = Some r1"
      "cr_OwnerGeneration r1 = ''g1''" "cr_FencingToken r1 = 1" "held_phase (cr_Phase r1)"
    and r2: "mb_claims (mem_run (mem_New False) (takeover1 @ takeover2)) ''jobs'' = Some r2"
      "cr_OwnerGeneration r2 = ''g2''" "held_phase (cr_Phase r2)" "cr_ExpiresAt r2 = 300"
    using takeover_eval(1,2) unfolding owner_token_Some by blast
  have live: "expire_record (tExpire (at_time 250)) r2 = r2"
    using r2(4) by (simp add: expire_record_def at_time_def)
  have "call_claim ?c = Some ''jobs''" and "call_token ?c = Some (cr_FencingToken r1)"
    and "call_op ?c = ''op-9''" and "\<not> already_so r2 ?c"
    by (simp_all add: r1 release_call_def)
  then show ?thesis
    using mem_former_owner_rejected [OF r1(1,4) r2(1,3) _ _ live, of ?c] r1(2) r2(2) takeover_eval(3)
    by (simp del: foldl_append)
qed

theorem mem_exclusive_epoch_witness:
  "\<exists>r1 r2. mb_claims (mem_run (mem_New False) takeover1) ''jobs'' = Some r1
     \<and> mb_claims (mem_run (mem_New False) (takeover1 @ [ASetPartition True])) ''jobs'' = Some r2
     \<and> cr_OwnerGeneration r1 = cr_OwnerGeneration r2 \<and> cr_OwnerGeneration r1 = ''g1''"
proof -
  have "owner_token (mem_run (mem_New False) (takeover1 @ [ASetPartition True])) ''jobs''
      = Some (''g1'', 1, True, 110)"
    by code_simp
  then obtain r1 r2 where
    r1: "mb_claims (mem_run (mem_New False) takeover1) ''jobs'' = Some r1"
      "cr_OwnerGeneration r1 = ''g1''" "cr_FencingToken r1 = 1" "held_phase (cr_Phase r1)"
    and r2: "mb_claims (mem_run (mem_New False) (takeover1 @ [ASetPartition True])) ''jobs'' = Some r2"
      "cr_OwnerGeneration r2 = ''g1''" "cr_FencingToken r2 = 1" "held_phase (cr_Phase r2)"
    using takeover_eval(1) unfolding owner_token_Some by blast
  then show ?thesis
    using mem_exclusive_epoch [OF r1(1,4) r2(1,4)] by auto
qed

section \<open>The outcome of an acquire\<close>

definition current_record :: "mem_backend \<Rightarrow> env \<Rightarrow> string \<Rightarrow> ClaimRecord" where
  "current_record b e n =
     (case expire_map (tExpire e) n (mb_claims b) n of Some cl \<Rightarrow> cl | None \<Rightarrow> new_record n)"

text \<open>
  \<open>AcquireClaim\<close> decides by the claim as it stands once an expired lease is cleared: the
  current owner keeps its token and gets a new deadline, anybody else is refused with
  \<open>ErrClaimHeld\<close> and changes nothing, a vacant claim whose tokens are used up is refused with
  \<open>ErrTokenOverflow\<close>, and otherwise a vacant claim is granted under the next token.
\<close>

theorem mem_acquire_outcome:
  assumes "mem_beforeMutate b e = (b1, None)" and "mem_recallOp b (aq_OperationID req) = None"
    and "mem_AcquireClaim b e req = (b', rec, er)"
    and "cl = current_record b e (aq_ClaimName req)"
  shows "if held_phase (cr_Phase cl) \<and> cr_OwnerGeneration cl = aq_GenerationID req then
           er = None \<and> (\<exists>c. rec = Some c \<and> mb_claims b' (aq_ClaimName req) = Some c
             \<and> cr_FencingToken c = cr_FencingToken cl \<and> cr_OwnerGeneration c = aq_GenerationID req
             \<and> cr_ExpiresAt c = tNow e + aq_TTL req)
         else if held_phase (cr_Phase cl) then
           er = Some (Sentinel ErrClaimHeld) \<and> mb_claims b' (aq_ClaimName req) = Some cl
         else if MaxSafeFencingToken \<le> cr_FencingToken cl then
           (\<exists>x. er = Some x \<and> errors_Is x ErrTokenOverflow) \<and> mb_claims b' (aq_ClaimName req) = Some cl
         else
           er = None \<and> (\<exists>c. rec = Some c \<and> mb_claims b' (aq_ClaimName req) = Some c
             \<and> cr_Phase c = ClaimOwned \<and> cr_OwnerGeneration c = aq_GenerationID req
             \<and> unat (cr_FencingToken c) = Suc (unat (cr_FencingToken cl))
             \<and> cr_ExpiresAt c = tNow e + aq_TTL req)"
proof -
  have claims1: "mb_claims b1 = mb_claims b" using mem_before_frame(1) [OF assms(1)] .
  have recall1: "mem_recallOp b1 (aq_OperationID req) = None"
    using assms(2) recallOp_cong [OF mem_before_frame(2) [OF assms(1)]] by simp
  define cur where "cur = expire_map (tExpire e) (aq_ClaimName req) (mb_claims b) (aq_ClaimName req)"
  have cl: "cl = (case cur of Some cl \<Rightarrow> cl | None \<Rightarrow> new_record (aq_ClaimName req))"
    using assms(4) by (simp add: current_record_def cur_def)
  show ?thesis
    using assms(3) unfolding mem_AcquireClaim_def assms(1)
    by (auto simp: recall1 claims1 cur_def [symmetric] cl [symmetric] Let_def advanceToken_def
          unat_Suc_less [of _ MaxSafeFencingToken] not_le split: if_splits prod.splits)
qed

theorem mem_acquire_outcome_witness:
  "\<exists>c. fst (snd retry_store) = Some c \<and> cr_Phase c = ClaimOwned
     \<and> cr_OwnerGeneration c = ''g1'' \<and> unat (cr_FencingToken c) = 1"
proof -
  define req where "req = \<lparr>aq_ClaimName = ''jobs'', aq_GenerationID = ''g1'', aq_TTL = 100,
      aq_AllowEmptyOnly = False, aq_OperationID = ''op-1''\<rparr>"
  have store: "retry_store = mem_AcquireClaim (mem_New False) (at_time 10) req"
    by (simp add: retry_store_def acquire_call_def mem_ops_def req_def)
  have cur: "current_record (mem_New False) (at_time 10) (aq_ClaimName req) = new_record ''jobs''"
    by (simp add: current_record_def expire_map_def mem_New_def req_def)
  have fresh: "mem_recallOp (mem_New False) (aq_OperationID req) = None"
    by (simp add: mem_recallOp_def mem_New_def)
  have before: "mem_beforeMutate (mem_New False) (at_time 10) = (mem_New False, None)"
    by (simp add: mem_beforeMutate_def mem_New_def)
  obtain b' rec er where res: "mem_AcquireClaim (mem_New False) (at_time 10) req = (b', rec, er)"
    by (metis prod.collapse)
  from store res have out: "retry_store = (b', rec, er)" by simp
  from mem_acquire_outcome [OF before fresh res cur [symmetric]] show ?thesis
    unfolding out by (auto simp: new_record_def req_def not_le)
qed

end
