(* ===== verification/Kubernetes_Backend.thy ===== *)
theory Kubernetes_Backend
  imports Backend_Spec
begin

text \<open>
  \<open>backend/kubernetes/kubernetes.go\<close>: the backend that keeps a claim in a Kubernetes Lease object.
  Here no lock spans a method: it reads the object, decides, and writes it back with the resource
  version it has read, and the server refuses the write when the object has changed. A method is
  therefore a program of requests (\<open>io\<close>), which can be interleaved with the programs of other
  processes at every request. The theory holds the codec between claim records and annotations, the
  methods, the in-process server \<open>MemoryLeaseClient\<close> and clusters of processes that share a server.
  The server's version counter, an \<open>int\<close> that only counts up from zero, is a natural number.
\<close>

section \<open>Lease objects and their annotations\<close>

record LeaseObject =
  ls_Name :: string
  ls_HolderIdentity :: string
  ls_LeaseDurationSecs :: int
  ls_AcquireTime :: time
  ls_RenewTime :: time
  ls_ResourceVersion :: string
  ls_Annotations :: "string \<rightharpoonup> string"

definition annToken :: string where "annToken = ''shiftlock.theworker02.io/fencing-token''"
definition annPhase :: string where "annPhase = ''shiftlock.theworker02.io/phase''"
definition annPrev :: string where "annPrev = ''shiftlock.theworker02.io/previous-owner''"
definition annSuccessor :: string where "annSuccessor = ''shiftlock.theworker02.io/pending-successor''"
definition annTransfer :: string where "annTransfer = ''shiftlock.theworker02.io/transfer-status''"
definition annDrain :: string where "annDrain = ''shiftlock.theworker02.io/drain-status''"
definition annReason :: string where "annReason = ''shiftlock.theworker02.io/reason''"
definition annVersion :: string where "annVersion = ''shiftlock.theworker02.io/version''"
definition annAcquired :: string where "annAcquired = ''shiftlock.theworker02.io/acquired-at''"

lemmas ann_defs = annToken_def annPhase_def annPrev_def annSuccessor_def annTransfer_def annDrain_def
  annReason_def annVersion_def annAcquired_def

lemma ann_distinct: "distinct [annToken, annPhase, annPrev, annSuccessor, annTransfer, annDrain, annReason, annVersion, annAcquired]"
  by (simp add: ann_defs)

lemma ann_distinct_rev: "distinct [annAcquired, annVersion, annReason, annDrain, annTransfer, annSuccessor, annPrev, annPhase, annToken]"
  by (simp add: ann_defs)

lemmas ann_neq [simp] =
  ann_distinct [unfolded distinct.simps list.set insert_iff empty_iff simp_thms de_Morgan_disj conj_assoc]
  ann_distinct_rev [unfolded distinct.simps list.set insert_iff empty_iff simp_thms de_Morgan_disj conj_assoc]

text \<open>A missing key reads as the empty string.\<close>

definition ann_get :: "(string \<rightharpoonup> string) \<Rightarrow> string \<Rightarrow> string" where
  "ann_get m k = (case m k of None \<Rightarrow> '''' | Some v \<Rightarrow> v)"

text \<open>
  \<open>ClaimPhase\<close> and \<open>TransitionReason\<close> are strings in Go, so reading one from an annotation is a
  conversion; the constants have constructors of their own.
\<close>

definition ClaimPhase_of :: "string \<Rightarrow> ClaimPhase" where
  "ClaimPhase_of s =
     (if s = ''unowned'' then ClaimUnowned else if s = ''owned'' then ClaimOwned
      else if s = ''reserved'' then ClaimReserved else if s = ''draining'' then ClaimDraining
      else ClaimPhaseOther s)"

primrec TransitionReason_string :: "TransitionReason \<Rightarrow> string" where
  "TransitionReason_string ReasonRegistered = ''registered''"
| "TransitionReason_string ReasonReadinessPassed = ''readiness_passed''"
| "TransitionReason_string ReasonReadinessFailed = ''readiness_failed''"
| "TransitionReason_string ReasonAcquired = ''acquired''"
| "TransitionReason_string ReasonRenewed = ''renewed''"
| "TransitionReason_string ReasonDrainStarted = ''drain_started''"
| "TransitionReason_string ReasonDrainComplete = ''drain_complete''"
| "TransitionReason_string ReasonTransferPrepared = ''transfer_prepared''"
| "TransitionReason_string ReasonTransferCommitted = ''transfer_committed''"
| "TransitionReason_string ReasonTransferAborted = ''transfer_aborted''"
| "TransitionReason_string ReasonReleased = ''released''"
| "TransitionReason_string ReasonExpired = ''expired''"
| "TransitionReason_string ReasonFencedOut = ''fenced_out''"
| "TransitionReason_string ReasonRetired = ''retired''"
| "TransitionReason_string ReasonFailed = ''failed''"
| "TransitionReason_string ReasonClosed = ''closed''"
| "TransitionReason_string ReasonRollback = ''rollback''"
| "TransitionReason_string ReasonTimeout = ''timeout''"
| "TransitionReason_string ReasonPartition = ''partition''"
| "TransitionReason_string (ReasonOther s) = s"

definition named_reasons :: "TransitionReason list" where
  "named_reasons =
     [ReasonRegistered, ReasonReadinessPassed, ReasonReadinessFailed, ReasonAcquired, ReasonRenewed,
      ReasonDrainStarted, ReasonDrainComplete, ReasonTransferPrepared, ReasonTransferCommitted,
      ReasonTransferAborted, ReasonReleased, ReasonExpired, ReasonFencedOut, ReasonRetired,
      ReasonFailed, ReasonClosed, ReasonRollback, ReasonTimeout, ReasonPartition]"

definition TransitionReason_of :: "string \<Rightarrow> TransitionReason" where
  "TransitionReason_of s =
     (case List.find (\<lambda>r. TransitionReason_string r = s) named_reasons of Some r \<Rightarrow> r | None \<Rightarrow> ReasonOther s)"

text \<open>
  \<open>fmt.Sscanf(s, "%d", &x)\<close>, whose error the code ignores: leading blanks are skipped, digits are
  read as far as they go, and \<open>x\<close> keeps its zero when there is none or the number does not fit.
  A signed number may start with a sign.
\<close>

definition scan_blank :: "char \<Rightarrow> bool" where
  "scan_blank c \<longleftrightarrow> (of_char c :: nat) \<in> {9, 11, 12, 13, 32}"

definition scan_uint64 :: "string \<Rightarrow> u64" where
  "scan_uint64 s =
     (let ds = takeWhile is_digit (dropWhile scan_blank s)
      in if ds = [] \<or> 2 ^ 64 \<le> undec 0 ds then 0 else of_nat (undec 0 ds))"

fun scan_signed :: "string \<Rightarrow> bool \<times> string" where
  "scan_signed [] = (False, [])"
| "scan_signed (c # cs) =
     (if c = CHR ''-'' then (True, takeWhile is_digit cs)
      else if c = CHR ''+'' then (False, takeWhile is_digit cs)
      else (False, takeWhile is_digit (c # cs)))"

definition scan_int64 :: "string \<Rightarrow> int" where
  "scan_int64 s =
     (case scan_signed (dropWhile scan_blank s) of (neg, ds) \<Rightarrow>
        (let i = (if neg then - int (undec 0 ds) else int (undec 0 ds))
         in if ds = [] \<or> i < - (2 ^ 63) \<or> 2 ^ 63 \<le> i then 0 else i))"

definition recordFromLease :: "string \<Rightarrow> LeaseObject \<Rightarrow> ClaimRecord" where
  "recordFromLease claim l =
     (let ann = ls_Annotations l;
          token = scan_uint64 (ann_get ann annToken);
          ver = scan_uint64 (ann_get ann annVersion);
          phase = (if ann_get ann annPhase = '''' then (if ls_HolderIdentity l = '''' then ClaimUnowned else ClaimOwned)
                   else ClaimPhase_of (ann_get ann annPhase))
      in \<lparr>cr_Name = claim, cr_OwnerGeneration = ls_HolderIdentity l, cr_FencingToken = token, cr_Phase = phase,
          cr_AcquiredAt = (if ann_get ann annAcquired = '''' then 0 else unix_epoch + scan_int64 (ann_get ann annAcquired)),
          cr_ExpiresAt = ls_RenewTime l + ls_LeaseDurationSecs l * Second,
          cr_PreviousOwner = ann_get ann annPrev, cr_PendingSuccessor = ann_get ann annSuccessor,
          cr_DrainStatus = ann_get ann annDrain, cr_TransferStatus = ann_get ann annTransfer,
          cr_LastHeartbeat = ls_RenewTime l, cr_Reason = TransitionReason_of (ann_get ann annReason), cr_Version = ver\<rparr>)"

definition lease_seconds :: "duration \<Rightarrow> int" where
  "lease_seconds ttl = (let s = signed_take_bit 31 (go_div ttl Second) in if s \<le> 0 then 15 else s)"

definition applyRecord :: "time \<Rightarrow> LeaseObject \<Rightarrow> ClaimRecord \<Rightarrow> duration \<Rightarrow> LeaseObject" where
  "applyRecord now l rec ttl =
     (let acquired = (if IsZero (cr_AcquiredAt rec) then now else cr_AcquiredAt rec)
      in l\<lparr>ls_HolderIdentity := cr_OwnerGeneration rec, ls_LeaseDurationSecs := lease_seconds ttl,
           ls_AcquireTime := acquired, ls_RenewTime := now,
           ls_Annotations := (ls_Annotations l)
             (annToken \<mapsto> decimal (unat (cr_FencingToken rec)), annPhase \<mapsto> ClaimPhase_string (cr_Phase rec),
              annPrev \<mapsto> cr_PreviousOwner rec, annSuccessor \<mapsto> cr_PendingSuccessor rec,
              annTransfer \<mapsto> cr_TransferStatus rec, annDrain \<mapsto> cr_DrainStatus rec,
              annReason \<mapsto> TransitionReason_string (cr_Reason rec), annVersion \<mapsto> decimal (unat (cr_Version rec)),
              annAcquired \<mapsto> int_decimal (UnixNano acquired))\<rparr>)"

section \<open>Programs of requests\<close>

record k8sOp =
  ko_rec :: "ClaimRecord option"
  ko_err :: "go_error option"

text \<open>
  The points at which a method leaves its own variables: a request to the server, a reading of the
  clock, and the tables of generations and operations of its process, which it locks for one access
  at a time.
\<close>

datatype 'a io =
    IDone 'a
  | IGet string "LeaseObject + go_error \<Rightarrow> 'a io"
  | ICreate LeaseObject "LeaseObject + go_error \<Rightarrow> 'a io"
  | IUpdate LeaseObject "LeaseObject + go_error \<Rightarrow> 'a io"
  | INow "time \<Rightarrow> 'a io"
  | IRecall OperationID "k8sOp option \<Rightarrow> 'a io"
  | IStore OperationID k8sOp "'a io"
  | IPutGen Generation "'a io"
  | IGetGen string "Generation option \<Rightarrow> 'a io"

primrec io_bind :: "'a io \<Rightarrow> ('a \<Rightarrow> 'b io) \<Rightarrow> 'b io" where
  "io_bind (IDone x) f = f x"
| "io_bind (IGet n k) f = IGet n (\<lambda>x. io_bind (k x) f)"
| "io_bind (ICreate l k) f = ICreate l (\<lambda>x. io_bind (k x) f)"
| "io_bind (IUpdate l k) f = IUpdate l (\<lambda>x. io_bind (k x) f)"
| "io_bind (INow k) f = INow (\<lambda>x. io_bind (k x) f)"
| "io_bind (IRecall i k) f = IRecall i (\<lambda>x. io_bind (k x) f)"
| "io_bind (IStore i r t) f = IStore i r (io_bind t f)"
| "io_bind (IPutGen g t) f = IPutGen g (io_bind t f)"
| "io_bind (IGetGen g k) f = IGetGen g (\<lambda>x. io_bind (k x) f)"

definition recallOp :: "OperationID \<Rightarrow> (k8sOp option \<Rightarrow> 'a io) \<Rightarrow> 'a io" where
  "recallOp i k = (if i = '''' then k None else IRecall i k)"

definition storeOp :: "OperationID \<Rightarrow> ClaimRecord option \<Rightarrow> go_error option \<Rightarrow> 'a io \<Rightarrow> 'a io" where
  "storeOp i rec err t = (if i = '''' then t else IStore i \<lparr>ko_rec = rec, ko_err = err\<rparr> t)"

definition k8s_return :: "ClaimRecord option \<Rightarrow> go_error option \<Rightarrow> rec_result io" where
  "k8s_return rec err = IDone (rec, err)"

definition leaseName :: "string \<Rightarrow> string \<Rightarrow> string" where
  "leaseName prefix claim = prefix @ claim"

definition isConflict :: "go_error \<Rightarrow> bool" where
  "isConflict err = (let msg = Error_string err in Contains msg ''conflict'' \<or> Contains msg ''Conflict'')"

section \<open>The methods\<close>

definition k8s_RegisterGeneration :: "Generation \<Rightarrow> rec_result io" where
  "k8s_RegisterGeneration g = IPutGen g (k8s_return None None)"

definition k8s_UpdateGeneration :: "Generation \<Rightarrow> rec_result io" where
  "k8s_UpdateGeneration g = k8s_RegisterGeneration g"

definition k8s_GetGeneration :: "string \<Rightarrow> (Generation + go_error) io" where
  "k8s_GetGeneration i =
     IGetGen i (\<lambda>g. case g of None \<Rightarrow> IDone (Inr (Sentinel ErrGenerationNotFound)) | Some g \<Rightarrow> IDone (Inl g))"

definition expired_record :: "ClaimRecord \<Rightarrow> ClaimRecord" where
  "expired_record rec =
     rec\<lparr>cr_PreviousOwner := cr_OwnerGeneration rec, cr_OwnerGeneration := '''', cr_PendingSuccessor := '''',
         cr_Phase := ClaimUnowned, cr_Reason := ReasonExpired, cr_Version := cr_Version rec + 1\<rparr>"

definition expire_lease :: "string \<Rightarrow> LeaseObject \<Rightarrow> ((LeaseObject \<times> ClaimRecord) + go_error) io" where
  "expire_lease claim l =
     (let rec = recordFromLease claim l
      in if IsZero (cr_ExpiresAt rec) then IDone (Inl (l, rec))
         else INow (\<lambda>t.
           if cr_ExpiresAt rec < t \<and> held_phase (cr_Phase rec) then
             INow (\<lambda>now. IUpdate (applyRecord now l (expired_record rec) (15 * Second)) (\<lambda>r.
               case r of Inr err \<Rightarrow> IDone (Inr err)
               | Inl l \<Rightarrow> IDone (Inl (l, recordFromLease claim l))))
           else IDone (Inl (l, rec))))"

definition empty_lease :: "string \<Rightarrow> LeaseObject" where
  "empty_lease name =
     \<lparr>ls_Name = name, ls_HolderIdentity = '''', ls_LeaseDurationSecs = 0, ls_AcquireTime = 0, ls_RenewTime = 0,
      ls_ResourceVersion = '''', ls_Annotations = [annPhase \<mapsto> ClaimPhase_string ClaimUnowned, annToken \<mapsto> ''0'']\<rparr>"

definition getOrCreate :: "string \<Rightarrow> string \<Rightarrow> ((LeaseObject \<times> ClaimRecord) + go_error) io" where
  "getOrCreate prefix claim =
     (let name = leaseName prefix claim
      in IGet name (\<lambda>r. case r of Inl l \<Rightarrow> expire_lease claim l
         | Inr _ \<Rightarrow> ICreate (empty_lease name) (\<lambda>r. case r of Inl l \<Rightarrow> expire_lease claim l
             | Inr _ \<Rightarrow> IGet name (\<lambda>r. case r of Inl l \<Rightarrow> expire_lease claim l | Inr err \<Rightarrow> IDone (Inr err)))))"

definition k8s_GetClaim :: "string \<Rightarrow> string \<Rightarrow> rec_result io" where
  "k8s_GetClaim prefix claim =
     io_bind (getOrCreate prefix claim) (\<lambda>r. case r of Inr err \<Rightarrow> k8s_return None (Some err)
       | Inl (l, rec) \<Rightarrow> k8s_return (Some rec) None)"

text \<open>
  How every method but \<open>GetClaim\<close> begins: an operation id that has an outcome returns it, and an
  error of \<open>getOrCreate\<close> is passed on. \<open>save_lease\<close> is how all but \<open>ReleaseClaim\<close> end: the record
  goes into the lease, and what the server returns is recorded under the operation id.
\<close>

definition load_lease :: "string \<Rightarrow> OperationID \<Rightarrow> string \<Rightarrow> (LeaseObject \<Rightarrow> ClaimRecord \<Rightarrow> rec_result io) \<Rightarrow> rec_result io" where
  "load_lease prefix i claim k =
     recallOp i (\<lambda>r. case r of Some r \<Rightarrow> k8s_return (ko_rec r) (ko_err r)
       | None \<Rightarrow> io_bind (getOrCreate prefix claim) (\<lambda>r. case r of Inr err \<Rightarrow> k8s_return None (Some err)
           | Inl (l, rec) \<Rightarrow> k l rec))"

definition save_lease ::
  "OperationID \<Rightarrow> string \<Rightarrow> (go_error \<Rightarrow> go_error) \<Rightarrow> LeaseObject \<Rightarrow> ClaimRecord \<Rightarrow> duration \<Rightarrow> rec_result io" where
  "save_lease i claim on_error l rec ttl =
     INow (\<lambda>now. IUpdate (applyRecord now l rec ttl) (\<lambda>r.
       case r of Inr err \<Rightarrow> k8s_return None (Some (on_error err))
       | Inl l \<Rightarrow> (let out = recordFromLease claim l in storeOp i (Some out) None (k8s_return (Some out) None))))"

definition held_on_conflict :: "go_error \<Rightarrow> go_error" where
  "held_on_conflict err = (if isConflict err then Sentinel ErrClaimHeld else err)"

definition k8s_AcquireClaim :: "string \<Rightarrow> AcquireRequest \<Rightarrow> rec_result io" where
  "k8s_AcquireClaim prefix req =
     load_lease prefix (aq_OperationID req) (aq_ClaimName req) (\<lambda>l rec.
       if held_phase (cr_Phase rec) then
         if cr_OwnerGeneration rec = aq_GenerationID req then
           save_lease (aq_OperationID req) (aq_ClaimName req) held_on_conflict l
             (rec\<lparr>cr_Reason := ReasonRenewed, cr_Version := cr_Version rec + 1\<rparr>) (aq_TTL req)
         else storeOp (aq_OperationID req) (Some rec) (Some (Sentinel ErrClaimHeld))
           (k8s_return (Some rec) (Some (Sentinel ErrClaimHeld)))
       else if cr_FencingToken rec \<ge> MaxSafeFencingToken then
         storeOp (aq_OperationID req) None (Some (Sentinel ErrTokenOverflow))
           (k8s_return None (Some (Sentinel ErrTokenOverflow)))
       else INow (\<lambda>now. save_lease (aq_OperationID req) (aq_ClaimName req) held_on_conflict l
         (rec\<lparr>cr_PreviousOwner := cr_OwnerGeneration rec, cr_OwnerGeneration := aq_GenerationID req,
             cr_FencingToken := cr_FencingToken rec + 1, cr_Phase := ClaimOwned, cr_AcquiredAt := now,
             cr_PendingSuccessor := '''', cr_TransferStatus := '''', cr_DrainStatus := '''',
             cr_Reason := ReasonAcquired, cr_Version := cr_Version rec + 1\<rparr>) (aq_TTL req)))"

definition k8s_RenewClaim :: "string \<Rightarrow> RenewRequest \<Rightarrow> rec_result io" where
  "k8s_RenewClaim prefix req =
     load_lease prefix (rn_OperationID req) (rn_ClaimName req) (\<lambda>l rec.
       if cr_OwnerGeneration rec \<noteq> rn_GenerationID req then k8s_return None (Some (Sentinel ErrNotOwner))
       else if cr_FencingToken rec \<noteq> rn_Token req then k8s_return None (Some (Sentinel ErrStaleToken))
       else if \<not> held_phase (cr_Phase rec) then k8s_return None (Some (Sentinel ErrNotOwner))
       else save_lease (rn_OperationID req) (rn_ClaimName req) id l
         (rec\<lparr>cr_Reason := ReasonRenewed, cr_Version := cr_Version rec + 1\<rparr>) (rn_TTL req))"

definition k8s_PrepareTransfer :: "string \<Rightarrow> TransferRequest \<Rightarrow> rec_result io" where
  "k8s_PrepareTransfer prefix req =
     load_lease prefix (tr_OperationID req) (tr_ClaimName req) (\<lambda>l rec.
       if cr_OwnerGeneration rec \<noteq> tr_FromGeneration req then k8s_return None (Some (Sentinel ErrNotOwner))
       else if cr_FencingToken rec \<noteq> tr_Token req then k8s_return None (Some (Sentinel ErrStaleToken))
       else if cr_Phase rec = ClaimReserved \<and> cr_PendingSuccessor rec \<noteq> ''''
           \<and> cr_PendingSuccessor rec \<noteq> tr_ToGeneration req then
         k8s_return None (Some (Sentinel ErrConcurrentTransfer))
       else if cr_Phase rec = ClaimReserved \<and> cr_PendingSuccessor rec = tr_ToGeneration req then
         storeOp (tr_OperationID req) (Some rec) None (k8s_return (Some rec) None)
       else save_lease (tr_OperationID req) (tr_ClaimName req) id l
         (rec\<lparr>cr_Phase := ClaimReserved, cr_PendingSuccessor := tr_ToGeneration req,
             cr_TransferStatus := ''prepared'', cr_DrainStatus := ''complete'',
             cr_Reason := ReasonTransferPrepared, cr_Version := cr_Version rec + 1\<rparr>) (tr_TTL req))"

definition k8s_CommitTransfer :: "string \<Rightarrow> CommitRequest \<Rightarrow> rec_result io" where
  "k8s_CommitTransfer prefix req =
     load_lease prefix (cm_OperationID req) (cm_ClaimName req) (\<lambda>l rec.
       if cr_Phase rec = ClaimOwned \<and> cr_OwnerGeneration rec = cm_ToGeneration req
           \<and> cr_FencingToken rec = cm_ExpectedToken req + 1 \<and> cr_TransferStatus rec = ''committed'' then
         storeOp (cm_OperationID req) (Some rec) None (k8s_return (Some rec) None)
       else if cr_Phase rec \<noteq> ClaimReserved then k8s_return None (Some (Sentinel ErrNoTransfer))
       else if cr_OwnerGeneration rec \<noteq> cm_FromGeneration req \<or> cr_PendingSuccessor rec \<noteq> cm_ToGeneration req then
         k8s_return None (Some (Sentinel ErrConcurrentTransfer))
       else if cr_FencingToken rec \<noteq> cm_ExpectedToken req then k8s_return None (Some (Sentinel ErrStaleToken))
       else if cr_FencingToken rec \<ge> MaxSafeFencingToken then
         storeOp (cm_OperationID req) None (Some (Sentinel ErrTokenOverflow))
           (k8s_return None (Some (Sentinel ErrTokenOverflow)))
       else INow (\<lambda>now. save_lease (cm_OperationID req) (cm_ClaimName req) id l
         (rec\<lparr>cr_PreviousOwner := cr_OwnerGeneration rec, cr_OwnerGeneration := cm_ToGeneration req,
             cr_FencingToken := cr_FencingToken rec + 1, cr_Phase := ClaimOwned, cr_PendingSuccessor := '''',
             cr_TransferStatus := ''committed'', cr_DrainStatus := '''', cr_AcquiredAt := now,
             cr_Reason := ReasonTransferCommitted, cr_Version := cr_Version rec + 1\<rparr>) (cm_TTL req)))"

definition k8s_AbortTransfer :: "string \<Rightarrow> AbortRequest \<Rightarrow> rec_result io" where
  "k8s_AbortTransfer prefix req =
     load_lease prefix (ab_OperationID req) (ab_ClaimName req) (\<lambda>l rec.
       if cr_Phase rec \<noteq> ClaimReserved then
         if cr_OwnerGeneration rec = ab_FromGeneration req \<and> cr_Phase rec = ClaimOwned then
           storeOp (ab_OperationID req) (Some rec) None (k8s_return (Some rec) None)
         else k8s_return None (Some (Sentinel ErrNoTransfer))
       else if cr_FencingToken rec \<noteq> ab_ExpectedToken req then k8s_return None (Some (Sentinel ErrStaleToken))
       else if cr_OwnerGeneration rec \<noteq> ab_FromGeneration req then k8s_return None (Some (Sentinel ErrNotOwner))
       else save_lease (ab_OperationID req) (ab_ClaimName req) id l
         (rec\<lparr>cr_PendingSuccessor := '''', cr_Phase := ClaimOwned, cr_TransferStatus := ''aborted'',
             cr_Reason := ReasonTransferAborted, cr_Version := cr_Version rec + 1\<rparr>) (15 * Second))"

definition released_record :: "ClaimRecord \<Rightarrow> ClaimRecord" where
  "released_record rec =
     rec\<lparr>cr_PreviousOwner := cr_OwnerGeneration rec, cr_OwnerGeneration := '''', cr_PendingSuccessor := '''',
         cr_Phase := ClaimUnowned, cr_TransferStatus := '''', cr_DrainStatus := '''',
         cr_Reason := ReasonReleased, cr_Version := cr_Version rec + 1\<rparr>"

definition release_lease :: "OperationID \<Rightarrow> LeaseObject \<Rightarrow> ClaimRecord \<Rightarrow> rec_result io" where
  "release_lease i l rec =
     INow (\<lambda>now. IUpdate (applyRecord now l (released_record rec) (15 * Second)) (\<lambda>r.
       let err = (case r of Inl _ \<Rightarrow> None | Inr err \<Rightarrow> Some err)
       in storeOp i None err (k8s_return None err)))"

definition k8s_ReleaseClaim :: "string \<Rightarrow> ReleaseRequest \<Rightarrow> rec_result io" where
  "k8s_ReleaseClaim prefix req =
     io_bind (load_lease prefix (rl_OperationID req) (rl_ClaimName req) (\<lambda>l rec.
       if cr_FencingToken rec \<noteq> rl_Token req then k8s_return None (Some (Sentinel ErrStaleToken))
       else if cr_OwnerGeneration rec \<noteq> rl_GenerationID req then
         if cr_Phase rec = ClaimUnowned then storeOp (rl_OperationID req) None None (k8s_return None None)
         else k8s_return None (Some (Sentinel ErrNotOwner))
       else release_lease (rl_OperationID req) l rec))
     (\<lambda>(rec, err). k8s_return None err)"

text \<open>
  One tick of the goroutine of \<open>WatchClaim\<close>: \<open>room\<close> says whether the channel has a free place.
  It returns the version it has seen last and the record it sends.
\<close>

definition k8s_watch_tick :: "string \<Rightarrow> string \<Rightarrow> bool \<Rightarrow> u64 \<Rightarrow> (u64 \<times> ClaimRecord option) io" where
  "k8s_watch_tick prefix claim room lst =
     io_bind (k8s_GetClaim prefix claim) (\<lambda>(rec, err). case (rec, err) of
         (Some rec, None) \<Rightarrow>
           if cr_Version rec \<noteq> lst then IDone (cr_Version rec, if room then Some rec else None)
           else IDone (lst, None)
       | _ \<Rightarrow> IDone (lst, None))"

definition k8s_ForceSetToken :: "string \<Rightarrow> string \<Rightarrow> FencingToken \<Rightarrow> unit io" where
  "k8s_ForceSetToken prefix claim tok =
     (let name = leaseName prefix claim;
          rec = (new_record claim)\<lparr>cr_FencingToken := tok\<rparr>
      in INow (\<lambda>now. let l = applyRecord now ((empty_lease name)\<lparr>ls_Annotations := Map.empty\<rparr>) rec (15 * Second)
         in IGet name (\<lambda>r. case r of
              Inl existing \<Rightarrow> IUpdate (l\<lparr>ls_ResourceVersion := ls_ResourceVersion existing\<rparr>) (\<lambda>_. IDone ())
            | Inr _ \<Rightarrow> ICreate l (\<lambda>_. IDone ()))))"

primrec k8s_call :: "string \<Rightarrow> call \<Rightarrow> rec_result io" where
  "k8s_call p (CRegister g) = k8s_RegisterGeneration g"
| "k8s_call p (CUpdate g) = k8s_UpdateGeneration g"
| "k8s_call p (CAcquire r) = k8s_AcquireClaim p r"
| "k8s_call p (CRenew r) = k8s_RenewClaim p r"
| "k8s_call p (CPrepare r) = k8s_PrepareTransfer p r"
| "k8s_call p (CCommit r) = k8s_CommitTransfer p r"
| "k8s_call p (CAbort r) = k8s_AbortTransfer p r"
| "k8s_call p (CRelease r) = k8s_ReleaseClaim p r"
| "k8s_call p (CGet n) = k8s_GetClaim p n"

section \<open>The server\<close>

record 's LeaseClient =
  lc_Get :: "'s \<Rightarrow> string \<Rightarrow> LeaseObject + go_error"
  lc_Create :: "'s \<Rightarrow> LeaseObject \<Rightarrow> 's \<times> (LeaseObject + go_error)"
  lc_Update :: "'s \<Rightarrow> LeaseObject \<Rightarrow> 's \<times> (LeaseObject + go_error)"
  lc_Delete :: "'s \<Rightarrow> string \<Rightarrow> 's"

record MemoryLeaseClient =
  ml_leases :: "string \<rightharpoonup> LeaseObject"
  ml_rv :: nat

definition NewMemoryLeaseClient :: MemoryLeaseClient where
  "NewMemoryLeaseClient = \<lparr>ml_leases = Map.empty, ml_rv = 0\<rparr>"

definition mlc_Get :: "MemoryLeaseClient \<Rightarrow> string \<Rightarrow> LeaseObject + go_error" where
  "mlc_Get m name = (case ml_leases m name of None \<Rightarrow> Inr (EText ''not found'') | Some l \<Rightarrow> Inl l)"

definition mlc_put :: "MemoryLeaseClient \<Rightarrow> LeaseObject \<Rightarrow> MemoryLeaseClient \<times> (LeaseObject + go_error)" where
  "mlc_put m l =
     (let rv = ml_rv m + 1; cp = l\<lparr>ls_ResourceVersion := decimal rv\<rparr>
      in (\<lparr>ml_leases = (ml_leases m)(ls_Name l \<mapsto> cp), ml_rv = rv\<rparr>, Inl cp))"

definition mlc_Create :: "MemoryLeaseClient \<Rightarrow> LeaseObject \<Rightarrow> MemoryLeaseClient \<times> (LeaseObject + go_error)" where
  "mlc_Create m l = (if ml_leases m (ls_Name l) \<noteq> None then (m, Inr (EText ''exists'')) else mlc_put m l)"

definition mlc_Update :: "MemoryLeaseClient \<Rightarrow> LeaseObject \<Rightarrow> MemoryLeaseClient \<times> (LeaseObject + go_error)" where
  "mlc_Update m l =
     (case ml_leases m (ls_Name l) of
        None \<Rightarrow> (m, Inr (EText ''not found''))
      | Some cur \<Rightarrow>
          if ls_ResourceVersion l \<noteq> '''' \<and> ls_ResourceVersion l \<noteq> ls_ResourceVersion cur then
            (m, Inr (EText ''conflict''))
          else mlc_put m l)"

definition mlc_Delete :: "MemoryLeaseClient \<Rightarrow> string \<Rightarrow> MemoryLeaseClient" where
  "mlc_Delete m name = m\<lparr>ml_leases := (ml_leases m)(name := None)\<rparr>"

definition memory_lease_client :: "MemoryLeaseClient LeaseClient" where
  "memory_lease_client = \<lparr>lc_Get = mlc_Get, lc_Create = mlc_Create, lc_Update = mlc_Update, lc_Delete = mlc_Delete\<rparr>"

section \<open>Clusters\<close>

record KBackend =
  kb_prefix :: string
  kb_gens :: "string \<rightharpoonup> Generation"
  kb_ops :: "OperationID \<rightharpoonup> k8sOp"

definition k8s_New :: "string \<Rightarrow> KBackend" where
  "k8s_New prefix = \<lparr>kb_prefix = prefix, kb_gens = Map.empty, kb_ops = Map.empty\<rparr>"

text \<open>
  A request may fail on the way: the request is lost before it is applied, or the answer after it.
  \<open>io_step\<close> performs the next step of a program at time \<open>t\<close> under such a fault.
\<close>

datatype net = Fine | RequestLost go_error | ReplyLost go_error

fun deliver :: "net \<Rightarrow> 's \<Rightarrow> 's \<times> (LeaseObject + go_error) \<Rightarrow> 's \<times> (LeaseObject + go_error)" where
  "deliver Fine s (s', r) = (s', r)"
| "deliver (RequestLost e) s (s', r) = (s, Inr e)"
| "deliver (ReplyLost e) s (s', r) = (s', Inr e)"

primrec io_step ::
  "'s LeaseClient \<Rightarrow> net \<Rightarrow> time \<Rightarrow> 's \<Rightarrow> KBackend \<Rightarrow> 'a io \<Rightarrow> 's \<times> KBackend \<times> 'a io" where
  "io_step C f t s b (IDone x) = (s, b, IDone x)"
| "io_step C f t s b (IGet n k) = (case deliver f s (s, lc_Get C s n) of (s, r) \<Rightarrow> (s, b, k r))"
| "io_step C f t s b (ICreate l k) = (case deliver f s (lc_Create C s l) of (s, r) \<Rightarrow> (s, b, k r))"
| "io_step C f t s b (IUpdate l k) = (case deliver f s (lc_Update C s l) of (s, r) \<Rightarrow> (s, b, k r))"
| "io_step C f t s b (INow k) = (s, b, k t)"
| "io_step C f t s b (IRecall i k) = (s, b, k (kb_ops b i))"
| "io_step C f t s b (IStore i r p) = (s, b\<lparr>kb_ops := (kb_ops b)(i \<mapsto> r)\<rparr>, p)"
| "io_step C f t s b (IPutGen g p) = (s, b\<lparr>kb_gens := (kb_gens b)(gen_ID g \<mapsto> g)\<rparr>, p)"
| "io_step C f t s b (IGetGen g k) = (s, b, k (kb_gens b g))"

text \<open>
  A cluster: the server, the processes that have been started, and every call made so far with the
  process that makes it and what is left of its program. A process that stops is one whose calls
  are not scheduled any more, and its successor is a new process.
\<close>

record 's cluster =
  cl_api :: 's
  cl_nodes :: "KBackend list"
  cl_calls :: "(nat \<times> rec_result io) list"

datatype cluster_action = Boot string | Start nat call | Step nat net time

definition cluster_step :: "'s LeaseClient \<Rightarrow> 's cluster \<Rightarrow> nat \<Rightarrow> net \<Rightarrow> time \<Rightarrow> 's cluster" where
  "cluster_step C c i f t =
     (if i < length (cl_calls c) \<and> fst (cl_calls c ! i) < length (cl_nodes c) then
        (case cl_calls c ! i of (n, p) \<Rightarrow>
          (case io_step C f t (cl_api c) (cl_nodes c ! n) p of (s, b, p) \<Rightarrow>
             \<lparr>cl_api = s, cl_nodes = (cl_nodes c)[n := b], cl_calls = (cl_calls c)[i := (n, p)]\<rparr>))
      else c)"

primrec cluster_act :: "'s LeaseClient \<Rightarrow> 's cluster \<Rightarrow> cluster_action \<Rightarrow> 's cluster" where
  "cluster_act C c (Boot p) = c\<lparr>cl_nodes := cl_nodes c @ [k8s_New p]\<rparr>"
| "cluster_act C c (Start n q) =
     (if n < length (cl_nodes c) then c\<lparr>cl_calls := cl_calls c @ [(n, k8s_call (kb_prefix (cl_nodes c ! n)) q)]\<rparr> else c)"
| "cluster_act C c (Step i f t) = cluster_step C c i f t"

definition cluster_run :: "'s LeaseClient \<Rightarrow> 's cluster \<Rightarrow> cluster_action list \<Rightarrow> 's cluster" where
  "cluster_run C = foldl (cluster_act C)"

definition new_cluster :: "'s \<Rightarrow> 's cluster" where
  "new_cluster s = \<lparr>cl_api = s, cl_nodes = [], cl_calls = []\<rparr>"

end
