(* ===== verification/Kubernetes_Safety.thy ===== *)
theory Kubernetes_Safety
  imports Kubernetes_Backend
begin

text \<open>
  What the Kubernetes backend guarantees although its methods take no lock: the annotations keep
  every field of a claim record, each method writes only what \<open>fence_step\<close> allows of the lease it
  has read, and with a server that checks resource versions this makes one holder per token true of
  everything any process is told, under lost requests, lost replies and stopped processes.
\<close>

section \<open>The codec\<close>

lemma takeWhile_digits: "takeWhile is_digit (decimal n) = decimal n"
  by (simp add: takeWhile_eq_all_conv decimal_digits)

lemma digit_not_blank: "is_digit c \<Longrightarrow> \<not> scan_blank c"
  by (auto simp: is_digit_def scan_blank_def)

lemma decimal_hd: "\<exists>c cs. decimal n = c # cs \<and> is_digit c"
  using decimal_nonempty [of n] decimal_digits [of _ n] by (cases "decimal n") auto

lemma dropWhile_blank_decimal: "dropWhile scan_blank (decimal n) = decimal n"
  using decimal_hd [of n] digit_not_blank by auto

lemma scan_uint64_decimal [simp]: "scan_uint64 (decimal (unat t)) = t"
proof -
  have "unat t < 2 ^ 64" using unsigned_less [of t] by simp
  then show ?thesis by (simp add: scan_uint64_def dropWhile_blank_decimal takeWhile_digits undec_decimal not_le)
qed

lemma scan_signed_decimal: "scan_signed (decimal n) = (False, decimal n)"
proof -
  obtain c cs where c: "decimal n = c # cs" "is_digit c" using decimal_hd by blast
  then have "c \<noteq> CHR ''-''" "c \<noteq> CHR ''+''" by (auto simp: is_digit_def)
  with c takeWhile_digits [of n] show ?thesis by simp
qed

lemma scan_int64_decimal: "- (2 ^ 63) \<le> i \<Longrightarrow> i < 2 ^ 63 \<Longrightarrow> scan_int64 (int_decimal i) = i"
  by (auto simp: scan_int64_def int_decimal_def scan_signed_decimal dropWhile_blank_decimal takeWhile_digits undec_decimal
      scan_blank_def)

lemma UnixNano_range: "- (2 ^ 63) \<le> UnixNano t \<and> UnixNano t < 2 ^ 63"
  using pos_mod_bound [of "2 ^ 64 :: int" "t - unix_epoch + 2 ^ 63"] pos_mod_sign [of "2 ^ 64 :: int" "t - unix_epoch + 2 ^ 63"]
  by (simp add: UnixNano_def)

lemma scan_UnixNano [simp]: "scan_int64 (int_decimal (UnixNano t)) = UnixNano t"
  using UnixNano_range by (intro scan_int64_decimal) auto

definition nano_range :: "time \<Rightarrow> bool" where
  "nano_range t \<longleftrightarrow> unix_epoch - 2 ^ 63 \<le> t \<and> t < unix_epoch + 2 ^ 63"

lemma UnixNano_exact: "nano_range t \<Longrightarrow> unix_epoch + UnixNano t = t"
  by (simp add: nano_range_def UnixNano_def)

lemma int_decimal_nonempty [simp]: "int_decimal i \<noteq> ''''"
  by (simp add: int_decimal_def)

definition named_phase :: "ClaimPhase \<Rightarrow> bool" where
  "named_phase p \<longleftrightarrow> p \<in> {ClaimUnowned, ClaimOwned, ClaimReserved, ClaimDraining}"

lemma ClaimPhase_of_string [simp]: "named_phase p \<Longrightarrow> ClaimPhase_of (ClaimPhase_string p) = p"
  by (auto simp: named_phase_def ClaimPhase_of_def)

lemma ClaimPhase_string_nonempty [simp]: "named_phase p \<Longrightarrow> ClaimPhase_string p \<noteq> ''''"
  by (auto simp: named_phase_def)

lemma TransitionReason_of_string [simp]:
  "r \<in> set named_reasons \<Longrightarrow> TransitionReason_of (TransitionReason_string r) = r"
  by (cases r) (simp_all add: TransitionReason_of_def named_reasons_def)

lemma ann_get_upd [simp]: "ann_get (m(k \<mapsto> v)) j = (if j = k then v else ann_get m j)"
  by (simp add: ann_get_def)

lemma lease_seconds_pos: "0 < lease_seconds ttl"
  by (simp add: lease_seconds_def Let_def)

lemma lease_seconds_whole:
  assumes "Second \<le> ttl" "ttl < 2 ^ 31 * Second"
  shows "lease_seconds ttl * Second \<le> ttl \<and> ttl < lease_seconds ttl * Second + Second"
proof -
  have S: "0 < Second" by (simp add: Second_def Millisecond_def)
  define q where "q = ttl div Second"
  have "0 < ttl" using assms(1) S by simp
  then have div: "go_div ttl Second = q" using S by (simp add: go_div_pos q_def)
  have "1 * Second \<le> ttl" using assms(1) by simp
  then have q: "1 \<le> q" using S zdiv_mono1 [of Second ttl Second] by (simp add: q_def)
  have "ttl = q * Second + ttl mod Second" by (simp add: q_def)
  then have r: "q * Second \<le> ttl" "ttl < q * Second + Second"
    using pos_mod_bound [OF S, of ttl] pos_mod_sign [OF S, of ttl] by linarith+
  have "q * Second < 2 ^ 31 * Second" using r(1) assms(2) by linarith
  then have "q < 2 ^ 31" using S by simp
  then have "signed_take_bit 31 q = q" using q by (intro signed_take_bit_int_eq_self) auto
  then have "lease_seconds ttl = q" using q by (simp add: lease_seconds_def div)
  with r show ?thesis by simp
qed

lemma lease_seconds_short: "0 \<le> ttl \<Longrightarrow> ttl < Second \<Longrightarrow> lease_seconds ttl = 15"
  by (simp add: lease_seconds_def Let_def go_div_def)

text \<open>
  C23. The annotations lose nothing: a record written into a lease and read back is the record, with the heartbeat
  and expiry of the write. The lifetime is the requested one in whole seconds, except that one
  below a second becomes fifteen seconds.
\<close>

theorem k8s_codec_roundtrip:
  assumes "named_phase (cr_Phase rec)" and "cr_Reason rec \<in> set named_reasons"
    and "nano_range now" and "IsZero (cr_AcquiredAt rec) \<or> nano_range (cr_AcquiredAt rec)"
  shows "recordFromLease (cr_Name rec) (applyRecord now l rec ttl)
      = rec\<lparr>cr_AcquiredAt := (if IsZero (cr_AcquiredAt rec) then now else cr_AcquiredAt rec),
            cr_LastHeartbeat := now, cr_ExpiresAt := now + lease_seconds ttl * Second\<rparr>
    \<and> (Second \<le> ttl \<and> ttl < 2 ^ 31 * Second \<longrightarrow> lease_seconds ttl * Second \<le> ttl \<and> ttl < lease_seconds ttl * Second + Second)
    \<and> (0 \<le> ttl \<and> ttl < Second \<longrightarrow> lease_seconds ttl = 15)"
proof (intro conjI)
  show "recordFromLease (cr_Name rec) (applyRecord now l rec ttl)
      = rec\<lparr>cr_AcquiredAt := (if IsZero (cr_AcquiredAt rec) then now else cr_AcquiredAt rec),
            cr_LastHeartbeat := now, cr_ExpiresAt := now + lease_seconds ttl * Second\<rparr>"
    using assms by (cases "IsZero (cr_AcquiredAt rec)") (simp_all add: recordFromLease_def applyRecord_def UnixNano_exact Let_def)
qed (auto simp: lease_seconds_whole lease_seconds_short)

section \<open>What the methods may do\<close>

definition lease_view :: "LeaseObject \<Rightarrow> claim_view" where
  "lease_view l = rec_view (recordFromLease '''' l)"

definition lease_typed :: "LeaseObject \<Rightarrow> bool" where
  "lease_typed l \<longleftrightarrow>
     (\<exists>t \<le> MaxSafeFencingToken. ls_Annotations l annToken = Some (decimal (unat t)))
     \<and> (\<exists>p \<in> {ClaimUnowned, ClaimOwned, ClaimReserved}. ls_Annotations l annPhase = Some (ClaimPhase_string p)
          \<and> (p = ClaimUnowned \<longrightarrow> ls_HolderIdentity l = ''''))
     \<and> (\<forall>s. ls_Annotations l annVersion = Some s \<longrightarrow> (\<exists>v :: u64. s = decimal (unat v)))
     \<and> 0 \<le> ls_LeaseDurationSecs l"

definition read_lease :: "LeaseObject \<Rightarrow> bool" where
  "read_lease l \<longleftrightarrow> ls_ResourceVersion l \<noteq> '''' \<and> lease_typed l"

text \<open>A write of a lease that was read: the same object and version, and a step of the claim.\<close>

definition guarded :: "LeaseObject \<Rightarrow> LeaseObject \<Rightarrow> bool" where
  "guarded b l \<longleftrightarrow> ls_Name l = ls_Name b \<and> ls_ResourceVersion l = ls_ResourceVersion b \<and> lease_typed l
     \<and> fence_steps (lease_view b) (lease_view l)"

definition genuine :: "string \<Rightarrow> LeaseObject set \<Rightarrow> ClaimRecord \<Rightarrow> bool" where
  "genuine p B r \<longleftrightarrow> (\<exists>b\<in>B. ls_Name b = leaseName p (cr_Name r) \<and> r = recordFromLease (cr_Name r) b)"

definition knows :: "LeaseObject set \<Rightarrow> LeaseObject set \<Rightarrow> bool" where
  "knows B B' \<longleftrightarrow> B \<subseteq> B' \<and> (\<forall>l\<in>B'. read_lease l)"

definition op_genuine :: "string \<Rightarrow> LeaseObject set \<Rightarrow> k8sOp \<Rightarrow> bool" where
  "op_genuine p B r \<longleftrightarrow> (\<forall>c. ko_rec r = Some c \<longrightarrow> genuine p B c)"

text \<open>
  The contract of a program, given the set \<open>B\<close> of the leases that were stored so far: it writes
  guarded leases only, keeps only records that were stored, and ends in \<open>Q\<close>. What it learns at a
  request is any lease of a larger set, so the contract holds whatever others do meanwhile.
\<close>

primrec wp :: "string \<Rightarrow> (LeaseObject set \<Rightarrow> 'a \<Rightarrow> bool) \<Rightarrow> 'a io \<Rightarrow> LeaseObject set \<Rightarrow> bool" where
  "wp p Q (IDone x) = (\<lambda>B. Q B x)"
| "wp p Q (IGet n k) = (\<lambda>B. \<forall>x B'. knows B B' \<and> (\<forall>l. x = Inl l \<longrightarrow> l \<in> B' \<and> ls_Name l = n) \<longrightarrow> wp p Q (k x) B')"
| "wp p Q (ICreate l0 k) = (\<lambda>B. lease_typed l0 \<and> lease_view l0 = vacant 0
     \<and> (\<forall>x B'. knows B B' \<and> (\<forall>l. x = Inl l \<longrightarrow> l \<in> B' \<and> ls_Name l = ls_Name l0) \<longrightarrow> wp p Q (k x) B'))"
| "wp p Q (IUpdate l0 k) = (\<lambda>B. (\<exists>b\<in>B. read_lease b \<and> guarded b l0)
     \<and> (\<forall>x B'. knows B B' \<and> (\<forall>l. x = Inl l \<longrightarrow> l \<in> B' \<and> ls_Name l = ls_Name l0) \<longrightarrow> wp p Q (k x) B'))"
| "wp p Q (INow k) = (\<lambda>B. \<forall>t B'. knows B B' \<longrightarrow> wp p Q (k t) B')"
| "wp p Q (IRecall i k) = (\<lambda>B. \<forall>x B'. knows B B' \<and> (\<forall>r. x = Some r \<longrightarrow> op_genuine p B' r) \<longrightarrow> wp p Q (k x) B')"
| "wp p Q (IStore i r t) = (\<lambda>B. op_genuine p B r \<and> (\<forall>B'. knows B B' \<longrightarrow> wp p Q t B'))"
| "wp p Q (IPutGen g t) = (\<lambda>B. \<forall>B'. knows B B' \<longrightarrow> wp p Q t B')"
| "wp p Q (IGetGen g k) = (\<lambda>B. \<forall>x B'. knows B B' \<longrightarrow> wp p Q (k x) B')"

lemma knows_trans: "knows A B \<Longrightarrow> knows B C \<Longrightarrow> knows A C"
  by (auto simp: knows_def)

lemma genuine_mono: "genuine p B r \<Longrightarrow> knows B B' \<Longrightarrow> genuine p B' r"
  by (auto simp: genuine_def knows_def)

lemma op_genuine_mono: "op_genuine p B r \<Longrightarrow> knows B B' \<Longrightarrow> op_genuine p B' r"
  by (auto simp: op_genuine_def intro: genuine_mono)

definition stable :: "(LeaseObject set \<Rightarrow> 'a \<Rightarrow> bool) \<Rightarrow> bool" where
  "stable Q \<longleftrightarrow> (\<forall>B B' x. Q B x \<longrightarrow> knows B B' \<longrightarrow> Q B' x)"

lemma knows_later:
  "\<forall>x B'. knows B B' \<and> R x B' \<longrightarrow> S x B' \<Longrightarrow> knows B C \<Longrightarrow> \<forall>x B'. knows C B' \<and> R x B' \<longrightarrow> S x B'"
  "\<forall>x B'. knows B B' \<longrightarrow> S x B' \<Longrightarrow> knows B C \<Longrightarrow> \<forall>x B'. knows C B' \<longrightarrow> S x B'"
  "\<forall>B'. knows B B' \<longrightarrow> T B' \<Longrightarrow> knows B C \<Longrightarrow> \<forall>B'. knows C B' \<longrightarrow> T B'"
  by (meson knows_trans)+

lemma wp_mono:
  assumes "stable Q" "wp p Q t B" "knows B B'"
  shows "wp p Q t B'"
proof (cases t)
  case (IDone x)
  show ?thesis using assms unfolding IDone stable_def wp.simps by blast
next
  case (IUpdate l k)
  note w = assms(2) [unfolded IUpdate wp.simps]
  have "\<exists>b\<in>B'. read_lease b \<and> guarded b l" using w [THEN conjunct1] assms(3) unfolding knows_def by blast
  then show ?thesis using knows_later(1) [OF w [THEN conjunct2] assms(3)] unfolding IUpdate wp.simps by (rule conjI)
next
  case (ICreate l k)
  note w = assms(2) [unfolded ICreate wp.simps]
  show ?thesis unfolding ICreate wp.simps
    using w knows_later(1) [OF w [THEN conjunct2, THEN conjunct2] assms(3)] by (intro conjI) (elim conjE, assumption)+
next
  case (IStore i r t)
  note w = assms(2) [unfolded IStore wp.simps]
  show ?thesis unfolding IStore wp.simps
    using op_genuine_mono [OF w [THEN conjunct1] assms(3)] knows_later(3) [OF w [THEN conjunct2] assms(3)] by (rule conjI)
next
  case (IPutGen g t)
  show ?thesis using knows_later(3) [OF assms(2) [unfolded IPutGen wp.simps] assms(3)] unfolding IPutGen wp.simps .
next
  case (IGet n k)
  show ?thesis using knows_later(1) [OF assms(2) [unfolded IGet wp.simps] assms(3)] unfolding IGet wp.simps .
next
  case (IRecall i k)
  show ?thesis using knows_later(1) [OF assms(2) [unfolded IRecall wp.simps] assms(3)] unfolding IRecall wp.simps .
next
  case (INow k)
  show ?thesis using knows_later(2) [OF assms(2) [unfolded INow wp.simps] assms(3)] unfolding INow wp.simps .
next
  case (IGetGen g k)
  show ?thesis using knows_later(2) [OF assms(2) [unfolded IGetGen wp.simps] assms(3)] unfolding IGetGen wp.simps .
qed

lemma wp_bind: "wp p (\<lambda>B x. wp p Q (f x) B) t B \<Longrightarrow> wp p Q (io_bind t f) B"
  by (induction t arbitrary: B; unfold wp.simps io_bind.simps; blast)

lemma wp_weaken: "wp p P t B \<Longrightarrow> (\<And>B x. P B x \<Longrightarrow> Q B x) \<Longrightarrow> wp p Q t B"
  by (induction t arbitrary: B; unfold wp.simps; blast)

section \<open>The methods keep the contract\<close>

lemma recordFromLease_name: "recordFromLease claim l = (recordFromLease '''' l)\<lparr>cr_Name := claim\<rparr>"
  by (simp add: recordFromLease_def Let_def)

lemma rec_view_lease: "rec_view (recordFromLease claim l) = lease_view l"
  by (subst recordFromLease_name) (simp add: lease_view_def rec_view_def)

lemma recordFromLease_Name [simp]: "cr_Name (recordFromLease claim l) = claim"
  by (simp add: recordFromLease_def Let_def)

lemma scan_zero: "scan_uint64 ''0'' = 0"
  by (simp add: scan_uint64_def is_digit_def scan_blank_def)

lemma typed_phase:
  "lease_typed l \<Longrightarrow> cr_Phase (recordFromLease claim l) \<in> {ClaimUnowned, ClaimOwned, ClaimReserved}"
  by (auto simp: lease_typed_def recordFromLease_def Let_def ann_get_def ClaimPhase_of_def)

lemma typed_unowned:
  "lease_typed l \<Longrightarrow> cr_Phase (recordFromLease claim l) = ClaimUnowned \<Longrightarrow> cr_OwnerGeneration (recordFromLease claim l) = ''''"
  by (auto simp: lease_typed_def recordFromLease_def Let_def ann_get_def ClaimPhase_of_def)

lemma typed_token: "lease_typed l \<Longrightarrow> cr_FencingToken (recordFromLease claim l) \<le> MaxSafeFencingToken"
  by (auto simp: lease_typed_def recordFromLease_def Let_def ann_get_def)

text \<open>What a method may make of a record that it has read.\<close>

definition rec_step :: "ClaimRecord \<Rightarrow> ClaimRecord \<Rightarrow> bool" where
  "rec_step rec rec' \<longleftrightarrow> cr_Phase rec' \<in> {ClaimUnowned, ClaimOwned, ClaimReserved}
     \<and> (cr_Phase rec' = ClaimUnowned \<longrightarrow> cr_OwnerGeneration rec' = '''')
     \<and> cr_FencingToken rec' \<le> MaxSafeFencingToken \<and> fence_steps (rec_view rec) (rec_view rec')"

lemma applyRecord_fields [simp]:
  "ls_Name (applyRecord now l rec ttl) = ls_Name l"
  "ls_ResourceVersion (applyRecord now l rec ttl) = ls_ResourceVersion l"
  "ls_HolderIdentity (applyRecord now l rec ttl) = cr_OwnerGeneration rec"
  by (simp_all add: applyRecord_def Let_def)

lemma applyRecord_view: "named_phase (cr_Phase rec) \<Longrightarrow> lease_view (applyRecord now l rec ttl) = rec_view rec"
  by (simp add: lease_view_def recordFromLease_def applyRecord_def Let_def rec_view_def)

lemma applyRecord_typed:
  assumes "cr_Phase rec \<in> {ClaimUnowned, ClaimOwned, ClaimReserved}" "cr_Phase rec = ClaimUnowned \<longrightarrow> cr_OwnerGeneration rec = ''''"
    "cr_FencingToken rec \<le> MaxSafeFencingToken"
  shows "lease_typed (applyRecord now l rec ttl)"
  using assms lease_seconds_pos [of ttl] unfolding lease_typed_def applyRecord_def Let_def by auto

lemma applyRecord_guarded:
  assumes "rec_step (recordFromLease claim l) rec"
  shows "guarded l (applyRecord now l rec ttl)"
proof -
  have ph: "cr_Phase rec \<in> {ClaimUnowned, ClaimOwned, ClaimReserved}" and un: "cr_Phase rec = ClaimUnowned \<longrightarrow> cr_OwnerGeneration rec = ''''"
    and tok: "cr_FencingToken rec \<le> MaxSafeFencingToken" and fs: "fence_steps (lease_view l) (rec_view rec)"
    using assms by (simp_all add: rec_step_def rec_view_lease)
  have "named_phase (cr_Phase rec)" using ph by (auto simp: named_phase_def)
  with fs show ?thesis by (simp add: guarded_def applyRecord_typed [OF ph un tok] applyRecord_view)
qed

definition reply_ok :: "string \<Rightarrow> LeaseObject set \<Rightarrow> rec_result \<Rightarrow> bool" where
  "reply_ok p B x \<longleftrightarrow> (\<forall>r. fst x = Some r \<longrightarrow> genuine p B r)"

definition loaded :: "string \<Rightarrow> string \<Rightarrow> LeaseObject set \<Rightarrow> LeaseObject \<Rightarrow> ClaimRecord \<Rightarrow> bool" where
  "loaded p claim B l rec \<longleftrightarrow> l \<in> B \<and> read_lease l \<and> ls_Name l = leaseName p claim \<and> rec = recordFromLease claim l"

lemma stable_reply [simp]: "stable (reply_ok p)"
  by (auto simp: stable_def reply_ok_def intro: genuine_mono)

lemma loaded_mono: "loaded p claim B l rec \<Longrightarrow> knows B B' \<Longrightarrow> loaded p claim B' l rec"
  by (auto simp: loaded_def knows_def)

lemma loaded_genuine: "loaded p claim B l rec \<Longrightarrow> genuine p B rec"
  by (auto simp: loaded_def genuine_def)

lemma read_loaded: "knows B B' \<Longrightarrow> l \<in> B' \<Longrightarrow> ls_Name l = leaseName p claim \<Longrightarrow> loaded p claim B' l (recordFromLease claim l)"
  by (auto simp: loaded_def knows_def)

lemma wp_return: "wp p (reply_ok p) (k8s_return rec err) B \<longleftrightarrow> (\<forall>r. rec = Some r \<longrightarrow> genuine p B r)"
  by (simp add: k8s_return_def reply_ok_def)

lemma wp_storeOp:
  "(\<And>r. rec = Some r \<Longrightarrow> genuine p B r) \<Longrightarrow> wp p (reply_ok p) t B \<Longrightarrow> wp p (reply_ok p) (storeOp i rec err t) B"
  using wp_mono [OF stable_reply] by (simp add: storeOp_def op_genuine_def)

definition got :: "string \<Rightarrow> string \<Rightarrow> LeaseObject set \<Rightarrow> (LeaseObject \<times> ClaimRecord) + go_error \<Rightarrow> bool" where
  "got p claim B x \<longleftrightarrow> (\<forall>l rec. x = Inl (l, rec) \<longrightarrow> loaded p claim B l rec)"

lemma got_simps [simp]: "got p claim B (Inr e)" "got p claim B (Inl (l, rec)) = loaded p claim B l rec"
  by (simp_all add: got_def)

lemma expired_step: "rec_step rec (expired_record rec) \<longleftrightarrow> cr_FencingToken rec \<le> MaxSafeFencingToken"
proof -
  have "rec_view (expired_record rec) = vacant (v_token (rec_view rec))"
    by (simp add: rec_view_def expired_record_def held_phase_def)
  then show ?thesis using fs_vacate [of "rec_view rec"] by (auto simp: rec_step_def expired_record_def)
qed

lemma wp_update:
  assumes "loaded p claim B l rec" "rec_step rec rec'"
    and "\<And>e B'. knows B B' \<Longrightarrow> wp p Q (k (Inr e)) B'"
    and "\<And>l' B'. knows B B' \<Longrightarrow> loaded p claim B' l' (recordFromLease claim l') \<Longrightarrow> wp p Q (k (Inl l')) B'"
  shows "wp p Q (IUpdate (applyRecord now l rec' ttl) k) B"
proof -
  have l: "l \<in> B" "read_lease l" "ls_Name l = leaseName p claim" and g: "guarded l (applyRecord now l rec' ttl)"
    using assms(1, 2) applyRecord_guarded by (auto simp: loaded_def)
  have "wp p Q (k x) B'" if "knows B B'" "\<forall>l'. x = Inl l' \<longrightarrow> l' \<in> B' \<and> ls_Name l' = leaseName p claim" for x B'
  proof (cases x)
    case (Inl l')
    with that show ?thesis using assms(4) read_loaded by blast
  next
    case (Inr e)
    with that show ?thesis using assms(3) by blast
  qed
  with l g show ?thesis unfolding wp.simps by auto
qed

lemma wp_expire_lease:
  assumes "loaded p claim B l (recordFromLease claim l)"
  shows "wp p (got p claim) (expire_lease claim l) B"
proof -
  let ?rec = "recordFromLease claim l"
  have tok: "rec_step ?rec (expired_record ?rec)"
    using assms typed_token by (auto simp: expired_step loaded_def read_lease_def)
  have "wp p (got p claim) (IUpdate (applyRecord now l (expired_record ?rec) ttl)
      (\<lambda>r. case r of Inr err \<Rightarrow> IDone (Inr err) | Inl l \<Rightarrow> IDone (Inl (l, recordFromLease claim l)))) B'"
    if "knows B B'" for B' now ttl
    using loaded_mono [OF assms that] tok by (rule wp_update) simp_all
  then show ?thesis using assms knows_trans loaded_mono [OF assms] by (simp add: expire_lease_def Let_def del: wp.simps(4))
qed

lemma empty_lease_ok: "lease_typed (empty_lease n) \<and> lease_view (empty_lease n) = vacant 0 \<and> ls_Name (empty_lease n) = n"
proof -
  have "''0'' = decimal 0" by code_simp
  then have "''0'' = decimal (unat (0 :: u64))" by simp
  then have "lease_typed (empty_lease n)" unfolding lease_typed_def empty_lease_def by (auto intro!: exI [of _ 0])
  then show ?thesis
    by (simp add: empty_lease_def lease_view_def recordFromLease_def Let_def ann_get_def ClaimPhase_of_def rec_view_def
        held_phase_def scan_zero)
qed

lemma wp_getOrCreate: "wp p (got p claim) (getOrCreate p claim) B"
proof -
  have e: "wp p (got p claim) (expire_lease claim l) B'" if "knows B B'" "l \<in> B'" "ls_Name l = leaseName p claim" for B B' l
    using wp_expire_lease read_loaded that by blast
  show ?thesis
    using e by (auto simp: getOrCreate_def Let_def empty_lease_ok split: sum.split)
qed

lemma wp_load_lease:
  assumes "\<And>B l rec. loaded p claim B l rec \<Longrightarrow> wp p (reply_ok p) (k l rec) B"
  shows "wp p (reply_ok p) (load_lease p i claim k) B"
proof -
  have "wp p (reply_ok p) (io_bind (getOrCreate p claim) (\<lambda>r. case r of Inr err \<Rightarrow> k8s_return None (Some err)
      | Inl (l, rec) \<Rightarrow> k l rec)) B" for B
    by (rule wp_bind, rule wp_weaken [OF wp_getOrCreate])
      (auto simp: assms wp_return got_def split: sum.split prod.split)
  then show ?thesis by (auto simp: load_lease_def recallOp_def wp_return op_genuine_def split: option.split)
qed

lemma wp_save_lease:
  assumes "loaded p claim B l rec" "rec_step rec rec'"
  shows "wp p (reply_ok p) (save_lease i claim h l rec' ttl) B"
proof -
  have "wp p (reply_ok p) (IUpdate (applyRecord now l rec' ttl) (\<lambda>r. case r of Inr err \<Rightarrow> k8s_return None (Some (h err))
      | Inl l \<Rightarrow> (let out = recordFromLease claim l in storeOp i (Some out) None (k8s_return (Some out) None)))) B'"
    if "knows B B'" for B' now
    using loaded_mono [OF assms(1) that] assms(2)
    by (rule wp_update) (auto simp: wp_return Let_def intro!: wp_storeOp loaded_genuine)
  then show ?thesis by (simp add: save_lease_def del: wp.simps(4))
qed

lemma loaded_facts:
  assumes "loaded p claim B l rec"
  shows "cr_Phase rec \<in> {ClaimUnowned, ClaimOwned, ClaimReserved}" "cr_Phase rec = ClaimUnowned \<Longrightarrow> cr_OwnerGeneration rec = ''''"
    "cr_FencingToken rec \<le> MaxSafeFencingToken" "genuine p B rec"
  using assms typed_phase typed_unowned typed_token loaded_genuine unfolding loaded_def read_lease_def by blast+

text \<open>The records the methods write, one lemma for each way a claim moves.\<close>

lemma step_touch:
  assumes "loaded p claim B l rec"
  shows "rec_step rec (rec\<lparr>cr_Reason := r, cr_Version := v\<rparr>)"
proof -
  have "rec_view (rec\<lparr>cr_Reason := r, cr_Version := v\<rparr>) = rec_view rec" by (simp add: rec_view_def)
  then show ?thesis using loaded_facts [OF assms] by (simp add: rec_step_def)
qed

lemma step_acquire:
  assumes "loaded p claim B l rec" "\<not> held_phase (cr_Phase rec)" "cr_FencingToken rec < MaxSafeFencingToken"
    and "cr_Phase rec' = ClaimOwned" "cr_FencingToken rec' = cr_FencingToken rec + 1"
  shows "rec_step rec rec'"
proof -
  have "rec_view rec = vacant (cr_FencingToken rec)" using assms(2) by (auto simp: rec_view_def held_phase_def)
  moreover have "rec_view rec' = \<lparr>v_holder = cr_OwnerGeneration rec', v_pending = None, v_token = cr_FencingToken rec + 1\<rparr>"
    using assms(4, 5) by (simp add: rec_view_def held_phase_def)
  ultimately show ?thesis
    using assms(3-5) fs_acquire [OF assms(3)] by (auto simp: rec_step_def inc_le)
qed

lemma step_reserve:
  assumes "loaded p claim B l rec" "cr_OwnerGeneration rec' = cr_OwnerGeneration rec"
    and "cr_Phase rec' = ClaimReserved" "cr_FencingToken rec' = cr_FencingToken rec"
  shows "rec_step rec rec'"
proof -
  have "v_holder (rec_view rec) = cr_OwnerGeneration rec" using loaded_facts [OF assms(1)] by (auto simp: rec_view_def held_phase_def)
  then have "rec_view rec' = (rec_view rec)\<lparr>v_pending := Some (cr_PendingSuccessor rec')\<rparr>"
    using assms(2-4) by (simp add: rec_view_def held_phase_def)
  then show ?thesis using assms(3, 4) loaded_facts(3) [OF assms(1)] fs_reserve by (auto simp: rec_step_def)
qed

lemma step_commit:
  assumes "loaded p claim B l rec" "cr_Phase rec = ClaimReserved" "cr_OwnerGeneration rec' = cr_PendingSuccessor rec"
    and "cr_Phase rec' = ClaimOwned" "cr_FencingToken rec < MaxSafeFencingToken" "cr_FencingToken rec' = cr_FencingToken rec + 1"
  shows "rec_step rec rec'"
proof -
  have "v_pending (rec_view rec) = Some (cr_PendingSuccessor rec)" "v_token (rec_view rec) = cr_FencingToken rec"
    using assms(2) by (simp_all add: rec_view_def)
  then have "fence_step (rec_view rec) (rec_view rec')"
    using fs_commit [of "rec_view rec"] assms(3-6) by (simp add: rec_view_def held_phase_def)
  then show ?thesis using assms(4-6) by (auto simp: rec_step_def inc_le)
qed

lemma step_abort:
  assumes "loaded p claim B l rec" "cr_Phase rec = ClaimReserved" "cr_OwnerGeneration rec' = cr_OwnerGeneration rec"
    and "cr_Phase rec' = ClaimOwned" "cr_FencingToken rec' = cr_FencingToken rec"
  shows "rec_step rec rec'"
proof -
  have "rec_view rec' = (rec_view rec)\<lparr>v_pending := None\<rparr>" using assms(2-5) by (simp add: rec_view_def held_phase_def)
  then show ?thesis using assms(4, 5) loaded_facts(3) [OF assms(1)] fs_abort by (auto simp: rec_step_def)
qed

lemma step_release:
  assumes "loaded p claim B l rec" "cr_Phase rec' = ClaimUnowned" "cr_OwnerGeneration rec' = ''''"
    and "cr_FencingToken rec' = cr_FencingToken rec"
  shows "rec_step rec rec'"
proof -
  have "rec_view rec' = vacant (v_token (rec_view rec))" using assms(2-4) by (simp add: rec_view_def held_phase_def)
  then show ?thesis using assms(2-4) loaded_facts(3) [OF assms(1)] fs_vacate by (auto simp: rec_step_def)
qed

lemma wp_now_save:
  assumes "loaded p claim B l rec" "\<And>now. rec_step rec (f now)"
  shows "wp p (reply_ok p) (INow (\<lambda>now. save_lease i claim h l (f now) ttl)) B"
  using wp_save_lease [OF loaded_mono [OF assms(1)] assms(2)] by simp

lemma wp_AcquireClaim: "wp p (reply_ok p) (k8s_AcquireClaim p req) B"
  unfolding k8s_AcquireClaim_def
  by (rule wp_load_lease)
    (auto simp: wp_return not_le loaded_facts intro!: wp_storeOp wp_save_lease step_touch wp_now_save
      simp del: wp.simps elim: step_acquire)

lemma wp_RenewClaim: "wp p (reply_ok p) (k8s_RenewClaim p req) B"
  unfolding k8s_RenewClaim_def
  by (rule wp_load_lease) (auto simp: wp_return loaded_facts intro!: wp_save_lease step_touch simp del: wp.simps)

lemma wp_PrepareTransfer: "wp p (reply_ok p) (k8s_PrepareTransfer p req) B"
  unfolding k8s_PrepareTransfer_def
  by (rule wp_load_lease)
    (auto simp: wp_return loaded_facts intro!: wp_storeOp wp_save_lease elim: step_reserve simp del: wp.simps)

lemma wp_CommitTransfer: "wp p (reply_ok p) (k8s_CommitTransfer p req) B"
  unfolding k8s_CommitTransfer_def
  by (rule wp_load_lease)
    (auto simp: wp_return loaded_facts not_le intro!: wp_storeOp wp_now_save elim: step_commit simp del: wp.simps)

lemma wp_AbortTransfer: "wp p (reply_ok p) (k8s_AbortTransfer p req) B"
  unfolding k8s_AbortTransfer_def
  by (rule wp_load_lease)
    (auto simp: wp_return loaded_facts intro!: wp_storeOp wp_save_lease elim: step_abort simp del: wp.simps)

lemma wp_release_lease:
  assumes "loaded p claim B l rec"
  shows "wp p (reply_ok p) (release_lease i l rec) B"
proof -
  have "wp p (reply_ok p) (IUpdate (applyRecord now l (released_record rec) (15 * Second)) (\<lambda>r.
       let err = (case r of Inl _ \<Rightarrow> None | Inr err \<Rightarrow> Some err)
       in storeOp i None err (k8s_return None err))) B'" if "knows B B'" for B' now
  proof -
    have l: "loaded p claim B' l rec" using assms that by (rule loaded_mono)
    have "rec_step rec (released_record rec)" by (rule step_release [OF l]) (simp_all add: released_record_def)
    with l show ?thesis by (rule wp_update) (auto simp: wp_return Let_def intro!: wp_storeOp)
  qed
  then show ?thesis by (simp add: release_lease_def del: wp.simps(4))
qed

lemma wp_ReleaseClaim: "wp p (reply_ok p) (k8s_ReleaseClaim p req) B"
  unfolding k8s_ReleaseClaim_def
  by (rule wp_bind, rule wp_weaken [OF wp_load_lease])
    (auto simp: wp_return reply_ok_def k8s_return_def [of None] intro!: wp_storeOp intro: wp_release_lease
      simp del: wp.simps(2-) split: if_splits)

lemma wp_GetClaim: "wp p (reply_ok p) (k8s_GetClaim p claim) B"
  unfolding k8s_GetClaim_def
  by (rule wp_bind, rule wp_weaken [OF wp_getOrCreate])
    (auto simp: wp_return got_def loaded_genuine split: sum.split prod.split)

theorem wp_call: "wp p (reply_ok p) (k8s_call p q) B"
  by (cases q) (simp_all add: wp_AcquireClaim wp_RenewClaim wp_PrepareTransfer wp_CommitTransfer wp_AbortTransfer
      wp_ReleaseClaim wp_GetClaim k8s_RegisterGeneration_def k8s_UpdateGeneration_def wp_return)

section \<open>Servers with optimistic concurrency\<close>

text \<open>
  What the backend relies on in a server: a lease that is read is the stored one, and a write that
  succeeds stores the lease under a version never used before, after checking that the object is
  absent (\<open>Create\<close>) or still has the version of the request (\<open>Update\<close>).
\<close>

definition puts ::
  "('s \<Rightarrow> string \<rightharpoonup> LeaseObject) \<Rightarrow> ('s \<Rightarrow> string set) \<Rightarrow> 's \<Rightarrow> LeaseObject \<Rightarrow> 's \<Rightarrow> LeaseObject \<Rightarrow> bool" where
  "puts stored issued s l s' l' \<longleftrightarrow> (\<exists>v. v \<noteq> '''' \<and> v \<notin> issued s \<and> issued s' = insert v (issued s)
     \<and> l' = l\<lparr>ls_ResourceVersion := v\<rparr> \<and> stored s' = (stored s)(ls_Name l \<mapsto> l'))"

definition server_inv :: "('s \<Rightarrow> string \<rightharpoonup> LeaseObject) \<Rightarrow> ('s \<Rightarrow> string set) \<Rightarrow> 's \<Rightarrow> LeaseObject set \<Rightarrow> bool" where
  "server_inv stored issued s H \<longleftrightarrow>
     (\<forall>l\<in>H. read_lease l \<and> ls_ResourceVersion l \<in> issued s)
     \<and> (\<forall>n l. stored s n = Some l \<longrightarrow> l \<in> H \<and> ls_Name l = n)
     \<and> (\<forall>b\<in>H. \<exists>cur. stored s (ls_Name b) = Some cur \<and> (ls_ResourceVersion cur = ls_ResourceVersion b \<longrightarrow> cur = b)
          \<and> fence_steps (lease_view b) (lease_view cur))
     \<and> (\<forall>a\<in>H. \<forall>b\<in>H. ls_Name a = ls_Name b \<longrightarrow>
          fence_steps (lease_view a) (lease_view b) \<or> fence_steps (lease_view b) (lease_view a))"

lemma version_irrelevant [simp]:
  "lease_view (l\<lparr>ls_ResourceVersion := v\<rparr>) = lease_view l" "lease_typed (l\<lparr>ls_ResourceVersion := v\<rparr>) = lease_typed l"
  by (simp_all add: lease_view_def recordFromLease_def lease_typed_def)

lemma server_inv_knows: "server_inv stored issued s H \<Longrightarrow> knows H H"
  unfolding server_inv_def knows_def by blast

lemma server_inv_stored: "server_inv stored issued s H \<Longrightarrow> b \<in> H \<Longrightarrow> \<exists>cur. stored s (ls_Name b) = Some cur"
  unfolding server_inv_def by blast

lemma put_knows:
  assumes "server_inv stored issued s H" "puts stored issued s l s' l'" "lease_typed l"
  shows "knows H (insert l' H)" "ls_Name l' = ls_Name l"
proof -
  obtain v where v: "v \<noteq> ''''" "l' = l\<lparr>ls_ResourceVersion := v\<rparr>" using assms(2) unfolding puts_def by blast
  have "read_lease l'" using v assms(3) by (simp add: read_lease_def)
  then show "knows H (insert l' H)" using server_inv_knows [OF assms(1)] unfolding knows_def by blast
  show "ls_Name l' = ls_Name l" using v by simp
qed

lemma put_inv:
  assumes inv: "server_inv stored issued s H" and put: "puts stored issued s l s' l'" and typed: "lease_typed l"
    and old: "\<And>b. b \<in> H \<Longrightarrow> ls_Name b = ls_Name l \<Longrightarrow> fence_steps (lease_view b) (lease_view l)"
  shows "server_inv stored issued s' (insert l' H)"
proof -
  obtain v where v: "v \<noteq> ''''" "v \<notin> issued s" "issued s' = insert v (issued s)" "l' = l\<lparr>ls_ResourceVersion := v\<rparr>"
    and st: "stored s' = (stored s)(ls_Name l \<mapsto> l')" using put by (auto simp: puts_def)
  have H: "\<And>b. b \<in> H \<Longrightarrow> read_lease b \<and> ls_ResourceVersion b \<in> issued s"
    and cur: "\<And>n l. stored s n = Some l \<Longrightarrow> l \<in> H \<and> ls_Name l = n"
    and chain: "\<And>b. b \<in> H \<Longrightarrow> \<exists>cur. stored s (ls_Name b) = Some cur
          \<and> (ls_ResourceVersion cur = ls_ResourceVersion b \<longrightarrow> cur = b) \<and> fence_steps (lease_view b) (lease_view cur)"
    and comp: "\<And>a b. a \<in> H \<Longrightarrow> b \<in> H \<Longrightarrow> ls_Name a = ls_Name b \<Longrightarrow>
          fence_steps (lease_view a) (lease_view b) \<or> fence_steps (lease_view b) (lease_view a)"
    using inv unfolding server_inv_def by blast+
  have l': "ls_Name l' = ls_Name l" "ls_ResourceVersion l' = v" "lease_view l' = lease_view l" "read_lease l'"
    using v typed by (simp_all add: read_lease_def)
  show ?thesis unfolding server_inv_def
  proof (intro conjI ballI allI impI)
    show "read_lease b" "ls_ResourceVersion b \<in> issued s'" if "b \<in> insert l' H" for b
      using that H l' v(3) by auto
    show "x \<in> insert l' H" "ls_Name x = n" if "stored s' n = Some x" for n x
      using that cur l' by (auto simp: st split: if_splits)
    show "\<exists>cur. stored s' (ls_Name b) = Some cur \<and> (ls_ResourceVersion cur = ls_ResourceVersion b \<longrightarrow> cur = b)
        \<and> fence_steps (lease_view b) (lease_view cur)" if "b \<in> insert l' H" for b
    proof (cases "ls_Name b = ls_Name l")
      case True
      then show ?thesis using that H v(2) l' old by (auto simp: st)
    next
      case False
      then show ?thesis using that chain l'(1) by (auto simp: st)
    qed
    show "fence_steps (lease_view a) (lease_view b) \<or> fence_steps (lease_view b) (lease_view a)"
      if "a \<in> insert l' H" "b \<in> insert l' H" "ls_Name a = ls_Name b" for a b
      using that comp old l' by auto
  qed
qed

lemma server_inv_cur:
  assumes "server_inv stored issued s H" "b \<in> H" "stored s (ls_Name b) = Some cur"
  shows "ls_ResourceVersion cur = ls_ResourceVersion b \<Longrightarrow> cur = b" "fence_steps (lease_view b) (lease_view cur)"
proof -
  have "\<exists>cur. stored s (ls_Name b) = Some cur \<and> (ls_ResourceVersion cur = ls_ResourceVersion b \<longrightarrow> cur = b)
          \<and> fence_steps (lease_view b) (lease_view cur)"
    using assms(1, 2) unfolding server_inv_def by blast
  then show "ls_ResourceVersion cur = ls_ResourceVersion b \<Longrightarrow> cur = b" "fence_steps (lease_view b) (lease_view cur)"
    unfolding assms(3) option.inject by blast+
qed

locale lease_server =
  fixes C :: "'s LeaseClient" and stored :: "'s \<Rightarrow> string \<rightharpoonup> LeaseObject" and issued :: "'s \<Rightarrow> string set"
  assumes Get_stored: "lc_Get C s n = Inl l \<Longrightarrow> stored s n = Some l"
    and Create_stores: "lc_Create C s l = (s', Inl l') \<Longrightarrow> stored s (ls_Name l) = None \<and> puts stored issued s l s' l'"
    and Create_fails: "lc_Create C s l = (s', Inr e) \<Longrightarrow> s' = s"
    and Update_stores: "lc_Update C s l = (s', Inl l') \<Longrightarrow>
      (\<exists>cur. stored s (ls_Name l) = Some cur \<and> (ls_ResourceVersion l \<noteq> '''' \<longrightarrow> ls_ResourceVersion l = ls_ResourceVersion cur))
      \<and> puts stored issued s l s' l'"
    and Update_fails: "lc_Update C s l = (s', Inr e) \<Longrightarrow> s' = s"
begin

abbreviation inv :: "'s \<Rightarrow> LeaseObject set \<Rightarrow> bool" where
  "inv \<equiv> server_inv stored issued"

lemma delivered:
  assumes "deliver f s (s1, r1) = (s', r)" "knows H H" "inv s H" "knows H H1" "inv s1 H1"
    and "\<And>l'. r1 = Inl l' \<Longrightarrow> l' \<in> H1 \<and> ls_Name l' = n"
  shows "\<exists>H'. knows H H' \<and> inv s' H' \<and> (\<forall>l'. r = Inl l' \<longrightarrow> l' \<in> H' \<and> ls_Name l' = n)"
proof (cases f)
  case Fine
  then have "s' = s1" "r = r1" using assms(1) by simp_all
  then show ?thesis using assms(4-6) by (intro exI [of _ H1]) simp
next
  case (RequestLost e)
  then have "s' = s" "r = Inr e" using assms(1) by auto
  then show ?thesis using assms(2, 3) by (intro exI [of _ H]) simp
next
  case (ReplyLost e)
  then have "s' = s1" "r = Inr e" using assms(1) by auto
  then show ?thesis using assms(4, 5) by (intro exI [of _ H1]) simp
qed

lemma create_step:
  assumes "inv s H" "lease_typed l" "lease_view l = vacant 0" "deliver f s (lc_Create C s l) = (s', r)"
  shows "\<exists>H'. knows H H' \<and> inv s' H' \<and> (\<forall>l'. r = Inl l' \<longrightarrow> l' \<in> H' \<and> ls_Name l' = ls_Name l)"
proof -
  obtain s1 r1 where c: "lc_Create C s l = (s1, r1)" by (cases "lc_Create C s l")
  have same: "knows H H" using assms(1) by (rule server_inv_knows)
  show ?thesis
  proof (cases r1)
    case (Inr e)
    with c have "s1 = s" using Create_fails by blast
    then show ?thesis using delivered [OF assms(4) [unfolded c] same assms(1) same] assms(1) Inr by simp
  next
    case (Inl l')
    with c have p: "stored s (ls_Name l) = None" "puts stored issued s l s1 l'" using Create_stores by blast+
    have none: "\<not> (b \<in> H \<and> ls_Name b = ls_Name l)" for b
      using server_inv_stored [OF assms(1)] p(1) by (metis option.distinct(1))
    have H': "inv s1 (insert l' H)" by (rule put_inv [OF assms(1) p(2) assms(2)]) (use none in blast)
    show ?thesis
      using delivered [OF assms(4) [unfolded c] same assms(1) put_knows(1) [OF assms(1) p(2) assms(2)] H'] put_knows(2) [OF assms(1) p(2) assms(2)] Inl
      by simp
  qed
qed

lemma update_step:
  assumes "inv s H" "b \<in> H" "read_lease b" "guarded b l" "deliver f s (lc_Update C s l) = (s', r)"
  shows "\<exists>H'. knows H H' \<and> inv s' H' \<and> (\<forall>l'. r = Inl l' \<longrightarrow> l' \<in> H' \<and> ls_Name l' = ls_Name l)"
proof -
  obtain s1 r1 where c: "lc_Update C s l = (s1, r1)" by (cases "lc_Update C s l")
  have same: "knows H H" using assms(1) by (rule server_inv_knows)
  show ?thesis
  proof (cases r1)
    case (Inr e)
    with c have "s1 = s" using Update_fails by blast
    then show ?thesis using delivered [OF assms(5) [unfolded c] same assms(1) same] assms(1) Inr by simp
  next
    case (Inl l')
    have l: "ls_Name l = ls_Name b" "ls_ResourceVersion l = ls_ResourceVersion b" "lease_typed l" "ls_ResourceVersion b \<noteq> ''''"
      "fence_steps (lease_view b) (lease_view l)"
      using assms(3, 4) by (simp_all add: guarded_def read_lease_def)
    have u: "\<exists>cur. stored s (ls_Name l) = Some cur \<and> (ls_ResourceVersion l \<noteq> '''' \<longrightarrow> ls_ResourceVersion l = ls_ResourceVersion cur)"
      and p: "puts stored issued s l s1 l'" using Update_stores [OF c [unfolded Inl]] by blast+
    then obtain cur where cur: "stored s (ls_Name b) = Some cur" "ls_ResourceVersion b = ls_ResourceVersion cur"
      unfolding l(1, 2) using l(4) by blast
    have "cur = b" using server_inv_cur(1) [OF assms(1, 2) cur(1)] cur(2) by simp
    then have b: "stored s (ls_Name l) = Some b" using cur(1) l(1) by simp
    have old: "fence_steps (lease_view a) (lease_view l)" if "a \<in> H" "ls_Name a = ls_Name l" for a
    proof -
      have "fence_steps (lease_view a) (lease_view b)"
        using server_inv_cur(2) [OF assms(1) that(1)] b unfolding that(2) by blast
      then show ?thesis using l(5) by (rule rtranclp_trans)
    qed
    have H': "inv s1 (insert l' H)" by (rule put_inv [OF assms(1) p l(3) old])
    show ?thesis
      using delivered [OF assms(5) [unfolded c] same assms(1) put_knows(1) [OF assms(1) p l(3)] H'] put_knows(2) [OF assms(1) p l(3)] Inl
      by simp
  qed
qed

definition node_ok :: "LeaseObject set \<Rightarrow> KBackend \<Rightarrow> bool" where
  "node_ok H b \<longleftrightarrow> (\<forall>i r. kb_ops b i = Some r \<longrightarrow> op_genuine (kb_prefix b) H r)"

lemma node_ok_mono: "node_ok H b \<Longrightarrow> knows H H' \<Longrightarrow> node_ok H' b"
  unfolding node_ok_def using op_genuine_mono by blast

lemma io_step_ok:
  assumes "inv s H" "node_ok H b" "wp (kb_prefix b) Q t H" "stable Q" "io_step C f now s b t = (s', b', t')"
  shows "\<exists>H'. knows H H' \<and> inv s' H' \<and> node_ok H' b' \<and> kb_prefix b' = kb_prefix b \<and> wp (kb_prefix b) Q t' H'"
proof -
  have same: "knows H H" using assms(1) by (rule server_inv_knows)
  have request: ?thesis if "b' = b" and "\<exists>H'. knows H H' \<and> inv s' H' \<and> (\<forall>l'. r = Inl l' \<longrightarrow> l' \<in> H' \<and> ls_Name l' = n)"
    and "\<And>H'. knows H H' \<Longrightarrow> \<forall>l'. r = Inl l' \<longrightarrow> l' \<in> H' \<and> ls_Name l' = n \<Longrightarrow> wp (kb_prefix b) Q t' H'" for r n
    using that node_ok_mono [OF assms(2)] by blast
  show ?thesis
  proof (cases t)
    case (IDone x)
    then show ?thesis using assms(1-3, 5) same by auto
  next
    case (IGet n k)
    obtain s1 r where d: "deliver f s (s, lc_Get C s n) = (s1, r)" by (cases "deliver f s (s, lc_Get C s n)")
    have g: "l \<in> H \<and> ls_Name l = n" if "lc_Get C s n = Inl l" for l
      using Get_stored [OF that] assms(1) unfolding server_inv_def by blast
    have out: "b' = b" "s' = s1" "t' = k r" using assms(5) d by (auto simp: IGet)
    show ?thesis
      using request [OF out(1), of r n] delivered [OF d same assms(1) same assms(1) g] assms(3) unfolding out IGet wp.simps by blast
  next
    case (ICreate l k)
    obtain s1 r where d: "deliver f s (lc_Create C s l) = (s1, r)" by (cases "deliver f s (lc_Create C s l)")
    have out: "b' = b" "s' = s1" "t' = k r" using assms(5) d by (auto simp: ICreate)
    show ?thesis
      using request [OF out(1), of r "ls_Name l"] create_step [OF assms(1) _ _ d] assms(3) unfolding out ICreate wp.simps by blast
  next
    case (IUpdate l k)
    obtain s1 r where d: "deliver f s (lc_Update C s l) = (s1, r)" by (cases "deliver f s (lc_Update C s l)")
    have out: "b' = b" "s' = s1" "t' = k r" using assms(5) d by (auto simp: IUpdate)
    show ?thesis
      using request [OF out(1), of r "ls_Name l"] update_step [OF assms(1) _ _ _ d] assms(3) unfolding out IUpdate wp.simps by blast
  next
    case (IStore i r q)
    have out: "s' = s" "b' = b\<lparr>kb_ops := (kb_ops b)(i \<mapsto> r)\<rparr>" "t' = q" using assms(5) by (simp_all add: IStore)
    have "op_genuine (kb_prefix b) H r" "wp (kb_prefix b) Q q H" using assms(3) same by (simp_all add: IStore)
    then show ?thesis using assms(1, 2) same unfolding out by (intro exI [of _ H]) (simp add: node_ok_def)
  next
    case (IPutGen g q)
    have out: "s' = s" "b' = b\<lparr>kb_gens := (kb_gens b)(gen_ID g \<mapsto> g)\<rparr>" "t' = q" using assms(5) by (simp_all add: IPutGen)
    have "wp (kb_prefix b) Q q H" using assms(3) same by (simp add: IPutGen)
    then show ?thesis using assms(1, 2) same unfolding out by (intro exI [of _ H]) (simp add: node_ok_def)
  next
    case (IRecall i k)
    have out: "s' = s" "b' = b" "t' = k (kb_ops b i)" using assms(5) by (auto simp: IRecall)
    have "\<forall>r. kb_ops b i = Some r \<longrightarrow> op_genuine (kb_prefix b) H r" using assms(2) unfolding node_ok_def by blast
    then have "wp (kb_prefix b) Q (k (kb_ops b i)) H" using assms(3) same unfolding IRecall wp.simps by blast
    then show ?thesis using assms(1, 2) same unfolding out by blast
  next
    case (INow k)
    have out: "s' = s" "b' = b" "t' = k now" using assms(5) by (simp_all add: INow)
    have "wp (kb_prefix b) Q (k now) H" using assms(3) same unfolding INow wp.simps by blast
    then show ?thesis using assms(1, 2) same unfolding out by blast
  next
    case (IGetGen g k)
    have out: "s' = s" "b' = b" "t' = k (kb_gens b g)" using assms(5) by (auto simp: IGetGen)
    have "wp (kb_prefix b) Q (k (kb_gens b g)) H" using assms(3) same unfolding IGetGen wp.simps by blast
    then show ?thesis using assms(1, 2) same unfolding out by blast
  qed
qed

definition call_ok :: "LeaseObject set \<Rightarrow> KBackend list \<Rightarrow> nat \<times> rec_result io \<Rightarrow> bool" where
  "call_ok H bs q \<longleftrightarrow> fst q < length bs \<and> wp (kb_prefix (bs ! fst q)) (reply_ok (kb_prefix (bs ! fst q))) (snd q) H"

definition cluster_ok :: "LeaseObject set \<Rightarrow> 's cluster \<Rightarrow> bool" where
  "cluster_ok H c \<longleftrightarrow> inv (cl_api c) H \<and> (\<forall>b\<in>set (cl_nodes c). node_ok H b) \<and> (\<forall>q\<in>set (cl_calls c). call_ok H (cl_nodes c) q)"

lemma cluster_ok_knows: "cluster_ok H c \<Longrightarrow> knows H H"
  using server_inv_knows [of stored issued "cl_api c" H] unfolding cluster_ok_def by blast

lemma call_ok_mono:
  assumes "call_ok H bs q" "knows H H'" "length bs \<le> length bs'" "\<And>i. i < length bs \<Longrightarrow> kb_prefix (bs' ! i) = kb_prefix (bs ! i)"
  shows "call_ok H' bs' q"
  using assms wp_mono [OF stable_reply _ assms(2)] unfolding call_ok_def by auto

lemma cluster_step_ok:
  assumes "cluster_ok H c"
  shows "\<exists>H'. knows H H' \<and> cluster_ok H' (cluster_step C c i f t)"
proof (cases "i < length (cl_calls c) \<and> fst (cl_calls c ! i) < length (cl_nodes c)")
  case False
  then have "cluster_step C c i f t = c" by (simp only: cluster_step_def if_False)
  then show ?thesis using assms cluster_ok_knows [OF assms] by auto
next
  case True
  obtain n p where q: "cl_calls c ! i = (n, p)" by (cases "cl_calls c ! i")
  let ?b = "cl_nodes c ! n"
  obtain s b' p' where st: "io_step C f t (cl_api c) ?b p = (s, b', p')" by (metis prod_cases3)
  have n: "n < length (cl_nodes c)" and i: "i < length (cl_calls c)" using True q by simp_all
  have c: "inv (cl_api c) H" "\<And>b. b \<in> set (cl_nodes c) \<Longrightarrow> node_ok H b" "\<And>q. q \<in> set (cl_calls c) \<Longrightarrow> call_ok H (cl_nodes c) q"
    using assms unfolding cluster_ok_def by blast+
  have "call_ok H (cl_nodes c) (n, p)" using c(3) i q nth_mem by metis
  then have w: "wp (kb_prefix ?b) (reply_ok (kb_prefix ?b)) p H" by (simp add: call_ok_def)
  obtain H' where H': "knows H H'" "inv s H'" "node_ok H' b'" "kb_prefix b' = kb_prefix ?b"
      "wp (kb_prefix ?b) (reply_ok (kb_prefix ?b)) p' H'"
    using io_step_ok [OF c(1) c(2) [OF nth_mem [OF n]] w stable_reply st] by blast
  have eq: "cluster_step C c i f t = \<lparr>cl_api = s, cl_nodes = (cl_nodes c)[n := b'], cl_calls = (cl_calls c)[i := (n, p')]\<rparr>"
    using True by (simp add: cluster_step_def q st)
  have pre: "kb_prefix ((cl_nodes c)[n := b'] ! j) = kb_prefix (cl_nodes c ! j)" for j
    using H'(4) n by (cases "j = n") simp_all
  have "node_ok H' b" if "b \<in> set ((cl_nodes c)[n := b'])" for b
    using that set_update_subset_insert [of "cl_nodes c" n b'] H'(3) c(2) node_ok_mono [OF _ H'(1)] by blast
  moreover have "call_ok H' ((cl_nodes c)[n := b']) q" if "q \<in> set ((cl_calls c)[i := (n, p')])" for q
  proof (cases "q = (n, p')")
    case True
    then show ?thesis using H'(4, 5) n by (simp add: call_ok_def)
  next
    case False
    then have "q \<in> set (cl_calls c)" using that set_update_subset_insert [of "cl_calls c" i "(n, p')"] by blast
    then show ?thesis using call_ok_mono [OF c(3) H'(1), of q "(cl_nodes c)[n := b']"] pre by simp
  qed
  ultimately show ?thesis using H'(1, 2) unfolding eq cluster_ok_def by auto
qed

lemma cluster_act_ok:
  assumes "cluster_ok H c"
  shows "\<exists>H'. knows H H' \<and> cluster_ok H' (cluster_act C c a)"
proof (cases a)
  case (Boot p)
  have same: "knows H H" by (rule cluster_ok_knows [OF assms])
  have "node_ok H (k8s_New p)" by (simp add: node_ok_def k8s_New_def)
  moreover have "call_ok H (cl_nodes c @ [k8s_New p]) q" if "q \<in> set (cl_calls c)" for q
    using assms that call_ok_mono [of H "cl_nodes c" q H "cl_nodes c @ [k8s_New p]"] same by (simp add: cluster_ok_def nth_append)
  ultimately show ?thesis using assms same by (auto simp: Boot cluster_ok_def intro!: exI [of _ H])
next
  case (Start n q)
  have same: "knows H H" by (rule cluster_ok_knows [OF assms])
  then show ?thesis using assms by (auto simp: Start cluster_ok_def call_ok_def wp_call intro!: exI [of _ H])
next
  case (Step i f t)
  then show ?thesis using cluster_step_ok [OF assms] by simp
qed

lemma cluster_run_ok:
  assumes "stored s = Map.empty"
  shows "\<exists>H. cluster_ok H (cluster_run C (new_cluster s) as)"
proof (induction as rule: rev_induct)
  case Nil
  have "cluster_ok {} (new_cluster s)" using assms by (simp add: cluster_ok_def new_cluster_def server_inv_def)
  then show ?case by (auto simp: cluster_run_def)
next
  case (snoc a as)
  then obtain H where "cluster_ok H (cluster_run C (new_cluster s) as)" by blast
  then show ?case using cluster_act_ok by (simp add: cluster_run_def) blast
qed

lemma replies_exclusive:
  assumes "stored s = Map.empty" and c: "c = cluster_run C (new_cluster s) as"
    and r: "(n1, IDone (Some r1, e1)) \<in> set (cl_calls c)" "(n2, IDone (Some r2, e2)) \<in> set (cl_calls c)"
    and "leaseName (kb_prefix (cl_nodes c ! n1)) (cr_Name r1) = leaseName (kb_prefix (cl_nodes c ! n2)) (cr_Name r2)"
    and "held_phase (cr_Phase r1)" "held_phase (cr_Phase r2)" "cr_FencingToken r1 = cr_FencingToken r2"
    and "cr_OwnerGeneration r1 \<noteq> ''''" "cr_OwnerGeneration r2 \<noteq> ''''"
  shows "cr_OwnerGeneration r1 = cr_OwnerGeneration r2"
proof -
  obtain H where H: "cluster_ok H c" using cluster_run_ok [OF assms(1)] c by blast
  have g: "genuine (kb_prefix (cl_nodes c ! n1)) H r1" "genuine (kb_prefix (cl_nodes c ! n2)) H r2"
    using H r unfolding cluster_ok_def call_ok_def by (fastforce simp: reply_ok_def)+
  obtain b1 where b1: "b1 \<in> H" "ls_Name b1 = leaseName (kb_prefix (cl_nodes c ! n1)) (cr_Name r1)"
    "r1 = recordFromLease (cr_Name r1) b1" using g(1) unfolding genuine_def by blast
  obtain b2 where b2: "b2 \<in> H" "ls_Name b2 = leaseName (kb_prefix (cl_nodes c ! n2)) (cr_Name r2)"
    "r2 = recordFromLease (cr_Name r2) b2" using g(2) unfolding genuine_def by blast
  have v: "lease_view b1 = rec_view r1" "lease_view b2 = rec_view r2"
    using rec_view_lease b1(3) b2(3) by metis+
  have "ls_Name b1 = ls_Name b2" using b1(2) b2(2) assms(5) by simp
  then have "fence_steps (rec_view r1) (rec_view r2) \<or> fence_steps (rec_view r2) (rec_view r1)"
    using H b1(1) b2(1) v unfolding cluster_ok_def server_inv_def by metis
  moreover have "v_holder (rec_view r1) = cr_OwnerGeneration r1" "v_holder (rec_view r2) = cr_OwnerGeneration r2"
    "v_token (rec_view r1) = v_token (rec_view r2)" using assms(6-8) by (simp_all add: rec_view_def)
  ultimately show ?thesis using fence_steps_epoch assms(9, 10) by metis
qed

lemma stored_typed:
  assumes "stored s = Map.empty" "stored (cl_api (cluster_run C (new_cluster s) as)) n = Some l"
  shows "lease_typed l \<and> ls_Name l = n \<and> ls_ResourceVersion l \<noteq> ''''"
  using cluster_run_ok [OF assms(1), of as] assms(2) unfolding cluster_ok_def server_inv_def read_lease_def by blast

end

section \<open>The in-process server\<close>

definition versions :: "MemoryLeaseClient \<Rightarrow> string set" where
  "versions m = decimal ` {..ml_rv m}"

lemma mlc_put_puts:
  assumes "mlc_put m l = (m', Inl l')"
  shows "puts ml_leases versions m l m' l'"
proof -
  have "decimal (ml_rv m + 1) \<notin> versions m" by (auto simp: versions_def)
  moreover have "versions m' = insert (decimal (ml_rv m + 1)) (versions m)"
    using assms by (auto simp: mlc_put_def Let_def versions_def atMost_Suc)
  ultimately show ?thesis
    using assms unfolding puts_def by (intro exI [of _ "decimal (ml_rv m + 1)"]) (auto simp: mlc_put_def Let_def)
qed

lemma mlc_put_ok: "mlc_put m l \<noteq> (m', Inr e)"
  by (simp add: mlc_put_def Let_def)

interpretation mlc: lease_server memory_lease_client ml_leases versions
proof
  fix m n l
  show "lc_Get memory_lease_client m n = Inl l \<Longrightarrow> ml_leases m n = Some l"
    by (simp add: memory_lease_client_def mlc_Get_def split: option.splits)
next
  fix m l m' l'
  show "lc_Create memory_lease_client m l = (m', Inl l') \<Longrightarrow>
      ml_leases m (ls_Name l) = None \<and> puts ml_leases versions m l m' l'"
    using mlc_put_puts by (auto simp: memory_lease_client_def mlc_Create_def split: if_splits)
next
  fix m l m' e
  show "lc_Create memory_lease_client m l = (m', Inr e) \<Longrightarrow> m' = m"
    by (auto simp: memory_lease_client_def mlc_Create_def mlc_put_ok split: if_splits)
next
  fix m l m' l'
  show "lc_Update memory_lease_client m l = (m', Inl l') \<Longrightarrow>
      (\<exists>cur. ml_leases m (ls_Name l) = Some cur \<and> (ls_ResourceVersion l \<noteq> '''' \<longrightarrow> ls_ResourceVersion l = ls_ResourceVersion cur))
      \<and> puts ml_leases versions m l m' l'"
    using mlc_put_puts by (auto simp: memory_lease_client_def mlc_Update_def split: if_splits option.splits)
next
  fix m l m' e
  show "lc_Update memory_lease_client m l = (m', Inr e) \<Longrightarrow> m' = m"
    by (auto simp: memory_lease_client_def mlc_Update_def mlc_put_ok split: if_splits option.splits)
qed

abbreviation k8s_run :: "cluster_action list \<Rightarrow> MemoryLeaseClient cluster" where
  "k8s_run \<equiv> cluster_run memory_lease_client (new_cluster NewMemoryLeaseClient)"

text \<open>
  C2. One holder per token without a lock. Any number of processes call any methods of the
  Kubernetes backend at the same time, their requests interleave in any order, any request or reply
  may be lost, processes stop and are replaced. If two calls have returned records of the same lease
  object that say it is held under the same token, both name the same owner.
\<close>

theorem k8s_replies_exclusive:
  assumes "c = k8s_run as"
    and "(n1, IDone (Some r1, e1)) \<in> set (cl_calls c)" and "(n2, IDone (Some r2, e2)) \<in> set (cl_calls c)"
    and "leaseName (kb_prefix (cl_nodes c ! n1)) (cr_Name r1) = leaseName (kb_prefix (cl_nodes c ! n2)) (cr_Name r2)"
    and "held_phase (cr_Phase r1)" and "held_phase (cr_Phase r2)" and "cr_FencingToken r1 = cr_FencingToken r2"
    and "cr_OwnerGeneration r1 \<noteq> ''''" and "cr_OwnerGeneration r2 \<noteq> ''''"
  shows "cr_OwnerGeneration r1 = cr_OwnerGeneration r2"
  by (rule mlc.replies_exclusive [OF _ assms]) (simp add: NewMemoryLeaseClient_def)

text \<open>
  C22. Every lease object in the server is well typed, after any interleaving and any faults: it has
  the name it is stored under and a version, its token annotation is the decimal text of a token at
  or below \<open>MaxSafeFencingToken\<close>, its phase annotation is one of the three phases the backend
  uses, an unowned lease has no holder, and its version annotation is the text of a 64-bit number.
\<close>

theorem k8s_leases_typed:
  assumes "ml_leases (cl_api (k8s_run as)) n = Some l"
  shows "lease_typed l \<and> ls_Name l = n \<and> ls_ResourceVersion l \<noteq> ''''"
  by (rule mlc.stored_typed [OF _ assms]) (simp add: NewMemoryLeaseClient_def)

section \<open>Every call returns\<close>

primrec within :: "'a io \<Rightarrow> nat \<Rightarrow> bool" where
  "within (IDone x) = (\<lambda>n. True)"
| "within (IGet m k) = (\<lambda>n. 0 < n \<and> (\<forall>x. within (k x) (n - 1)))"
| "within (ICreate l k) = (\<lambda>n. 0 < n \<and> (\<forall>x. within (k x) (n - 1)))"
| "within (IUpdate l k) = (\<lambda>n. 0 < n \<and> (\<forall>x. within (k x) (n - 1)))"
| "within (INow k) = (\<lambda>n. 0 < n \<and> (\<forall>x. within (k x) (n - 1)))"
| "within (IRecall i k) = (\<lambda>n. 0 < n \<and> (\<forall>x. within (k x) (n - 1)))"
| "within (IStore i r t) = (\<lambda>n. 0 < n \<and> within t (n - 1))"
| "within (IPutGen g t) = (\<lambda>n. 0 < n \<and> within t (n - 1))"
| "within (IGetGen g k) = (\<lambda>n. 0 < n \<and> (\<forall>x. within (k x) (n - 1)))"

lemma within_Suc: "within t n \<Longrightarrow> within t (Suc n)"
proof (induction t arbitrary: n)
  case (IDone x)
  then show ?case by simp
qed (case_tac n; simp)+

lemma within_bind: "within t m \<Longrightarrow> (\<And>x. within (f x) n) \<Longrightarrow> within (io_bind t f) (m + n)"
proof (induction t arbitrary: m)
  case (IDone x)
  then show ?case by (induction m) (simp_all add: within_Suc)
qed (case_tac m; simp)+

lemma within_step: "within t (Suc n) \<Longrightarrow> io_step C f now s b t = (s', b', t') \<Longrightarrow> within t' n"
  by (cases t) (auto split: prod.splits)

lemma within_0: "within t 0 \<Longrightarrow> \<exists>x. t = IDone x"
  by (cases t) auto

lemma within_mono: "within t m \<Longrightarrow> m \<le> n \<Longrightarrow> within t n"
  by (induction n) (auto simp: le_Suc_eq within_Suc)

lemma within_getOrCreate: "within (getOrCreate p claim) 6"
  by (simp add: getOrCreate_def expire_lease_def Let_def split: sum.split)

lemma within_storeOp: "within (storeOp i rec err (k8s_return rec' err')) (Suc n)"
  by (simp add: storeOp_def k8s_return_def)

lemma within_save_lease: "within (save_lease i claim h l rec ttl) 3"
  by (simp add: save_lease_def storeOp_def k8s_return_def Let_def split: sum.split)

lemma within_return [simp]: "within (k8s_return rec err) n"
  by (simp add: k8s_return_def)

lemma within_load_lease:
  assumes "\<And>l rec. within (k l rec) 4"
  shows "within (load_lease p i claim k) 11"
proof -
  have "within (io_bind (getOrCreate p claim) (\<lambda>r. case r of Inr err \<Rightarrow> k8s_return None (Some err) | Inl (l, rec) \<Rightarrow> k l rec)) (6 + 4)"
    by (rule within_bind [OF within_getOrCreate]) (auto simp: assms split: sum.split prod.split)
  then show ?thesis using within_mono [of _ 10 11] by (auto simp: load_lease_def recallOp_def split: option.split)
qed

lemma within_call: "within (k8s_call p q) 11"
proof (cases q)
  case (CGet n)
  have "within (k8s_GetClaim p n) (6 + 0)" unfolding k8s_GetClaim_def
    by (rule within_bind [OF within_getOrCreate]) (auto simp: k8s_return_def split: sum.split prod.split)
  then show ?thesis using within_mono [of _ 6 11] by (simp add: CGet)
next
  case (CRelease r)
  have "within (k8s_ReleaseClaim p r) (11 + 0)" unfolding k8s_ReleaseClaim_def
    by (rule within_bind [OF within_load_lease])
      (auto simp: k8s_return_def storeOp_def release_lease_def Let_def split: prod.split)
  then show ?thesis by (simp add: CRelease)
qed (auto simp: k8s_AcquireClaim_def k8s_RenewClaim_def k8s_PrepareTransfer_def k8s_CommitTransfer_def k8s_AbortTransfer_def
    k8s_RegisterGeneration_def k8s_UpdateGeneration_def k8s_return_def storeOp_def
    intro!: within_load_lease within_mono [OF within_save_lease])

definition steps_call :: "nat \<Rightarrow> cluster_action \<Rightarrow> bool" where
  "steps_call i a = (case a of Step j f t \<Rightarrow> j = i | _ \<Rightarrow> False)"

lemma cluster_act_other:
  assumes "\<not> steps_call i a" "i < length (cl_calls c)"
  shows "cl_calls (cluster_act C c a) ! i = cl_calls c ! i \<and> i < length (cl_calls (cluster_act C c a))
    \<and> length (cl_nodes c) \<le> length (cl_nodes (cluster_act C c a))"
  using assms by (cases a) (auto simp: steps_call_def cluster_step_def nth_append split: prod.split)

lemma cluster_act_step:
  assumes "i < length (cl_calls c)" "cl_calls c ! i = (n, p)" "n < length (cl_nodes c)" "within p (Suc m)"
  shows "\<exists>p'. cl_calls (cluster_act C c (Step i f t)) ! i = (n, p') \<and> within p' m
    \<and> i < length (cl_calls (cluster_act C c (Step i f t))) \<and> n < length (cl_nodes (cluster_act C c (Step i f t)))"
proof -
  obtain s b p' where st: "io_step C f t (cl_api c) (cl_nodes c ! n) p = (s, b, p')" by (metis prod_cases3)
  then show ?thesis using assms within_step [OF assms(4) st] by (simp add: cluster_step_def)
qed

lemma cluster_run_returns:
  assumes "i < length (cl_calls c)" "cl_calls c ! i = (n, p)" "n < length (cl_nodes c)" "within p m"
    and "m \<le> length (filter (steps_call i) as)"
  shows "\<exists>x. cl_calls (cluster_run C c as) ! i = (n, IDone x)"
  using assms
proof (induction as arbitrary: c p m)
  case Nil
  then have "within p 0" by simp
  then have "\<exists>x. p = IDone x" by (rule within_0)
  then show ?case using Nil.prems(2) by (simp add: cluster_run_def)
next
  case (Cons a as)
  have run: "cluster_run C c (a # as) = cluster_run C (cluster_act C c a) as" by (simp add: cluster_run_def)
  show ?case
  proof (cases "steps_call i a")
    case False
    then show ?thesis
      using Cons.IH [of "cluster_act C c a" p m] cluster_act_other [OF False Cons.prems(1), of C] Cons.prems by (simp add: run)
  next
    case True
    then obtain f t where a: "a = Step i f t" by (auto simp: steps_call_def split: cluster_action.splits)
    have "within p (Suc (m - 1))" using within_mono [OF Cons.prems(4)] by simp
    from cluster_act_step [OF Cons.prems(1-3) this, of C f t] obtain p' where
      "cl_calls (cluster_act C c a) ! i = (n, p')" "within p' (m - 1)"
      "i < length (cl_calls (cluster_act C c a))" "n < length (cl_nodes (cluster_act C c a))" unfolding a by blast
    moreover have "m - 1 \<le> length (filter (steps_call i) as)" using Cons.prems(5) True by simp
    ultimately show ?thesis using Cons.IH unfolding run by blast
  qed
qed

text \<open>
  No method of the Kubernetes backend waits or retries: whatever the server is and does, whatever
  is lost and whatever else runs in between, a call has returned once it has been scheduled eleven
  times.
\<close>

theorem k8s_calls_return:
  assumes "n < length (cl_nodes c)" and "i = length (cl_calls c)" and "11 \<le> length (filter (steps_call i) as)"
  shows "\<exists>r. cl_calls (cluster_run C c (Start n q # as)) ! i = (n, IDone r)"
proof -
  have run: "cluster_run C c (Start n q # as) = cluster_run C (cluster_act C c (Start n q)) as" by (simp add: cluster_run_def)
  show ?thesis unfolding run
    by (rule cluster_run_returns [OF _ _ _ within_call assms(3)]) (use assms(1, 2) in simp_all)
qed

section \<open>Two processes race for a claim\<close>

definition k8s_base :: time where "k8s_base = 63000000000 * Second"

definition turns :: "time \<Rightarrow> cluster_action list" where
  "turns t = [Step 0 Fine t, Step 1 Fine t, Step 0 Fine t, Step 1 Fine t]"

definition race :: "cluster_action list" where
  "race = [Boot ''shiftlock-'', Boot ''shiftlock-'', Start 0 (acquire_call ''jobs'' ''g1'' (30 * Second) ''op1''),
     Start 1 (acquire_call ''jobs'' ''g2'' (30 * Second) ''op2'')]
     @ turns k8s_base @ turns k8s_base @ turns k8s_base @ turns k8s_base
     @ [Start 1 (CGet ''jobs''), Step 2 Fine k8s_base, Step 2 Fine k8s_base]"

definition outcome_of :: "rec_result io \<Rightarrow> (string \<times> FencingToken \<times> bool \<times> string) option \<times> go_error option" where
  "outcome_of p = (case p of IDone (Some r, e) \<Rightarrow>
       (Some (cr_OwnerGeneration r, cr_FencingToken r, held_phase (cr_Phase r), cr_Name r), e)
     | IDone (None, e) \<Rightarrow> (None, e) | _ \<Rightarrow> (None, None))"

text \<open>
  To evaluate a program step by step, the simplifier must leave the continuations alone until the
  answer of a request is known.
\<close>

lemma io_lazy:
  "n = n' \<Longrightarrow> IGet n k = IGet n' k" "l = l' \<Longrightarrow> ICreate l k2 = ICreate l' k2" "l = l' \<Longrightarrow> IUpdate l k2 = IUpdate l' k2"
  "INow k3 = INow k3" "i = i' \<Longrightarrow> IRecall i k4 = IRecall i' k4" "i = i' \<Longrightarrow> r = r' \<Longrightarrow> IStore i r t = IStore i' r' t"
  by simp_all

lemma race_numbers:
  "scan_uint64 (decimal (Suc 0)) = 1" "scan_uint64 '''' = 0" "lease_seconds (30 * Second) = 30"
  "held_on_conflict (EText ''conflict'') = Sentinel ErrClaimHeld"
  using scan_uint64_decimal [of 1] by simp (code_simp+)

lemma race_times: "k8s_base + 30 * Second \<noteq> 0" "\<not> Second < 0" "nano_range k8s_base" "k8s_base \<noteq> 0"
  by (simp_all add: k8s_base_def nano_range_def unix_epoch_def Second_def Millisecond_def)

lemmas race_eval = race_numbers race_times scan_zero cluster_run_def cluster_step_def new_cluster_def NewMemoryLeaseClient_def
  memory_lease_client_def k8s_New_def mlc_Get_def mlc_Create_def mlc_Update_def mlc_put_def Let_def acquire_call_def
  k8s_AcquireClaim_def k8s_GetClaim_def load_lease_def recallOp_def storeOp_def save_lease_def k8s_return_def
  getOrCreate_def expire_lease_def leaseName_def empty_lease_def recordFromLease_def applyRecord_def ann_get_def
  ClaimPhase_of_def held_phase_def IsZero_def

lemma race_outcome:
  "map (\<lambda>(n, p). (n, outcome_of p)) (cl_calls (k8s_run race))
     = [(0, Some (''g1'', 1, True, ''jobs''), None), (1, None, Some (Sentinel ErrClaimHeld)), (1, Some (''g1'', 1, True, ''jobs''), None)]"
  "map kb_prefix (cl_nodes (k8s_run race)) = [''shiftlock-'', ''shiftlock-'']"
  "ml_leases (cl_api (k8s_run race)) ''shiftlock-jobs'' \<noteq> None"
  by (simp_all add: race_def turns_def race_eval outcome_of_def cong: io_lazy)

lemma outcome_of_Some:
  "outcome_of p = (Some (g, t, h, n), e) \<longleftrightarrow>
     (\<exists>r. p = IDone (Some r, e) \<and> cr_OwnerGeneration r = g \<and> cr_FencingToken r = t \<and> held_phase (cr_Phase r) = h \<and> cr_Name r = n)"
  by (cases p) (auto simp: outcome_of_def split: option.splits prod.splits)

theorem k8s_replies_exclusive_witness:
  "\<exists>r1 r2. (0, IDone (Some r1, None)) \<in> set (cl_calls (k8s_run race)) \<and> (1, IDone (Some r2, None)) \<in> set (cl_calls (k8s_run race))
     \<and> cr_OwnerGeneration r1 = ''g1'' \<and> cr_OwnerGeneration r1 = cr_OwnerGeneration r2"
proof -
  obtain p0 p1 p2 where calls: "cl_calls (k8s_run race) = [(0, p0), (1, p1), (1, p2)]"
    and p: "outcome_of p0 = (Some (''g1'', 1, True, ''jobs''), None)" "outcome_of p2 = (Some (''g1'', 1, True, ''jobs''), None)"
    using race_outcome(1) by (auto simp: map_eq_Cons_conv)
  obtain r1 r2 where r1: "p0 = IDone (Some r1, None)" "cr_OwnerGeneration r1 = ''g1''" "cr_FencingToken r1 = 1"
      "held_phase (cr_Phase r1)" "cr_Name r1 = ''jobs''"
    and r2: "p2 = IDone (Some r2, None)" "cr_OwnerGeneration r2 = ''g1''" "cr_FencingToken r2 = 1"
      "held_phase (cr_Phase r2)" "cr_Name r2 = ''jobs''"
    using p unfolding outcome_of_Some by blast
  have m: "(0, IDone (Some r1, None)) \<in> set (cl_calls (k8s_run race))" "(1, IDone (Some r2, None)) \<in> set (cl_calls (k8s_run race))"
    by (simp_all add: calls r1(1) r2(1))
  have pre: "kb_prefix (cl_nodes (k8s_run race) ! 0) = kb_prefix (cl_nodes (k8s_run race) ! 1)"
    using race_outcome(2) by (auto simp: map_eq_Cons_conv)
  have "cr_OwnerGeneration r1 = cr_OwnerGeneration r2"
    by (rule k8s_replies_exclusive [OF refl m]) (simp_all add: pre [simplified] r1 r2)
  with m r1(2) show ?thesis by blast
qed

theorem k8s_leases_typed_witness:
  "\<exists>l. ml_leases (cl_api (k8s_run race)) ''shiftlock-jobs'' = Some l \<and> lease_typed l"
  using race_outcome(3) k8s_leases_typed [of race "''shiftlock-jobs''"] by auto

theorem k8s_calls_return_witness:
  "\<exists>r. cl_calls (cluster_run memory_lease_client (k8s_run [Boot ''a-'']) (Start 0 (CGet ''jobs'') # replicate 11 (Step 0 Fine 0))) ! 0 = (0, IDone r)"
proof (rule k8s_calls_return)
  show "0 < length (cl_nodes (k8s_run [Boot ''a-'']))" by (simp add: cluster_run_def new_cluster_def)
  show "0 = length (cl_calls (k8s_run [Boot ''a-'']))" by (simp add: cluster_run_def new_cluster_def)
  show "11 \<le> length (filter (steps_call 0) (replicate 11 (Step 0 Fine 0)))" by (simp add: steps_call_def)
qed

definition sample_record :: ClaimRecord where
  "sample_record = (new_record ''jobs'')\<lparr>cr_OwnerGeneration := ''g1'', cr_FencingToken := 7, cr_Phase := ClaimOwned,
     cr_AcquiredAt := k8s_base, cr_Reason := ReasonAcquired\<rparr>"

theorem k8s_codec_roundtrip_witness:
  "recordFromLease ''jobs'' (applyRecord k8s_base (empty_lease ''l'') sample_record (30 * Second))
     = sample_record\<lparr>cr_LastHeartbeat := k8s_base, cr_ExpiresAt := k8s_base + 30 * Second\<rparr>"
proof -
  have z: "\<not> IsZero (cr_AcquiredAt sample_record)" by (simp add: sample_record_def IsZero_def race_times)
  have "recordFromLease (cr_Name sample_record) (applyRecord k8s_base (empty_lease ''l'') sample_record (30 * Second))
      = sample_record\<lparr>cr_AcquiredAt := (if IsZero (cr_AcquiredAt sample_record) then k8s_base else cr_AcquiredAt sample_record),
            cr_LastHeartbeat := k8s_base, cr_ExpiresAt := k8s_base + lease_seconds (30 * Second) * Second\<rparr>"
    by (rule k8s_codec_roundtrip [THEN conjunct1])
      (simp_all add: race_times sample_record_def named_phase_def named_reasons_def)
  then show ?thesis unfolding race_numbers using z by (simp add: sample_record_def new_record_def)
qed

end
