(* ===== verification/Redis_Local.thy ===== *)
theory Redis_Local
  imports Backend_Spec
begin

text \<open>
  \<open>backend/redis/local.go\<close>: the in-process store that mirrors the Redis Lua scripts, with the
  same claim records and operation log as the other backends but no watchers, no fault switches
  and no context checks. Each method holds the mutex for its whole body. \<open>WatchClaim\<close>, which returns
  a channel that carries no events, and \<open>Close\<close>, which returns nil, leave the store alone and have
  no definition. The theory shows that the store meets the ownership contract of \<open>Backend_Spec\<close>.
\<close>

record localOp =
  lo_rec :: "ClaimRecord option"
  lo_err :: "go_error option"

record Local =
  lc_claims :: "string \<rightharpoonup> ClaimRecord"
  lc_gens :: "string \<rightharpoonup> Generation"
  lc_ops :: "OperationID \<rightharpoonup> localOp"

definition NewLocal :: Local where
  "NewLocal = \<lparr>lc_claims = Map.empty, lc_gens = Map.empty, lc_ops = Map.empty\<rparr>"

definition local_Capabilities :: Capabilities where
  "local_Capabilities =
     \<lparr>cap_AtomicCAS = True, cap_IdempotentMutations = True, cap_WatchSupported = False,
      cap_DurableStorage = False, cap_ExpireBeforeMutate = True, cap_RenewDuringReserved = True,
      cap_GlobalExclusive = True, cap_MaxFencingToken = MaxSafeFencingToken\<rparr>"

section \<open>Helpers\<close>

definition local_recall :: "Local \<Rightarrow> OperationID \<Rightarrow> localOp option" where
  "local_recall l i = (if i = '''' then None else lc_ops l i)"

definition local_store ::
  "Local \<Rightarrow> OperationID \<Rightarrow> ClaimRecord option \<Rightarrow> go_error option \<Rightarrow> Local" where
  "local_store l i rec err =
     (if i = '''' then l else l\<lparr>lc_ops := (lc_ops l)(i \<mapsto> \<lparr>lo_rec = rec, lo_err = err\<rparr>)\<rparr>)"

definition advanceLocal :: "FencingToken \<Rightarrow> FencingToken \<times> go_error option" where
  "advanceLocal cur =
     (if cur \<ge> MaxSafeFencingToken then (cur, Some (Sentinel ErrTokenOverflow))
      else (cur + 1, None))"

definition local_put :: "Local \<Rightarrow> string \<Rightarrow> ClaimRecord \<Rightarrow> Local" where
  "local_put l n cl = l\<lparr>lc_claims := (lc_claims l)(n \<mapsto> cl)\<rparr>"

definition local_expire :: "time \<Rightarrow> ClaimRecord \<Rightarrow> ClaimRecord" where
  "local_expire now cl =
     (if IsZero (cr_ExpiresAt cl) \<or> now < cr_ExpiresAt cl then cl
      else if held_phase (cr_Phase cl) then
        cl\<lparr>cr_PreviousOwner := cr_OwnerGeneration cl, cr_OwnerGeneration := '''',
           cr_PendingSuccessor := '''', cr_Phase := ClaimUnowned, cr_Reason := ReasonExpired,
           cr_Version := cr_Version cl + 1\<rparr>
      else cl)"

section \<open>Operations\<close>

definition local_RegisterGeneration :: "Local \<Rightarrow> env \<Rightarrow> Generation \<Rightarrow> Local \<times> go_error option" where
  "local_RegisterGeneration l e g = (l\<lparr>lc_gens := (lc_gens l)(gen_ID g \<mapsto> g)\<rparr>, None)"

definition local_UpdateGeneration :: "Local \<Rightarrow> env \<Rightarrow> Generation \<Rightarrow> Local \<times> go_error option" where
  "local_UpdateGeneration l e g = local_RegisterGeneration l e g"

definition local_GetGeneration ::
  "Local \<Rightarrow> env \<Rightarrow> string \<Rightarrow> Local \<times> Generation option \<times> go_error option" where
  "local_GetGeneration l e i =
     (case lc_gens l i of
        None \<Rightarrow> (l, None, Some (Sentinel ErrGenerationNotFound))
      | Some g \<Rightarrow> (l, Some g, None))"

definition local_GetClaim :: "Local \<Rightarrow> env \<Rightarrow> string \<Rightarrow> Local \<times> rec_result" where
  "local_GetClaim l e n =
     (case lc_claims l n of
        None \<Rightarrow> (l, None, Some (Sentinel ErrClaimNotFound))
      | Some cl \<Rightarrow>
          (let cl = local_expire (tExpire e) cl
           in (local_put l n cl, Some cl, None)))"

definition local_AcquireClaim :: "Local \<Rightarrow> env \<Rightarrow> AcquireRequest \<Rightarrow> Local \<times> rec_result" where
  "local_AcquireClaim l e req =
     (case local_recall l (aq_OperationID req) of
        Some r \<Rightarrow> (l, lo_rec r, lo_err r)
      | None \<Rightarrow>
     (let cl = (case lc_claims l (aq_ClaimName req) of
                  None \<Rightarrow> new_record (aq_ClaimName req) | Some cl \<Rightarrow> cl);
          cl = local_expire (tExpire e) cl;
          l = local_put l (aq_ClaimName req) cl;
          now = tNow e
      in if held_phase (cr_Phase cl) then
           (if cr_OwnerGeneration cl = aq_GenerationID req then
              (let cl = cl\<lparr>cr_ExpiresAt := now + aq_TTL req, cr_LastHeartbeat := now,
                          cr_Reason := ReasonRenewed, cr_Version := cr_Version cl + 1\<rparr>;
                   l = local_put l (aq_ClaimName req) cl
               in (local_store l (aq_OperationID req) (Some cl) None, Some cl, None))
            else
              (local_store l (aq_OperationID req) (Some cl) (Some (Sentinel ErrClaimHeld)),
               Some cl, Some (Sentinel ErrClaimHeld)))
         else
           (case advanceLocal (cr_FencingToken cl) of
              (_, Some err) \<Rightarrow>
                (local_store l (aq_OperationID req) None (Some err), None, Some err)
            | (next, None) \<Rightarrow>
                (let cl = cl\<lparr>cr_OwnerGeneration := aq_GenerationID req, cr_FencingToken := next,
                            cr_Phase := ClaimOwned, cr_AcquiredAt := now,
                            cr_ExpiresAt := now + aq_TTL req, cr_LastHeartbeat := now,
                            cr_Reason := ReasonAcquired, cr_Version := cr_Version cl + 1\<rparr>;
                     l = local_put l (aq_ClaimName req) cl
                 in (local_store l (aq_OperationID req) (Some cl) None, Some cl, None)))))"

definition local_RenewClaim :: "Local \<Rightarrow> env \<Rightarrow> RenewRequest \<Rightarrow> Local \<times> rec_result" where
  "local_RenewClaim l e req =
     (case local_recall l (rn_OperationID req) of
        Some r \<Rightarrow> (l, lo_rec r, lo_err r)
      | None \<Rightarrow>
     (case lc_claims l (rn_ClaimName req) of
        None \<Rightarrow> (l, None, Some (Sentinel ErrClaimNotFound))
      | Some cl \<Rightarrow>
     (let cl = local_expire (tExpire e) cl;
          l = local_put l (rn_ClaimName req) cl
      in if cr_OwnerGeneration cl \<noteq> rn_GenerationID req then
           (l, None, Some (Sentinel ErrNotOwner))
         else if cr_FencingToken cl \<noteq> rn_Token req then
           (l, None, Some (Sentinel ErrStaleToken))
         else if cr_Phase cl \<noteq> ClaimOwned \<and> cr_Phase cl \<noteq> ClaimDraining
                 \<and> cr_Phase cl \<noteq> ClaimReserved then
           (l, None, Some (Sentinel ErrNotOwner))
         else
           (let now = tNow e;
                cl = cl\<lparr>cr_ExpiresAt := now + rn_TTL req, cr_LastHeartbeat := now,
                       cr_Reason := ReasonRenewed, cr_Version := cr_Version cl + 1\<rparr>;
                l = local_put l (rn_ClaimName req) cl
            in (local_store l (rn_OperationID req) (Some cl) None, Some cl, None)))))"

definition local_PrepareTransfer :: "Local \<Rightarrow> env \<Rightarrow> TransferRequest \<Rightarrow> Local \<times> rec_result" where
  "local_PrepareTransfer l e req =
     (case local_recall l (tr_OperationID req) of
        Some r \<Rightarrow> (l, lo_rec r, lo_err r)
      | None \<Rightarrow>
     (case lc_claims l (tr_ClaimName req) of
        None \<Rightarrow> (l, None, Some (Sentinel ErrClaimNotFound))
      | Some cl \<Rightarrow>
     (let cl = local_expire (tExpire e) cl;
          l = local_put l (tr_ClaimName req) cl
      in if cr_OwnerGeneration cl \<noteq> tr_FromGeneration req then
           (l, None, Some (Sentinel ErrNotOwner))
         else if cr_FencingToken cl \<noteq> tr_Token req then
           (l, None, Some (Sentinel ErrStaleToken))
         else if cr_Phase cl = ClaimReserved \<and> cr_PendingSuccessor cl \<noteq> ''''
                 \<and> cr_PendingSuccessor cl \<noteq> tr_ToGeneration req then
           (l, None, Some (Sentinel ErrConcurrentTransfer))
         else if cr_Phase cl = ClaimReserved \<and> cr_PendingSuccessor cl = tr_ToGeneration req then
           (local_store l (tr_OperationID req) (Some cl) None, Some cl, None)
         else
           (let now = tNow e;
                cl = cl\<lparr>cr_Phase := ClaimReserved, cr_PendingSuccessor := tr_ToGeneration req,
                       cr_TransferStatus := ''prepared'', cr_DrainStatus := ''complete'',
                       cr_ExpiresAt := now + tr_TTL req, cr_LastHeartbeat := now,
                       cr_Reason := ReasonTransferPrepared, cr_Version := cr_Version cl + 1\<rparr>;
                l = local_put l (tr_ClaimName req) cl
            in (local_store l (tr_OperationID req) (Some cl) None, Some cl, None)))))"

definition local_CommitTransfer :: "Local \<Rightarrow> env \<Rightarrow> CommitRequest \<Rightarrow> Local \<times> rec_result" where
  "local_CommitTransfer l e req =
     (case local_recall l (cm_OperationID req) of
        Some r \<Rightarrow> (l, lo_rec r, lo_err r)
      | None \<Rightarrow>
     (case lc_claims l (cm_ClaimName req) of
        None \<Rightarrow> (l, None, Some (Sentinel ErrClaimNotFound))
      | Some cl \<Rightarrow>
     (let cl = local_expire (tExpire e) cl;
          l = local_put l (cm_ClaimName req) cl
      in if cr_Phase cl = ClaimOwned \<and> cr_OwnerGeneration cl = cm_ToGeneration req
            \<and> cr_FencingToken cl = cm_ExpectedToken req + 1
            \<and> cr_TransferStatus cl = ''committed'' then
           (local_store l (cm_OperationID req) (Some cl) None, Some cl, None)
         else if cr_Phase cl \<noteq> ClaimReserved then
           (l, None, Some (Sentinel ErrNoTransfer))
         else if cr_OwnerGeneration cl \<noteq> cm_FromGeneration req
                 \<or> cr_PendingSuccessor cl \<noteq> cm_ToGeneration req then
           (l, None, Some (Sentinel ErrConcurrentTransfer))
         else if cr_FencingToken cl \<noteq> cm_ExpectedToken req then
           (l, None, Some (Sentinel ErrStaleToken))
         else
           (case advanceLocal (cr_FencingToken cl) of
              (_, Some err) \<Rightarrow>
                (local_store l (cm_OperationID req) None (Some err), None, Some err)
            | (next, None) \<Rightarrow>
                (let now = tNow e;
                     cl = cl\<lparr>cr_PreviousOwner := cr_OwnerGeneration cl,
                            cr_OwnerGeneration := cm_ToGeneration req, cr_FencingToken := next,
                            cr_Phase := ClaimOwned, cr_PendingSuccessor := '''',
                            cr_TransferStatus := ''committed'', cr_DrainStatus := '''',
                            cr_AcquiredAt := now, cr_ExpiresAt := now + cm_TTL req,
                            cr_LastHeartbeat := now, cr_Reason := ReasonTransferCommitted,
                            cr_Version := cr_Version cl + 1\<rparr>;
                     l = local_put l (cm_ClaimName req) cl
                 in (local_store l (cm_OperationID req) (Some cl) None, Some cl, None))))))"

definition local_AbortTransfer :: "Local \<Rightarrow> env \<Rightarrow> AbortRequest \<Rightarrow> Local \<times> rec_result" where
  "local_AbortTransfer l e req =
     (case local_recall l (ab_OperationID req) of
        Some r \<Rightarrow> (l, lo_rec r, lo_err r)
      | None \<Rightarrow>
     (case lc_claims l (ab_ClaimName req) of
        None \<Rightarrow> (l, None, Some (Sentinel ErrClaimNotFound))
      | Some cl \<Rightarrow>
     (let cl = local_expire (tExpire e) cl;
          l = local_put l (ab_ClaimName req) cl
      in if cr_Phase cl \<noteq> ClaimReserved then
           (if cr_OwnerGeneration cl = ab_FromGeneration req \<and> cr_Phase cl = ClaimOwned then
              (local_store l (ab_OperationID req) (Some cl) None, Some cl, None)
            else (l, None, Some (Sentinel ErrNoTransfer)))
         else if cr_FencingToken cl \<noteq> ab_ExpectedToken req then
           (l, None, Some (Sentinel ErrStaleToken))
         else if cr_OwnerGeneration cl \<noteq> ab_FromGeneration req then
           (l, None, Some (Sentinel ErrNotOwner))
         else
           (let cl = cl\<lparr>cr_PendingSuccessor := '''', cr_Phase := ClaimOwned,
                       cr_TransferStatus := ''aborted'', cr_Reason := ReasonTransferAborted,
                       cr_Version := cr_Version cl + 1\<rparr>;
                l = local_put l (ab_ClaimName req) cl
            in (local_store l (ab_OperationID req) (Some cl) None, Some cl, None)))))"

definition local_ReleaseClaim :: "Local \<Rightarrow> env \<Rightarrow> ReleaseRequest \<Rightarrow> Local \<times> go_error option" where
  "local_ReleaseClaim l e req =
     (case local_recall l (rl_OperationID req) of
        Some r \<Rightarrow> (l, lo_err r)
      | None \<Rightarrow>
     (case lc_claims l (rl_ClaimName req) of
        None \<Rightarrow> (l, Some (Sentinel ErrClaimNotFound))
      | Some cl \<Rightarrow>
     (let cl = local_expire (tExpire e) cl;
          l = local_put l (rl_ClaimName req) cl
      in if cr_FencingToken cl \<noteq> rl_Token req then (l, Some (Sentinel ErrStaleToken))
         else if cr_OwnerGeneration cl \<noteq> rl_GenerationID req then
           (if cr_Phase cl = ClaimUnowned then
              (local_store l (rl_OperationID req) None None, None)
            else (l, Some (Sentinel ErrNotOwner)))
         else
           (let cl = cl\<lparr>cr_PreviousOwner := cr_OwnerGeneration cl, cr_OwnerGeneration := '''',
                       cr_PendingSuccessor := '''', cr_Phase := ClaimUnowned,
                       cr_Reason := ReasonReleased, cr_Version := cr_Version cl + 1\<rparr>;
                l = local_put l (rl_ClaimName req) cl
            in (local_store l (rl_OperationID req) (Some cl) None, None)))))"

definition local_ForceSetToken :: "Local \<Rightarrow> string \<Rightarrow> FencingToken \<Rightarrow> Local" where
  "local_ForceSetToken l n tok =
     (let cl = (case lc_claims l n of None \<Rightarrow> new_record n | Some cl \<Rightarrow> cl)
      in local_put l n (cl\<lparr>cr_FencingToken := tok, cr_Phase := ClaimUnowned,
                          cr_OwnerGeneration := ''''\<rparr>))"

definition local_ops :: "Local Backend" where
  "local_ops =
     \<lparr>RegisterGeneration = local_RegisterGeneration, AcquireClaim = local_AcquireClaim,
      RenewClaim = local_RenewClaim, PrepareTransfer = local_PrepareTransfer,
      CommitTransfer = local_CommitTransfer, AbortTransfer = local_AbortTransfer,
      ReleaseClaim = local_ReleaseClaim, UpdateGeneration = local_UpdateGeneration,
      GetClaim = local_GetClaim, GetGeneration = local_GetGeneration\<rparr>"

section \<open>Every method moves its claim along the abstract steps\<close>

lemma local_calls_frame [simp]:
  "lc_claims (local_store l i rec err) = lc_claims l"
  "lc_claims (local_put l n cl) = (lc_claims l)(n \<mapsto> cl)"
  "lc_ops (local_put l n cl) = lc_ops l"
  by (simp_all add: local_store_def local_put_def)

lemma local_expire_keeps [simp]:
  "cr_Name (local_expire t cl) = cr_Name cl" "cr_FencingToken (local_expire t cl) = cr_FencingToken cl"
  by (simp_all add: local_expire_def)

lemma local_expire_new [simp]: "local_expire t (new_record n) = new_record n"
  by (simp add: local_expire_def new_record_def IsZero_def)

lemma local_expire_steps: "fence_steps (rec_view cl) (rec_view (local_expire t cl))"
  by (auto simp: local_expire_def intro: steps_vacate)

lemma advanceLocal_cases:
  "advanceLocal t = (u, None) \<longleftrightarrow> t < MaxSafeFencingToken \<and> u = t + 1"
  "advanceLocal t = (u, Some er) \<longleftrightarrow>
     MaxSafeFencingToken \<le> t \<and> u = t \<and> er = Sentinel ErrTokenOverflow"
  by (auto simp: advanceLocal_def)

text \<open>Storing what was reached from the expired record.\<close>

lemma evolves_expired:
  assumes "m n = Some old"
    and "cr_Name old = n \<Longrightarrow>
      (\<not> held_phase (cr_Phase (local_expire t old)) \<Longrightarrow> cr_OwnerGeneration (local_expire t old) = '''') \<Longrightarrow>
      cr_Name cl = n \<and> (\<not> held_phase (cr_Phase cl) \<longrightarrow> cr_OwnerGeneration cl = '''')
      \<and> fence_steps (rec_view (local_expire t old)) (rec_view cl)"
  shows "evolves n m (m(n \<mapsto> cl))"
proof (rule evolves_put_Some [where m = m and n = n and old = old, OF assms(1)])
  assume name: "cr_Name old = n"
    and owner: "\<not> held_phase (cr_Phase old) \<Longrightarrow> cr_OwnerGeneration old = ''''"
  have "\<not> held_phase (cr_Phase (local_expire t old)) \<Longrightarrow> cr_OwnerGeneration (local_expire t old) = ''''"
    using owner by (auto simp: local_expire_def split: if_splits)
  from assms(2) [OF name this]
  show "cr_Name cl = n \<and> (\<not> held_phase (cr_Phase cl) \<longrightarrow> cr_OwnerGeneration cl = '''')
      \<and> fence_steps (rec_view old) (rec_view cl)"
    using local_expire_steps [of old t] by (auto intro: rtranclp_trans)
qed

lemma local_AcquireClaim_evolves:
  "evolves (aq_ClaimName req) (lc_claims l) (lc_claims (fst (local_AcquireClaim l e req)))"
proof (cases "lc_claims l (aq_ClaimName req)")
  case None
  then show ?thesis
    by (auto simp: local_AcquireClaim_def Let_def advanceLocal_cases split: option.splits prod.splits
          intro!: evolves_put intro: claim_steps)
next
  case (Some cl)
  then show ?thesis
    by (auto simp: local_AcquireClaim_def Let_def advanceLocal_cases split: option.splits prod.splits
          intro!: evolves_expired [where t = "tExpire e"] intro: claim_steps)
qed

lemma local_RenewClaim_evolves:
  "evolves (rn_ClaimName req) (lc_claims l) (lc_claims (fst (local_RenewClaim l e req)))"
  by (auto simp: local_RenewClaim_def Let_def split: option.splits
        intro!: evolves_expired [where t = "tExpire e"] intro: claim_steps)

lemma local_PrepareTransfer_evolves:
  "evolves (tr_ClaimName req) (lc_claims l) (lc_claims (fst (local_PrepareTransfer l e req)))"
  by (auto simp: local_PrepareTransfer_def Let_def split: option.splits
        intro!: evolves_expired [where t = "tExpire e"] intro: claim_steps)

lemma local_CommitTransfer_evolves:
  "evolves (cm_ClaimName req) (lc_claims l) (lc_claims (fst (local_CommitTransfer l e req)))"
  by (auto simp: local_CommitTransfer_def Let_def advanceLocal_cases split: option.splits prod.splits
        intro!: evolves_expired [where t = "tExpire e"] intro: claim_steps)

lemma local_AbortTransfer_evolves:
  "evolves (ab_ClaimName req) (lc_claims l) (lc_claims (fst (local_AbortTransfer l e req)))"
  by (auto simp: local_AbortTransfer_def Let_def split: option.splits
        intro!: evolves_expired [where t = "tExpire e"] intro: claim_steps)

lemma local_ReleaseClaim_evolves:
  "evolves (rl_ClaimName req) (lc_claims l) (lc_claims (fst (local_ReleaseClaim l e req)))"
  by (auto simp: local_ReleaseClaim_def Let_def split: option.splits
        intro!: evolves_expired [where t = "tExpire e"] intro: claim_steps)

lemma local_GetClaim_evolves: "evolves n (lc_claims l) (lc_claims (fst (local_GetClaim l e n)))"
  by (auto simp: local_GetClaim_def Let_def split: option.splits
        intro!: evolves_expired [where t = "tExpire e"] intro: claim_steps)

lemmas local_evolves = local_AcquireClaim_evolves local_RenewClaim_evolves
  local_PrepareTransfer_evolves local_CommitTransfer_evolves local_AbortTransfer_evolves
  local_ReleaseClaim_evolves local_GetClaim_evolves

section \<open>The operation log\<close>

lemma local_recall_None: "local_recall l i = None \<longleftrightarrow> i = '''' \<or> lc_ops l i = None"
  by (simp add: local_recall_def)

lemma local_logs_store:
  "local_recall l i = None \<Longrightarrow> lc_ops l' = lc_ops l \<Longrightarrow>
   logs i (lc_ops l) (lc_ops (local_store l' i rec err))"
  by (auto simp: logs_def local_store_def local_recall_def split: if_splits)

lemma local_logs:
  "logs (aq_OperationID qaq) (lc_ops l) (lc_ops (fst (local_AcquireClaim l e qaq)))"
  "logs (rn_OperationID qrn) (lc_ops l) (lc_ops (fst (local_RenewClaim l e qrn)))"
  "logs (tr_OperationID qtr) (lc_ops l) (lc_ops (fst (local_PrepareTransfer l e qtr)))"
  "logs (cm_OperationID qcm) (lc_ops l) (lc_ops (fst (local_CommitTransfer l e qcm)))"
  "logs (ab_OperationID qab) (lc_ops l) (lc_ops (fst (local_AbortTransfer l e qab)))"
  "logs (rl_OperationID qrl) (lc_ops l) (lc_ops (fst (local_ReleaseClaim l e qrl)))"
  by (auto simp: local_AcquireClaim_def local_RenewClaim_def local_PrepareTransfer_def
        local_CommitTransfer_def local_AbortTransfer_def local_ReleaseClaim_def Let_def
        split: option.splits prod.splits intro!: local_logs_store)

lemma local_GetClaim_ops: "lc_ops (fst (local_GetClaim l e n)) = lc_ops l"
  by (auto simp: local_GetClaim_def Let_def split: option.splits)

lemma local_Generation_frame:
  "lc_claims (fst (local_RegisterGeneration l e g)) = lc_claims l"
  "lc_ops (fst (local_RegisterGeneration l e g)) = lc_ops l"
  "lc_claims (fst (local_UpdateGeneration l e g)) = lc_claims l"
  "lc_ops (fst (local_UpdateGeneration l e g)) = lc_ops l"
  by (simp_all add: local_RegisterGeneration_def local_UpdateGeneration_def)

section \<open>What a successful call guarantees\<close>

lemma local_AcquireClaim_ok:
  assumes "local_AcquireClaim l e req = (l', rec, None)"
    and "local_recall l (aq_OperationID req) = None"
  shows "\<exists>c. rec = Some c \<and> lc_claims l' (aq_ClaimName req) = Some c
           \<and> held_phase (cr_Phase c) \<and> cr_OwnerGeneration c = aq_GenerationID req"
  using assms
  by (auto simp: local_AcquireClaim_def Let_def split: option.splits prod.splits if_splits)

lemma local_RenewClaim_ok:
  assumes "local_RenewClaim l e req = (l', rec, None)"
    and "local_recall l (rn_OperationID req) = None"
  shows "\<exists>c. rec = Some c \<and> lc_claims l' (rn_ClaimName req) = Some c \<and> held_phase (cr_Phase c)
           \<and> cr_OwnerGeneration c = rn_GenerationID req \<and> cr_FencingToken c = rn_Token req"
  using assms by (auto simp: local_RenewClaim_def Let_def split: option.splits if_splits)

lemma local_PrepareTransfer_ok:
  assumes "local_PrepareTransfer l e req = (l', rec, None)"
    and "local_recall l (tr_OperationID req) = None"
  shows "\<exists>c. rec = Some c \<and> lc_claims l' (tr_ClaimName req) = Some c \<and> cr_Phase c = ClaimReserved
           \<and> cr_OwnerGeneration c = tr_FromGeneration req
           \<and> cr_PendingSuccessor c = tr_ToGeneration req \<and> cr_FencingToken c = tr_Token req"
  using assms by (auto simp: local_PrepareTransfer_def Let_def split: option.splits if_splits)

lemma local_CommitTransfer_ok:
  assumes "local_CommitTransfer l e req = (l', rec, None)"
    and "local_recall l (cm_OperationID req) = None"
  shows "\<exists>c. rec = Some c \<and> lc_claims l' (cm_ClaimName req) = Some c \<and> cr_Phase c = ClaimOwned
           \<and> cr_OwnerGeneration c = cm_ToGeneration req
           \<and> cr_FencingToken c = cm_ExpectedToken req + 1"
  using assms
  by (auto simp: local_CommitTransfer_def Let_def advanceLocal_cases
        split: option.splits prod.splits if_splits)

lemma local_AbortTransfer_ok:
  assumes "local_AbortTransfer l e req = (l', rec, None)"
    and "local_recall l (ab_OperationID req) = None"
  shows "\<exists>c. rec = Some c \<and> lc_claims l' (ab_ClaimName req) = Some c \<and> cr_Phase c = ClaimOwned
           \<and> cr_OwnerGeneration c = ab_FromGeneration req
           \<and> cr_FencingToken c = v_token (map_view (lc_claims l) (ab_ClaimName req))"
  using assms
  by (auto simp: local_AbortTransfer_def Let_def map_view_def rec_view_def
        split: option.splits if_splits)

lemma local_ReleaseClaim_ok:
  assumes "local_ReleaseClaim l e req = (l', None)"
    and "local_recall l (rl_OperationID req) = None"
  shows "map_view (lc_claims l') (rl_ClaimName req) = vacant (rl_Token req)"
  using assms
  by (auto simp: local_ReleaseClaim_def Let_def map_view_Some rec_view_unheld rec_view_def
        split: option.splits if_splits)

section \<open>The store meets the contract\<close>

definition local_view :: "Local \<Rightarrow> string \<Rightarrow> claim_view" where
  "local_view l n = map_view (lc_claims l) n"

definition local_wf :: "Local \<Rightarrow> bool" where
  "local_wf l \<longleftrightarrow> claims_ok (lc_claims l)"

definition local_seen :: "Local \<Rightarrow> OperationID \<Rightarrow> bool" where
  "local_seen l i \<longleftrightarrow> local_recall l i \<noteq> None"

lemma local_invoke_evolves:
  "case call_claim c of
     Some n \<Rightarrow> evolves n (lc_claims l) (lc_claims (fst (invoke local_ops l e c)))
   | None \<Rightarrow> lc_claims (fst (invoke local_ops l e c)) = lc_claims l"
  by (cases c) (auto simp: local_ops_def local_Generation_frame split: prod.splits;
      metis fst_conv local_evolves local_Generation_frame)+

lemma local_invoke_logs: "logs (call_op c) (lc_ops l) (lc_ops (fst (invoke local_ops l e c)))"
  by (cases c) (auto simp: local_ops_def local_logs local_GetClaim_ops split: prod.splits;
      metis fst_conv local_logs local_Generation_frame logs_refl)+

interpretation loc: fenced_backend local_ops local_wf local_view local_seen
proof (unfold_locales, goal_cases)
  case (1 b e c)
  then show ?case
    using local_invoke_evolves [where c = c and l = b and e = e]
    by (auto simp: local_wf_def evolves_def split: option.splits)
next
  case (2 b c n e)
  then show ?case
    using local_invoke_evolves [where c = c and l = b and e = e]
    by (auto simp: local_wf_def local_view_def map_view_def evolves_def split: option.splits)
next
  case (3 b c n e)
  then show ?case
    using local_invoke_evolves [where c = c and l = b and e = e]
    by (auto simp: local_wf_def local_view_def evolves_def)
next
  case (4 b e c i)
  then show ?case
    using local_invoke_logs [where c = c and l = b and e = e]
    by (auto simp: local_seen_def logs_def local_recall_None split: if_splits)
next
  case (5 b r e b' rec)
  then show ?case
    using local_AcquireClaim_ok [of b e r b' rec]
    by (auto simp: local_ops_def local_seen_def local_view_def map_view_Some)
next
  case (6 b r e b' rec)
  then show ?case
    using local_RenewClaim_ok [of b e r b' rec]
    by (auto simp: local_ops_def local_seen_def local_view_def map_view_Some)
next
  case (7 b r e b' rec)
  then show ?case
    using local_PrepareTransfer_ok [of b e r b' rec]
    by (auto simp: local_ops_def local_seen_def local_view_def map_view_Some)
next
  case (8 b r e b' rec)
  then show ?case
    using local_CommitTransfer_ok [of b e r b' rec]
    by (auto simp: local_ops_def local_seen_def local_view_def map_view_Some)
next
  case (9 b r e b' rec)
  then show ?case
    using local_AbortTransfer_ok [of b e r b' rec]
    by (auto simp: local_ops_def local_seen_def local_view_def map_view_Some)
next
  case (10 b r e b')
  then show ?case
    using local_ReleaseClaim_ok [of b e r b']
    by (auto simp: local_ops_def local_seen_def local_view_def)
qed

section \<open>Properties of the store\<close>

text \<open>
  C30. Ownership of a claim in the Redis-like store changes hands only with a larger token: if
  one generation holds a claim at some point of a history of calls and another generation holds
  it at a later point, the token has strictly grown in between.
\<close>

theorem local_handover_raises_token:
  assumes "v_holder (local_view (run_calls local_ops NewLocal cs) n) = g" and "g \<noteq> ''''"
    and "v_holder (local_view (run_calls local_ops NewLocal (cs @ ds)) n) = h" and "h \<noteq> ''''"
    and "g \<noteq> h"
  shows "v_token (local_view (run_calls local_ops NewLocal cs) n)
         < v_token (local_view (run_calls local_ops NewLocal (cs @ ds)) n)"
  using loc.handover_raises_token [OF _ assms] by (simp add: local_wf_def NewLocal_def)

definition local_history :: "(env \<times> call) list" where
  "local_history =
     [(at_time 10, acquire_call ''jobs'' ''g1'' 100 ''op-1''),
      (at_time 20, prepare_call ''jobs'' ''g1'' ''g2'' 1 100 ''op-2'')]"

definition local_commit_step :: "(env \<times> call) list" where
  "local_commit_step = [(at_time 30, commit_call ''jobs'' ''g1'' ''g2'' 1 100 ''op-3'')]"

lemma local_history_eval:
  "v_holder (local_view (run_calls local_ops NewLocal local_history) ''jobs'') = ''g1''"
  "v_holder (local_view (run_calls local_ops NewLocal (local_history @ local_commit_step)) ''jobs'')
     = ''g2''"
  by code_simp+

theorem local_handover_raises_token_witness:
  "v_token (local_view (run_calls local_ops NewLocal local_history) ''jobs'')
   < v_token (local_view (run_calls local_ops NewLocal (local_history @ local_commit_step)) ''jobs'')"
  by (rule local_handover_raises_token [OF local_history_eval(1) _ local_history_eval(2)]) simp_all

definition local_reacquired :: "(env \<times> call) list" where
  "local_reacquired = local_history @ local_commit_step @
     [(at_time 40, release_call ''jobs'' ''g2'' 2 ''op-4''),
      (at_time 50, acquire_call ''jobs'' ''g2'' 100 ''op-5'')]"

text \<open>
  \<open>AcquireClaim\<close>, \<open>ReleaseClaim\<close> and lease expiry of this store leave the transfer status of
  an earlier transfer in the record, so a commit can be reported as done although no transfer was
  reserved: after a transfer to \<open>g2\<close>, a release and a fresh acquire by \<open>g2\<close>, a commit from an
  unrelated generation with a fresh operation id succeeds on a claim that is not reserved. The
  Lua script of the acquire, which the store mirrors, clears the status.
\<close>

theorem local_commit_without_transfer:
  "\<exists>c. snd (invoke local_ops (run_calls local_ops NewLocal local_reacquired) (at_time 60)
          (commit_call ''jobs'' ''never-owned'' ''g2'' 2 100 ''op-6'')) = (Some c, None)
     \<and> v_pending (local_view (run_calls local_ops NewLocal local_reacquired) ''jobs'') = None"
proof -
  let ?r = "snd (invoke local_ops (run_calls local_ops NewLocal local_reacquired) (at_time 60)
          (commit_call ''jobs'' ''never-owned'' ''g2'' 2 100 ''op-6''))"
  have "snd ?r = None" and "fst ?r \<noteq> None"
    and "v_pending (local_view (run_calls local_ops NewLocal local_reacquired) ''jobs'') = None"
    by code_simp+
  then show ?thesis by (metis not_None_eq prod.collapse)
qed

end
