(* ===== verification/Fault_Injection.thy ===== *)
theory Fault_Injection
  imports Memory_Safety
begin

text \<open>
  \<open>backend/faultinject/faultinject.go\<close>: a backend that wraps another one and injects outages,
  timeouts, conflicts and lost responses. The wrapped interface value is a parameter, so every
  method is a function of the inner operation table; \<open>later\<close> is the environment (clock readings,
  context) of the second call that \<open>DuplicateResponse\<close> makes right after the first.

  A method of the source reads the fault configuration once before and once or twice after the
  wrapped call; here a call sees one configuration throughout, the one in force when it starts.

  Decorating keeps the safety contract whatever the faults, and keeps the success contract unless
  duplicate responses are injected; an operation retried under the same identifier through any
  faults is applied once, and a lost response is resolved by such a retry.
\<close>

record Fault =
  ft_Latency :: duration
  ft_Unavailable :: bool
  ft_Timeout :: bool
  ft_DuplicateResponse :: bool
  ft_LoseResponse :: bool
  ft_CommitThenFail :: bool
  ft_StaleRead :: bool
  ft_WatchDisconnect :: bool
  ft_TxRollback :: bool
  ft_SerializationConflict :: bool
  ft_PoolExhausted :: bool

definition no_fault :: Fault where
  "no_fault = \<lparr>ft_Latency = 0, ft_Unavailable = False, ft_Timeout = False,
     ft_DuplicateResponse = False, ft_LoseResponse = False, ft_CommitThenFail = False,
     ft_StaleRead = False, ft_WatchDisconnect = False, ft_TxRollback = False,
     ft_SerializationConflict = False, ft_PoolExhausted = False\<rparr>"

record 'b Decorator =
  dc_inner :: 'b
  dc_fault :: Fault

definition fi_Wrap :: "'b \<Rightarrow> 'b Decorator" where
  "fi_Wrap inner = \<lparr>dc_inner = inner, dc_fault = no_fault\<rparr>"

definition SetFault :: "'b Decorator \<Rightarrow> Fault \<Rightarrow> 'b Decorator" where
  "SetFault d f = d\<lparr>dc_fault := f\<rparr>"

definition fi_error :: "sentinel \<Rightarrow> string \<Rightarrow> go_error" where
  "fi_error s msg = op_error ''faultinject'' s msg"

definition fi_before :: "Fault \<Rightarrow> env \<Rightarrow> go_error option" where
  "fi_before f e =
     (if ft_PoolExhausted f then Some (fi_error ErrBackend ''pool exhausted'')
      else if ft_Unavailable f then Some (fi_error ErrBackend ''unavailable'')
      else if ft_Timeout f then Some DeadlineExceeded
      else if ft_Latency f > 0 \<and> ctxErr e \<noteq> None then ctxErr e
      else if ft_SerializationConflict f then
        Some (fi_error ErrConcurrentTransfer ''serialization conflict'')
      else if ft_TxRollback f then Some (fi_error ErrBackend ''tx rolled back'')
      else None)"

definition fi_afterApply :: "Fault \<Rightarrow> go_error option \<Rightarrow> go_error option" where
  "fi_afterApply f err =
     (case err of
        Some er \<Rightarrow> Some er
      | None \<Rightarrow> if ft_LoseResponse f then Some (fi_error ErrAmbiguous ''response lost after success'')
                else None)"

definition fi_RegisterGeneration ::
  "'b Backend \<Rightarrow> 'b Decorator \<Rightarrow> env \<Rightarrow> Generation \<Rightarrow> 'b Decorator \<times> go_error option" where
  "fi_RegisterGeneration B d e g =
     (case fi_before (dc_fault d) e of
        Some er \<Rightarrow> (d, Some er)
      | None \<Rightarrow>
          (case RegisterGeneration B (dc_inner d) e g of
             (b, err) \<Rightarrow> (d\<lparr>dc_inner := b\<rparr>, fi_afterApply (dc_fault d) err)))"

definition fi_UpdateGeneration ::
  "'b Backend \<Rightarrow> 'b Decorator \<Rightarrow> env \<Rightarrow> Generation \<Rightarrow> 'b Decorator \<times> go_error option" where
  "fi_UpdateGeneration B d e g =
     (case fi_before (dc_fault d) e of
        Some er \<Rightarrow> (d, Some er)
      | None \<Rightarrow>
          (case UpdateGeneration B (dc_inner d) e g of
             (b, err) \<Rightarrow> (d\<lparr>dc_inner := b\<rparr>, fi_afterApply (dc_fault d) err)))"

definition fi_GetGeneration ::
  "'b Backend \<Rightarrow> 'b Decorator \<Rightarrow> env \<Rightarrow> string
   \<Rightarrow> 'b Decorator \<times> Generation option \<times> go_error option" where
  "fi_GetGeneration B d e i =
     (case GetGeneration B (dc_inner d) e i of (b, r) \<Rightarrow> (d\<lparr>dc_inner := b\<rparr>, r))"

definition fi_GetClaim ::
  "'b Backend \<Rightarrow> 'b Decorator \<Rightarrow> env \<Rightarrow> string \<Rightarrow> 'b Decorator \<times> rec_result" where
  "fi_GetClaim B d e n =
     (case GetClaim B (dc_inner d) e n of (b, r) \<Rightarrow> (d\<lparr>dc_inner := b\<rparr>, r))"

definition fi_AcquireClaim ::
  "(env \<Rightarrow> env) \<Rightarrow> 'b Backend \<Rightarrow> 'b Decorator \<Rightarrow> env \<Rightarrow> AcquireRequest
   \<Rightarrow> 'b Decorator \<times> rec_result" where
  "fi_AcquireClaim later B d e req =
     (case fi_before (dc_fault d) e of
        Some er \<Rightarrow> (d, None, Some er)
      | None \<Rightarrow>
          (case AcquireClaim B (dc_inner d) e req of
             (b, rec, err) \<Rightarrow>
               (case fi_afterApply (dc_fault d) err of
                  Some err2 \<Rightarrow> (d\<lparr>dc_inner := b\<rparr>, None, Some err2)
                | None \<Rightarrow>
                    if ft_DuplicateResponse (dc_fault d) \<and> rec \<noteq> None then
                      (d\<lparr>dc_inner := fst (AcquireClaim B b (later e) req)\<rparr>, rec, None)
                    else (d\<lparr>dc_inner := b\<rparr>, rec, None))))"

definition fi_RenewClaim ::
  "'b Backend \<Rightarrow> 'b Decorator \<Rightarrow> env \<Rightarrow> RenewRequest \<Rightarrow> 'b Decorator \<times> rec_result" where
  "fi_RenewClaim B d e req =
     (case fi_before (dc_fault d) e of
        Some er \<Rightarrow> (d, None, Some er)
      | None \<Rightarrow>
          (case RenewClaim B (dc_inner d) e req of
             (b, rec, err) \<Rightarrow> (d\<lparr>dc_inner := b\<rparr>, rec, fi_afterApply (dc_fault d) err)))"

definition fi_PrepareTransfer ::
  "'b Backend \<Rightarrow> 'b Decorator \<Rightarrow> env \<Rightarrow> TransferRequest \<Rightarrow> 'b Decorator \<times> rec_result" where
  "fi_PrepareTransfer B d e req =
     (case fi_before (dc_fault d) e of
        Some er \<Rightarrow> (d, None, Some er)
      | None \<Rightarrow>
          (case PrepareTransfer B (dc_inner d) e req of
             (b, rec, err) \<Rightarrow> (d\<lparr>dc_inner := b\<rparr>, rec, fi_afterApply (dc_fault d) err)))"

definition fi_CommitTransfer ::
  "'b Backend \<Rightarrow> 'b Decorator \<Rightarrow> env \<Rightarrow> CommitRequest \<Rightarrow> 'b Decorator \<times> rec_result" where
  "fi_CommitTransfer B d e req =
     (case fi_before (dc_fault d) e of
        Some er \<Rightarrow> (d, None, Some er)
      | None \<Rightarrow>
          (case CommitTransfer B (dc_inner d) e req of
             (b, rec, err) \<Rightarrow>
               if err = None \<and> ft_CommitThenFail (dc_fault d) then
                 (d\<lparr>dc_inner := b\<rparr>, None,
                  Some (fi_error ErrAmbiguous ''commit succeeded then client failure''))
               else (d\<lparr>dc_inner := b\<rparr>, rec, fi_afterApply (dc_fault d) err)))"

definition fi_AbortTransfer ::
  "'b Backend \<Rightarrow> 'b Decorator \<Rightarrow> env \<Rightarrow> AbortRequest \<Rightarrow> 'b Decorator \<times> rec_result" where
  "fi_AbortTransfer B d e req =
     (case fi_before (dc_fault d) e of
        Some er \<Rightarrow> (d, None, Some er)
      | None \<Rightarrow>
          (case AbortTransfer B (dc_inner d) e req of
             (b, rec, err) \<Rightarrow> (d\<lparr>dc_inner := b\<rparr>, rec, fi_afterApply (dc_fault d) err)))"

definition fi_ReleaseClaim ::
  "'b Backend \<Rightarrow> 'b Decorator \<Rightarrow> env \<Rightarrow> ReleaseRequest \<Rightarrow> 'b Decorator \<times> go_error option" where
  "fi_ReleaseClaim B d e req =
     (case fi_before (dc_fault d) e of
        Some er \<Rightarrow> (d, Some er)
      | None \<Rightarrow>
          (case ReleaseClaim B (dc_inner d) e req of
             (b, err) \<Rightarrow> (d\<lparr>dc_inner := b\<rparr>, fi_afterApply (dc_fault d) err)))"

text \<open>
  \<open>WatchClaim\<close> hands out a channel of the wrapped backend, or under \<open>WatchDisconnect\<close> a fresh channel
  that is closed at once. The wrapped \<open>WatchClaim\<close> and \<open>Close\<close> are arguments.
\<close>

datatype watch_channel = InnerChannel nat | ClosedChannel

definition fi_WatchClaim ::
  "('b \<Rightarrow> string \<Rightarrow> 'b \<times> nat option \<times> go_error option) \<Rightarrow> 'b Decorator \<Rightarrow> string
   \<Rightarrow> 'b Decorator \<times> watch_channel option \<times> go_error option" where
  "fi_WatchClaim watch d n =
     (if ft_WatchDisconnect (dc_fault d) then (d, Some ClosedChannel, None)
      else (case watch (dc_inner d) n of
              (b, ch, err) \<Rightarrow> (d\<lparr>dc_inner := b\<rparr>, map_option InnerChannel ch, err)))"

definition fi_Close ::
  "('b \<Rightarrow> 'b \<times> go_error option) \<Rightarrow> 'b Decorator \<Rightarrow> 'b Decorator \<times> go_error option" where
  "fi_Close close d = (case close (dc_inner d) of (b, err) \<Rightarrow> (d\<lparr>dc_inner := b\<rparr>, err))"

definition fi_Capabilities :: "Capabilities option \<Rightarrow> Capabilities" where
  "fi_Capabilities inner =
     (case inner of
        Some c \<Rightarrow> c
      | None \<Rightarrow>
          \<lparr>cap_AtomicCAS = True, cap_IdempotentMutations = False, cap_WatchSupported = False,
           cap_DurableStorage = False, cap_ExpireBeforeMutate = False,
           cap_RenewDuringReserved = False, cap_GlobalExclusive = False,
           cap_MaxFencingToken = 0\<rparr>)"

definition fi_ops :: "(env \<Rightarrow> env) \<Rightarrow> 'b Backend \<Rightarrow> 'b Decorator Backend" where
  "fi_ops later B =
     \<lparr>RegisterGeneration = fi_RegisterGeneration B, AcquireClaim = fi_AcquireClaim later B,
      RenewClaim = fi_RenewClaim B, PrepareTransfer = fi_PrepareTransfer B,
      CommitTransfer = fi_CommitTransfer B, AbortTransfer = fi_AbortTransfer B,
      ReleaseClaim = fi_ReleaseClaim B, UpdateGeneration = fi_UpdateGeneration B,
      GetClaim = fi_GetClaim B, GetGeneration = fi_GetGeneration B\<rparr>"

lemmas fi_call_defs = fi_ops_def fi_RegisterGeneration_def fi_UpdateGeneration_def fi_GetClaim_def
  fi_AcquireClaim_def fi_RenewClaim_def fi_PrepareTransfer_def fi_CommitTransfer_def
  fi_AbortTransfer_def fi_ReleaseClaim_def

section \<open>A decorated call is none, one or two calls of the inner backend\<close>

lemma fi_invoke_inner:
  "dc_fault (fst (invoke (fi_ops later B) d e c)) = dc_fault d
   \<and> (dc_inner (fst (invoke (fi_ops later B) d e c)) = dc_inner d
      \<or> dc_inner (fst (invoke (fi_ops later B) d e c)) = fst (invoke B (dc_inner d) e c)
      \<or> (ft_DuplicateResponse (dc_fault d)
         \<and> dc_inner (fst (invoke (fi_ops later B) d e c))
             = fst (invoke B (fst (invoke B (dc_inner d) e c)) (later e) c)))"
  by (cases c) (auto simp: fi_call_defs
      split: option.splits prod.splits)

lemma fi_success:
  assumes "invoke (fi_ops later B) d e c = (d', rec, None)" and "\<not> ft_DuplicateResponse (dc_fault d)"
  shows "invoke B (dc_inner d) e c = (dc_inner d', rec, None)"
  using assms
  by (cases c) (auto simp: fi_call_defs fi_afterApply_def
      split: option.splits prod.splits if_splits)

text \<open>What the caller sees: nothing applied, the wrapped refusal, the wrapped success, or doubt.\<close>

lemma fi_stopped:
  assumes "fi_before (dc_fault d) e = Some er" and "call_op c \<noteq> ''''"
  shows "invoke (fi_ops later B) d e c = (d, None, Some er)"
  using assms
  by (cases c) (simp_all add: fi_call_defs)

lemma fi_passed:
  assumes "fi_before (dc_fault d) e = None" and "call_op c \<noteq> ''''"
    and "invoke B (dc_inner d) e c = (b, irec, ier)"
    and "invoke (fi_ops later B) d e c = (d', rec, er)"
  shows "dc_inner d' = b \<or> dc_inner d' = fst (invoke B b (later e) c)"
    and "case ier of
           Some x \<Rightarrow> er = Some x
         | None \<Rightarrow> er = None \<and> rec = irec \<or> (\<exists>x. er = Some x \<and> errors_Is x ErrAmbiguous)"
  using assms
  by (cases c; auto simp: fi_call_defs
      fi_afterApply_def fi_error_def op_error_def split: option.splits prod.splits if_splits)+

definition fi_wf :: "('b \<Rightarrow> bool) \<Rightarrow> 'b Decorator \<Rightarrow> bool" where
  "fi_wf ok d \<longleftrightarrow> ok (dc_inner d)"

definition fi_quiet :: "('b \<Rightarrow> bool) \<Rightarrow> 'b Decorator \<Rightarrow> bool" where
  "fi_quiet ok d \<longleftrightarrow> ok (dc_inner d) \<and> \<not> ft_DuplicateResponse (dc_fault d)"

definition fi_view :: "('b \<Rightarrow> string \<Rightarrow> claim_view) \<Rightarrow> 'b Decorator \<Rightarrow> string \<Rightarrow> claim_view" where
  "fi_view view d = view (dc_inner d)"

definition fi_seen :: "('b \<Rightarrow> OperationID \<Rightarrow> bool) \<Rightarrow> 'b Decorator \<Rightarrow> OperationID \<Rightarrow> bool" where
  "fi_seen seen d = seen (dc_inner d)"

lemmas fi_defs = fi_wf_def fi_quiet_def fi_view_def fi_seen_def

text \<open>The safety contract survives every fault, duplicate responses included.\<close>

context fenced_store
begin

lemma decorated_wf: "wf (dc_inner d) \<Longrightarrow> wf (dc_inner (fst (invoke (fi_ops later B) d e c)))"
  using fi_invoke_inner [of later B d e c] by (metis wf_call)

lemma decorated_frame:
  "wf (dc_inner d) \<Longrightarrow> call_claim c \<noteq> Some n \<Longrightarrow>
   view (dc_inner (fst (invoke (fi_ops later B) d e c))) n = view (dc_inner d) n"
  using fi_invoke_inner [of later B d e c] by (metis wf_call view_frame)

lemma decorated_step:
  assumes "wf (dc_inner d)"
  shows "fence_steps (view (dc_inner d) n) (view (dc_inner (fst (invoke (fi_ops later B) d e c))) n)"
proof -
  have one: "fence_steps (view (dc_inner d) n) (view (fst (invoke B (dc_inner d) e c)) n)"
    using assms by (rule view_steps)
  have two: "fence_steps (view (fst (invoke B (dc_inner d) e c)) n)
      (view (fst (invoke B (fst (invoke B (dc_inner d) e c)) (later e) c)) n)"
    by (rule view_steps) (rule wf_call [OF assms])
  show ?thesis
    using fi_invoke_inner [of later B d e c] one rtranclp_trans [OF one two] by auto
qed

lemma decorated_seen:
  "wf (dc_inner d) \<Longrightarrow> seen (dc_inner (fst (invoke (fi_ops later B) d e c))) i \<Longrightarrow>
   seen (dc_inner d) i \<or> (i = call_op c \<and> i \<noteq> '''')"
  using fi_invoke_inner [of later B d e c] by (metis wf_call seen_call)

lemma decorated_store: "fenced_store (fi_ops later B) (fi_wf wf) (fi_view view) (fi_seen seen)"
  by unfold_locales
    (auto simp: fi_defs decorated_wf decorated_frame decorated_step dest: decorated_seen)

end

text \<open>The success contract survives every fault but duplicate responses.\<close>

context fenced_backend
begin

lemma decorated_quiet: "fi_quiet wf d \<Longrightarrow> fi_quiet wf (fst (invoke (fi_ops later B) d e c))"
  using fi_invoke_inner [of later B d e c] by (simp add: fi_quiet_def decorated_wf)

lemma decorated_backend:
  "fenced_backend (fi_ops later B) (fi_quiet wf) (fi_view view) (fi_seen seen)"
proof (unfold_locales, goal_cases)
  case (1 d e c) then show ?case by (rule decorated_quiet)
next
  case (2 d c n e) then show ?case by (simp add: fi_defs decorated_frame)
next
  case (3 d c n e) then show ?case by (simp add: fi_defs decorated_step)
next
  case (4 d e c i) then show ?case by (auto simp: fi_defs dest: decorated_seen)
next
  case (5 d r e d' rec)
  then show ?case
    using fi_success [of later B d e "CAcquire r" d' rec] acquire_ok [of "dc_inner d" r e "dc_inner d'" rec]
    by (simp add: fi_defs)
next
  case (6 d r e d' rec)
  then show ?case
    using fi_success [of later B d e "CRenew r" d' rec] renew_ok [of "dc_inner d" r e "dc_inner d'" rec]
    by (simp add: fi_defs)
next
  case (7 d r e d' rec)
  then show ?case
    using fi_success [of later B d e "CPrepare r" d' rec] prepare_ok [of "dc_inner d" r e "dc_inner d'" rec]
    by (simp add: fi_defs)
next
  case (8 d r e d' rec)
  then show ?case
    using fi_success [of later B d e "CCommit r" d' rec] commit_ok [of "dc_inner d" r e "dc_inner d'" rec]
    by (simp add: fi_defs)
next
  case (9 d r e d' rec)
  then show ?case
    using fi_success [of later B d e "CAbort r" d' rec] abort_ok [of "dc_inner d" r e "dc_inner d'" rec]
    by (simp add: fi_defs)
next
  case (10 d r e d')
  then show ?case
    using fi_success [of later B d e "CRelease r" d' None] release_ok [of "dc_inner d" r e "dc_inner d'"]
    by (simp add: fi_defs split: prod.splits)
qed

end

interpretation fim: fenced_store "fi_ops later mem_ops" "fi_wf mem_wf" "fi_view mem_view" "fi_seen mem_seen"
  for later
  by (rule mem.decorated_store)

interpretation fiq: fenced_backend "fi_ops later mem_ops" "fi_quiet mem_wf" "fi_view mem_view" "fi_seen mem_seen"
  for later
  by (rule mem.decorated_backend)

section \<open>Properties\<close>

text \<open>
  A history through the decorator: calls, with the fault configuration changed in between, and
  anything that happens to the wrapped store itself (other clients, its own faults).
\<close>

datatype fi_action = FCall env call | FSetFault Fault | FInner mem_action

primrec fi_act :: "(env \<Rightarrow> env) \<Rightarrow> mem_backend Decorator \<Rightarrow> fi_action \<Rightarrow> mem_backend Decorator" where
  "fi_act later d (FCall e c) = fst (invoke (fi_ops later mem_ops) d e c)"
| "fi_act later d (FSetFault f) = SetFault d f"
| "fi_act later d (FInner a) = d\<lparr>dc_inner := mem_act (dc_inner d) a\<rparr>"

definition fi_run :: "(env \<Rightarrow> env) \<Rightarrow> mem_backend Decorator \<Rightarrow> fi_action list \<Rightarrow> mem_backend Decorator" where
  "fi_run later = foldl (fi_act later)"

text \<open>Once the store has recorded an outcome, the same call changes no claim and repeats the outcome.\<close>

lemma mem_recorded_call:
  assumes "mb_ops s (call_op c) = Some r" and "call_op c \<noteq> ''''" and "invoke mem_ops s e c = (s', rec, er)"
  shows "mb_claims s' = mb_claims s \<and> mb_ops s' = mb_ops s"
    and "er = None \<Longrightarrow> or_err r = None \<and> rec = (case c of CRelease _ \<Rightarrow> None | _ \<Rightarrow> or_rec r)"
proof -
  obtain b1 x where b1: "mem_beforeMutate s e = (b1, x)" by force
  note frame = mem_before_frame [OF b1]
  show "mb_claims s' = mb_claims s \<and> mb_ops s' = mb_ops s"
    and "er = None \<Longrightarrow> or_err r = None \<and> rec = (case c of CRelease _ \<Rightarrow> None | _ \<Rightarrow> or_rec r)"
    using assms b1 frame
    by (cases c; auto simp: op_defs
        mem_recallOp_def Let_def split: option.splits if_splits)+
qed

lemma fi_act_ops:
  assumes "mb_ops (dc_inner d) i = Some r"
  shows "mb_ops (dc_inner (fi_act later d a)) i = Some r"
proof (cases a)
  case (FCall e c)
  have keep: "mb_ops (fst (invoke mem_ops s e' c)) i = Some r" if "mb_ops s i = Some r" for s e'
    using that mem_invoke_logs [of c s e'] by (blast dest: logs_keeps)
  from fi_invoke_inner [of later mem_ops d e c] FCall keep [OF assms] keep assms
  show ?thesis by (metis fi_act.simps(1))
next
  case (FInner x)
  with mem_act_frame [of "dc_inner d" x] assms show ?thesis by (auto dest: logs_keeps)
qed (simp add: SetFault_def assms)

lemma fi_run_ops: "mb_ops (dc_inner d) i = Some r \<Longrightarrow> mb_ops (dc_inner (fi_run later d as)) i = Some r"
  by (induction as rule: rev_induct) (simp_all add: fi_run_def fi_act_ops)

lemma fi_recorded_call:
  assumes "mb_ops (dc_inner d) (call_op c) = Some r" and "call_op c \<noteq> ''''"
    and "invoke (fi_ops later mem_ops) d e c = (d', rec, er)"
  shows "mb_claims (dc_inner d') = mb_claims (dc_inner d)"
    and "er = None \<Longrightarrow> rec = (case c of CRelease _ \<Rightarrow> None | _ \<Rightarrow> or_rec r)"
proof -
  obtain b irec ier where i: "invoke mem_ops (dc_inner d) e c = (b, irec, ier)" by (metis prod.collapse)
  note rec = mem_recorded_call [OF assms(1,2) i]
  have again: "mb_claims (fst (invoke mem_ops b (later e) c)) = mb_claims b"
    using mem_recorded_call(1) [of b c r "later e"] rec(1) assms(1,2) by (metis prod.collapse)
  show "mb_claims (dc_inner d') = mb_claims (dc_inner d)"
  proof (cases "fi_before (dc_fault d) e")
    case None
    from fi_passed(1) [OF None assms(2) i assms(3)] rec(1) again show ?thesis by auto
  next
    case (Some x)
    from fi_stopped [OF Some assms(2), of later mem_ops] assms(3) show ?thesis by simp
  qed
  show "rec = (case c of CRelease _ \<Rightarrow> None | _ \<Rightarrow> or_rec r)" if "er = None"
  proof (cases "fi_before (dc_fault d) e")
    case None
    from fi_passed(2) [OF None assms(2) i assms(3)] that rec(2) show ?thesis
      by (auto split: option.splits)
  next
    case (Some x)
    from fi_stopped [OF Some assms(2), of later mem_ops] assms(3) that show ?thesis by simp
  qed
qed

text \<open>
  C26. An operation retried through faults is applied once. Take a first attempt of a call with
  an operation identifier, a retry of it after any further history (other calls, changes of the
  injected faults and of the store's own), and any faults in force at either attempt. If a fault
  stops the first attempt, the caller gets that fault's error and nothing has changed. Otherwise,
  if the store refuses, the caller gets the refusal. Otherwise the store has applied the operation:
  the caller gets its record, or \<open>ErrAmbiguous\<close>; the retry changes no claim any more; and if the
  retry reports success, it is with the record of the first application, seen or lost.
\<close>

theorem faults_applied_once:
  assumes "call_op c \<noteq> ''''"
    and "invoke mem_ops (dc_inner d) e c = (b, irec, ier)"
    and "invoke (fi_ops later mem_ops) d e c = (d1, rec, er)"
    and "invoke (fi_ops later mem_ops) (fi_run later d1 as) e' c = (d2, rec', er')"
  shows "case fi_before (dc_fault d) e of
      Some x \<Rightarrow> (d1, rec, er) = (d, None, Some x)
    | None \<Rightarrow>
        (case ier of
           Some x \<Rightarrow> er = Some x
         | None \<Rightarrow> (er = None \<and> rec = irec \<or> (\<exists>x. er = Some x \<and> errors_Is x ErrAmbiguous))
             \<and> mb_claims (dc_inner d2) = mb_claims (dc_inner (fi_run later d1 as))
             \<and> (er' = None \<longrightarrow> rec' = irec))"
proof (cases "fi_before (dc_fault d) e")
  case (Some x)
  with fi_stopped [OF Some assms(1), of later mem_ops] assms(3) show ?thesis by simp
next
  case None
  note passed = fi_passed [OF None assms(1,2,3)]
  show ?thesis
  proof (cases ier)
    case (Some x)
    with passed(2) None show ?thesis by simp
  next
    case applied: None
    obtain r where r: "mb_ops b (call_op c) = Some r" "case c of CRelease _ \<Rightarrow> irec = None | _ \<Rightarrow> or_rec r = irec"
      using mem_success_stored [of "dc_inner d" e c b irec] assms(1,2) applied by blast
    have "mb_ops (fst (invoke mem_ops b (later e) c)) (call_op c) = Some r"
      using mem_recorded_call(1) [OF r(1) assms(1)] r(1) by (metis prod.collapse)
    with passed(1) r(1) have "mb_ops (dc_inner d1) (call_op c) = Some r" by auto
    then have "mb_ops (dc_inner (fi_run later d1 as)) (call_op c) = Some r" by (rule fi_run_ops)
    note retry = fi_recorded_call [OF this assms(1,4)]
    have "irec = (case c of CRelease _ \<Rightarrow> None | _ \<Rightarrow> or_rec r)" using r(2) by (cases c) auto
    with retry passed(2) None applied show ?thesis by simp
  qed
qed

definition lossy :: "mem_backend Decorator" where
  "lossy = SetFault (fi_Wrap (mem_New False)) (no_fault\<lparr>ft_LoseResponse := True\<rparr>)"

definition lossy_history :: "fi_action list" where
  "lossy_history = [FSetFault (no_fault\<lparr>ft_DuplicateResponse := True\<rparr>),
     FInner (ACall (at_time 200) (acquire_call ''jobs'' ''g2'' 100 ''op-2''))]"

definition lossy_attempt :: "mem_backend Decorator \<times> rec_result" where
  "lossy_attempt = invoke (fi_ops (\<lambda>e. e) mem_ops) lossy (at_time 10) (acquire_call ''jobs'' ''g1'' 100 ''op-1'')"

definition lossy_retry :: "mem_backend Decorator \<times> rec_result" where
  "lossy_retry = invoke (fi_ops (\<lambda>e. e) mem_ops) (fi_run (\<lambda>e. e) (fst lossy_attempt) lossy_history)
     (at_time 250) (acquire_call ''jobs'' ''g1'' 100 ''op-1'')"

lemma lossy_eval:
  "snd (snd lossy_retry) = None \<and> snd (snd retry_store) = None
   \<and> map_option cr_FencingToken (fst (snd retry_store)) = Some 1"
  by code_simp

theorem faults_applied_once_witness:
  "\<exists>x. snd (snd lossy_attempt) = Some x \<and> map_option cr_FencingToken (fst (snd lossy_retry)) = Some 1
     \<and> mb_claims (dc_inner (fst lossy_retry))
       = mb_claims (dc_inner (fi_run (\<lambda>e. e) (fst lossy_attempt) lossy_history))"
proof -
  let ?c = "acquire_call ''jobs'' ''g1'' 100 ''op-1''"
  have inner: "invoke mem_ops (dc_inner lossy) (at_time 10) ?c = (fst retry_store, fst (snd retry_store), None)"
    using lossy_eval unfolding lossy_def SetFault_def fi_Wrap_def
    by (simp add: retry_store_def [symmetric]) (metis prod.collapse)
  have before: "fi_before (dc_fault lossy) (at_time 10) = None"
    by (simp add: lossy_def SetFault_def fi_before_def no_fault_def)
  have lost: "snd (snd lossy_attempt) \<noteq> None"
    using inner before
    by (simp add: lossy_attempt_def acquire_call_def fi_ops_def fi_AcquireClaim_def fi_afterApply_def
        lossy_def SetFault_def no_fault_def)
  have "call_op ?c \<noteq> ''''" by (simp add: acquire_call_def)
  moreover have "lossy_retry = (fst lossy_retry, fst (snd lossy_retry), None)"
    using lossy_eval by (metis prod.collapse)
  ultimately show ?thesis
    using faults_applied_once [OF _ inner, of "\<lambda>e. e" "fst lossy_attempt" "fst (snd lossy_attempt)"
        "snd (snd lossy_attempt)" lossy_history "at_time 250" "fst lossy_retry" "fst (snd lossy_retry)"
        None] before lost lossy_eval
    by (auto simp: lossy_attempt_def [symmetric] lossy_retry_def [symmetric])
qed

lemma fi_lost:
  assumes "invoke B (dc_inner d) e c = (s1, rec, None)" and "fi_before (dc_fault d) e = None"
    and "ft_LoseResponse (dc_fault d)" and "call_op c \<noteq> ''''"
  shows "fst (invoke (fi_ops later B) d e c) = d\<lparr>dc_inner := s1\<rparr>
       \<and> (\<exists>er. snd (snd (invoke (fi_ops later B) d e c)) = Some er \<and> errors_Is er ErrAmbiguous)"
  using assms
  by (cases c) (auto simp: fi_call_defs fi_afterApply_def fi_error_def
      op_error_def split: option.splits prod.splits)

lemma fi_transparent:
  assumes "snd (invoke B (dc_inner d) e c) = (rec, None)"
  shows "snd (invoke (fi_ops later B) (SetFault d no_fault) e c) = (rec, None)
   \<and> dc_inner (fst (invoke (fi_ops later B) (SetFault d no_fault) e c)) = fst (invoke B (dc_inner d) e c)"
  using assms
  by (cases c) (auto simp: fi_call_defs fi_afterApply_def
      SetFault_def no_fault_def fi_before_def split: option.splits prod.splits)

text \<open>
  C27. A lost response is resolved by retrying. When the store applied an operation but the
  response was lost, the caller sees \<open>ErrAmbiguous\<close> although the store has changed; once the
  fault is gone, repeating the call with the same operation identifier returns the record of the
  first application, reports success and changes no claim.
\<close>

theorem lost_response_resolved:
  assumes "invoke mem_ops (dc_inner d) e c = (s1, rec, None)" and "call_op c \<noteq> ''''"
    and "fi_before (dc_fault d) e = None" and "ft_LoseResponse (dc_fault d)"
    and "mem_beforeMutate s1 e' = (s2, None)" and "mb_failPrepareAt s1 \<le> 0"
    and "d1 = SetFault (fst (invoke (fi_ops later mem_ops) d e c)) no_fault"
  shows "(\<exists>er. snd (snd (invoke (fi_ops later mem_ops) d e c)) = Some er \<and> errors_Is er ErrAmbiguous)
       \<and> snd (invoke (fi_ops later mem_ops) d1 e' c) = (rec, None)
       \<and> mb_claims (dc_inner (fst (invoke (fi_ops later mem_ops) d1 e' c))) = mb_claims s1"
proof -
  note lost = fi_lost [OF assms(1,3,4,2), of later]
  then have d1: "d1 = SetFault (d\<lparr>dc_inner := s1\<rparr>) no_fault" using assms(7) by simp
  obtain r where r: "mb_ops s1 (call_op c) = Some r" "or_err r = None"
      "case c of CRelease _ \<Rightarrow> rec = None | _ \<Rightarrow> or_rec r = rec"
    using mem_success_stored [OF assms(1,2)] by blast
  have "snd (invoke mem_ops s1 e' c) = (rec, None) \<and> mb_claims (fst (invoke mem_ops s1 e' c)) = mb_claims s1"
    using mem_recalled_result [OF r(1) assms(2,5,6)] r(2,3) by (cases c) auto
  then show ?thesis
    using lost fi_transparent [of mem_ops "d\<lparr>dc_inner := s1\<rparr>" e' c rec later] d1 by simp
qed

theorem lost_response_resolved_witness:
  "\<exists>rec. snd (invoke (fi_ops (\<lambda>e. e) mem_ops)
        (SetFault (fst (invoke (fi_ops (\<lambda>e. e) mem_ops)
             \<lparr>dc_inner = mem_New False, dc_fault = no_fault\<lparr>ft_LoseResponse := True\<rparr>\<rparr> (at_time 10)
             (acquire_call ''jobs'' ''g1'' 100 ''op-1''))) no_fault)
        (at_time 20) (acquire_call ''jobs'' ''g1'' 100 ''op-1'')) = (rec, None)
     \<and> map_option cr_FencingToken rec = Some 1"
proof -
  let ?d = "\<lparr>dc_inner = mem_New False, dc_fault = no_fault\<lparr>ft_LoseResponse := True\<rparr>\<rparr>"
  let ?c = "acquire_call ''jobs'' ''g1'' 100 ''op-1''"
  have inner: "invoke mem_ops (dc_inner ?d) (at_time 10) ?c
      = (fst retry_store, fst (snd retry_store), None)"
    using retry_store_eval by (simp add: retry_store_def [symmetric]) (metis prod.collapse)
  have "snd (mem_beforeMutate (fst retry_store) (at_time 20)) = None
      \<and> mb_failPrepareAt (fst retry_store) = 0" by code_simp
  then have live: "mem_beforeMutate (fst retry_store) (at_time 20)
      = (fst (mem_beforeMutate (fst retry_store) (at_time 20)), None)"
    "mb_failPrepareAt (fst retry_store) \<le> 0"
    by (metis prod.collapse) (simp add: \<open>_ \<and> _\<close>)
  show ?thesis
    using lost_response_resolved [OF inner _ _ _ live refl, of "\<lambda>e. e"] retry_store_eval
    by (auto simp: acquire_call_def fi_before_def no_fault_def)
qed

end
