(* ===== verification/Fencing.thy ===== *)
theory Fencing
  imports Ownership
begin

text \<open>
  The consumers of fencing tokens: \<open>TokenValidator\<close> of \<open>fencing.go\<close>, whose \<open>Accept\<close> is a
  compare-and-swap loop that many goroutines run at once, and the fenced resource of
  \<open>fencing/memory/memory.go\<close>, which does the same test under a mutex.

  \<open>Accept\<close> is modelled at the granularity of its atomic operations: a call is a little machine
  whose steps are the zero test, the \<open>Load\<close> with the two comparisons, and the
  \<open>CompareAndSwap\<close>; a run is an arbitrary schedule of the steps of any number of calls. The
  theory shows that every call is one atomic test-and-advance (linearizability), that a smaller
  token is never accepted after a larger one, and that no call loops forever.
\<close>

section \<open>The validator\<close>

datatype accept_pc =
    AStart FencingToken
  | ALoop FencingToken
  | ACas FencingToken FencingToken
  | ADone FencingToken bool

fun accept_step :: "FencingToken \<Rightarrow> accept_pc \<Rightarrow> FencingToken \<times> accept_pc" where
  "accept_step current (AStart token) =
     (if FencingToken_Zero token then (current, ADone token False) else (current, ALoop token))"
| "accept_step current (ALoop token) =
     (let cur = current
      in if token < cur then (current, ADone token False)
         else if token = cur then (current, ADone token True)
         else (current, ACas token cur))"
| "accept_step current (ACas token cur) =
     (if current = cur then (token, ADone token True) else (current, ALoop token))"
| "accept_step current (ADone token r) = (current, ADone token r)"

fun accept_token :: "accept_pc \<Rightarrow> FencingToken" where
  "accept_token (AStart token) = token"
| "accept_token (ALoop token) = token"
| "accept_token (ACas token cur) = token"
| "accept_token (ADone token r) = token"

fun accept_done :: "accept_pc \<Rightarrow> bool" where
  "accept_done (ADone token r) = True"
| "accept_done _ = False"

record TokenValidator =
  tv_current :: FencingToken
  tv_calls :: "accept_pc list"
  tv_returns :: "(nat \<times> bool) list"

text \<open>
  The validator together with the calls on it: \<open>tv_current\<close> is the atomic word, \<open>tv_calls\<close> the
  goroutines inside \<open>Accept\<close>, and \<open>tv_returns\<close> the history of returns, oldest first.
\<close>

definition NewTokenValidator :: "FencingToken list \<Rightarrow> TokenValidator" where
  "NewTokenValidator tokens =
     \<lparr>tv_current = 0, tv_calls = map AStart tokens, tv_returns = []\<rparr>"

definition tv_step :: "TokenValidator \<Rightarrow> nat \<Rightarrow> TokenValidator" where
  "tv_step v i =
     (if i < length (tv_calls v) \<and> \<not> accept_done (tv_calls v ! i) then
        (case accept_step (tv_current v) (tv_calls v ! i) of
           (current, pc) \<Rightarrow>
             \<lparr>tv_current = current, tv_calls = (tv_calls v)[i := pc],
              tv_returns = tv_returns v @ (case pc of ADone token r \<Rightarrow> [(i, r)] | _ \<Rightarrow> [])\<rparr>)
      else v)"

definition tv_run :: "TokenValidator \<Rightarrow> nat list \<Rightarrow> TokenValidator" where
  "tv_run = foldl tv_step"

text \<open>The specification: test and advance in one atomic action, calls one after the other.\<close>

definition accept_spec :: "FencingToken \<Rightarrow> FencingToken \<Rightarrow> FencingToken \<times> bool" where
  "accept_spec current token =
     (if token = 0 \<or> token < current then (current, False) else (token, True))"

fun accept_seq :: "FencingToken \<Rightarrow> FencingToken list \<Rightarrow> FencingToken \<times> bool list" where
  "accept_seq current [] = (current, [])"
| "accept_seq current (token # tokens) =
     (case accept_spec current token of
        (c1, r) \<Rightarrow> (case accept_seq c1 tokens of (c2, rs) \<Rightarrow> (c2, r # rs)))"

section \<open>Invariants of the loop\<close>

text \<open>What holds between the steps of a call: zero tokens are gone, and a swap is upwards.\<close>

fun accept_ok :: "accept_pc \<Rightarrow> bool" where
  "accept_ok (ALoop token) = (token \<noteq> 0)"
| "accept_ok (ACas token cur) = (token \<noteq> 0 \<and> cur < token)"
| "accept_ok _ = True"

lemma accept_step_ok: "accept_ok pc \<Longrightarrow> accept_step cur pc = (cur', pc') \<Longrightarrow> accept_ok pc'"
  by (cases "(cur, pc)" rule: accept_step.cases)
    (auto simp: FencingToken_Zero_def Let_def split: if_splits)

lemma accept_step_token: "accept_step cur pc = (cur', pc') \<Longrightarrow> accept_token pc' = accept_token pc"
  by (cases "(cur, pc)" rule: accept_step.cases) (auto simp: Let_def split: if_splits)

text \<open>A step that does not return leaves the word alone; a step that returns is the specification.\<close>

lemma accept_step_silent:
  assumes "accept_step cur pc = (cur', pc')" and "\<not> accept_done pc'"
  shows "cur' = cur"
  using assms by (cases "(cur, pc)" rule: accept_step.cases) (auto simp: Let_def split: if_splits)

lemma accept_step_return:
  assumes "accept_ok pc" and "\<not> accept_done pc" and "accept_step cur pc = (cur', ADone token r)"
  shows "token = accept_token pc \<and> accept_spec cur token = (cur', r)"
  using assms
  by (cases "(cur, pc)" rule: accept_step.cases)
    (auto simp: FencingToken_Zero_def accept_spec_def Let_def split: if_splits)

lemma accept_seq_snoc:
  "accept_seq c xs = (c1, rs) \<Longrightarrow> accept_spec c1 x = (c2, r) \<Longrightarrow> accept_seq c (xs @ [x]) = (c2, rs @ [r])"
  by (induction xs arbitrary: c rs) (auto split: prod.splits)

text \<open>The state of a run on the tokens \<open>toks\<close>, and how the history relates to it.\<close>

definition tv_inv :: "FencingToken list \<Rightarrow> TokenValidator \<Rightarrow> bool" where
  "tv_inv toks v \<longleftrightarrow>
     length (tv_calls v) = length toks
     \<and> (\<forall>i < length toks. accept_ok (tv_calls v ! i) \<and> accept_token (tv_calls v ! i) = toks ! i)
     \<and> distinct (map fst (tv_returns v))
     \<and> (\<forall>i r. (i, r) \<in> set (tv_returns v) \<longleftrightarrow> i < length toks \<and> tv_calls v ! i = ADone (toks ! i) r)
     \<and> accept_seq 0 (map (\<lambda>(i, r). toks ! i) (tv_returns v)) = (tv_current v, map snd (tv_returns v))"

lemma tv_inv_new: "tv_inv tokens (NewTokenValidator tokens)"
  by (simp add: tv_inv_def NewTokenValidator_def)

lemma tv_inv_step:
  assumes inv: "tv_inv toks v"
  shows "tv_inv toks (tv_step v i)"
proof (cases "i < length (tv_calls v) \<and> \<not> accept_done (tv_calls v ! i)")
  case True
  obtain cur' pc' where st: "accept_step (tv_current v) (tv_calls v ! i) = (cur', pc')" by force
  have i: "i < length toks" "accept_ok (tv_calls v ! i)" "accept_token (tv_calls v ! i) = toks ! i"
    using inv True by (auto simp: tv_inv_def)
  have pc': "accept_ok pc'" "accept_token pc' = toks ! i"
    using accept_step_ok [OF i(2) st] accept_step_token [OF st] i(3) by auto
  have new: "(i, r) \<notin> set (tv_returns v)" for r
    using inv True by (auto simp: tv_inv_def)
  show ?thesis
  proof (cases pc')
    case (ADone token r)
    with pc' have pc: "pc' = ADone (toks ! i) r" by simp
    have "accept_spec (tv_current v) (toks ! i) = (cur', r)"
      using accept_step_return [OF i(2)] True st pc by blast
    then have seq: "accept_seq 0 (map (\<lambda>(i, r). toks ! i) (tv_returns v) @ [toks ! i])
        = (cur', map snd (tv_returns v) @ [r])"
      using inv by (intro accept_seq_snoc) (auto simp: tv_inv_def)
    have v': "tv_step v i = \<lparr>tv_current = cur', tv_calls = (tv_calls v)[i := ADone (toks ! i) r],
        tv_returns = tv_returns v @ [(i, r)]\<rparr>"
      using True st pc by (simp add: tv_step_def)
    show ?thesis
      using inv i(1) new seq unfolding v' tv_inv_def
      by (auto simp: nth_list_update split: if_splits)
  qed (use inv i(1) new pc' True st accept_step_silent [OF st] in
      \<open>auto simp: tv_inv_def tv_step_def nth_list_update\<close>)
qed (use inv in \<open>auto simp: tv_step_def\<close>)

lemma tv_inv_run: "tv_inv toks v \<Longrightarrow> tv_inv toks (tv_run v is)"
  by (induction "is" arbitrary: v) (simp_all add: tv_run_def tv_inv_step)

section \<open>Stale tokens\<close>

lemma accept_spec_mono: "accept_spec c t = (c', r) \<Longrightarrow> c \<le> c' \<and> (r \<longrightarrow> t \<le> c')"
  by (auto simp: accept_spec_def split: if_splits)

lemma accept_seq_mono:
  "accept_seq c ts = (c', rs) \<Longrightarrow> c \<le> c' \<and> (\<forall>(t, r) \<in> set (zip ts rs). r \<longrightarrow> t \<le> c')"
proof (induction ts arbitrary: c rs)
  case (Cons t ts)
  obtain c1 r where one: "accept_spec c t = (c1, r)" by force
  obtain rs' where rest: "accept_seq c1 ts = (c', rs')" and rs: "rs = r # rs'"
    using Cons.prems one by (auto split: prod.splits)
  from Cons.IH [OF rest] accept_spec_mono [OF one] show ?case by (auto simp: rs)
qed simp

lemma zip_map_same: "zip (map f xs) (map g xs) = map (\<lambda>x. (f x, g x)) xs"
  by (induction xs) auto

lemma tv_accepted_le_current:
  assumes "tv_inv toks v" and "i < length toks" and "tv_calls v ! i = ADone (toks ! i) True"
  shows "toks ! i \<le> tv_current v"
proof -
  have "(i, True) \<in> set (tv_returns v)" using assms by (simp add: tv_inv_def)
  then have mem: "(toks ! i, True) \<in> set (zip (map (\<lambda>(i, r). toks ! i) (tv_returns v)) (map snd (tv_returns v)))"
    unfolding zip_map_same set_map by (rule rev_image_eqI) simp
  have "accept_seq 0 (map (\<lambda>(i, r). toks ! i) (tv_returns v)) = (tv_current v, map snd (tv_returns v))"
    using assms(1) by (simp add: tv_inv_def)
  from bspec [OF accept_seq_mono [OF this, THEN conjunct2] mem] show ?thesis by simp
qed

lemma accept_step_mono:
  assumes "accept_ok pc" and "accept_step cur pc = (cur', pc')"
  shows "cur \<le> cur'"
  using assms by (cases "(cur, pc)" rule: accept_step.cases) (auto simp: Let_def split: if_splits)

lemma accept_step_blocks:
  assumes "accept_ok pc" and "accept_token pc < cur" and "pc \<noteq> ADone token True"
    and "accept_step cur pc = (cur', pc')"
  shows "pc' \<noteq> ADone token True"
  using assms by (cases "(cur, pc)" rule: accept_step.cases) (auto simp: Let_def split: if_splits)

lemma tv_step_blocks:
  assumes "tv_inv toks v" and "j < length toks" and "toks ! j < t" and "t \<le> tv_current v"
    and "tv_calls v ! j \<noteq> ADone (toks ! j) True"
  shows "t \<le> tv_current (tv_step v i) \<and> tv_calls (tv_step v i) ! j \<noteq> ADone (toks ! j) True"
proof (cases "i < length (tv_calls v) \<and> \<not> accept_done (tv_calls v ! i)")
  case True
  obtain cur' pc' where st: "accept_step (tv_current v) (tv_calls v ! i) = (cur', pc')" by force
  have ok: "accept_ok (tv_calls v ! i)" and tok: "accept_token (tv_calls v ! i) = toks ! i"
    using assms(1) True by (auto simp: tv_inv_def)
  have v': "tv_current (tv_step v i) = cur'" "tv_calls (tv_step v i) = (tv_calls v)[i := pc']"
    using True st by (simp_all add: tv_step_def)
  have "t \<le> cur'" using accept_step_mono [OF ok st] assms(4) by simp
  moreover have "pc' \<noteq> ADone (toks ! j) True" if "i = j"
    using accept_step_blocks [OF ok _ _ st] tok assms(3-5) that by simp
  ultimately show ?thesis
    using assms(5) True unfolding v' by (cases "i = j") simp_all
next
  case False
  then have "tv_step v i = v" by (auto simp: tv_step_def)
  with assms show ?thesis by simp
qed

lemma tv_run_blocks:
  assumes "tv_inv toks v" and "j < length toks" and "toks ! j < t" and "t \<le> tv_current v"
    and "tv_calls v ! j \<noteq> ADone (toks ! j) True"
  shows "tv_calls (tv_run v is) ! j \<noteq> ADone (toks ! j) True"
  using assms
proof (induction "is" arbitrary: v)
  case (Cons i "is")
  with tv_step_blocks [OF Cons.prems, of i] tv_inv_step [OF Cons.prems(1), of i] show ?case
    by (simp add: tv_run_def)
qed (simp add: tv_run_def)

section \<open>The loop ends\<close>

definition live_others :: "TokenValidator \<Rightarrow> nat \<Rightarrow> nat set" where
  "live_others v i = {j. j < length (tv_calls v) \<and> j \<noteq> i \<and> \<not> accept_done (tv_calls v ! j)}"

text \<open>
  How many more steps a call needs. A swap can only fail when the word changed after the load,
  and whoever changed it has returned, so failures are paid for by the other calls.
\<close>

fun pc_rank :: "FencingToken \<Rightarrow> accept_pc \<Rightarrow> nat" where
  "pc_rank current (AStart token) = 3"
| "pc_rank current (ALoop token) = 2"
| "pc_rank current (ACas token cur) = (if current = cur then 1 else 3)"
| "pc_rank current (ADone token r) = 0"

definition call_rank :: "TokenValidator \<Rightarrow> nat \<Rightarrow> nat" where
  "call_rank v i =
     (if accept_done (tv_calls v ! i) then 0
      else 2 * card (live_others v i) + pc_rank (tv_current v) (tv_calls v ! i))"

lemma finite_live_others [simp]: "finite (live_others v i)"
  by (simp add: live_others_def)

lemma pc_rank_own: "\<not> accept_done pc \<Longrightarrow> accept_step cur pc = (cur', pc') \<Longrightarrow> \<not> accept_done pc' \<Longrightarrow>
    pc_rank cur' pc' < pc_rank cur pc"
  by (cases "(cur, pc)" rule: accept_step.cases) (auto simp: Let_def split: if_splits)

lemma call_rank_own:
  assumes "i < length (tv_calls v)" and "\<not> accept_done (tv_calls v ! i)"
  shows "call_rank (tv_step v i) i < call_rank v i"
proof -
  obtain cur' pc' where st: "accept_step (tv_current v) (tv_calls v ! i) = (cur', pc')" by force
  have v': "tv_current (tv_step v i) = cur'" "tv_calls (tv_step v i) = (tv_calls v)[i := pc']"
    using assms st by (simp_all add: tv_step_def)
  have "live_others (tv_step v i) i = live_others v i"
    by (auto simp: live_others_def v')
  then show ?thesis
    using assms v' pc_rank_own [OF assms(2) st]
    by (cases "tv_calls v ! i") (auto simp: call_rank_def)
qed

lemma call_rank_other:
  assumes "j \<noteq> i"
  shows "call_rank (tv_step v j) i \<le> call_rank v i"
proof (cases "j < length (tv_calls v) \<and> \<not> accept_done (tv_calls v ! j)")
  case True
  obtain cur' pc' where st: "accept_step (tv_current v) (tv_calls v ! j) = (cur', pc')" by force
  have v': "tv_current (tv_step v j) = cur'" "tv_calls (tv_step v j) = (tv_calls v)[j := pc']"
    using True st by (simp_all add: tv_step_def)
  have same: "tv_calls (tv_step v j) ! i = tv_calls v ! i" using assms by (simp add: v')
  show ?thesis
  proof (cases "accept_done pc'")
    case False
    then have "cur' = tv_current v" using accept_step_silent [OF st] by simp
    moreover have "live_others (tv_step v j) i = live_others v i"
      using True False by (auto simp: live_others_def v' nth_list_update)
    ultimately show ?thesis by (simp add: call_rank_def same v'(1))
  next
    case returned: True
    have "live_others v i = insert j (live_others (tv_step v j) i)" "j \<notin> live_others (tv_step v j) i"
      using True returned assms by (auto simp: live_others_def v' nth_list_update)
    then have "card (live_others v i) = Suc (card (live_others (tv_step v j) i))"
      by (simp add: card_insert_disjoint)
    moreover have "pc_rank cur' (tv_calls v ! i) \<le> pc_rank (tv_current v) (tv_calls v ! i) + 2"
      by (cases "tv_calls v ! i") auto
    ultimately show ?thesis by (auto simp: call_rank_def same v'(1))
  qed
qed (auto simp: tv_step_def)

lemma tv_step_length [simp]: "length (tv_calls (tv_step v i)) = length (tv_calls v)"
  by (simp add: tv_step_def split: prod.splits)

lemma tv_step_stays: "accept_done (tv_calls v ! i) \<Longrightarrow> tv_calls (tv_step v j) ! i = tv_calls v ! i"
  by (cases "j = i") (simp_all add: tv_step_def split: prod.splits)

lemma tv_run_stays: "accept_done (tv_calls v ! i) \<Longrightarrow> tv_calls (tv_run v is) ! i = tv_calls v ! i"
  by (induction "is" arbitrary: v) (simp_all add: tv_run_def tv_step_stays)

lemma tv_run_rank:
  assumes "i < length (tv_calls v)"
  shows "accept_done (tv_calls (tv_run v is) ! i)
       \<or> call_rank (tv_run v is) i + count_list is i \<le> call_rank v i"
  using assms
proof (induction "is" arbitrary: v)
  case (Cons j "is")
  show ?case
  proof (cases "accept_done (tv_calls v ! i)")
    case True
    then show ?thesis using tv_run_stays [of v i "j # is"] by simp
  next
    case False
    then have "call_rank (tv_step v j) i + (if j = i then 1 else 0) \<le> call_rank v i"
      using call_rank_own [OF Cons.prems] call_rank_other [of j i v] by (cases "j = i") simp_all
    with Cons.IH [of "tv_step v j"] Cons.prems show ?thesis
      by (auto simp: tv_run_def)
  qed
qed (simp add: tv_run_def)

section \<open>Properties of \<open>Accept\<close>\<close>

text \<open>
  C7. \<open>TokenValidator.Accept\<close> is linearizable. Under every interleaving of the atomic steps of
  any number of concurrent calls, the calls that have returned, taken in the order in which they
  returned, gave exactly the answers, and left exactly the stored token, of atomic
  test-and-advance calls made one after the other.
\<close>

theorem Accept_linearizable:
  "(let v = tv_run (NewTokenValidator toks) is; order = tv_returns v
    in distinct (map fst order)
       \<and> set order = {(i, r). i < length toks \<and> tv_calls v ! i = ADone (toks ! i) r}
       \<and> accept_seq 0 (map (\<lambda>(i, r). toks ! i) order) = (tv_current v, map snd order))"
  using tv_inv_run [OF tv_inv_new, of toks "is"] by (auto simp: tv_inv_def Let_def)

text \<open>
  Once \<open>Accept\<close> has returned true for a token, no call with a smaller token that has not
  returned yet, however far it has got, returns true under any continuation of the schedule.
\<close>

theorem Accept_rejects_stale:
  assumes "v = tv_run (NewTokenValidator toks) is" and "i < length toks" and "j < length toks"
    and "tv_calls v ! i = ADone (toks ! i) True" and "\<not> accept_done (tv_calls v ! j)"
    and "toks ! j < toks ! i"
  shows "tv_calls (tv_run v js) ! j \<noteq> ADone (toks ! j) True"
proof -
  have inv: "tv_inv toks v" unfolding assms(1) by (intro tv_inv_run tv_inv_new)
  have "tv_calls v ! j \<noteq> ADone (toks ! j) True" using assms(5) by auto
  with tv_run_blocks [OF inv assms(3,6) tv_accepted_le_current [OF inv assms(2,4)]]
  show ?thesis .
qed

text \<open>Call 1 loads the empty word, call 0 then advances it, and call 1 resumes with its swap.\<close>

theorem Accept_rejects_stale_witness:
  "tv_calls (tv_run (tv_run (NewTokenValidator [7, 5]) [1, 1, 0, 0, 0]) [1, 1, 1]) ! 1 \<noteq> ADone 5 True"
proof -
  have "tv_calls (tv_run (NewTokenValidator [7, 5]) [1, 1, 0, 0, 0]) ! 0 = ADone 7 True
      \<and> \<not> accept_done (tv_calls (tv_run (NewTokenValidator [7, 5]) [1, 1, 0, 0, 0]) ! 1)"
    by code_simp
  then show ?thesis
    using Accept_rejects_stale [OF refl, of 0 "[7, 5]" 1 "[1, 1, 0, 0, 0]" "[1, 1, 1]"]
    by (simp add: word_less_nat_alt)
qed

text \<open>
  C34. \<open>Accept\<close> always returns. Its retry loop is bounded by the number of concurrent calls: with
  \<open>n\<close> calls in flight, a call has returned after at most \<open>2 * n + 1\<close> of its own steps, whatever
  the scheduler does to the others.
\<close>

theorem Accept_returns:
  assumes "i < length toks" and "2 * length toks + 1 \<le> count_list is i"
  shows "\<exists>r. tv_calls (tv_run (NewTokenValidator toks) is) ! i = ADone (toks ! i) r"
proof -
  let ?v = "NewTokenValidator toks" and ?w = "tv_run (NewTokenValidator toks) is"
  have n: "length (tv_calls ?v) = length toks" by (simp add: NewTokenValidator_def)
  have "live_others ?v i \<subseteq> {..<length toks} - {i}" by (auto simp: live_others_def n)
  then have "card (live_others ?v i) \<le> card ({..<length toks} - {i})" by (intro card_mono) auto
  then have "call_rank ?v i < 2 * length toks + 2"
    using assms(1) by (simp add: call_rank_def NewTokenValidator_def)
  moreover have "call_rank ?w i > 0" if "\<not> accept_done (tv_calls ?w ! i)"
    using that by (cases "tv_calls ?w ! i") (auto simp: call_rank_def)
  ultimately have returned: "accept_done (tv_calls ?w ! i)"
    using tv_run_rank [of i ?v "is"] assms n by (cases "accept_done (tv_calls ?w ! i)") auto
  have "tv_inv toks ?w" by (intro tv_inv_run tv_inv_new)
  then have "accept_token (tv_calls ?w ! i) = toks ! i" using assms(1) by (simp add: tv_inv_def)
  with returned show ?thesis by (cases "tv_calls ?w ! i") auto
qed

theorem Accept_returns_witness:
  "\<exists>r. tv_calls (tv_run (NewTokenValidator [7, 5]) [1, 0, 1, 0, 0, 1, 1, 1]) ! 1 = ADone 5 r"
  using Accept_returns [of 1 "[7, 5]" "[1, 0, 1, 0, 0, 1, 1, 1]"] by simp

section \<open>The fenced resource\<close>

record Resource =
  rs_token :: FencingToken
  rs_value :: string

definition NewResource :: Resource where
  "NewResource = \<lparr>rs_token = 0, rs_value = ''''\<rparr>"

definition Resource_Write :: "Resource \<Rightarrow> FencingToken \<Rightarrow> string \<Rightarrow> Resource \<times> go_error option" where
  "Resource_Write r token v =
     (if FencingToken_Zero token \<or> token < rs_token r then
        (r, Some (EText ''fencing/memory: stale fencing token''))
      else (r\<lparr>rs_token := token, rs_value := v\<rparr>, None))"

definition Resource_Read :: "Resource \<Rightarrow> string \<times> FencingToken" where
  "Resource_Read r = (rs_value r, rs_token r)"

definition Resource_writes :: "Resource \<Rightarrow> (FencingToken \<times> string) list \<Rightarrow> Resource" where
  "Resource_writes = foldl (\<lambda>r (t, v). fst (Resource_Write r t v))"

lemma Resource_Write_mono: "rs_token r \<le> rs_token (fst (Resource_Write r t v))"
  by (auto simp: Resource_Write_def not_less)

lemma Resource_writes_mono: "rs_token r \<le> rs_token (Resource_writes r ws)"
proof (induction ws arbitrary: r)
  case (Cons w ws)
  obtain t v where w: "w = (t, v)" by force
  have "rs_token r \<le> rs_token (fst (Resource_Write r t v))" by (rule Resource_Write_mono)
  also have "\<dots> \<le> rs_token (Resource_writes r (w # ws))"
    using Cons.IH [of "fst (Resource_Write r t v)"] by (simp add: Resource_writes_def w)
  finally show ?case .
qed (simp add: Resource_writes_def)

lemma Resource_stale_refused:
  assumes "Resource_Write r t v = (r1, None)" and "t' < t"
  shows "fst (Resource_Write (Resource_writes r1 ws) t' v') = Resource_writes r1 ws
       \<and> (\<exists>er. snd (Resource_Write (Resource_writes r1 ws) t' v') = Some er)"
proof -
  have "rs_token r1 = t" using assms(1) by (auto simp: Resource_Write_def split: if_splits)
  then have "t' < rs_token (Resource_writes r1 ws)"
    using Resource_writes_mono [of r1 ws] assms(2) by simp
  then show ?thesis by (simp add: Resource_Write_def)
qed

end
