(* ===== verification/Drain.thy ===== *)
theory Drain
  imports Go_Errors
begin

text \<open>
  \<open>drain.go\<close>: the group of in-flight operations that must finish before ownership moves. The
  release functions that \<open>BeginNamed\<close> returns are closures over a \<open>sync.Once\<close>; they are handles
  here, positions in the list of operations begun so far, each with its name and whether its
  \<open>Once\<close> has fired. \<open>done\<close> is a channel that is only ever closed, so it is a flag. Every method
  is atomic under the mutex; \<open>Close\<close> first stores its flag and then starts the drain, two steps
  that other goroutines may interleave with.
\<close>

record DrainGroup =
  dg_active :: int
  dg_named :: "string \<rightharpoonup> int"
  dg_maxNamed :: int
  dg_draining :: bool
  dg_done :: bool
  dg_deadline :: "nat option"
  dg_closed :: bool
  dg_ops :: "(string \<times> bool) list"

definition NewDrainGroup :: "int \<Rightarrow> DrainGroup" where
  "NewDrainGroup maxNamed =
     \<lparr>dg_active = 0, dg_named = Map.empty, dg_maxNamed = maxNamed, dg_draining = False,
      dg_done = False, dg_deadline = None, dg_closed = False, dg_ops = []\<rparr>"

text \<open>Reading a missing key of a Go map gives the zero value.\<close>

definition named_count :: "DrainGroup \<Rightarrow> string \<Rightarrow> int" where
  "named_count g name = (case dg_named g name of None \<Rightarrow> 0 | Some k \<Rightarrow> k)"

definition drain_BeginNamed :: "DrainGroup \<Rightarrow> string \<Rightarrow> DrainGroup \<times> (nat + go_error)" where
  "drain_BeginNamed g name =
     (if dg_closed g then (g, Inr (Sentinel ErrClosed))
      else if dg_draining g then (g, Inr (Sentinel ErrDraining))
      else if name \<noteq> '''' \<and> dg_maxNamed g > 0 \<and> named_count g name \<ge> dg_maxNamed g then
        (g, Inr (EError (no_fields\<lparr>er_Op := ''drain.BeginNamed'', er_Claim := name,
                   er_Message := ''named op limit reached''\<rparr>) (Some (Sentinel ErrPolicy))))
      else
        (let g = (if name \<noteq> '''' \<and> dg_maxNamed g > 0
                  then g\<lparr>dg_named := (dg_named g)(name \<mapsto> named_count g name + 1)\<rparr> else g)
         in (g\<lparr>dg_active := dg_active g + 1, dg_ops := dg_ops g @ [(name, False)]\<rparr>,
             Inl (length (dg_ops g)))))"

definition drain_Begin :: "DrainGroup \<Rightarrow> DrainGroup \<times> (nat + go_error)" where
  "drain_Begin g = drain_BeginNamed g ''''"

definition drain_release :: "DrainGroup \<Rightarrow> nat \<Rightarrow> DrainGroup" where
  "drain_release g i =
     (if i < length (dg_ops g) \<and> \<not> snd (dg_ops g ! i) then
        (let name = fst (dg_ops g ! i);
             g = g\<lparr>dg_ops := (dg_ops g)[i := (name, True)], dg_active := dg_active g - 1\<rparr>;
             g = (if name \<noteq> '''' then
                    (let k = named_count g name - 1
                     in g\<lparr>dg_named := (dg_named g)(name := if k \<le> 0 then None else Some k)\<rparr>)
                  else g)
         in if dg_draining g \<and> dg_active g = 0 then g\<lparr>dg_done := True\<rparr> else g)
      else g)"

definition drain_StartDrain :: "DrainGroup \<Rightarrow> DrainGroup" where
  "drain_StartDrain g =
     (if dg_draining g then g
      else if dg_active g = 0 then g\<lparr>dg_draining := True, dg_done := True\<rparr>
      else g\<lparr>dg_draining := True\<rparr>)"

definition drain_closeFlag :: "DrainGroup \<Rightarrow> DrainGroup" where
  "drain_closeFlag g = g\<lparr>dg_closed := True\<rparr>"

definition drain_Close :: "DrainGroup \<Rightarrow> DrainGroup" where
  "drain_Close g = drain_StartDrain (drain_closeFlag g)"

definition drain_SetDeadline :: "DrainGroup \<Rightarrow> nat option \<Rightarrow> DrainGroup" where
  "drain_SetDeadline g ch = g\<lparr>dg_deadline := ch\<rparr>"

text \<open>
  The \<open>select\<close> of \<open>Wait\<close>: the results of the branches that are ready, of which the runtime picks
  any one; no ready branch means that \<open>Wait\<close> blocks. \<open>fired\<close> are the closed deadline channels.
\<close>

definition drain_select :: "DrainGroup \<Rightarrow> go_error option \<Rightarrow> (nat \<Rightarrow> bool) \<Rightarrow> go_error option list" where
  "drain_select g ctxErr fired =
     (if dg_done g then [None] else [])
     @ (case ctxErr of
          Some er \<Rightarrow> [Some (op_error ''drain.Wait'' ErrTimeout (Error_string er))]
        | None \<Rightarrow> [])
     @ (case dg_deadline g of
          Some ch \<Rightarrow>
            if fired ch then [Some (op_error ''drain.Wait'' ErrTimeout ''drain deadline exceeded'')]
            else []
        | None \<Rightarrow> [])"

definition drain_Wait ::
  "DrainGroup \<Rightarrow> go_error option \<Rightarrow> (nat \<Rightarrow> bool) \<Rightarrow> DrainGroup \<times> go_error option list" where
  "drain_Wait g ctxErr fired =
     (let g = drain_StartDrain g in (g, drain_select g ctxErr fired))"

section \<open>Histories and the invariant\<close>

datatype drain_action =
    DBegin string | DRelease nat | DStartDrain | DCloseFlag | DSetDeadline "nat option"

primrec drain_act :: "DrainGroup \<Rightarrow> drain_action \<Rightarrow> DrainGroup" where
  "drain_act g (DBegin name) = fst (drain_BeginNamed g name)"
| "drain_act g (DRelease i) = drain_release g i"
| "drain_act g DStartDrain = drain_StartDrain g"
| "drain_act g DCloseFlag = drain_closeFlag g"
| "drain_act g (DSetDeadline ch) = drain_SetDeadline g ch"

definition drain_run :: "DrainGroup \<Rightarrow> drain_action list \<Rightarrow> DrainGroup" where
  "drain_run = foldl drain_act"

definition in_flight :: "DrainGroup \<Rightarrow> nat" where
  "in_flight g = length (filter (\<lambda>(n, r). \<not> r) (dg_ops g))"

definition in_flight_named :: "DrainGroup \<Rightarrow> string \<Rightarrow> nat" where
  "in_flight_named g name = length (filter (\<lambda>(n, r). n = name \<and> \<not> r) (dg_ops g))"

definition drain_inv :: "DrainGroup \<Rightarrow> bool" where
  "drain_inv g \<longleftrightarrow>
     dg_active g = int (in_flight g)
     \<and> (dg_done g \<longleftrightarrow> dg_draining g \<and> dg_active g = 0)
     \<and> (\<forall>name. name \<noteq> '''' \<longrightarrow>
          (dg_maxNamed g > 0 \<longrightarrow>
             named_count g name = int (in_flight_named g name) \<and> named_count g name \<le> dg_maxNamed g)
          \<and> (dg_maxNamed g \<le> 0 \<longrightarrow> dg_named g name = None))"

lemma filter_release:
  "i < length xs \<Longrightarrow> xs ! i = (n, False) \<Longrightarrow>
   Suc (length (filter (\<lambda>(m, r). P m \<and> \<not> r) (xs[i := (n, True)])))
     = length (filter (\<lambda>(m, r). P m \<and> \<not> r) xs) + (if P n then 0 else 1)"
proof (induction xs arbitrary: i)
  case (Cons x xs)
  then show ?case by (cases i) (auto split: if_splits)
qed simp

lemma in_flight_release:
  assumes "i < length (dg_ops g)" and "dg_ops g ! i = (n, False)"
  shows "Suc (length (filter (\<lambda>(m, r). \<not> r) ((dg_ops g)[i := (n, True)]))) = in_flight g"
    and "Suc (length (filter (\<lambda>(m, r). m = k \<and> \<not> r) ((dg_ops g)[i := (n, True)])))
           = in_flight_named g k + (if n = k then 0 else 1)"
  using filter_release [OF assms, of "\<lambda>_. True"] filter_release [OF assms, of "\<lambda>m. m = k"]
  by (simp_all add: in_flight_def in_flight_named_def)

lemma drain_inv_new: "drain_inv (NewDrainGroup m)"
  by (simp add: drain_inv_def NewDrainGroup_def in_flight_def in_flight_named_def named_count_def)

lemma drain_inv_begin:
  assumes "drain_inv g"
  shows "drain_inv (fst (drain_BeginNamed g name))"
proof (cases "\<exists>er. snd (drain_BeginNamed g name) = Inr er")
  case True
  then have "fst (drain_BeginNamed g name) = g"
    by (auto simp: drain_BeginNamed_def Let_def split: if_splits)
  with assms show ?thesis by simp
next
  case False
  let ?count = "name \<noteq> '''' \<and> dg_maxNamed g > 0"
  define g' where "g' = fst (drain_BeginNamed g name)"
  from False have admitted: "\<not> dg_draining g" "?count \<Longrightarrow> named_count g name < dg_maxNamed g"
    by (auto simp: drain_BeginNamed_def Let_def split: if_splits)
  from False have g': "dg_active g' = dg_active g + 1" "dg_ops g' = dg_ops g @ [(name, False)]"
      "dg_draining g' = dg_draining g" "dg_done g' = dg_done g" "dg_maxNamed g' = dg_maxNamed g"
      "dg_named g' = (if ?count then (dg_named g)(name \<mapsto> named_count g name + 1) else dg_named g)"
    by (auto simp: g'_def drain_BeginNamed_def Let_def split: if_splits)
  have "in_flight g' = Suc (in_flight g)"
    and "in_flight_named g' k = in_flight_named g k + (if k = name then 1 else 0)" for k
    by (auto simp: in_flight_def in_flight_named_def g'(2))
  moreover have "named_count g' k
      = (if ?count \<and> k = name then named_count g name + 1 else named_count g k)" for k
    by (auto simp: named_count_def g'(6))
  ultimately show ?thesis
    using assms admitted unfolding g'_def [symmetric]
    by (auto simp: drain_inv_def g' split: if_splits)
qed

lemma drain_inv_release:
  assumes "drain_inv g"
  shows "drain_inv (drain_release g i)"
proof (cases "i < length (dg_ops g) \<and> \<not> snd (dg_ops g ! i)")
  case True
  obtain n where n: "dg_ops g ! i = (n, False)" using True by (cases "dg_ops g ! i") auto
  define g' where "g' = drain_release g i"
  have i: "i < length (dg_ops g)" using True by simp
  have g': "dg_active g' = dg_active g - 1" "dg_ops g' = (dg_ops g)[i := (n, True)]"
      "dg_draining g' = dg_draining g" "dg_maxNamed g' = dg_maxNamed g"
      "dg_done g' = (dg_done g \<or> (dg_draining g \<and> dg_active g - 1 = 0))"
      "dg_named g' = (if n \<noteq> '''' then (dg_named g)(n := if named_count g n - 1 \<le> 0 then None
          else Some (named_count g n - 1)) else dg_named g)"
    using True n by (auto simp: g'_def drain_release_def named_count_def Let_def)
  have fl: "in_flight g = Suc (in_flight g')"
    and fn: "in_flight_named g k = in_flight_named g' k + (if k = n then 1 else 0)" for k
    using in_flight_release(1) [OF i n] in_flight_release(2) [OF i n, of k]
    by (auto simp: in_flight_def in_flight_named_def g'(2))
  have count: "named_count g' k = (if k = n then max 0 (named_count g n - 1) else named_count g k)"
    if "k \<noteq> ''''" for k
    using that by (auto simp: named_count_def g'(6))
  show ?thesis
    using assms unfolding g'_def [symmetric] drain_inv_def
    by (auto simp: g'(1,3,4,5) fl fn count) (auto simp: g'(6) named_count_def)
next
  case False
  with assms show ?thesis by (auto simp: drain_release_def)
qed

lemma drain_inv_run: "drain_inv g \<Longrightarrow> drain_inv (drain_run g as)"
proof (induction as arbitrary: g)
  case (Cons a as)
  have "drain_inv (drain_act g a)"
    using Cons.prems
    by (cases a) (auto simp: drain_inv_begin drain_inv_release,
        auto simp: drain_inv_def drain_StartDrain_def drain_closeFlag_def drain_SetDeadline_def
          in_flight_def in_flight_named_def named_count_def)
  with Cons.IH show ?case by (simp add: drain_run_def)
qed (simp add: drain_run_def)

section \<open>Draining admits no new work\<close>

lemma drain_act_draining:
  assumes "dg_draining g"
  shows "dg_draining (drain_act g a) \<and> length (dg_ops (drain_act g a)) = length (dg_ops g)"
  using assms
  by (cases a) (auto simp: drain_BeginNamed_def drain_release_def drain_StartDrain_def
      drain_closeFlag_def drain_SetDeadline_def Let_def)

lemma drain_run_draining:
  "dg_draining g \<Longrightarrow> dg_draining (drain_run g as) \<and> length (dg_ops (drain_run g as)) = length (dg_ops g)"
proof (induction as arbitrary: g)
  case (Cons a as)
  from drain_act_draining [OF Cons.prems, of a] Cons.IH [of "drain_act g a"] show ?case
    by (simp add: drain_run_def)
qed (simp add: drain_run_def)

lemma released_stays:
  "i < length (dg_ops g) \<Longrightarrow> snd (dg_ops g ! i) \<Longrightarrow>
   i < length (dg_ops (drain_act g a)) \<and> snd (dg_ops (drain_act g a) ! i)"
  by (cases a) (auto simp: drain_BeginNamed_def drain_release_def drain_StartDrain_def
      drain_closeFlag_def drain_SetDeadline_def Let_def nth_append nth_list_update)

lemma release_releases:
  "i < length (dg_ops g) \<Longrightarrow> i < length (dg_ops (drain_release g i)) \<and> snd (dg_ops (drain_release g i) ! i)"
  by (auto simp: drain_release_def Let_def)

lemma in_flight_zero: "in_flight g = 0 \<longleftrightarrow> (\<forall>i < length (dg_ops g). snd (dg_ops g ! i))"
  unfolding in_flight_def length_0_conv filter_empty_conv
  by (simp add: all_set_conv_all_nth case_prod_unfold)

lemma drain_run_releases:
  "i < length (dg_ops g) \<Longrightarrow> DRelease i \<in> set as \<or> snd (dg_ops g ! i) \<Longrightarrow>
   i < length (dg_ops (drain_run g as)) \<and> snd (dg_ops (drain_run g as) ! i)"
proof (induction as arbitrary: g)
  case (Cons a as)
  have len: "i < length (dg_ops (drain_act g a))"
    using Cons.prems(1)
    by (cases a) (auto simp: drain_BeginNamed_def drain_release_def drain_StartDrain_def
        drain_closeFlag_def drain_SetDeadline_def Let_def)
  moreover have "DRelease i \<in> set as \<or> snd (dg_ops (drain_act g a) ! i)"
    using Cons.prems released_stays [of i g a] release_releases [of i g] by auto
  ultimately have "i < length (dg_ops (drain_run (drain_act g a) as))
      \<and> snd (dg_ops (drain_run (drain_act g a) as) ! i)"
    by (rule Cons.IH)
  then show ?case by (simp add: drain_run_def)
qed (simp add: drain_run_def)

section \<open>Properties\<close>

text \<open>
  C24. The drain gate is exact. In every reachable state of a drain group, \<open>Wait\<close> can return nil
  if and only if no begun operation is still unreleased, and the active counter is the number of
  unreleased operations. With a limit on named operations the counter of every name is the number
  of its unreleased operations, which never exceeds the limit; and \<open>BeginNamed\<close> admits an
  operation if and only if the group is neither closed nor draining and the name has a free place.
\<close>

theorem drain_gate_exact:
  "(let g = drain_run (NewDrainGroup m) as; (g', ready) = drain_Wait g ctx fired
    in (None \<in> set ready \<longleftrightarrow> in_flight g = 0)
       \<and> dg_active g = int (in_flight g)
       \<and> (name = '''' \<or> m \<le> 0
          \<or> (named_count g name = int (in_flight_named g name) \<and> int (in_flight_named g name) \<le> m))
       \<and> (isl (snd (drain_BeginNamed g name)) \<longleftrightarrow>
            \<not> (dg_closed g \<or> dg_draining g)
            \<and> (name = '''' \<or> m \<le> 0 \<or> int (in_flight_named g name) < m)))"
proof -
  define g where "g = drain_run (NewDrainGroup m) as"
  have inv: "drain_inv g" unfolding g_def by (intro drain_inv_run drain_inv_new)
  have max: "dg_maxNamed (drain_run h as) = dg_maxNamed h" for h
  proof (induction as arbitrary: h)
    case (Cons a as)
    have "dg_maxNamed (drain_act h a) = dg_maxNamed h"
      by (cases a) (auto simp: drain_BeginNamed_def drain_release_def drain_StartDrain_def
          drain_closeFlag_def drain_SetDeadline_def Let_def)
    with Cons.IH [of "drain_act h a"] show ?case by (simp add: drain_run_def)
  qed (simp add: drain_run_def)
  have "dg_maxNamed g = m" by (simp add: g_def max NewDrainGroup_def)
  have admits: "isl (snd (drain_BeginNamed g name)) \<longleftrightarrow> \<not> (dg_closed g \<or> dg_draining g)
      \<and> (name = '''' \<or> m \<le> 0 \<or> int (in_flight_named g name) < m)"
    using inv \<open>dg_maxNamed g = m\<close> by (auto simp: drain_BeginNamed_def Let_def drain_inv_def)
  with inv \<open>dg_maxNamed g = m\<close> show ?thesis
    unfolding g_def [symmetric] Let_def drain_Wait_def drain_select_def drain_StartDrain_def admits
    by (auto simp: drain_inv_def not_le split: option.splits)
qed

text \<open>
  C25. A drain finishes. Once draining has started, no history admits a new operation, and as
  soon as every operation that was in flight has called its release function, in any order, any
  number of times and interleaved with anything else, \<open>Wait\<close> can return nil.
\<close>

theorem drain_completes:
  assumes "g = drain_run (NewDrainGroup m) as" and "dg_draining g"
    and "set (map DRelease [0..<length (dg_ops g)]) \<subseteq> set bs"
  shows "length (dg_ops (drain_run g bs)) = length (dg_ops g)
       \<and> None \<in> set (snd (drain_Wait (drain_run g bs) ctx fired))"
proof -
  have "drain_inv (drain_run g bs)" unfolding assms(1) by (intro drain_inv_run drain_inv_new)
  moreover have drain: "dg_draining (drain_run g bs)" "length (dg_ops (drain_run g bs)) = length (dg_ops g)"
    using drain_run_draining [OF assms(2)] by auto
  moreover have "in_flight (drain_run g bs) = 0"
    unfolding in_flight_zero drain(2)
    using drain_run_releases [of _ g bs] assms(3) by (auto simp: image_subset_iff)
  ultimately show ?thesis
    by (auto simp: drain_inv_def drain_Wait_def drain_select_def drain_StartDrain_def Let_def)
qed

definition drain_example :: "drain_action list" where
  "drain_example = [DBegin ''upload'', DBegin '''', DStartDrain, DBegin ''upload'']"

lemma drain_example_eval:
  "dg_draining (drain_run (NewDrainGroup 1) drain_example)
   \<and> length (dg_ops (drain_run (NewDrainGroup 1) drain_example)) = 2"
  by code_simp

theorem drain_completes_witness:
  "None \<in> set (snd (drain_Wait (drain_run (drain_run (NewDrainGroup 1) drain_example)
      [DRelease 1, DRelease 1, DRelease 0]) None (\<lambda>_. False)))"
  using drain_completes [OF refl, of 1 drain_example "[DRelease 1, DRelease 1, DRelease 0]" None "\<lambda>_. False"]
    drain_example_eval
  by (auto simp: upt_rec numeral_2_eq_2)

end
