(* ===== verification/Events.thy ===== *)
theory Events
  imports Ownership "HOL-Library.Sublist"
begin

text \<open>
  \<open>event.go\<close>: the coordinator's event bus. \<open>emit\<close> stamps an event, filters it, calls the hooks
  inline and offers it to a bounded channel, counting what does not fit; \<open>run\<close> takes events off
  the channel and hands each to every observer. Hooks and observers are callbacks of the
  application; what the bus does with them is to call them, so the model records the calls. A
  panic of a callback is recovered and changes nothing.
\<close>

datatype EventType =
    EventGenerationRegistered | EventGenerationState | EventClaimAcquired | EventClaimRenewed
  | EventClaimLost | EventClaimReleased | EventClaimExpired | EventDrainStarted
  | EventDrainCompleted | EventDrainFailed | EventTransferPrepared | EventTransferCommitted
  | EventTransferAborted | EventHandoffStarted | EventHandoffCompleted | EventHandoffFailed
  | EventReadinessStarted | EventReadinessPassed | EventReadinessFailed | EventLeaseRevoked
  | EventBackendHeartbeat | EventError | EventClosed

record Event =
  ev_Type :: EventType
  ev_Time :: time
  ev_Service :: string
  ev_Generation :: string
  ev_InstanceID :: string
  ev_Claim :: string
  ev_Token :: FencingToken
  ev_FromState :: "GenerationState option"
  ev_ToState :: "GenerationState option"
  ev_Reason :: TransitionReason
  ev_Err :: string
  ev_Attrs :: "(string \<times> string) list"

text \<open>An event of a type with every other field at its zero value.\<close>

definition new_event :: "EventType \<Rightarrow> Event" where
  "new_event ty = \<lparr>ev_Type = ty, ev_Time = 0, ev_Service = '''', ev_Generation = '''',
     ev_InstanceID = '''', ev_Claim = '''', ev_Token = 0, ev_FromState = None, ev_ToState = None,
     ev_Reason = ReasonNone, ev_Err = '''', ev_Attrs = []\<rparr>"

record ('h, 'o) eventBus =
  eb_hooks :: "'h list"
  eb_observers :: "'o list"
  eb_filter :: "(Event \<Rightarrow> bool) option"
  eb_ch :: "Event list"
  eb_cap :: nat
  eb_dropped :: u64
  eb_service :: string
  eb_genID :: string
  eb_instance :: string
  eb_hookCalls :: "('h \<times> Event) list"
  eb_dispatched :: "Event list"
  eb_delivered :: "('o \<times> Event) list"

definition newEventBus :: "('b, 'c, 'h, 'o) Config \<Rightarrow> ('h, 'o) eventBus" where
  "newEventBus cfg =
     \<lparr>eb_hooks = cfg_Hooks cfg, eb_observers = cfg_Observers cfg, eb_filter = None, eb_ch = [],
      eb_cap = nat (cfg_EventBuffer cfg), eb_dropped = 0, eb_service = cfg_Service cfg,
      eb_genID = cfg_GenerationID cfg, eb_instance = cfg_InstanceID cfg, eb_hookCalls = [],
      eb_dispatched = [], eb_delivered = []\<rparr>"

definition SetFilter :: "('h, 'o) eventBus \<Rightarrow> (Event \<Rightarrow> bool) option \<Rightarrow> ('h, 'o) eventBus" where
  "SetFilter b f = b\<lparr>eb_filter := f\<rparr>"

definition stamp :: "('h, 'o) eventBus \<Rightarrow> time \<Rightarrow> Event \<Rightarrow> Event" where
  "stamp b now e =
     (let e = (if IsZero (ev_Time e) then e\<lparr>ev_Time := now\<rparr> else e);
          e = (if ev_Service e = '''' then e\<lparr>ev_Service := eb_service b\<rparr> else e);
          e = (if ev_Generation e = '''' then e\<lparr>ev_Generation := eb_genID b\<rparr> else e)
      in if ev_InstanceID e = '''' then e\<lparr>ev_InstanceID := eb_instance b\<rparr> else e)"

definition emit :: "('h, 'o) eventBus \<Rightarrow> time \<Rightarrow> Event \<Rightarrow> ('h, 'o) eventBus" where
  "emit b now e =
     (let e = stamp b now e
      in if (case eb_filter b of Some f \<Rightarrow> \<not> f e | None \<Rightarrow> False) then b
         else
           (let b = b\<lparr>eb_hookCalls := eb_hookCalls b @ map (\<lambda>h. (h, e)) (eb_hooks b)\<rparr>
            in if length (eb_ch b) < eb_cap b then b\<lparr>eb_ch := eb_ch b @ [e]\<rparr>
               else b\<lparr>eb_dropped := eb_dropped b + 1\<rparr>))"

definition dispatch :: "('h, 'o) eventBus \<Rightarrow> Event \<Rightarrow> ('h, 'o) eventBus" where
  "dispatch b e =
     b\<lparr>eb_dispatched := eb_dispatched b @ [e],
       eb_delivered := eb_delivered b @ map (\<lambda>o'. (o', e)) (eb_observers b)\<rparr>"

text \<open>One receive of \<open>run\<close>'s loop, and the final loop that empties the channel on shutdown.\<close>

definition run_receive :: "('h, 'o) eventBus \<Rightarrow> ('h, 'o) eventBus" where
  "run_receive b =
     (case eb_ch b of [] \<Rightarrow> b | e # es \<Rightarrow> dispatch (b\<lparr>eb_ch := es\<rparr>) e)"

function run_flush :: "('h, 'o) eventBus \<Rightarrow> ('h, 'o) eventBus" where
  "run_flush b = (if eb_ch b = [] then b else run_flush (run_receive b))"
  by pat_completeness auto

lemma run_receive_ch: "eb_ch (run_receive b) = tl (eb_ch b)"
  by (cases "eb_ch b") (simp_all add: run_receive_def dispatch_def)

termination run_flush
  by (relation "measure (\<lambda>b. length (eb_ch b))") (auto simp: run_receive_ch)

declare run_flush.simps [simp del]

section \<open>Accounting for events\<close>

datatype bus_action = BEmit time Event | BReceive | BFlush | BFilter "(Event \<Rightarrow> bool) option"

primrec bus_act :: "('h, 'o) eventBus \<Rightarrow> bus_action \<Rightarrow> ('h, 'o) eventBus" where
  "bus_act b (BEmit now e) = emit b now e"
| "bus_act b BReceive = run_receive b"
| "bus_act b BFlush = run_flush b"
| "bus_act b (BFilter f) = SetFilter b f"

definition bus_run :: "('h, 'o) eventBus \<Rightarrow> bus_action list \<Rightarrow> ('h, 'o) eventBus" where
  "bus_run = foldl bus_act"

text \<open>The events that pass the filter, as stamped, in the order they were emitted.\<close>

definition accepts :: "('h, 'o) eventBus \<Rightarrow> bus_action \<Rightarrow> Event list" where
  "accepts b a =
     (case a of
        BEmit now e \<Rightarrow>
          (case eb_filter b of
             Some f \<Rightarrow> if f (stamp b now e) then [stamp b now e] else []
           | None \<Rightarrow> [stamp b now e])
      | _ \<Rightarrow> [])"

fun accepted :: "('h, 'o) eventBus \<Rightarrow> bus_action list \<Rightarrow> Event list" where
  "accepted b [] = []"
| "accepted b (a # as) = accepts b a @ accepted (bus_act b a) as"

text \<open>
  \<open>kept\<close> are the events that entered the channel: those dispatched and those still queued.
\<close>

definition kept :: "('h, 'o) eventBus \<Rightarrow> Event list" where
  "kept b = eb_dispatched b @ eb_ch b"

definition bus_ok :: "('h, 'o) eventBus \<Rightarrow> Event list \<Rightarrow> bool" where
  "bus_ok b acc \<longleftrightarrow>
     subseq (kept b) acc
     \<and> of_nat (length acc - length (kept b)) = eb_dropped b
     \<and> eb_hookCalls b = concat (map (\<lambda>e. map (\<lambda>h. (h, e)) (eb_hooks b)) acc)
     \<and> eb_delivered b = concat (map (\<lambda>e. map (\<lambda>o'. (o', e)) (eb_observers b)) (eb_dispatched b))
     \<and> length (eb_ch b) \<le> eb_cap b"

lemma receive_ok: "bus_ok b acc \<Longrightarrow> bus_ok (run_receive b) acc"
  by (cases "eb_ch b") (auto simp: bus_ok_def kept_def run_receive_def dispatch_def)

lemma flush_ok: "bus_ok b acc \<Longrightarrow> bus_ok (run_flush b) acc"
proof (induction b rule: run_flush.induct)
  case (1 b)
  then show ?case
    by (subst run_flush.simps) (auto simp: receive_ok)
qed

lemma flush_empty: "eb_ch (run_flush b) = []"
proof (induction b rule: run_flush.induct)
  case (1 b)
  then show ?case by (subst run_flush.simps) auto
qed

lemma emit_ok:
  assumes "bus_ok b acc"
  shows "bus_ok (emit b now e) (acc @ accepts b (BEmit now e))"
proof (cases "accepts b (BEmit now e) = []")
  case True
  then have "emit b now e = b"
    by (auto simp: accepts_def emit_def Let_def split: option.splits if_splits)
  with assms True show ?thesis by simp
next
  case False
  then have acc: "accepts b (BEmit now e) = [stamp b now e]"
    and pass: "\<not> (case eb_filter b of Some f \<Rightarrow> \<not> f (stamp b now e) | None \<Rightarrow> False)"
    by (auto simp: accepts_def split: option.splits if_splits)
  have len: "length (kept b) \<le> length acc"
    using assms by (auto simp: bus_ok_def intro: list_emb_length)
  show ?thesis
  proof (cases "length (eb_ch b) < eb_cap b")
    case True
    have "subseq (kept b @ [stamp b now e]) (acc @ [stamp b now e])"
      using assms by (simp add: bus_ok_def)
    with True assms pass len show ?thesis
      by (auto simp: acc bus_ok_def kept_def emit_def Let_def)
  next
    case False
    have "of_nat (length acc + 1 - length (kept b)) = eb_dropped b + 1"
      using assms len by (simp add: bus_ok_def Suc_diff_le)
    with False assms pass show ?thesis
      by (auto simp: acc bus_ok_def kept_def emit_def Let_def intro: list_emb_append2)
  qed
qed

lemma bus_run_ok: "bus_ok b acc \<Longrightarrow> bus_ok (bus_run b as) (acc @ accepted b as)"
proof (induction as arbitrary: b acc)
  case (Cons a as)
  have "bus_ok (bus_act b a) (acc @ accepts b a)"
  proof (cases a)
    case (BEmit now e) then show ?thesis using Cons.prems by (simp add: emit_ok)
  next
    case (BFilter f)
    then show ?thesis using Cons.prems by (simp add: accepts_def SetFilter_def bus_ok_def kept_def)
  qed (use Cons.prems in \<open>simp_all add: accepts_def receive_ok flush_ok\<close>)
  from Cons.IH [OF this] show ?case by (simp add: bus_run_def)
qed (simp add: bus_run_def)

text \<open>
  No event is lost silently. Whatever is emitted, received, flushed and re-filtered, the
  events handed to the observers followed by those still queued are the accepted events, in
  order, with some left out, and the number left out is exactly the dropped counter (modulo the
  width of the counter). Every hook sees every accepted event, every observer sees every
  dispatched one, and a flush leaves the queue empty.
\<close>

theorem event_bus_accounts:
  "(let b = bus_run (newEventBus cfg) as; acc = accepted (newEventBus cfg) as
    in subseq (eb_dispatched b @ eb_ch b) acc
       \<and> eb_dropped b = of_nat (length acc - (length (eb_dispatched b) + length (eb_ch b)))
       \<and> eb_hookCalls b = concat (map (\<lambda>e. map (\<lambda>h. (h, e)) (eb_hooks b)) acc)
       \<and> eb_delivered b = concat (map (\<lambda>e. map (\<lambda>o'. (o', e)) (eb_observers b)) (eb_dispatched b))
       \<and> eb_ch (run_flush b) = [])"
proof -
  have "bus_ok (newEventBus cfg) []"
    by (simp add: bus_ok_def kept_def newEventBus_def)
  from bus_run_ok [OF this, of as] show ?thesis
    by (auto simp: bus_ok_def kept_def Let_def flush_empty)
qed

end
