(* ===== verification/Coordinator.thy ===== *)
theory Coordinator
  imports Backend_Spec Drain Events "HOL-Library.AList"
begin

text \<open>
  \<open>coordinator.go\<close>, \<open>claim.go\<close> and the lease of \<open>ownership.go\<close>: a process generation, the
  handles of its claims and the local leases its workers run under.

  The state of the process is the record \<open>Coordinator\<close>. Leases are pointers that workers keep, so
  they live in a heap (\<open>co_leases\<close>) and a claim refers to its lease by index; cancelling a lease
  is visible to whoever holds it. The claims of a coordinator are an association list, the Go
  map with an arbitrary but fixed order.

  The outside is the record \<open>world\<close>: the shared store, the calls that other clients make before
  each of our calls, the environment (clock, context) of each of our calls, and the history of
  the store. \<open>backend_call\<close> runs one backend call in it.

  An operation is one function of the state of the process; \<open>tryAcquire\<close>, which gives up the lock of
  the claim around its backend call, has a place for other operations there. A tick of the renewal
  goroutine and a release are not interleaved with other operations of the same process.
\<close>

section \<open>State\<close>

record Lease =
  le_claim :: string
  le_token :: FencingToken
  le_canceled :: bool

record Claim =
  cl_name :: string
  cl_record :: ClaimRecord
  cl_lease :: "nat option"
  cl_drain :: DrainGroup
  cl_closed :: bool
  cl_acquiring :: bool
  cl_renewing :: bool
  cl_acquireCh :: nat

type_synonym coord_config = "(unit, unit, nat, nat) Config"

record Coordinator =
  co_cfg :: coord_config
  co_bus :: "(nat, nat) eventBus"
  co_supClosed :: bool
  co_caps :: Capabilities
  co_gen :: Generation
  co_claims :: "(string \<times> Claim) list"
  co_leases :: "Lease list"
  co_closed :: bool
  co_opSeq :: u64
  co_lastHeartbeat :: time

record 'b world =
  wo_store :: 'b
  wo_hist :: "'b list"
  wo_env :: "nat \<Rightarrow> env"
  wo_others :: "nat \<Rightarrow> (env \<times> call) list"
  wo_n :: nat

text \<open>Every state the store goes through while other clients call it.\<close>

fun store_states :: "'b Backend \<Rightarrow> 'b \<Rightarrow> (env \<times> call) list \<Rightarrow> 'b list" where
  "store_states B b [] = []"
| "store_states B b ((e, c) # cs) = (let b' = fst (invoke B b e c) in b' # store_states B b' cs)"

definition world_env :: "'b world \<Rightarrow> env" where
  "world_env w = wo_env w (wo_n w)"

definition world_now :: "'b world \<Rightarrow> time" where
  "world_now w = tNow (world_env w)"

definition backend_call :: "'b Backend \<Rightarrow> 'b world \<Rightarrow> call \<Rightarrow> 'b world \<times> rec_result" where
  "backend_call B w c =
     (let b = run_calls B (wo_store w) (wo_others w (wo_n w))
      in case invoke B b (world_env w) c of
           (b', res) \<Rightarrow>
             (w\<lparr>wo_store := b',
                wo_hist := wo_hist w @ store_states B (wo_store w) (wo_others w (wo_n w)) @ [b'],
                wo_n := wo_n w + 1\<rparr>, res))"

section \<open>Helpers of the coordinator\<close>

definition coord_emit :: "'b world \<Rightarrow> Coordinator \<Rightarrow> Event \<Rightarrow> Coordinator" where
  "coord_emit w c ev = c\<lparr>co_bus := emit (co_bus c) (world_now w) ev\<rparr>"

text \<open>\<open>itoa64\<close> fills a buffer of 20 bytes from the end; a write below index 0 would panic.\<close>

fun itoa_loop :: "nat \<Rightarrow> nat \<Rightarrow> string \<Rightarrow> string option" where
  "itoa_loop n i acc =
     (if n = 0 then Some acc
      else case i of
             0 \<Rightarrow> None
           | Suc j \<Rightarrow> itoa_loop (n div 10) j (digit (n mod 10) # acc))"

declare itoa_loop.simps [simp del]

definition itoa64 :: "u64 \<Rightarrow> string" where
  "itoa64 n = (if n = 0 then ''0'' else the (itoa_loop (unat n) 20 []))"

definition op_id :: "string \<Rightarrow> string \<Rightarrow> string \<Rightarrow> u64 \<Rightarrow> OperationID" where
  "op_id gen op claim n = gen @ '':'' @ op @ '':'' @ claim @ '':'' @ itoa64 n"

definition newOpID :: "Coordinator \<Rightarrow> string \<Rightarrow> string \<Rightarrow> Coordinator \<times> OperationID" where
  "newOpID c op claim =
     (let c = c\<lparr>co_opSeq := co_opSeq c + 1\<rparr>
      in (c, op_id (gen_ID (co_gen c)) op claim (co_opSeq c)))"

definition checkOpen :: "Coordinator \<Rightarrow> go_error option" where
  "checkOpen c = (if co_closed c then Some (Sentinel ErrClosed) else None)"

definition setState ::
  "'b Backend \<Rightarrow> 'b world \<Rightarrow> Coordinator \<Rightarrow> GenerationState \<Rightarrow> TransitionReason
   \<Rightarrow> 'b world \<times> Coordinator \<times> go_error option" where
  "setState B w c to reason =
     (let from = gen_State (co_gen c)
      in if from = to then
           (w, c\<lparr>co_gen := (co_gen c)\<lparr>gen_Reason := reason, gen_UpdatedAt := world_now w\<rparr>\<rparr>, None)
         else if \<not> CanTransition from to then
           (w, coord_emit w c ((new_event EventError)\<lparr>ev_FromState := Some from, ev_ToState := Some to,
                  ev_Reason := reason, ev_Err := sentinel_text ErrInvalidState\<rparr>),
            Some (EError (no_fields\<lparr>er_Op := ''setState'', er_Reason := reason,
                    er_Message := GenerationState_string from @ '' -> '' @ GenerationState_string to\<rparr>)
                  (Some (Sentinel ErrInvalidState))))
         else
           (let c = c\<lparr>co_gen := (co_gen c)\<lparr>gen_State := to, gen_Reason := reason,
                        gen_UpdatedAt := world_now w\<rparr>\<rparr>;
                w = fst (backend_call B w (CUpdate (co_gen c)))
            in (w, coord_emit w c ((new_event EventGenerationState)\<lparr>ev_FromState := Some from,
                     ev_ToState := Some to, ev_Reason := reason\<rparr>), None)))"

section \<open>Claims\<close>

definition get_claim :: "Coordinator \<Rightarrow> string \<Rightarrow> Claim option" where
  "get_claim c n = map_of (co_claims c) n"

definition put_claim :: "Coordinator \<Rightarrow> string \<Rightarrow> Claim \<Rightarrow> Coordinator" where
  "put_claim c n cl = c\<lparr>co_claims := AList.update n cl (co_claims c)\<rparr>"

text \<open>Apply a change to a claim of the coordinator, which the callers hold a pointer to.\<close>

definition on_claim :: "Coordinator \<Rightarrow> string \<Rightarrow> (Claim \<Rightarrow> Claim) \<Rightarrow> Coordinator" where
  "on_claim c n f = (case get_claim c n of None \<Rightarrow> c | Some cl \<Rightarrow> put_claim c n (f cl))"

definition new_claim :: "string \<Rightarrow> Claim" where
  "new_claim n = \<lparr>cl_name = n, cl_record = new_record n, cl_lease = None,
     cl_drain = NewDrainGroup 0, cl_closed = False, cl_acquiring = False, cl_renewing = False,
     cl_acquireCh = 0\<rparr>"

definition coord_Claim :: "Coordinator \<Rightarrow> string \<Rightarrow> Coordinator \<times> go_error option" where
  "coord_Claim c n =
     (if n = '''' then (c, Some (op_error ''Claim'' ErrPolicy ''claim name required''))
      else case checkOpen c of
             Some er \<Rightarrow> (c, Some (wrap ''Claim'' er))
           | None \<Rightarrow>
               if pol_MaxConcurrentClaims (cfg_Policy (co_cfg c)) > 0
                  \<and> int (length (co_claims c)) \<ge> pol_MaxConcurrentClaims (cfg_Policy (co_cfg c))
                  \<and> get_claim c n = None then
                 (c, Some (op_error ''Claim'' ErrPolicy ''MaxConcurrentClaims exceeded''))
               else
                 (case get_claim c n of
                    Some cl \<Rightarrow> (c, None)
                  | None \<Rightarrow> (put_claim c n (new_claim n), None)))"

definition lease_Valid :: "Coordinator \<Rightarrow> nat \<Rightarrow> bool" where
  "lease_Valid c i \<longleftrightarrow>
     i < length (co_leases c) \<and> \<not> le_canceled (co_leases c ! i) \<and> \<not> co_supClosed c"

definition lease_revoke :: "Coordinator \<Rightarrow> nat \<Rightarrow> Coordinator" where
  "lease_revoke c i =
     c\<lparr>co_leases := (co_leases c)[i := (co_leases c ! i)\<lparr>le_canceled := True\<rparr>]\<rparr>"

text \<open>\<open>c.lease.revoke(); c.lease = nil\<close> on a claim.\<close>

definition drop_lease :: "Coordinator \<Rightarrow> string \<Rightarrow> Coordinator" where
  "drop_lease c n =
     (case get_claim c n of
        None \<Rightarrow> c
      | Some cl \<Rightarrow>
          (case cl_lease cl of
             None \<Rightarrow> c
           | Some i \<Rightarrow> put_claim (lease_revoke c i) n (cl\<lparr>cl_lease := None\<rparr>)))"

text \<open>A fresh lease on the claim, its context a child of the supervisor's.\<close>

definition install_lease :: "Coordinator \<Rightarrow> string \<Rightarrow> FencingToken \<Rightarrow> Coordinator \<times> nat" where
  "install_lease c n token =
     (let i = length (co_leases c);
          c = c\<lparr>co_leases := co_leases c @ [\<lparr>le_claim = n, le_token = token, le_canceled = False\<rparr>]\<rparr>
      in (on_claim c n (\<lambda>cl. cl\<lparr>cl_lease := Some i\<rparr>), i))"

definition revokeLease :: "'b world \<Rightarrow> Coordinator \<Rightarrow> string \<Rightarrow> TransitionReason \<Rightarrow> Coordinator" where
  "revokeLease w c n reason =
     (let c = on_claim c n (\<lambda>cl. cl\<lparr>cl_renewing := False\<rparr>)
      in case get_claim c n of
           None \<Rightarrow> c
         | Some cl \<Rightarrow>
             if cl_lease cl = None then c
             else coord_emit w (drop_lease c n)
                    ((new_event EventLeaseRevoked)\<lparr>ev_Claim := n, ev_Reason := reason\<rparr>))"

definition claim_Controls :: "Coordinator \<Rightarrow> Claim \<Rightarrow> bool" where
  "claim_Controls c cl = Controls (ToOwnership (Some (cl_record cl))) (gen_ID (co_gen c))"

definition set_lease_token :: "Coordinator \<Rightarrow> nat \<Rightarrow> FencingToken \<Rightarrow> Coordinator" where
  "set_lease_token c i token =
     c\<lparr>co_leases := (co_leases c)[i := (co_leases c ! i)\<lparr>le_token := token\<rparr>]\<rparr>"

definition applyRecord :: "'b world \<Rightarrow> Coordinator \<Rightarrow> string \<Rightarrow> ClaimRecord \<Rightarrow> Coordinator" where
  "applyRecord w c n rec =
     (let c = on_claim c n (\<lambda>cl. cl\<lparr>cl_record := rec\<rparr>)
      in case get_claim c n of
           None \<Rightarrow> c
         | Some cl \<Rightarrow>
             (case cl_lease cl of
                None \<Rightarrow> c
              | Some i \<Rightarrow>
                  if \<not> Controls (ToOwnership (Some rec)) (gen_ID (co_gen c)) then
                    coord_emit w (drop_lease (on_claim c n (\<lambda>cl. cl\<lparr>cl_renewing := False\<rparr>)) n)
                      ((new_event EventClaimLost)\<lparr>ev_Claim := n, ev_Token := cr_FencingToken rec,
                         ev_Reason := ReasonFencedOut\<rparr>)
                  else set_lease_token c i (cr_FencingToken rec)))"

definition currentLeaseToken :: "Coordinator \<Rightarrow> string \<Rightarrow> FencingToken option" where
  "currentLeaseToken c n =
     (case get_claim c n of
        None \<Rightarrow> None
      | Some cl \<Rightarrow>
          (case cl_lease cl of
             Some i \<Rightarrow>
               if lease_Valid c i then Some (le_token (co_leases c ! i))
               else if claim_Controls c cl then Some (cr_FencingToken (cl_record cl)) else None
           | None \<Rightarrow>
               if claim_Controls c cl then Some (cr_FencingToken (cl_record cl)) else None))"

text \<open>
  \<open>startRenewal\<close> marks the claim and starts a goroutine that makes one \<open>renew_tick\<close> per tick of
  its ticker until a tick says stop; \<open>clearRenewing\<close> runs when it ends.
\<close>

definition startRenewal :: "Coordinator \<Rightarrow> string \<Rightarrow> Coordinator" where
  "startRenewal c n = on_claim c n (\<lambda>cl. if cl_renewing cl then cl else cl\<lparr>cl_renewing := True\<rparr>)"

definition clearRenewing :: "Coordinator \<Rightarrow> string \<Rightarrow> Coordinator" where
  "clearRenewing c n = on_claim c n (\<lambda>cl. cl\<lparr>cl_renewing := False\<rparr>)"

definition renew_ttl :: "Coordinator \<Rightarrow> Claim \<Rightarrow> duration" where
  "renew_ttl c cl =
     (if ow_Phase (ToOwnership (Some (cl_record cl))) = ClaimReserved
      then reservationTTL (cfg_LeaseTTL (co_cfg c)) (cfg_TransferTimeout (co_cfg c))
      else cfg_LeaseTTL (co_cfg c))"

definition renew_tick ::
  "'b Backend \<Rightarrow> 'b world \<Rightarrow> Coordinator \<Rightarrow> string \<Rightarrow> 'b world \<times> Coordinator \<times> bool" where
  "renew_tick B w c n =
     (case get_claim c n of
        None \<Rightarrow> (w, c, False)
      | Some cl \<Rightarrow>
     (case currentLeaseToken c n of
        None \<Rightarrow> (w, clearRenewing c n, False)
      | Some token \<Rightarrow>
     (case newOpID c ''renew'' n of (c, opid) \<Rightarrow>
     (case backend_call B w (CRenew \<lparr>rn_ClaimName = n, rn_GenerationID = gen_ID (co_gen c),
             rn_Token = token, rn_TTL = renew_ttl c cl, rn_OperationID = opid\<rparr>) of
        (w, rec, Some er) \<Rightarrow>
          (let c = revokeLease w c n ReasonExpired;
               c = coord_emit w c ((new_event EventClaimLost)\<lparr>ev_Claim := n, ev_Token := token,
                      ev_Err := Error_string er, ev_Reason := ReasonExpired\<rparr>)
           in (w, clearRenewing c n, False))
      | (w, None, None) \<Rightarrow> (w, clearRenewing c n, False)
      | (w, Some rec, None) \<Rightarrow>
          (let c = applyRecord w c n rec;
               c = c\<lparr>co_lastHeartbeat := world_now w\<rparr>;
               c = coord_emit w c ((new_event EventClaimRenewed)\<lparr>ev_Claim := n,
                      ev_Token := cr_FencingToken rec, ev_Reason := ReasonRenewed\<rparr>);
               c = coord_emit w c ((new_event EventBackendHeartbeat)\<lparr>ev_Claim := n\<rparr>)
           in (w, c, True))))))"

section \<open>Acquiring\<close>

text \<open>
  \<open>tryAcquire\<close> takes the claim's lock twice, before and after the backend call. \<open>mid\<close> is what
  other goroutines of the process do to the coordinator while the call is under way. The result
  is the index of the lease, or the error. A nil record without an error, which no backend
  returns, would panic.
\<close>

datatype acquire_entry = AcqReturn "nat + go_error" | AcqProceed

definition acquire_enter :: "Coordinator \<Rightarrow> string \<Rightarrow> Coordinator \<times> acquire_entry" where
  "acquire_enter c n =
     (case get_claim c n of
        None \<Rightarrow> (c, AcqReturn (Inr (EText ''panic: nil claim'')))
      | Some cl \<Rightarrow>
          if cl_closed cl then (c, AcqReturn (Inr (Sentinel ErrClosed)))
          else
            (case cl_lease cl of
               Some i \<Rightarrow>
                 if lease_Valid c i then (c, AcqReturn (Inl i))
                 else if cl_acquiring cl then (c, AcqReturn (Inr (Sentinel ErrClaimHeld)))
                 else (put_claim c n (cl\<lparr>cl_acquiring := True\<rparr>), AcqProceed)
             | None \<Rightarrow>
                 if cl_acquiring cl then (c, AcqReturn (Inr (Sentinel ErrClaimHeld)))
                 else (put_claim c n (cl\<lparr>cl_acquiring := True\<rparr>), AcqProceed)))"

definition acquire_leave :: "Coordinator \<Rightarrow> string \<Rightarrow> Coordinator" where
  "acquire_leave c n =
     on_claim c n (\<lambda>cl. cl\<lparr>cl_acquiring := False, cl_acquireCh := cl_acquireCh cl + 1\<rparr>)"

definition acquire_install ::
  "'b Backend \<Rightarrow> 'b world \<Rightarrow> Coordinator \<Rightarrow> string \<Rightarrow> ClaimRecord
   \<Rightarrow> 'b world \<times> Coordinator \<times> (nat + go_error)" where
  "acquire_install B w c n rec =
     (case get_claim c n of
        None \<Rightarrow> (w, c, Inr (EText ''panic: nil claim''))
      | Some cl \<Rightarrow>
          if cl_closed cl then
            (case newOpID c ''release-compensate'' n of (c, opid) \<Rightarrow>
              (let w = fst (backend_call B w (CRelease \<lparr>rl_ClaimName = n,
                         rl_GenerationID = gen_ID (co_gen c), rl_Token = cr_FencingToken rec,
                         rl_OperationID = opid\<rparr>))
               in (w, c, Inr (Sentinel ErrClosed))))
          else if (case cl_lease cl of Some i \<Rightarrow> lease_Valid c i | None \<Rightarrow> False) then
            (w, c, Inl (the (cl_lease cl)))
          else
            (let c = drop_lease c n;
                 c = on_claim c n (\<lambda>cl. cl\<lparr>cl_record := rec\<rparr>)
             in if \<not> OwnedBy (ToOwnership (Some rec)) (gen_ID (co_gen c)) then
                  (w, c, Inr (Sentinel ErrClaimHeld))
                else
                  (case install_lease c n (cr_FencingToken rec) of (c, i) \<Rightarrow>
                   (case setState B w c StateActive ReasonAcquired of (w, c, _) \<Rightarrow>
                     (let c = coord_emit w c ((new_event EventClaimAcquired)\<lparr>ev_Claim := n,
                                ev_Token := cr_FencingToken rec, ev_Reason := ReasonAcquired\<rparr>)
                      in (w, startRenewal c n, Inl i))))))"

definition tryAcquire ::
  "'b Backend \<Rightarrow> (Coordinator \<Rightarrow> Coordinator) \<Rightarrow> 'b world \<Rightarrow> Coordinator \<Rightarrow> string
   \<Rightarrow> 'b world \<times> Coordinator \<times> (nat + go_error)" where
  "tryAcquire B mid w c n =
     (case acquire_enter c n of
        (c, AcqReturn r) \<Rightarrow> (w, c, r)
      | (c, AcqProceed) \<Rightarrow>
     (case newOpID c ''acquire'' n of (c, opid) \<Rightarrow>
     (case backend_call B w (CAcquire \<lparr>aq_ClaimName = n, aq_GenerationID = gen_ID (co_gen c),
             aq_TTL = cfg_LeaseTTL (co_cfg c), aq_AllowEmptyOnly = False, aq_OperationID = opid\<rparr>) of
        (w, _, Some er) \<Rightarrow> (w, acquire_leave (mid c) n, Inr er)
      | (w, None, None) \<Rightarrow> (w, acquire_leave (mid c) n, Inr (EText ''panic: nil record''))
      | (w, Some rec, None) \<Rightarrow>
          (case acquire_install B w (mid c) n rec of
             (w, c, r) \<Rightarrow> (w, acquire_leave c n, r)))))"

text \<open>
  \<open>WaitForOwnership\<close> retries until something ends the wait. The list gives what the \<open>select\<close> at
  the end of each round returns: the caller's context, the supervisor's, or a wake-up (the timer,
  or another local acquire that finished). When the list is used up the call is still waiting.
\<close>

datatype wait_event = WCtx go_error | WSup | WWake

fun wait_loop ::
  "'b Backend \<Rightarrow> 'b world \<Rightarrow> Coordinator \<Rightarrow> string \<Rightarrow> wait_event list
   \<Rightarrow> 'b world \<times> Coordinator \<times> (nat + go_error) option" where
  "wait_loop B w c n evs =
     (case tryAcquire B (\<lambda>c. c) w c n of
        (w, c, Inl i) \<Rightarrow> (w, c, Some (Inl i))
      | (w, c, Inr er) \<Rightarrow>
          if er \<noteq> Sentinel ErrClaimHeld \<and> er \<noteq> Sentinel ErrNotOwner then
            (w, c, Some (Inr (wrapClaim ''WaitForOwnership'' n er)))
          else
            (case map_option cl_lease (get_claim c n) of
               Some (Some i) \<Rightarrow>
                 if lease_Valid c i then (w, c, Some (Inl i))
                 else
                   (case evs of
                      [] \<Rightarrow> (w, c, None)
                    | WCtx cer # _ \<Rightarrow> (w, c, Some (Inr (wrapClaim ''WaitForOwnership'' n cer)))
                    | WSup # _ \<Rightarrow>
                        (w, c, Some (Inr (wrapClaim ''WaitForOwnership'' n (Sentinel ErrClosed))))
                    | WWake # evs' \<Rightarrow> wait_loop B w c n evs')
             | _ \<Rightarrow>
                 (case evs of
                    [] \<Rightarrow> (w, c, None)
                  | WCtx cer # _ \<Rightarrow> (w, c, Some (Inr (wrapClaim ''WaitForOwnership'' n cer)))
                  | WSup # _ \<Rightarrow>
                      (w, c, Some (Inr (wrapClaim ''WaitForOwnership'' n (Sentinel ErrClosed))))
                  | WWake # evs' \<Rightarrow> wait_loop B w c n evs')))"

declare wait_loop.simps [simp del]

definition WaitForOwnership ::
  "'b Backend \<Rightarrow> 'b world \<Rightarrow> Coordinator \<Rightarrow> string \<Rightarrow> wait_event list
   \<Rightarrow> 'b world \<times> Coordinator \<times> (nat + go_error) option" where
  "WaitForOwnership B w c n evs =
     (case checkOpen c of
        Some er \<Rightarrow> (w, c, Some (Inr (wrapClaim ''WaitForOwnership'' n er)))
      | None \<Rightarrow> wait_loop B w c n evs)"

section \<open>Releasing, restoring and closing\<close>

definition claim_Release ::
  "'b Backend \<Rightarrow> 'b world \<Rightarrow> Coordinator \<Rightarrow> string \<Rightarrow> 'b world \<times> Coordinator \<times> go_error option" where
  "claim_Release B w c n =
     (case Option.bind (get_claim c n) cl_lease of
        None \<Rightarrow> (w, c, Some (wrapClaim ''Release'' n (Sentinel ErrNotOwner)))
      | Some i \<Rightarrow>
     (let token = le_token (co_leases c ! i)
      in case newOpID c ''release'' n of (c, opid) \<Rightarrow>
     (case backend_call B w (CRelease \<lparr>rl_ClaimName = n, rl_GenerationID = gen_ID (co_gen c),
             rl_Token = token, rl_OperationID = opid\<rparr>) of
        (w, _, Some er) \<Rightarrow> (w, c, Some (wrapClaim ''Release'' n er))
      | (w, _, None) \<Rightarrow>
          (let c = revokeLease w c n ReasonReleased
           in (w, coord_emit w c ((new_event EventClaimReleased)\<lparr>ev_Claim := n,
                    ev_Token := token, ev_Reason := ReasonReleased\<rparr>), None)))))"

definition ensureLocalLease :: "Coordinator \<Rightarrow> string \<Rightarrow> Coordinator" where
  "ensureLocalLease c n =
     (case get_claim c n of
        None \<Rightarrow> c
      | Some cl \<Rightarrow>
          if cl_closed cl then c
          else if \<not> claim_Controls c cl then c
          else
            (case cl_lease cl of
               Some i \<Rightarrow>
                 if lease_Valid c i then
                   startRenewal (set_lease_token c i (cr_FencingToken (cl_record cl))) n
                 else
                   startRenewal
                     (fst (install_lease (drop_lease c n) n (cr_FencingToken (cl_record cl)))) n
             | None \<Rightarrow> startRenewal (fst (install_lease c n (cr_FencingToken (cl_record cl)))) n))"

definition restoreLease :: "Coordinator \<Rightarrow> string \<Rightarrow> ClaimRecord \<Rightarrow> Coordinator" where
  "restoreLease c n rec = ensureLocalLease (on_claim c n (\<lambda>cl. cl\<lparr>cl_record := rec\<rparr>)) n"

definition claim_close :: "Coordinator \<Rightarrow> string \<Rightarrow> Coordinator" where
  "claim_close c n =
     (let c = on_claim c n (\<lambda>cl. cl\<lparr>cl_closed := True, cl_renewing := False\<rparr>);
          c = drop_lease c n
      in on_claim c n (\<lambda>cl. cl\<lparr>cl_drain := drain_Close (cl_drain cl)\<rparr>))"

definition coord_Close ::
  "'b Backend \<Rightarrow> 'b world \<Rightarrow> Coordinator \<Rightarrow> 'b world \<times> Coordinator \<times> go_error option" where
  "coord_Close B w c =
     (if co_closed c then (w, c, None)
      else
        (let c = c\<lparr>co_closed := True\<rparr>;
             c = foldl claim_close c (map fst (co_claims c))
         in case setState B w c StateRetired ReasonClosed of (w, c, _) \<Rightarrow>
              (let c = coord_emit w c ((new_event EventClosed)\<lparr>ev_Reason := ReasonClosed\<rparr>)
               in (w, c\<lparr>co_supClosed := True, co_bus := run_flush (co_bus c)\<rparr>, None))))"

definition coord_New ::
  "'b Backend \<Rightarrow> 'b world \<Rightarrow> Capabilities option \<Rightarrow> coord_config
   \<Rightarrow> 'b world \<times> (Coordinator + go_error)" where
  "coord_New B w capabler cfg0 =
     (case Config_defaults () (\<lambda>_. world_now w) cfg0 of
        (cfg, Some er) \<Rightarrow> (w, Inr er)
      | (cfg, None) \<Rightarrow>
          (let now = world_now w;
               gen = \<lparr>gen_ID = cfg_GenerationID cfg, gen_Service = cfg_Service cfg,
                      gen_InstanceID = cfg_InstanceID cfg, gen_State = StateJoining,
                      gen_StartedAt = now, gen_UpdatedAt = now, gen_Reason = ReasonRegistered\<rparr>;
               caps = resolveCapabilities capabler;
               c = \<lparr>co_cfg = cfg, co_bus = newEventBus cfg, co_supClosed = False, co_caps = caps,
                    co_gen = gen, co_claims = [], co_leases = [], co_closed = False,
                    co_opSeq = 0, co_lastHeartbeat = 0\<rparr>
           in case ValidateCapabilities cfg caps of
                Some er \<Rightarrow> (w, Inr er)
              | None \<Rightarrow>
                  (case backend_call B w (CRegister gen) of
                     (w, _, Some er) \<Rightarrow> (w, Inr (wrap ''New'' er))
                   | (w, _, None) \<Rightarrow>
                       (case setState B w c StateStandby ReasonRegistered of (w, c, _) \<Rightarrow>
                          (w, Inl (coord_emit w c ((new_event EventGenerationRegistered)\<lparr>
                             ev_Reason := ReasonRegistered, ev_ToState := Some StateStandby\<rparr>)))))))"

end
