(* ===== verification/Coordinator_Safety.thy ===== *)
theory Coordinator_Safety
  imports Coordinator
begin

text \<open>
  What the coordinator guarantees to its workers: operation identifiers are never reused, a
  claim has at most one live lease, and the token of every lease was granted to this generation
  by the store, so that leases of different generations never share a token. The proofs use the
  backend only through the contract of \<open>Backend_Spec\<close>.
\<close>

section \<open>Operation identifiers\<close>

lemma itoa_loop_dec: "n < 10 ^ i \<Longrightarrow> itoa_loop n i acc = Some (dec_loop n acc)"
proof (induction i arbitrary: n acc)
  case 0
  then show ?case by (simp add: itoa_loop.simps dec_loop.simps)
next
  case (Suc i)
  then have "n div 10 < 10 ^ i" by (simp add: div_less_iff_less_mult mult.commute)
  from Suc.IH [OF this] show ?case
    by (subst itoa_loop.simps, subst dec_loop.simps) simp
qed

lemma u64_ten_pow: "unat (n :: u64) < 10 ^ 20"
proof -
  have "unat n < 2 ^ 64" using unsigned_less [of n] by simp
  also have "(2::nat) ^ 64 < 10 ^ 20" by simp
  finally show ?thesis .
qed

lemma itoa64_decimal: "itoa64 n = decimal (unat n)"
proof (cases "n = 0")
  case True
  moreover have "decimal 0 = ''0''" by code_simp
  ultimately show ?thesis by (simp add: itoa64_def)
next
  case False
  then have "0 < unat n" by (simp add: unat_gt_0)
  then show ?thesis
    using False itoa_loop_dec [OF u64_ten_pow, of n "[]"] by (simp add: itoa64_def decimal_dec_loop)
qed

lemma colon_not_digit: "CHR '':'' \<notin> set (decimal n)"
  using decimal_digits [of "CHR '':''" n] by (auto simp: is_digit_def)

lemma op_id_seq:
  assumes "op_id g op cl m = op_id g' op' cl' m'"
  shows "m = m'"
proof -
  have "(g @ '':'' @ op @ '':'' @ cl) @ CHR '':'' # decimal (unat m)
      = (g' @ '':'' @ op' @ '':'' @ cl') @ CHR '':'' # decimal (unat m')"
    using assms by (simp add: op_id_def itoa64_decimal)
  from append_sep_inject [OF this colon_not_digit colon_not_digit] show ?thesis
    by (simp add: word_unat_eq_iff)
qed

lemma append_first_sep_inject:
  assumes "xs @ c # ds = ys @ c # es" and "c \<notin> set xs" and "c \<notin> set ys"
  shows "xs = ys \<and> ds = es"
proof -
  have "takeWhile (\<lambda>x. x \<noteq> c) (xs @ c # ds) = xs" and "takeWhile (\<lambda>x. x \<noteq> c) (ys @ c # es) = ys"
    using assms(2,3) by (auto simp: takeWhile_append takeWhile_eq_all_conv)
  with assms(1) have "xs = ys" by metis
  with assms(1) show ?thesis by simp
qed

lemma op_id_gen:
  assumes "op_id g op cl m = op_id g' op' cl' m'" and "CHR '':'' \<notin> set g" and "CHR '':'' \<notin> set g'"
  shows "g = g'"
  using append_first_sep_inject [OF _ assms(2,3)] assms(1) by (simp add: op_id_def)

text \<open>
  Operation identifiers are unique. The decimal conversion of \<open>newOpID\<close> never runs over its
  20-byte buffer and is exact for every 64-bit counter; two identifiers with different counters
  differ, whatever the names; and for generation and operation names without a colon an
  identifier determines its generation, operation, claim and counter.
\<close>

theorem newOpID_unique:
  "itoa_loop (unat m) 20 [] \<noteq> None
   \<and> itoa64 m = decimal (unat m)
   \<and> (op_id g op cl m = op_id g' op' cl' m' \<longrightarrow> m = m')
   \<and> (CHR '':'' \<notin> set g \<union> set g' \<union> set op \<union> set op' \<and> op_id g op cl m = op_id g' op' cl' m' \<longrightarrow>
        g = g' \<and> op = op' \<and> cl = cl')"
proof (intro conjI impI)
  show "itoa_loop (unat m) 20 [] \<noteq> None" by (simp add: itoa_loop_dec [OF u64_ten_pow])
  show "itoa64 m = decimal (unat m)" by (rule itoa64_decimal)
  show "m = m'" if "op_id g op cl m = op_id g' op' cl' m'" using that by (rule op_id_seq)
next
  assume a: "CHR '':'' \<notin> set g \<union> set g' \<union> set op \<union> set op' \<and> op_id g op cl m = op_id g' op' cl' m'"
  then have eq: "op_id g op cl m = op_id g' op' cl' m'"
    and no: "CHR '':'' \<notin> set g" "CHR '':'' \<notin> set g'" "CHR '':'' \<notin> set op" "CHR '':'' \<notin> set op'"
    by simp_all
  show g: "g = g'" by (rule op_id_gen [OF eq no(1,2)])
  have "op @ CHR '':'' # (cl @ '':'' @ itoa64 m) = op' @ CHR '':'' # (cl' @ '':'' @ itoa64 m')"
    using eq g by (simp add: op_id_def)
  note split = append_first_sep_inject [OF this no(3,4)]
  then show "op = op'" by simp
  from split have "cl @ CHR '':'' # decimal (unat m) = cl' @ CHR '':'' # decimal (unat m')"
    by (simp add: itoa64_decimal)
  from append_sep_inject [OF this colon_not_digit colon_not_digit] show "cl = cl'" by simp
qed

theorem newOpID_unique_witness:
  "op_id ''gen-a'' ''acquire'' ''jobs:eu'' 18446744073709551615
   \<noteq> op_id ''gen-a'' ''acquire'' ''jobs'' 18446744073709551615"
proof
  assume "op_id ''gen-a'' ''acquire'' ''jobs:eu'' 18446744073709551615
      = op_id ''gen-a'' ''acquire'' ''jobs'' 18446744073709551615"
  then have "''jobs:eu'' = ''jobs''"
    using newOpID_unique [THEN conjunct2, THEN conjunct2, THEN conjunct2, rule_format,
        of "''gen-a''" "''gen-a''" "''acquire''" "''acquire''" "''jobs:eu''" 18446744073709551615
           "''jobs''" 18446744073709551615] by simp
  then show False by simp
qed

section \<open>The lease heap\<close>

definition lease_of :: "Coordinator \<Rightarrow> string \<Rightarrow> nat option" where
  "lease_of c n = Option.bind (get_claim c n) cl_lease"

definition rec_of :: "Coordinator \<Rightarrow> string \<Rightarrow> ClaimRecord option" where
  "rec_of c n = map_option cl_record (get_claim c n)"

text \<open>
  A claim points to a live lease of its own, and every lease that has not been cancelled is the
  one its claim points to.
\<close>

definition lease_ok :: "Coordinator \<Rightarrow> bool" where
  "lease_ok c \<longleftrightarrow>
     (\<forall>n i. lease_of c n = Some i \<longrightarrow>
        i < length (co_leases c) \<and> le_claim (co_leases c ! i) = n \<and> \<not> le_canceled (co_leases c ! i))
     \<and> (\<forall>i < length (co_leases c). \<not> le_canceled (co_leases c ! i) \<longrightarrow>
        lease_of c (le_claim (co_leases c ! i)) = Some i)"

lemma get_put [simp]: "get_claim (put_claim c n cl) m = (if m = n then Some cl else get_claim c m)"
  by (simp add: get_claim_def put_claim_def update_conv)

lemma put_frame [simp]:
  "co_leases (put_claim c n cl) = co_leases c" "co_gen (put_claim c n cl) = co_gen c"
  "co_opSeq (put_claim c n cl) = co_opSeq c" "co_supClosed (put_claim c n cl) = co_supClosed c"
  "co_cfg (put_claim c n cl) = co_cfg c"
  by (simp_all add: put_claim_def)

lemma on_frame [simp]:
  "co_leases (on_claim c n f) = co_leases c" "co_gen (on_claim c n f) = co_gen c"
  "co_opSeq (on_claim c n f) = co_opSeq c" "co_supClosed (on_claim c n f) = co_supClosed c"
  "co_cfg (on_claim c n f) = co_cfg c"
  by (simp_all add: on_claim_def split: option.splits)

lemma get_on: "get_claim (on_claim c n f) m = (if m = n then map_option f (get_claim c n) else get_claim c m)"
  by (auto simp: on_claim_def split: option.splits)

lemma emit_frame [simp]:
  "co_leases (coord_emit w c ev) = co_leases c" "co_gen (coord_emit w c ev) = co_gen c"
  "co_opSeq (coord_emit w c ev) = co_opSeq c" "co_supClosed (coord_emit w c ev) = co_supClosed c"
  "co_claims (coord_emit w c ev) = co_claims c" "co_cfg (coord_emit w c ev) = co_cfg c"
  "get_claim (coord_emit w c ev) n = get_claim c n"
  by (simp_all add: coord_emit_def get_claim_def)

text \<open>
  The part of the coordinator its safety depends on, and the elementary changes to it. Every
  operation is a composition of these.
\<close>

definition core :: "Coordinator \<Rightarrow> Lease list \<times> (string \<Rightarrow> nat option) \<times> (string \<Rightarrow> ClaimRecord option)" where
  "core c = (co_leases c, lease_of c, rec_of c)"

lemma core_emit [simp]: "core (coord_emit w c ev) = core c"
  by (simp add: core_def lease_of_def rec_of_def fun_eq_iff)

lemma core_on:
  assumes "\<And>cl. cl_lease (f cl) = cl_lease cl" and "\<And>cl. cl_record (f cl) = cl_record cl"
  shows "core (on_claim c n f) = core c"
  using assms
  by (cases "get_claim c n") (auto simp: core_def lease_of_def rec_of_def fun_eq_iff get_on)

lemma core_opSeq [simp]:
  "core (c\<lparr>co_opSeq := s\<rparr>) = core c" "core (c\<lparr>co_gen := g\<rparr>) = core c"
  "core (c\<lparr>co_lastHeartbeat := t\<rparr>) = core c" "core (c\<lparr>co_closed := b\<rparr>) = core c"
  "core (c\<lparr>co_supClosed := b, co_bus := bus\<rparr>) = core c"
  by (simp_all add: core_def lease_of_def rec_of_def get_claim_def fun_eq_iff)

lemma core_new: "get_claim c n = None \<Longrightarrow>
    core (put_claim c n (new_claim n)) = (co_leases c, lease_of c, (rec_of c)(n \<mapsto> new_record n))"
  by (auto simp: core_def lease_of_def rec_of_def new_claim_def fun_eq_iff)

lemma core_record:
  "core (on_claim c n (\<lambda>cl. cl\<lparr>cl_record := rec\<rparr>)) =
     (co_leases c, lease_of c, if get_claim c n = None then rec_of c else (rec_of c)(n \<mapsto> rec))"
  by (auto simp: core_def lease_of_def rec_of_def fun_eq_iff get_on split: option.splits)

lemma core_drop:
  "core (drop_lease c n) =
     (case lease_of c n of
        None \<Rightarrow> core c
      | Some i \<Rightarrow> ((co_leases c)[i := (co_leases c ! i)\<lparr>le_canceled := True\<rparr>],
                  (lease_of c)(n := None), rec_of c))"
  by (auto simp: drop_lease_def lease_revoke_def core_def lease_of_def rec_of_def fun_eq_iff
      get_claim_def put_claim_def update_conv split: option.splits)

lemma drop_frame [simp]:
  "co_gen (drop_lease c n) = co_gen c" "co_opSeq (drop_lease c n) = co_opSeq c"
  "co_supClosed (drop_lease c n) = co_supClosed c" "co_cfg (drop_lease c n) = co_cfg c"
  "get_claim (drop_lease c n) n = None \<longleftrightarrow> get_claim c n = None"
  by (auto simp: drop_lease_def lease_revoke_def get_claim_def put_claim_def update_conv
      split: option.splits)

lemma core_install:
  assumes "get_claim c n \<noteq> None"
  shows "core (fst (install_lease c n t)) =
     (co_leases c @ [\<lparr>le_claim = n, le_token = t, le_canceled = False\<rparr>],
      (lease_of c)(n \<mapsto> length (co_leases c)), rec_of c)"
  using assms
  by (auto simp: install_lease_def core_def lease_of_def rec_of_def fun_eq_iff get_claim_def
      on_claim_def put_claim_def update_conv Let_def split: option.splits)

lemma install_frame [simp]:
  "co_gen (fst (install_lease c n t)) = co_gen c" "co_opSeq (fst (install_lease c n t)) = co_opSeq c"
  "co_supClosed (fst (install_lease c n t)) = co_supClosed c"
  by (simp_all add: install_lease_def Let_def)

lemma core_token:
  "core (set_lease_token c i t) =
     ((co_leases c)[i := (co_leases c ! i)\<lparr>le_token := t\<rparr>], lease_of c, rec_of c)"
  by (simp add: set_lease_token_def core_def lease_of_def rec_of_def get_claim_def fun_eq_iff)

lemma token_frame [simp]:
  "co_gen (set_lease_token c i t) = co_gen c" "co_opSeq (set_lease_token c i t) = co_opSeq c"
  "get_claim (set_lease_token c i t) n = get_claim c n"
  by (simp_all add: set_lease_token_def get_claim_def)

text \<open>The invariant speaks of the core only.\<close>

definition leases_ok :: "Lease list \<Rightarrow> (string \<Rightarrow> nat option) \<Rightarrow> bool" where
  "leases_ok ls lo \<longleftrightarrow>
     (\<forall>n i. lo n = Some i \<longrightarrow> i < length ls \<and> le_claim (ls ! i) = n \<and> \<not> le_canceled (ls ! i))
     \<and> (\<forall>i < length ls. \<not> le_canceled (ls ! i) \<longrightarrow> lo (le_claim (ls ! i)) = Some i)"

lemma lease_ok_core: "core c = (ls, lo, ro) \<Longrightarrow> lease_ok c \<longleftrightarrow> leases_ok ls lo"
  by (auto simp: core_def lease_ok_def leases_ok_def)

lemma leases_ok_drop:
  "leases_ok ls lo \<Longrightarrow> lo n = Some i \<Longrightarrow>
   leases_ok (ls[i := (ls ! i)\<lparr>le_canceled := True\<rparr>]) (lo(n := None))"
  unfolding leases_ok_def
  by (intro conjI allI impI) (auto simp: nth_list_update split: if_splits, metis option.inject)

lemma leases_ok_install:
  assumes "leases_ok ls lo" and "lo n = None"
  shows "leases_ok (ls @ [\<lparr>le_claim = n, le_token = t, le_canceled = False\<rparr>]) (lo(n \<mapsto> length ls))"
  unfolding leases_ok_def
proof (intro conjI allI impI)
  fix m i assume "(lo(n \<mapsto> length ls)) m = Some i"
  then have "m = n \<and> i = length ls \<or> m \<noteq> n \<and> i < length ls \<and> lo m = Some i"
    using assms(1) by (auto simp: leases_ok_def split: if_splits)
  with assms show "i < length (ls @ [\<lparr>le_claim = n, le_token = t, le_canceled = False\<rparr>])"
    and "le_claim ((ls @ [\<lparr>le_claim = n, le_token = t, le_canceled = False\<rparr>]) ! i) = m"
    and "\<not> le_canceled ((ls @ [\<lparr>le_claim = n, le_token = t, le_canceled = False\<rparr>]) ! i)"
    by (auto simp: leases_ok_def nth_append split: if_splits)
next
  fix i assume i: "i < length (ls @ [\<lparr>le_claim = n, le_token = t, le_canceled = False\<rparr>])"
    and live: "\<not> le_canceled ((ls @ [\<lparr>le_claim = n, le_token = t, le_canceled = False\<rparr>]) ! i)"
  show "(lo(n \<mapsto> length ls)) (le_claim ((ls @ [\<lparr>le_claim = n, le_token = t, le_canceled = False\<rparr>]) ! i))
      = Some i"
  proof (cases "i < length ls")
    case True
    with live assms(1) have "lo (le_claim (ls ! i)) = Some i" by (simp add: leases_ok_def nth_append)
    with assms(2) True show ?thesis by (auto simp: nth_append)
  next
    case False
    with i show ?thesis by (simp add: nth_append)
  qed
qed

lemma leases_ok_token:
  assumes "leases_ok ls lo"
  shows "leases_ok (ls[i := (ls ! i)\<lparr>le_token := t\<rparr>]) lo"
proof -
  have "le_claim (ls[i := (ls ! i)\<lparr>le_token := t\<rparr>] ! k) = le_claim (ls ! k)"
    and "le_canceled (ls[i := (ls ! i)\<lparr>le_token := t\<rparr>] ! k) = le_canceled (ls ! k)"
    if "k < length ls" for k
    using that by (cases "k = i"; simp)+
  with assms show ?thesis by (simp add: leases_ok_def)
qed

section \<open>Tokens are granted by the store\<close>

text \<open>
  \<open>granted\<close>: at some moment of its history the store showed the generation as the holder of the
  claim under the token. The history is a chain of the abstract steps.
\<close>

definition granted :: "('b \<Rightarrow> string \<Rightarrow> claim_view) \<Rightarrow> 'b world \<Rightarrow> string \<Rightarrow> string \<Rightarrow> FencingToken \<Rightarrow> bool" where
  "granted view w g n t \<longleftrightarrow>
     (\<exists>b \<in> set (wo_hist w). v_holder (view b n) = g \<and> v_token (view b n) = t)"

definition world_ok :: "('b \<Rightarrow> bool) \<Rightarrow> ('b \<Rightarrow> string \<Rightarrow> claim_view) \<Rightarrow> 'b world \<Rightarrow> bool" where
  "world_ok ok view w \<longleftrightarrow>
     ok (wo_store w) \<and> wo_hist w \<noteq> [] \<and> last (wo_hist w) = wo_store w
     \<and> sorted_wrt (\<lambda>a b. \<forall>n. fence_steps (view a n) (view b n)) (wo_hist w)"

definition core_ok ::
  "('b \<Rightarrow> string \<Rightarrow> claim_view) \<Rightarrow> 'b world \<Rightarrow> string
   \<Rightarrow> Lease list \<times> (string \<Rightarrow> nat option) \<times> (string \<Rightarrow> ClaimRecord option) \<Rightarrow> bool" where
  "core_ok view w g k \<longleftrightarrow>
     (case k of (ls, lo, ro) \<Rightarrow>
        leases_ok ls lo
        \<and> (\<forall>l \<in> set ls. granted view w g (le_claim l) (le_token l))
        \<and> (\<forall>n rec. ro n = Some rec \<longrightarrow> Controls (ToOwnership (Some rec)) g \<longrightarrow>
              granted view w g n (cr_FencingToken rec)))"

text \<open>Other clients do not use this generation's operation identifiers.\<close>

definition foreign :: "string \<Rightarrow> 'b world \<Rightarrow> bool" where
  "foreign g w \<longleftrightarrow>
     (\<forall>k. \<forall>ec \<in> set (wo_others w k). \<forall>op cl m. call_op (snd ec) \<noteq> op_id g op cl m)"

definition coord_inv ::
  "('b \<Rightarrow> bool) \<Rightarrow> ('b \<Rightarrow> string \<Rightarrow> claim_view) \<Rightarrow> ('b \<Rightarrow> OperationID \<Rightarrow> bool)
   \<Rightarrow> 'b world \<Rightarrow> Coordinator \<Rightarrow> bool" where
  "coord_inv ok view seen w c \<longleftrightarrow>
     world_ok ok view w
     \<and> core_ok view w (gen_ID (co_gen c)) (core c)
     \<and> foreign (gen_ID (co_gen c)) w
     \<and> (\<forall>op cl m. seen (wo_store w) (op_id (gen_ID (co_gen c)) op cl m) \<longrightarrow> m \<le> co_opSeq c)"

text \<open>How the world may move on: the history grows, the plan of the other clients is fixed.\<close>

definition wext :: "'b world \<Rightarrow> 'b world \<Rightarrow> bool" where
  "wext w w' \<longleftrightarrow> (\<exists>bs. wo_hist w' = wo_hist w @ bs) \<and> wo_others w' = wo_others w"

lemma wext_refl [simp]: "wext w w"
  by (simp add: wext_def)

lemma wext_trans: "wext w w' \<Longrightarrow> wext w' w'' \<Longrightarrow> wext w w''"
  by (auto simp: wext_def)

lemma granted_mono: "wext w w' \<Longrightarrow> granted view w g n t \<Longrightarrow> granted view w' g n t"
  by (auto simp: wext_def granted_def)

lemma core_ok_mono: "wext w w' \<Longrightarrow> core_ok view w g k \<Longrightarrow> core_ok view w' g k"
  by (auto simp: core_ok_def intro: granted_mono split: prod.splits)

lemma foreign_mono: "wext w w' \<Longrightarrow> foreign g w \<Longrightarrow> foreign g w'"
  by (simp add: wext_def foreign_def)

lemma granted_now:
  assumes "world_ok ok view w" and "view (wo_store w) n = rec_view r"
    and "Controls (ToOwnership (Some r)) g"
  shows "granted view w g n (cr_FencingToken r)"
proof -
  have "wo_store w \<in> set (wo_hist w)" using assms(1) by (metis last_in_set world_ok_def)
  moreover have "v_holder (rec_view r) = g" "v_token (rec_view r) = cr_FencingToken r"
    using assms(3) by (auto simp: Controls_iff ToOwnership_def rec_view_def)
  ultimately show ?thesis
    using assms(2) unfolding granted_def by (intro bexI [where x = "wo_store w"]) simp_all
qed

section \<open>Backend calls of a coordinator\<close>

context fenced_backend
begin

lemma store_states_chain:
  assumes "wf b"
  shows "sorted_wrt (\<lambda>a b. \<forall>n. fence_steps (view a n) (view b n)) (b # store_states B b cs)
       \<and> last (b # store_states B b cs) = run_calls B b cs"
  using assms
proof (induction cs arbitrary: b)
  case (Cons ec cs)
  obtain e c where ec: "ec = (e, c)" by force
  let ?b = "fst (invoke B b e c)"
  have step: "\<forall>n. fence_steps (view b n) (view ?b n)" using Cons.prems by (simp add: view_steps)
  note IH = Cons.IH [OF wf_call [OF Cons.prems, of e c]]
  then have "\<forall>x \<in> set (store_states B ?b cs). \<forall>n. fence_steps (view b n) (view x n)"
    using step by (auto intro: rtranclp_trans)
  with IH step show ?case by (auto simp: ec Let_def)
qed simp

lemma backend_call_ok:
  assumes w: "world_ok wf view w" and call: "backend_call B w c = (w', rec, er)"
  obtains b where "wf b" and "invoke B b (world_env w) c = (wo_store w', rec, er)"
    and "world_ok wf view w'" and "wext w w'"
    and "\<And>i. seen b i \<Longrightarrow> seen (wo_store w) i \<or> (\<exists>ec \<in> set (wo_others w (wo_n w)). call_op (snd ec) = i)"
proof -
  let ?cs = "wo_others w (wo_n w)" and ?R = "\<lambda>a b. \<forall>n. fence_steps (view a n) (view b n)"
  define b where "b = run_calls B (wo_store w) ?cs"
  have wf0: "wf (wo_store w)" and last0: "wo_hist w \<noteq> []" "last (wo_hist w) = wo_store w"
    and sorted0: "sorted_wrt ?R (wo_hist w)"
    using w by (auto simp: world_ok_def)
  have wfb: "wf b" unfolding b_def using wf0 by (rule wf_run)
  obtain b' where inv: "invoke B b (world_env w) c = (b', rec, er)"
    and w': "w' = w\<lparr>wo_store := b', wo_hist := wo_hist w @ store_states B (wo_store w) ?cs @ [b'],
               wo_n := wo_n w + 1\<rparr>"
    using call by (auto simp: backend_call_def b_def Let_def split: prod.splits)
  have wfb': "wf b'" using wf_call [OF wfb, of "world_env w" c] inv by simp
  have step: "?R b b'" using view_steps [OF wfb, of _ "world_env w" c] inv by simp
  note chain = store_states_chain [OF wf0, of ?cs]
  have tr: "?R x y \<Longrightarrow> ?R y z \<Longrightarrow> ?R x z" for x y z by (meson rtranclp_trans)
  have to_b: "?R x b" if "x \<in> set (wo_store w # store_states B (wo_store w) ?cs)" for x
    using sorted_wrt_last [of ?R, OF chain [THEN conjunct1] that] chain by (simp add: b_def)
  have "?R x (wo_store w)" if "x \<in> set (wo_hist w)" for x
    using sorted_wrt_last [of ?R, OF sorted0 that] last0 by simp
  then have from_hist: "?R x y"
    if "x \<in> set (wo_hist w)" and "y \<in> set (wo_store w # store_states B (wo_store w) ?cs)" for x y
    using that chain tr [of x "wo_store w" y] by auto
  have to_b': "?R x b'" if "x \<in> set (wo_store w # store_states B (wo_store w) ?cs)" for x
    by (rule tr [OF to_b [OF that] step])
  have hist_b': "?R x b'" if "x \<in> set (wo_hist w)" for x
    by (rule tr [OF from_hist [OF that, of "wo_store w"] to_b' [of "wo_store w"]]) simp_all
  have "sorted_wrt ?R (wo_hist w @ store_states B (wo_store w) ?cs @ [b'])"
    unfolding sorted_wrt_append
    using sorted0 chain to_b' hist_b' from_hist by (simp add: ball_Un)
  then have ok': "world_ok wf view w'" using wfb' by (simp add: world_ok_def w')
  show thesis
  proof (rule that [OF wfb])
    show "invoke B b (world_env w) c = (wo_store w', rec, er)" using inv by (simp add: w')
    show "wext w w'" by (simp add: wext_def w')
    show "\<And>i. seen b i \<Longrightarrow> seen (wo_store w) i \<or> (\<exists>ec \<in> set ?cs. call_op (snd ec) = i)"
      unfolding b_def by (rule seen_run [OF wf0])
  qed (rule ok')
qed

end

section \<open>Elementary changes keep the invariant\<close>

lemma coord_inv_cong:
  assumes "core c' = core c" and "gen_ID (co_gen c') = gen_ID (co_gen c)" and "co_opSeq c' = co_opSeq c"
  shows "coord_inv ok view seen w c' \<longleftrightarrow> coord_inv ok view seen w c"
  using assms by (simp add: coord_inv_def)

lemma coord_inv_emit [simp]: "coord_inv ok view seen w (coord_emit v c ev) \<longleftrightarrow> coord_inv ok view seen w c"
  by (rule coord_inv_cong) simp_all

lemma coord_inv_on:
  assumes "\<And>cl. cl_lease (f cl) = cl_lease cl" and "\<And>cl. cl_record (f cl) = cl_record cl"
  shows "coord_inv ok view seen w (on_claim c n f) \<longleftrightarrow> coord_inv ok view seen w c"
  by (rule coord_inv_cong) (simp_all add: core_on [OF assms])

lemma coord_inv_heartbeat [simp]:
  "coord_inv ok view seen w (c\<lparr>co_lastHeartbeat := t\<rparr>) \<longleftrightarrow> coord_inv ok view seen w c"
  "coord_inv ok view seen w (c\<lparr>co_closed := b\<rparr>) \<longleftrightarrow> coord_inv ok view seen w c"
  "coord_inv ok view seen w (c\<lparr>co_supClosed := b, co_bus := bus\<rparr>) \<longleftrightarrow> coord_inv ok view seen w c"
  by (rule coord_inv_cong; simp)+

lemma coord_inv_drop:
  assumes "coord_inv ok view seen w c"
  shows "coord_inv ok view seen w (drop_lease c n)"
proof (cases "lease_of c n")
  case None
  then have "core (drop_lease c n) = core c" by (simp add: core_drop)
  with assms show ?thesis by (auto intro: coord_inv_cong [THEN iffD2])
next
  case (Some i)
  have ok: "core_ok view w (gen_ID (co_gen c)) (co_leases c, lease_of c, rec_of c)"
    using assms by (simp add: coord_inv_def core_def)
  then have "leases_ok (co_leases c) (lease_of c)" by (simp add: core_ok_def)
  then have i: "i < length (co_leases c)" using Some by (simp add: leases_ok_def)
  have "set ((co_leases c)[i := (co_leases c ! i)\<lparr>le_canceled := True\<rparr>])
      \<subseteq> insert ((co_leases c ! i)\<lparr>le_canceled := True\<rparr>) (set (co_leases c))"
    by (rule set_update_subset_insert)
  with ok i have "core_ok view w (gen_ID (co_gen c))
      ((co_leases c)[i := (co_leases c ! i)\<lparr>le_canceled := True\<rparr>], (lease_of c)(n := None), rec_of c)"
    using leases_ok_drop [of "co_leases c" "lease_of c" n i] Some by (auto simp: core_ok_def)
  then show ?thesis using assms Some by (simp add: coord_inv_def core_drop)
qed

lemma coord_inv_record:
  assumes "coord_inv ok view seen w c"
    and "Controls (ToOwnership (Some rec)) (gen_ID (co_gen c)) \<Longrightarrow>
           granted view w (gen_ID (co_gen c)) n (cr_FencingToken rec)"
  shows "coord_inv ok view seen w (on_claim c n (\<lambda>cl. cl\<lparr>cl_record := rec\<rparr>))"
proof -
  have "core_ok view w (gen_ID (co_gen c)) (co_leases c, lease_of c, rec_of c)"
    using assms(1) by (simp add: coord_inv_def core_def)
  with assms show ?thesis by (auto simp: coord_inv_def core_record core_ok_def)
qed

lemma coord_inv_install:
  assumes "coord_inv ok view seen w c" and "get_claim c n \<noteq> None" and "lease_of c n = None"
    and "granted view w (gen_ID (co_gen c)) n t"
  shows "coord_inv ok view seen w (fst (install_lease c n t))"
proof -
  have "core_ok view w (gen_ID (co_gen c)) (co_leases c, lease_of c, rec_of c)"
    using assms(1) by (simp add: coord_inv_def core_def)
  with assms leases_ok_install [of "co_leases c" "lease_of c" n t] show ?thesis
    unfolding coord_inv_def core_install [OF assms(2)] by (auto simp: core_ok_def)
qed

lemma coord_inv_token:
  assumes "coord_inv ok view seen w c" and "lease_of c n = Some i"
    and "granted view w (gen_ID (co_gen c)) n t"
  shows "coord_inv ok view seen w (set_lease_token c i t)"
proof -
  have ok: "core_ok view w (gen_ID (co_gen c)) (co_leases c, lease_of c, rec_of c)"
    using assms by (simp add: coord_inv_def core_def)
  then have i: "i < length (co_leases c)" "le_claim (co_leases c ! i) = n"
    using assms(2) by (auto simp: core_ok_def leases_ok_def)
  have "set ((co_leases c)[i := (co_leases c ! i)\<lparr>le_token := t\<rparr>])
      \<subseteq> insert ((co_leases c ! i)\<lparr>le_token := t\<rparr>) (set (co_leases c))"
    by (rule set_update_subset_insert)
  with ok i assms(3) have "core_ok view w (gen_ID (co_gen c))
      ((co_leases c)[i := (co_leases c ! i)\<lparr>le_token := t\<rparr>], lease_of c, rec_of c)"
    by (auto simp: core_ok_def leases_ok_token)
  then show ?thesis using assms by (simp add: coord_inv_def core_token)
qed

lemma lease_of_drop: "lease_of (drop_lease c n) n = None"
  using core_drop [of c n] by (auto simp: core_def split: option.splits)

lemma lease_of_on_record [simp]:
  "lease_of (on_claim c n (\<lambda>cl. cl\<lparr>cl_record := rec\<rparr>)) m = lease_of c m"
  using core_record [of c n rec] by (simp add: core_def)

text \<open>The operations on a claim that stay inside the process.\<close>

lemma revokeLease_inv:
  assumes "coord_inv ok view seen w c"
  shows "coord_inv ok view seen w (revokeLease v c n r)"
proof -
  have "coord_inv ok view seen w (on_claim c n (\<lambda>cl. cl\<lparr>cl_renewing := False\<rparr>))"
    using assms by (simp add: coord_inv_on)
  then show ?thesis
    by (auto simp: revokeLease_def Let_def coord_inv_drop split: option.splits)
qed

lemma applyRecord_inv:
  assumes "coord_inv ok view seen w c"
    and "Controls (ToOwnership (Some rec)) (gen_ID (co_gen c)) \<Longrightarrow>
           granted view w (gen_ID (co_gen c)) n (cr_FencingToken rec)"
  shows "coord_inv ok view seen w (applyRecord v c n rec)"
proof -
  define c1 where "c1 = on_claim c n (\<lambda>cl. cl\<lparr>cl_record := rec\<rparr>)"
  have inv: "coord_inv ok view seen w c1" unfolding c1_def by (rule coord_inv_record [OF assms])
  have gen: "co_gen c1 = co_gen c" by (simp add: c1_def)
  have lost: "coord_inv ok view seen w (drop_lease (on_claim c1 n (\<lambda>cl. cl\<lparr>cl_renewing := False\<rparr>)) n)"
    by (rule coord_inv_drop) (use inv in \<open>simp add: coord_inv_on\<close>)
  have keep: "coord_inv ok view seen w (set_lease_token c1 i (cr_FencingToken rec))"
    if "get_claim c1 n = Some cl" "cl_lease cl = Some i"
      "Controls (ToOwnership (Some rec)) (gen_ID (co_gen c1))" for cl i
    using that by (intro coord_inv_token [OF inv, of n]) (simp_all add: lease_of_def gen assms(2))
  show ?thesis
    unfolding applyRecord_def c1_def [symmetric] Let_def
    using inv lost keep by (auto split: option.splits)
qed

lemma startRenewal_inv [simp]:
  "coord_inv ok view seen w (startRenewal c n) \<longleftrightarrow> coord_inv ok view seen w c"
  "coord_inv ok view seen w (clearRenewing c n) \<longleftrightarrow> coord_inv ok view seen w c"
  "coord_inv ok view seen w (acquire_leave c n) \<longleftrightarrow> coord_inv ok view seen w c"
  by (simp_all add: startRenewal_def clearRenewing_def acquire_leave_def coord_inv_on)

lemma ensureLocalLease_inv:
  assumes "coord_inv ok view seen w c"
  shows "coord_inv ok view seen w (ensureLocalLease c n)"
proof (cases "get_claim c n")
  case None
  with assms show ?thesis by (simp add: ensureLocalLease_def)
next
  case (Some cl)
  have granted: "granted view w (gen_ID (co_gen c)) n (cr_FencingToken (cl_record cl))"
    if "claim_Controls c cl"
    using assms that Some by (auto simp: coord_inv_def core_ok_def core_def rec_of_def claim_Controls_def)
  have drop: "coord_inv ok view seen w (fst (install_lease (drop_lease c n) n (cr_FencingToken (cl_record cl))))"
    if "claim_Controls c cl"
    using Some granted [OF that]
    by (intro coord_inv_install coord_inv_drop assms) (auto simp: lease_of_drop)
  show ?thesis
    using assms Some granted drop
    by (auto simp: ensureLocalLease_def lease_of_def split: option.splits
        intro: coord_inv_token [of _ _ _ _ _ n] coord_inv_install)
qed

lemma restoreLease_inv:
  assumes "coord_inv ok view seen w c"
    and "Controls (ToOwnership (Some rec)) (gen_ID (co_gen c)) \<Longrightarrow>
           granted view w (gen_ID (co_gen c)) n (cr_FencingToken rec)"
  shows "coord_inv ok view seen w (restoreLease c n rec)"
  unfolding restoreLease_def by (intro ensureLocalLease_inv coord_inv_record assms)

lemma claim_close_inv:
  assumes "coord_inv ok view seen w c"
  shows "coord_inv ok view seen w (claim_close c n)"
  using coord_inv_drop [of ok view seen w "on_claim c n (\<lambda>cl. cl\<lparr>cl_closed := True, cl_renewing := False\<rparr>)" n] assms
  by (simp add: claim_close_def Let_def coord_inv_on)

lemma coord_Claim_inv:
  assumes "coord_inv ok view seen w c"
  shows "coord_inv ok view seen w (fst (coord_Claim c n))"
proof -
  have "core_ok view w (gen_ID (co_gen c)) (co_leases c, lease_of c, rec_of c)"
    using assms(1) by (simp add: coord_inv_def core_def)
  then have "coord_inv ok view seen w (put_claim c n (new_claim n))" if "get_claim c n = None"
    using assms that
    by (auto simp: coord_inv_def core_new core_ok_def Controls_iff ToOwnership_def new_record_def)
  with assms show ?thesis
    by (auto simp: coord_Claim_def split: option.splits)
qed

section \<open>Operations that call the backend\<close>

lemma newOpID_simps:
  assumes "newOpID c op n = (c1, i)"
  shows "c1 = c\<lparr>co_opSeq := co_opSeq c + 1\<rparr>" "i = op_id (gen_ID (co_gen c)) op n (co_opSeq c + 1)"
    "core c1 = core c" "co_gen c1 = co_gen c" "co_supClosed c1 = co_supClosed c"
    "co_cfg c1 = co_cfg c" "co_leases c1 = co_leases c" "get_claim c1 m = get_claim c m"
  using assms by (auto simp: newOpID_def Let_def get_claim_def)

lemma op_id_nonempty [simp]: "op_id g op cl m \<noteq> ''''"
  by (simp add: op_id_def)

lemma seq_Suc:
  assumes "(s :: u64) \<noteq> - 1"
  shows "s < s + 1"
proof (rule word_Suc_less)
  show "s < - 1" using assms by (simp add: word_order.not_eq_extremum)
qed

lemma local_frame [simp]:
  "co_gen (revokeLease v c n r) = co_gen c" "co_opSeq (revokeLease v c n r) = co_opSeq c"
  "co_gen (applyRecord v c n rec) = co_gen c" "co_opSeq (applyRecord v c n rec) = co_opSeq c"
  "co_gen (startRenewal c n) = co_gen c" "co_opSeq (startRenewal c n) = co_opSeq c"
  "co_gen (clearRenewing c n) = co_gen c" "co_opSeq (clearRenewing c n) = co_opSeq c"
  "co_gen (acquire_leave c n) = co_gen c" "co_opSeq (acquire_leave c n) = co_opSeq c"
  "co_gen (claim_close c n) = co_gen c" "co_opSeq (claim_close c n) = co_opSeq c"
  "co_gen (fst (coord_Claim c n)) = co_gen c" "co_opSeq (fst (coord_Claim c n)) = co_opSeq c"
  by (simp_all add: revokeLease_def applyRecord_def startRenewal_def clearRenewing_def
      acquire_leave_def claim_close_def coord_Claim_def Let_def split: option.splits)

lemma ensure_frame [simp]:
  "co_gen (ensureLocalLease c n) = co_gen c" "co_opSeq (ensureLocalLease c n) = co_opSeq c"
  "co_gen (restoreLease c n rec) = co_gen c" "co_opSeq (restoreLease c n rec) = co_opSeq c"
  by (simp_all add: restoreLease_def ensureLocalLease_def split: option.splits)

context fenced_backend
begin

abbreviation cinv :: "'a world \<Rightarrow> Coordinator \<Rightarrow> bool" where
  "cinv w c \<equiv> coord_inv wf view seen w c"

text \<open>A call under an identifier that is not one of the generation's.\<close>

lemma foreign_call:
  assumes "cinv w c" and "backend_call B w k = (w', res)"
    and "\<And>op cl m. call_op k \<noteq> op_id (gen_ID (co_gen c)) op cl m"
  shows "cinv w' c"
proof -
  obtain rec er where res: "res = (rec, er)" by force
  have "world_ok wf view w" using assms(1) by (simp add: coord_inv_def)
  from backend_call_ok [OF this assms(2) [unfolded res]] obtain b where
    b: "wf b" "invoke B b (world_env w) k = (wo_store w', rec, er)" "world_ok wf view w'" "wext w w'"
      "\<And>i. seen b i \<Longrightarrow> seen (wo_store w) i \<or> (\<exists>ec \<in> set (wo_others w (wo_n w)). call_op (snd ec) = i)"
    by metis
  have "seen (wo_store w) (op_id (gen_ID (co_gen c)) op cl m)"
    if "seen (wo_store w') (op_id (gen_ID (co_gen c)) op cl m)" for op cl m
  proof -
    have "seen b (op_id (gen_ID (co_gen c)) op cl m)"
      using seen_call [OF b(1), of "world_env w" k "op_id (gen_ID (co_gen c)) op cl m"] b(2) that
        assms(3) [of op cl m] by simp
    with b(5) assms(1) show ?thesis unfolding coord_inv_def foreign_def by blast
  qed
  with assms(1) b(3) core_ok_mono [OF b(4)] foreign_mono [OF b(4)] show ?thesis
    unfolding coord_inv_def by blast
qed

lemma anonymous_call:
  assumes "cinv w c" and "call_op k = []" and "backend_call B w k = (w', res)"
  shows "cinv w' c"
  using foreign_call [OF assms(1,3)] assms(2) op_id_nonempty by metis

text \<open>A call under a new identifier reaches the store as one the store has not seen.\<close>

lemma own_call:
  assumes "cinv w c" and "co_opSeq c \<noteq> - 1" and "newOpID c op n = (c1, i)"
    and "call_op k = i" and "backend_call B w k = (w', rec, er)"
  obtains b where "wf b" and "\<not> seen b i" and "invoke B b (world_env w) k = (wo_store w', rec, er)"
    and "cinv w' c1" and "world_ok wf view w'"
proof -
  let ?g = "gen_ID (co_gen c)"
  note c1 = newOpID_simps [OF assms(3)]
  have "world_ok wf view w" using assms(1) by (simp add: coord_inv_def)
  from backend_call_ok [OF this assms(5)] obtain b where
    b: "wf b" "invoke B b (world_env w) k = (wo_store w', rec, er)" "world_ok wf view w'" "wext w w'"
      "\<And>i. seen b i \<Longrightarrow> seen (wo_store w) i \<or> (\<exists>ec \<in> set (wo_others w (wo_n w)). call_op (snd ec) = i)"
    by metis
  have less: "co_opSeq c < co_opSeq c + 1" using assms(2) by (rule seq_Suc)
  have seen_b: "m \<le> co_opSeq c" if "seen b (op_id ?g op' cl m)" for op' cl m
    using b(5) [OF that] assms(1) unfolding coord_inv_def foreign_def by blast
  have fresh: "\<not> seen b i" using seen_b less unfolding c1(2) by fastforce
  have "m \<le> co_opSeq c + 1" if "seen (wo_store w') (op_id ?g op' cl m)" for op' cl m
  proof -
    from seen_call [OF b(1), of "world_env w" k] b(2) that assms(4)
    have "seen b (op_id ?g op' cl m) \<or> op_id ?g op' cl m = i" by auto
    then show ?thesis
      using seen_b [of op' cl m] less op_id_seq [of ?g op' cl m ?g op n "co_opSeq c + 1"] c1(2) by auto
  qed
  then have "cinv w' c1"
    using assms(1) b(3) core_ok_mono [OF b(4)] foreign_mono [OF b(4)] c1
    unfolding coord_inv_def by simp
  with b fresh show thesis using that by blast
qed

lemma setState_inv:
  assumes "cinv w c" and "setState B w c to r = (w', c', er)"
  shows "cinv w' c' \<and> gen_ID (co_gen c') = gen_ID (co_gen c) \<and> co_opSeq c' = co_opSeq c
       \<and> core c' = core c"
proof -
  have upd: "cinv (fst (backend_call B w (CUpdate g))) c" for g
    by (cases "backend_call B w (CUpdate g)") (auto intro: anonymous_call [OF assms(1), where k = "CUpdate g"])
  have gen: "cinv v (c\<lparr>co_gen := (co_gen c)\<lparr>gen_State := to, gen_Reason := r, gen_UpdatedAt := t\<rparr>\<rparr>) = cinv v c"
    "cinv v (c\<lparr>co_gen := (co_gen c)\<lparr>gen_Reason := r, gen_UpdatedAt := t\<rparr>\<rparr>) = cinv v c" for v t
    by (rule coord_inv_cong; simp)+
  show ?thesis
    using assms(2) upd assms(1)
    by (auto simp: setState_def Let_def gen split: if_splits)
qed

end

text \<open>
  The operations of the coordinator keep the invariant and its generation, and use at most two
  operation identifiers each.
\<close>

definition seq_le :: "nat \<Rightarrow> Coordinator \<Rightarrow> Coordinator \<Rightarrow> bool" where
  "seq_le k c c' \<longleftrightarrow>
     gen_ID (co_gen c') = gen_ID (co_gen c) \<and> unat (co_opSeq c') \<le> unat (co_opSeq c) + k"

lemma seq_le_same: "co_gen c' = co_gen c \<Longrightarrow> co_opSeq c' = co_opSeq c \<Longrightarrow> seq_le k c c'"
  by (simp add: seq_le_def)

lemma seq_le_trans: "seq_le k c c' \<Longrightarrow> seq_le l c' c'' \<Longrightarrow> seq_le (k + l) c c''"
  by (auto simp: seq_le_def)

lemma seq_le_new: "newOpID c op n = (c1, i) \<Longrightarrow> seq_le 1 c c1"
proof -
  assume "newOpID c op n = (c1, i)"
  then have c1: "c1 = c\<lparr>co_opSeq := co_opSeq c + 1\<rparr>" by (rule newOpID_simps)
  have "unat (co_opSeq c + 1) \<le> unat (co_opSeq c) + 1"
    by (simp add: unat_word_ariths mod_less_eq_dividend)
  then show ?thesis by (simp add: seq_le_def c1)
qed

lemma seq_room: "unat (s :: u64) + 1 < 2 ^ 64 \<Longrightarrow> s \<noteq> - 1"
proof
  assume room: "unat s + 1 < 2 ^ 64" and "s = - 1"
  then have "unat s = 2 ^ 64 - 1" by (simp add: unsigned_minus_1_eq_mask mask_eq_exp_minus_1)
  with room show False by simp
qed

context fenced_backend
begin

lemma renew_tick_inv:
  assumes inv: "cinv w c" and room: "unat (co_opSeq c) + 1 < 2 ^ 64"
    and tick: "renew_tick B w c n = (w', c', k)"
  shows "cinv w' c' \<and> seq_le 1 c c'"
proof (cases "get_claim c n = None \<or> currentLeaseToken c n = None")
  case True
  then show ?thesis using tick inv
    by (auto simp: renew_tick_def seq_le_same split: option.splits)
next
  case False
  then obtain cl token where cl: "get_claim c n = Some cl" "currentLeaseToken c n = Some token" by auto
  obtain c1 i where new: "newOpID c ''renew'' n = (c1, i)" by force
  define req where "req = \<lparr>rn_ClaimName = n, rn_GenerationID = gen_ID (co_gen c1),
     rn_Token = token, rn_TTL = renew_ttl c1 cl, rn_OperationID = i\<rparr>"
  obtain w1 rec er where call: "backend_call B w (CRenew req) = (w1, rec, er)" by (metis prod.collapse)
  from own_call [OF inv seq_room [OF room] new _ call] obtain b where
    b: "wf b" "\<not> seen b i" "RenewClaim B b (world_env w) req = (wo_store w1, rec, er)"
      "cinv w1 c1" "world_ok wf view w1"
    by (auto simp: req_def)
  have rec_ok: "cinv w1 (applyRecord w1 c1 n r)" if "rec = Some r" "er = None" for r
  proof (rule applyRecord_inv [OF b(4)])
    assume "Controls (ToOwnership (Some r)) (gen_ID (co_gen c1))"
    moreover have "view (wo_store w1) n = rec_view r"
      using renew_ok [OF b(1) _ b(3) [unfolded that]] b(2) by (auto simp: req_def)
    ultimately show "granted view w1 (gen_ID (co_gen c1)) n (cr_FencingToken r)"
      using granted_now [OF b(5)] by blast
  qed
  have step: "renew_tick B w c n =
     (case (w1, rec, er) of
        (w, rec, Some er) \<Rightarrow>
          (let c = revokeLease w c1 n ReasonExpired;
               c = coord_emit w c ((new_event EventClaimLost)\<lparr>ev_Claim := n, ev_Token := token,
                      ev_Err := Error_string er, ev_Reason := ReasonExpired\<rparr>)
           in (w, clearRenewing c n, False))
      | (w, None, None) \<Rightarrow> (w, clearRenewing c1 n, False)
      | (w, Some rec, None) \<Rightarrow>
          (let c = applyRecord w c1 n rec;
               c = c\<lparr>co_lastHeartbeat := world_now w\<rparr>;
               c = coord_emit w c ((new_event EventClaimRenewed)\<lparr>ev_Claim := n,
                      ev_Token := cr_FencingToken rec, ev_Reason := ReasonRenewed\<rparr>);
               c = coord_emit w c ((new_event EventBackendHeartbeat)\<lparr>ev_Claim := n\<rparr>)
           in (w, c, True)))"
    by (simp add: renew_tick_def cl new call [symmetric] req_def)
  from seq_le_new [OF new] rec_ok b(4) step tick show ?thesis
    by (auto simp: seq_le_def revokeLease_inv Let_def split: option.splits)
qed

lemma acquire_enter_inv:
  assumes "cinv w c" and "acquire_enter c n = (c', r)"
  shows "cinv w c' \<and> co_gen c' = co_gen c \<and> co_opSeq c' = co_opSeq c"
proof -
  have "cinv w (put_claim c n (cl\<lparr>cl_acquiring := True\<rparr>))" if "get_claim c n = Some cl" for cl
    using coord_inv_on [of "\<lambda>cl. cl\<lparr>cl_acquiring := True\<rparr>" wf view seen w c n] assms(1) that
    by (simp add: on_claim_def)
  with assms show ?thesis
    by (auto simp: acquire_enter_def split: option.splits if_splits)
qed

lemma acquire_install_inv:
  assumes inv: "cinv w c" and room: "unat (co_opSeq c) + 1 < 2 ^ 64"
    and rec: "view (wo_store w) n = rec_view rec"
    and step: "acquire_install B w c n rec = (w', c', r)"
  shows "cinv w' c' \<and> seq_le 1 c c'"
proof (cases "get_claim c n")
  case None
  with inv step show ?thesis by (auto simp: acquire_install_def seq_le_same)
next
  case (Some cl)
  show ?thesis
  proof (cases "cl_closed cl")
    case True
    obtain c1 i where new: "newOpID c ''release-compensate'' n = (c1, i)" by force
    define req where "req = \<lparr>rl_ClaimName = n, rl_GenerationID = gen_ID (co_gen c1),
        rl_Token = cr_FencingToken rec, rl_OperationID = i\<rparr>"
    obtain w1 res er where call: "backend_call B w (CRelease req) = (w1, res, er)" by (metis prod.collapse)
    have "cinv w1 c1"
      using own_call [OF inv seq_room [OF room] new _ call] by (auto simp: req_def)
    moreover have "w' = w1" "c' = c1"
      using step Some True new call by (auto simp: acquire_install_def req_def)
    ultimately show ?thesis using seq_le_new [OF new] by simp
  next
    case False
    define c1 where "c1 = on_claim (drop_lease c n) n (\<lambda>cl. cl\<lparr>cl_record := rec\<rparr>)"
    have world: "world_ok wf view w" using inv by (simp add: coord_inv_def)
    have gen: "co_gen c1 = co_gen c" "co_opSeq c1 = co_opSeq c" by (simp_all add: c1_def)
    have inv1: "cinv w c1"
      unfolding c1_def
      by (rule coord_inv_record [OF coord_inv_drop [OF inv]]) (rule granted_now [OF world rec], simp)
    have inv2: "cinv w (fst (install_lease c1 n (cr_FencingToken rec)))"
      if "OwnedBy (ToOwnership (Some rec)) (gen_ID (co_gen c))"
      using granted_now [OF world rec OwnedBy_Controls [OF that]] Some gen
      by (intro coord_inv_install inv1) (auto simp: c1_def get_on lease_of_drop)
    obtain c2 j where inst: "install_lease c1 n (cr_FencingToken rec) = (c2, j)" by force
    obtain w3 c3 er where st: "setState B w c2 StateActive ReasonAcquired = (w3, c3, er)"
      by (metis prod.collapse)
    have frame: "co_gen c2 = co_gen c" "co_opSeq c2 = co_opSeq c"
      using install_frame(1,2) [of c1 n "cr_FencingToken rec"] gen by (simp_all add: inst)
    have fin: "cinv w3 c3 \<and> gen_ID (co_gen c3) = gen_ID (co_gen c) \<and> co_opSeq c3 = co_opSeq c"
      if "OwnedBy (ToOwnership (Some rec)) (gen_ID (co_gen c))"
      using setState_inv [OF _ st] inv2 [OF that] frame by (simp add: inst)
    from step Some False inv inv1 gen fin show ?thesis
      unfolding acquire_install_def
      by (auto simp: Let_def c1_def [symmetric] inst st seq_le_def split: if_splits)
  qed
qed

end

section \<open>Calls of one generation seen by another\<close>

text \<open>
  How an operation of generation \<open>g\<close> moves the world: by backend calls that carry no operation
  identifier or one of its own.
\<close>

inductive wmoves :: "'b Backend \<Rightarrow> string \<Rightarrow> 'b world \<Rightarrow> 'b world \<Rightarrow> bool" for B g where
  wm_refl: "wmoves B g w w"
| wm_step: "wmoves B g w w1 \<Longrightarrow> backend_call B w1 k = (w2, res) \<Longrightarrow>
     call_op k = '''' \<or> (\<exists>op cl m. call_op k = op_id g op cl m) \<Longrightarrow> wmoves B g w w2"

lemma wmoves_trans: "wmoves B g w2 w3 \<Longrightarrow> wmoves B g w1 w2 \<Longrightarrow> wmoves B g w1 w3"
  by (induction rule: wmoves.induct) (auto intro: wm_step)

lemma wmoves_call:
  assumes "call_op k = '''' \<or> (\<exists>op cl m. call_op k = op_id g op cl m)"
  shows "wmoves B g w (fst (backend_call B w k))"
  by (rule wm_step [OF wm_refl prod.collapse [symmetric] assms])

lemma setState_wmoves: "wmoves B g w (fst (setState B w c to r))"
  using wmoves_call [of "CUpdate gen" g B w for gen]
  by (auto simp: setState_def Let_def intro: wm_refl)

lemma setState_gen:
  "gen_ID (co_gen (fst (snd (setState B w c to r)))) = gen_ID (co_gen c)"
  by (auto simp: setState_def Let_def)

lemma own_wmoves:
  assumes "backend_call B w k = (w', res)" and "newOpID c op n = (c1, i)" and "call_op k = i"
  shows "wmoves B (gen_ID (co_gen c)) w w'"
proof (rule wm_step [OF wm_refl assms(1)])
  show "call_op k = '''' \<or> (\<exists>op cl m. call_op k = op_id (gen_ID (co_gen c)) op cl m)"
    using newOpID_simps(2) [OF assms(2)] assms(3) by blast
qed

lemma renew_tick_wmoves:
  assumes "renew_tick B w c n = (w', r)"
  shows "wmoves B (gen_ID (co_gen c)) w w'"
  using assms
  by (auto simp: renew_tick_def Let_def split: option.splits prod.splits
      intro: wm_refl elim!: own_wmoves)

lemma acquire_install_wmoves:
  assumes "acquire_install B w c n rec = (w', r)"
  shows "wmoves B (gen_ID (co_gen c)) w w'"
proof -
  have state: "wmoves B g w w2" if "setState B w c2 s t = (w2, res)" for g c2 s t w2 res
    using setState_wmoves [of B g w c2 s t] that by simp
  have rel: "wmoves B (gen_ID (co_gen c)) w (fst (backend_call B w (CRelease req)))"
    if "newOpID c op n = (c1, i)" "rl_OperationID req = i" for op c1 i req
    using newOpID_simps(2) [OF that(1)] that(2) by (intro wmoves_call) auto
  show ?thesis
    using assms rel
    by (auto simp: acquire_install_def Let_def split: option.splits prod.splits if_splits
        intro: wm_refl state)
qed

lemma tryAcquire_wmoves:
  assumes "tryAcquire B mid w c n = (w', r)" and "\<And>c. co_gen (mid c) = co_gen c"
  shows "wmoves B (gen_ID (co_gen c)) w w'"
proof (cases "acquire_enter c n")
  case (Pair c1 entry)
  have gen: "co_gen c1 = co_gen c"
    using Pair by (auto simp: acquire_enter_def split: option.splits if_splits)
  show ?thesis
  proof (cases entry)
    case (AcqReturn x)
    with Pair assms(1) show ?thesis by (auto simp: tryAcquire_def intro: wm_refl)
  next
    case AcqProceed
    obtain c2 i where new: "newOpID c1 ''acquire'' n = (c2, i)" by force
    have gen2: "co_gen c2 = co_gen c" using newOpID_simps(4) [OF new] gen by simp
    define req where "req = \<lparr>aq_ClaimName = n, aq_GenerationID = gen_ID (co_gen c2),
       aq_TTL = cfg_LeaseTTL (co_cfg c2), aq_AllowEmptyOnly = False, aq_OperationID = i\<rparr>"
    obtain w1 rec er where call: "backend_call B w (CAcquire req) = (w1, rec, er)" by (metis prod.collapse)
    have one: "wmoves B (gen_ID (co_gen c)) w w1"
      using own_wmoves [OF call new] by (simp add: req_def gen)
    have two: "wmoves B (gen_ID (co_gen c)) w1 w2" if "acquire_install B w1 (mid c2) n x = (w2, y)" for w2 x y
      using acquire_install_wmoves [OF that] by (simp add: assms(2) gen2)
    show ?thesis
      using assms(1) Pair AcqProceed new call one
      by (auto simp: tryAcquire_def req_def [symmetric] split: option.splits prod.splits
          dest!: two intro: wmoves_trans)
  qed
qed

lemma claim_Release_wmoves:
  assumes "claim_Release B w c n = (w', r)"
  shows "wmoves B (gen_ID (co_gen c)) w w'"
  using assms
  by (auto simp: claim_Release_def Let_def split: option.splits prod.splits
      intro: wm_refl elim!: own_wmoves)

lemma coord_Close_wmoves:
  assumes "coord_Close B w c = (w', r)"
  shows "wmoves B g w w'"
proof -
  have state: "wmoves B g w w2" if "setState B w c2 s t = (w2, res)" for c2 s t w2 res
    using setState_wmoves [of B g w c2 s t] that by simp
  show ?thesis
    using assms by (auto simp: coord_Close_def Let_def split: prod.splits if_splits intro: wm_refl state)
qed

definition ids_disjoint :: "string \<Rightarrow> string \<Rightarrow> bool" where
  "ids_disjoint g h \<longleftrightarrow> (\<forall>op cl m op' cl' m'. op_id g op cl m \<noteq> op_id h op' cl' m')"

context fenced_backend
begin

lemma wmoves_inv:
  "wmoves B g w w' \<Longrightarrow> cinv w c \<Longrightarrow> ids_disjoint g (gen_ID (co_gen c)) \<Longrightarrow> cinv w' c"
proof (induction rule: wmoves.induct)
  case (wm_step w w1 k w2 res)
  have "call_op k \<noteq> op_id (gen_ID (co_gen c)) op cl m" for op cl m
    using wm_step.hyps(3) wm_step.prems(2) unfolding ids_disjoint_def by (metis op_id_nonempty)
  then show ?case using wm_step foreign_call by blast
qed

end

section \<open>Whole operations\<close>

definition close_all :: "string list \<Rightarrow> Coordinator \<Rightarrow> Coordinator" where
  "close_all ns c = foldl claim_close c ns"

lemma close_all_inv: "coord_inv ok view seen w c \<Longrightarrow> coord_inv ok view seen w (close_all ns c)"
  by (induction ns arbitrary: c) (simp_all add: close_all_def claim_close_inv)

lemma close_all_frame [simp]:
  "co_gen (close_all ns c) = co_gen c" "co_opSeq (close_all ns c) = co_opSeq c"
  by (induction ns arbitrary: c) (simp_all add: close_all_def)

context fenced_backend
begin

lemma tryAcquire_inv:
  assumes inv: "cinv w c" and room: "unat (co_opSeq c) + 2 < 2 ^ 64"
    and step: "tryAcquire B (close_all ns) w c n = (w', c', r)"
  shows "cinv w' c' \<and> seq_le 2 c c'"
proof (cases "acquire_enter c n")
  case (Pair c1 entry)
  note enter = acquire_enter_inv [OF inv Pair]
  show ?thesis
  proof (cases entry)
    case (AcqReturn x)
    with Pair step enter show ?thesis by (auto simp: tryAcquire_def seq_le_same)
  next
    case AcqProceed
    obtain c2 i where new: "newOpID c1 ''acquire'' n = (c2, i)" by force
    define req where "req = \<lparr>aq_ClaimName = n, aq_GenerationID = gen_ID (co_gen c2),
       aq_TTL = cfg_LeaseTTL (co_cfg c2), aq_AllowEmptyOnly = False, aq_OperationID = i\<rparr>"
    obtain w1 rec er where call: "backend_call B w (CAcquire req) = (w1, rec, er)" by (metis prod.collapse)
    have "co_opSeq c1 \<noteq> - 1" using room enter by (intro seq_room) simp
    from own_call [OF _ this new _ call] enter obtain b where
      b: "wf b" "\<not> seen b i" "AcquireClaim B b (world_env w) req = (wo_store w1, rec, er)"
        "cinv w1 c2"
      by (auto simp: req_def)
    have le: "seq_le 1 c c2" using seq_le_new [OF new] enter by (simp add: seq_le_def)
    have room2: "unat (co_opSeq (close_all ns c2)) + 1 < 2 ^ 64"
      using le room by (simp add: seq_le_def)
    have inst: "cinv w2 c3 \<and> seq_le 2 c c3"
      if "rec = Some x" "er = None" "acquire_install B w1 (close_all ns c2) n x = (w2, c3, y)" for x w2 c3 y
    proof -
      have "view (wo_store w1) n = rec_view x"
        using acquire_ok [OF b(1) _ b(3) [unfolded that]] b(2) that(1) by (auto simp: req_def)
      from acquire_install_inv [OF close_all_inv [OF b(4)] room2 this that(3)] le show ?thesis
        by (auto simp: seq_le_def)
    qed
    show ?thesis
    proof (cases "er = None \<and> rec \<noteq> None")
      case True
      then obtain x where x: "rec = Some x" "er = None" by blast
      obtain w2 c3 y where fin: "acquire_install B w1 (close_all ns c2) n x = (w2, c3, y)"
        by (metis prod.collapse)
      have "w' = w2" "c' = acquire_leave c3 n"
        using step Pair AcqProceed new call x fin by (auto simp: tryAcquire_def req_def)
      with inst [OF x fin] show ?thesis by (simp add: seq_le_def)
    next
      case False
      then have "w' = w1" "c' = acquire_leave (close_all ns c2) n"
        using step Pair AcqProceed new call
        by (auto simp: tryAcquire_def req_def split: option.splits)
      with le close_all_inv [OF b(4)] show ?thesis by (simp add: seq_le_def)
    qed
  qed
qed

lemma claim_Release_inv:
  assumes inv: "cinv w c" and room: "unat (co_opSeq c) + 1 < 2 ^ 64"
    and step: "claim_Release B w c n = (w', c', r)"
  shows "cinv w' c' \<and> seq_le 1 c c'"
proof (cases "Option.bind (get_claim c n) cl_lease")
  case None
  with step inv show ?thesis by (auto simp: claim_Release_def seq_le_same)
next
  case (Some j)
  obtain c1 i where new: "newOpID c ''release'' n = (c1, i)" by force
  define req where "req = \<lparr>rl_ClaimName = n, rl_GenerationID = gen_ID (co_gen c1),
     rl_Token = le_token (co_leases c ! j), rl_OperationID = i\<rparr>"
  obtain w1 rec er where call: "backend_call B w (CRelease req) = (w1, rec, er)" by (metis prod.collapse)
  have "cinv w1 c1" using own_call [OF inv seq_room [OF room] new _ call] by (auto simp: req_def)
  with step Some new call seq_le_new [OF new] show ?thesis
    by (auto simp: claim_Release_def Let_def req_def [symmetric] revokeLease_inv seq_le_def
        split: option.splits)
qed

lemma coord_Close_inv:
  assumes inv: "cinv w c" and step: "coord_Close B w c = (w', c', r)"
  shows "cinv w' c' \<and> seq_le 0 c c'"
proof (cases "co_closed c")
  case True
  with step inv show ?thesis by (auto simp: coord_Close_def seq_le_same)
next
  case False
  let ?c1 = "close_all (map fst (co_claims c)) (c\<lparr>co_closed := True\<rparr>)"
  obtain w2 c2 er where st: "setState B w ?c1 StateRetired ReasonClosed = (w2, c2, er)"
    by (metis prod.collapse)
  have "cinv w ?c1" by (rule close_all_inv) (simp add: inv)
  from setState_inv [OF this st] step False st show ?thesis
    by (auto simp: coord_Close_def Let_def close_all_def [symmetric] seq_le_def)
qed

end

end
