(* ===== verification/Handoff.thy ===== *)
theory Handoff
  imports Coordinator_Safety
begin

text \<open>
  \<open>handoff.go\<close> and \<open>Coordinator.PrepareHandoff\<close>: the graceful transfer of all claims of a
  generation to a successor. The handoff object is the record \<open>Handoff\<close>; its claims are visited
  in the order of \<open>ho_claims\<close> (Go leaves the order of the map it was built from open). Waiting
  for a drain group is a parameter: \<open>wait n g\<close> is the group of claim \<open>n\<close> when \<open>Wait\<close> returns, and
  its result, after whatever the workers did to the group in the meantime. Between the backend calls
  of an operation other clients of the store may act; the renewal goroutines of the same process act
  between operations, not inside them.
\<close>

datatype HandoffStatus =
    HandoffPending | HandoffDraining | HandoffTransferring | HandoffCommitted | HandoffAborted
  | HandoffFailed

primrec HandoffStatus_string :: "HandoffStatus \<Rightarrow> string" where
  "HandoffStatus_string HandoffPending = ''pending''"
| "HandoffStatus_string HandoffDraining = ''draining''"
| "HandoffStatus_string HandoffTransferring = ''transferring''"
| "HandoffStatus_string HandoffCommitted = ''committed''"
| "HandoffStatus_string HandoffAborted = ''aborted''"
| "HandoffStatus_string HandoffFailed = ''failed''"

record Handoff =
  ho_claims :: "string list"
  ho_status :: HandoffStatus
  ho_successorID :: string
  ho_drainDone :: bool
  ho_transferDone :: bool
  ho_tokens :: "(string \<times> FencingToken) list"
  ho_watcherStarted :: bool
  ho_err :: "go_error option"

type_synonym drain_env = "string \<Rightarrow> DrainGroup \<Rightarrow> DrainGroup \<times> go_error option"

definition PrepareHandoff ::
  "'b Backend \<Rightarrow> 'b world \<Rightarrow> Coordinator \<Rightarrow> string list \<Rightarrow> 'b world \<times> Coordinator \<times> (Handoff + go_error)" where
  "PrepareHandoff B w c order =
     (case checkOpen c of
        Some er \<Rightarrow> (w, c, Inr (wrap ''PrepareHandoff'' er))
      | None \<Rightarrow>
          (case setState B w c StateDraining ReasonDrainStarted of
             (w, c, Some er) \<Rightarrow> (w, c, Inr (wrap ''PrepareHandoff'' er))
           | (w, c, None) \<Rightarrow>
               (w, coord_emit w c ((new_event EventHandoffStarted)\<lparr>ev_Reason := ReasonDrainStarted\<rparr>),
                Inl \<lparr>ho_claims = order, ho_status = HandoffPending, ho_successorID = '''',
                     ho_drainDone = False, ho_transferDone = False, ho_tokens = [],
                     ho_watcherStarted = False, ho_err = None\<rparr>)))"

definition handoff_fail :: "'b world \<Rightarrow> Coordinator \<Rightarrow> Handoff \<Rightarrow> go_error \<Rightarrow> Coordinator \<times> Handoff" where
  "handoff_fail w c h er =
     (coord_emit w c ((new_event EventHandoffFailed)\<lparr>ev_Err := Error_string er,
        ev_Reason := ReasonFailed\<rparr>),
      h\<lparr>ho_status := HandoffFailed, ho_err := Some er\<rparr>)"

section \<open>Drain\<close>

fun drain_claims ::
  "drain_env \<Rightarrow> nat \<Rightarrow> Coordinator \<Rightarrow> string list \<Rightarrow> Coordinator \<times> (string \<times> go_error) option" where
  "drain_claims wait deadline c [] = (c, None)"
| "drain_claims wait deadline c (n # ns) =
     (case get_claim c n of
        None \<Rightarrow> (c, Some (n, EText ''panic: nil claim''))
      | Some cl \<Rightarrow>
          (case wait n (drain_StartDrain (drain_SetDeadline (cl_drain cl) (Some deadline))) of
             (g, res) \<Rightarrow>
               (let c = put_claim c n (cl\<lparr>cl_drain := g\<rparr>)
                in case res of
                     Some er \<Rightarrow> (c, Some (n, er))
                   | None \<Rightarrow> drain_claims wait deadline c ns)))"

definition handoff_Drain ::
  "'b Backend \<Rightarrow> drain_env \<Rightarrow> 'b world \<Rightarrow> Coordinator \<Rightarrow> Handoff
   \<Rightarrow> 'b world \<times> Coordinator \<times> Handoff \<times> go_error option" where
  "handoff_Drain B wait w c h =
     (if ho_status h \<noteq> HandoffPending \<and> ho_status h \<noteq> HandoffDraining then
        (w, c, h, Some (op_error ''Handoff.Drain'' ErrInvalidState (HandoffStatus_string (ho_status h))))
      else
        (let h = h\<lparr>ho_status := HandoffDraining\<rparr>
         in case setState B w c StateDraining ReasonDrainStarted of (w, c, _) \<Rightarrow>
           (let c = coord_emit w c ((new_event EventDrainStarted)\<lparr>ev_Reason := ReasonDrainStarted\<rparr>)
            in case drain_claims wait (wo_n w) c (ho_claims h) of
                 (c, Some (n, er)) \<Rightarrow>
                   (let c = coord_emit w c ((new_event EventDrainFailed)\<lparr>ev_Claim := n,
                              ev_Err := Error_string er\<rparr>)
                    in case handoff_fail w c h er of
                         (c, h) \<Rightarrow> (w, c, h, Some (wrap ''Handoff.Drain'' er)))
               | (c, None) \<Rightarrow>
                   (w, coord_emit w c ((new_event EventDrainCompleted)\<lparr>ev_Reason := ReasonDrainComplete\<rparr>),
                    h\<lparr>ho_drainDone := True\<rparr>, None))))"

section \<open>Compensation\<close>

fun abort_loop ::
  "'b Backend \<Rightarrow> string \<Rightarrow> (string \<times> FencingToken) list \<Rightarrow> 'b world \<Rightarrow> Coordinator \<Rightarrow> Handoff
   \<Rightarrow> string list \<Rightarrow> 'b world \<times> Coordinator \<times> Handoff" where
  "abort_loop B successor tokens w c h [] = (w, c, h)"
| "abort_loop B successor tokens w c h (n # ns) =
     (case map_of tokens n of
        None \<Rightarrow> abort_loop B successor tokens w c h ns
      | Some token \<Rightarrow>
     (case newOpID c ''abort-compensate'' n of (c, opid) \<Rightarrow>
     (case backend_call B w (CAbort \<lparr>ab_ClaimName = n, ab_FromGeneration = gen_ID (co_gen c),
             ab_ToGeneration = successor, ab_ExpectedToken = token, ab_OperationID = opid\<rparr>) of
        (w, _, Some er) \<Rightarrow>
          abort_loop B successor tokens w
            (coord_emit w c ((new_event EventTransferAborted)\<lparr>ev_Claim := n,
               ev_Err := Error_string er\<rparr>)) h ns
      | (w, None, None) \<Rightarrow> (w, c, h)
      | (w, Some rec, None) \<Rightarrow>
          abort_loop B successor tokens w (restoreLease c n rec)
            (h\<lparr>ho_tokens := AList.delete n (ho_tokens h)\<rparr>) ns)))"

definition abortTokens ::
  "'b Backend \<Rightarrow> 'b world \<Rightarrow> Coordinator \<Rightarrow> Handoff \<Rightarrow> (string \<times> FencingToken) list
   \<Rightarrow> 'b world \<times> Coordinator \<times> Handoff" where
  "abortTokens B w c h tokens =
     (if tokens = [] then (w, c, h)
      else abort_loop B (ho_successorID h) tokens w c h (ho_claims h))"

definition abortPrepared ::
  "'b Backend \<Rightarrow> 'b world \<Rightarrow> Coordinator \<Rightarrow> Handoff \<Rightarrow> 'b world \<times> Coordinator \<times> Handoff" where
  "abortPrepared B w c h = abortTokens B w c h (ho_tokens h)"

definition abortUncommitted ::
  "'b Backend \<Rightarrow> 'b world \<Rightarrow> Coordinator \<Rightarrow> Handoff \<Rightarrow> string list
   \<Rightarrow> 'b world \<times> Coordinator \<times> Handoff" where
  "abortUncommitted B w c h committed =
     abortTokens B w c h (filter (\<lambda>(n, t). n \<notin> set committed) (ho_tokens h))"

definition startTimeoutWatcher :: "Handoff \<Rightarrow> Handoff" where
  "startTimeoutWatcher h = h\<lparr>ho_watcherStarted := True\<rparr>"

section \<open>Transfer\<close>

fun transfer_loop ::
  "'b Backend \<Rightarrow> string \<Rightarrow> duration \<Rightarrow> 'b world \<Rightarrow> Coordinator \<Rightarrow> Handoff \<Rightarrow> string list
   \<Rightarrow> 'b world \<times> Coordinator \<times> Handoff \<times> (string \<times> go_error) option" where
  "transfer_loop B successor ttl w c h [] = (w, c, h, None)"
| "transfer_loop B successor ttl w c h (n # ns) =
     (case currentLeaseToken c n of
        None \<Rightarrow> transfer_loop B successor ttl w c h ns
      | Some token \<Rightarrow>
     (case newOpID c ''prepare'' n of (c, opid) \<Rightarrow>
     (case backend_call B w (CPrepare \<lparr>tr_ClaimName = n, tr_FromGeneration = gen_ID (co_gen c),
             tr_ToGeneration = successor, tr_Token = token, tr_TTL = ttl, tr_OperationID = opid\<rparr>) of
        (w, _, Some er) \<Rightarrow> (w, c, h, Some (n, er))
      | (w, None, None) \<Rightarrow> (w, c, h, Some (n, EText ''panic: nil record''))
      | (w, Some rec, None) \<Rightarrow>
          (let c = applyRecord w c n rec;
               h = h\<lparr>ho_tokens := AList.update n (cr_FencingToken rec) (ho_tokens h)\<rparr>;
               c = coord_emit w c ((new_event EventTransferPrepared)\<lparr>ev_Claim := n,
                      ev_Token := cr_FencingToken rec, ev_Reason := ReasonTransferPrepared,
                      ev_Attrs := [(''successor'', successor)]\<rparr>)
           in transfer_loop B successor ttl w c h ns))))"

definition handoff_Transfer ::
  "'b Backend \<Rightarrow> drain_env \<Rightarrow> 'b world \<Rightarrow> Coordinator \<Rightarrow> Handoff \<Rightarrow> string
   \<Rightarrow> 'b world \<times> Coordinator \<times> Handoff \<times> go_error option" where
  "handoff_Transfer B wait w c h successor =
     (if successor = '''' then
        (w, c, h, Some (op_error ''Handoff.Transfer'' ErrPolicy ''successor required''))
      else if ho_status h = HandoffCommitted \<or> ho_status h = HandoffAborted then
        (w, c, h, Some (op_error ''Handoff.Transfer'' ErrInvalidState (HandoffStatus_string (ho_status h))))
      else
        (case (if ho_drainDone h then (w, c, h, None) else handoff_Drain B wait w c h) of
           (w, c, h, Some er) \<Rightarrow> (w, c, h, Some er)
         | (w, c, h, None) \<Rightarrow>
             (let h = h\<lparr>ho_status := HandoffTransferring, ho_successorID := successor, ho_tokens := []\<rparr>
              in case setState B w c StateTransferring ReasonTransferPrepared of (w, c, _) \<Rightarrow>
                (let ttl = reservationTTL (cfg_LeaseTTL (co_cfg c)) (cfg_TransferTimeout (co_cfg c))
                 in case transfer_loop B successor ttl w c h (ho_claims h) of
                      (w, c, h, Some (n, er)) \<Rightarrow>
                        (case handoff_fail w c h er of (c, h) \<Rightarrow>
                         (case abortPrepared B w c (startTimeoutWatcher h) of (w, c, h) \<Rightarrow>
                           (w, coord_emit w c ((new_event EventTransferAborted)\<lparr>ev_Claim := n,
                                  ev_Err := Error_string er\<rparr>),
                            h, Some (wrapClaim ''Handoff.Transfer'' n er))))
                    | (w, c, h, None) \<Rightarrow>
                        (w, c, startTimeoutWatcher (h\<lparr>ho_transferDone := True\<rparr>), None)))))"

section \<open>Commit and Abort\<close>

fun commit_loop ::
  "'b Backend \<Rightarrow> string \<Rightarrow> (string \<times> FencingToken) list \<Rightarrow> 'b world \<Rightarrow> Coordinator \<Rightarrow> Handoff
   \<Rightarrow> string list \<Rightarrow> string list \<Rightarrow> 'b world \<times> Coordinator \<times> Handoff \<times> string list \<times> (string \<times> go_error) option" where
  "commit_loop B successor tokens w c h committed [] = (w, c, h, committed, None)"
| "commit_loop B successor tokens w c h committed (n # ns) =
     (case map_of tokens n of
        None \<Rightarrow> commit_loop B successor tokens w c h committed ns
      | Some token \<Rightarrow>
     (case newOpID c ''commit'' n of (c, opid) \<Rightarrow>
     (case backend_call B w (CCommit \<lparr>cm_ClaimName = n, cm_FromGeneration = gen_ID (co_gen c),
             cm_ToGeneration = successor, cm_ExpectedToken = token,
             cm_TTL = cfg_LeaseTTL (co_cfg c), cm_OperationID = opid\<rparr>) of
        (w, _, Some er) \<Rightarrow> (w, c, h, committed, Some (n, er))
      | (w, None, None) \<Rightarrow> (w, c, h, committed, Some (n, EText ''panic: nil record''))
      | (w, Some rec, None) \<Rightarrow>
          (let c = applyRecord w c n rec;
               c = revokeLease w c n ReasonTransferCommitted;
               h = h\<lparr>ho_tokens := AList.delete n (ho_tokens h)\<rparr>;
               c = coord_emit w c ((new_event EventTransferCommitted)\<lparr>ev_Claim := n,
                      ev_Token := cr_FencingToken rec, ev_Reason := ReasonTransferCommitted\<rparr>)
           in commit_loop B successor tokens w c h (n # committed) ns))))"

definition handoff_Commit ::
  "'b Backend \<Rightarrow> 'b world \<Rightarrow> Coordinator \<Rightarrow> Handoff
   \<Rightarrow> 'b world \<times> Coordinator \<times> Handoff \<times> go_error option" where
  "handoff_Commit B w c h =
     (if \<not> ho_transferDone h then
        (w, c, h, Some (op_error ''Handoff.Commit'' ErrNoTransfer ''call Transfer first''))
      else if ho_status h = HandoffCommitted then (w, c, h, None)
      else if ho_status h = HandoffAborted then (w, c, h, Some (Sentinel ErrHandoffAborted))
      else
        (case commit_loop B (ho_successorID h) (ho_tokens h) w c h [] (ho_claims h) of
           (w, c, h, committed, Some (n, er)) \<Rightarrow>
             (case handoff_fail w c h er of (c, h) \<Rightarrow>
              (case abortUncommitted B w c (startTimeoutWatcher h) committed of
                 (w, c, h) \<Rightarrow> (w, c, h, Some (wrapClaim ''Handoff.Commit'' n er))))
         | (w, c, h, committed, None) \<Rightarrow>
             (case setState B w c StateRetired ReasonRetired of (w, c, _) \<Rightarrow>
                (w, coord_emit w c ((new_event EventHandoffCompleted)\<lparr>ev_Reason := ReasonTransferCommitted\<rparr>),
                 h\<lparr>ho_status := HandoffCommitted\<rparr>, None))))"

fun abort_all ::
  "'b Backend \<Rightarrow> string \<Rightarrow> (string \<times> FencingToken) list \<Rightarrow> 'b world \<Rightarrow> Coordinator
   \<Rightarrow> string list \<Rightarrow> 'b world \<times> Coordinator \<times> (string \<times> go_error) option" where
  "abort_all B successor tokens w c [] = (w, c, None)"
| "abort_all B successor tokens w c (n # ns) =
     (case map_of tokens n of
        None \<Rightarrow> abort_all B successor tokens w c ns
      | Some token \<Rightarrow>
     (case newOpID c ''abort'' n of (c, opid) \<Rightarrow>
     (case backend_call B w (CAbort \<lparr>ab_ClaimName = n, ab_FromGeneration = gen_ID (co_gen c),
             ab_ToGeneration = successor, ab_ExpectedToken = token, ab_OperationID = opid\<rparr>) of
        (w, _, Some er) \<Rightarrow>
          (w, coord_emit w c ((new_event EventTransferAborted)\<lparr>ev_Claim := n,
             ev_Err := Error_string er\<rparr>), Some (n, er))
      | (w, None, None) \<Rightarrow> (w, c, Some (n, EText ''panic: nil record''))
      | (w, Some rec, None) \<Rightarrow>
          abort_all B successor tokens w
            (coord_emit w (restoreLease c n rec) ((new_event EventTransferAborted)\<lparr>ev_Claim := n,
               ev_Token := cr_FencingToken rec, ev_Reason := ReasonTransferAborted\<rparr>)) ns)))"

definition handoff_Abort ::
  "'b Backend \<Rightarrow> 'b world \<Rightarrow> Coordinator \<Rightarrow> Handoff
   \<Rightarrow> 'b world \<times> Coordinator \<times> Handoff \<times> go_error option" where
  "handoff_Abort B w c h =
     (if ho_status h = HandoffCommitted then
        (w, c, h, Some (op_error ''Handoff.Abort'' ErrInvalidState ''already committed''))
      else
        (let h = h\<lparr>ho_status := HandoffAborted\<rparr>
         in case abort_all B (ho_successorID h) (ho_tokens h) w c (ho_claims h) of
              (w, c, Some (n, er)) \<Rightarrow> (w, c, h, Some (wrapClaim ''Handoff.Abort'' n er))
            | (w, c, None) \<Rightarrow>
                (case setState B w c StateActive ReasonRollback of (w, c, _) \<Rightarrow>
                   (w, coord_emit w c ((new_event EventHandoffFailed)\<lparr>ev_Reason := ReasonTransferAborted\<rparr>),
                    h, None))))"

text \<open>The body of the timeout watcher when its timer fires.\<close>

definition handoff_timeout ::
  "'b Backend \<Rightarrow> 'b world \<Rightarrow> Coordinator \<Rightarrow> Handoff \<Rightarrow> 'b world \<times> Coordinator \<times> Handoff" where
  "handoff_timeout B w c h =
     (if ho_status h = HandoffTransferring \<or> (ho_status h = HandoffFailed \<and> ho_tokens h \<noteq> [])
      then (case handoff_Abort B w c h of (w, c, h, _) \<Rightarrow> (w, c, h))
      else (w, c, h))"

end
