(* ===== verification/Handoff_Safety.thy ===== *)
theory Handoff_Safety
  imports Handoff
begin

text \<open>
  The steps of a handoff keep the invariant of the coordinator (leases granted by the store, one
  live lease per claim), use a bounded number of operation identifiers and touch the store only
  by calls of the generation itself. \<open>advances k\<close> collects the three for an operation that uses at
  most \<open>k\<close> identifiers, and composes.
\<close>

definition advances ::
  "('b \<Rightarrow> bool) \<Rightarrow> ('b \<Rightarrow> string \<Rightarrow> claim_view) \<Rightarrow> ('b \<Rightarrow> OperationID \<Rightarrow> bool) \<Rightarrow> 'b Backend
   \<Rightarrow> nat \<Rightarrow> 'b world \<times> Coordinator \<Rightarrow> 'b world \<times> Coordinator \<Rightarrow> bool" where
  "advances ok view seen B k = (\<lambda>(w, c) (w', c').
     wmoves B (gen_ID (co_gen c)) w w' \<and> seq_le k c c'
     \<and> (coord_inv ok view seen w c \<and> unat (co_opSeq c) + k < 2 ^ 64 \<longrightarrow> coord_inv ok view seen w' c'))"

lemma advances_refl: "advances ok view seen B k s s"
  by (auto simp: advances_def seq_le_def intro: wm_refl)

lemma advances_trans:
  assumes "advances ok view seen B k s t" and "advances ok view seen B l t u"
  shows "advances ok view seen B (k + l) s u"
  using assms by (auto simp: advances_def seq_le_def intro: wmoves_trans split: prod.splits)

lemma advances_mono: "advances ok view seen B k s t \<Longrightarrow> k \<le> l \<Longrightarrow> advances ok view seen B l s t"
  by (auto simp: advances_def seq_le_def split: prod.splits)

lemma advances_local:
  assumes "coord_inv ok view seen w c \<Longrightarrow> coord_inv ok view seen w c'"
    and "co_gen c' = co_gen c" and "co_opSeq c' = co_opSeq c"
  shows "advances ok view seen B k (w, c) (w, c')"
  using assms by (auto simp: advances_def seq_le_def intro: wm_refl)

lemma advances_emit_iff [simp]:
  "advances ok view seen B k s (w, coord_emit v c ev) \<longleftrightarrow> advances ok view seen B k s (w, c)"
  "advances ok view seen B k (w, coord_emit v c ev) s \<longleftrightarrow> advances ok view seen B k (w, c) s"
  by (auto simp: advances_def seq_le_def split: prod.splits)

context fenced_backend
begin

abbreviation adv :: "nat \<Rightarrow> 'a world \<times> Coordinator \<Rightarrow> 'a world \<times> Coordinator \<Rightarrow> bool" where
  "adv \<equiv> advances wf view seen B"

lemma adv_setState:
  assumes "setState B w c to r = (w', c', er)"
  shows "adv 0 (w, c) (w', c')"
proof -
  have "wmoves B (gen_ID (co_gen c)) w w'" using setState_wmoves [of B _ w c to r] assms by simp
  moreover have "gen_ID (co_gen c') = gen_ID (co_gen c)" "co_opSeq c' = co_opSeq c"
    using assms by (auto simp: setState_def Let_def split: if_splits)
  ultimately show ?thesis
    using setState_inv [OF _ assms] by (auto simp: advances_def seq_le_def)
qed

lemma adv_call:
  assumes "newOpID c op n = (c1, i)" and "call_op k = i" and "backend_call B w k = (w', rec, er)"
  shows "adv 1 (w, c) (w', c1)"
  using own_wmoves [OF assms(3,1,2)] seq_le_new [OF assms(1)] own_call [OF _ seq_room assms]
  by (auto simp: advances_def)

text \<open>A record that a successful call returned, with the store it was read from.\<close>

lemma adv_record:
  assumes new: "newOpID c op n = (c1, i)" and op: "call_op k = i"
    and call: "backend_call B w k = (w', Some rec, None)"
    and ok: "\<And>b b'. wf b \<Longrightarrow> \<not> seen b i \<Longrightarrow> invoke B b (world_env w) k = (b', Some rec, None) \<Longrightarrow>
               view b' n = rec_view rec"
    and upd: "\<And>w. cinv w c1 \<Longrightarrow> (Controls (ToOwnership (Some rec)) (gen_ID (co_gen c1)) \<Longrightarrow>
                 granted view w (gen_ID (co_gen c1)) n (cr_FencingToken rec)) \<Longrightarrow> cinv w c2"
    and frame: "co_gen c2 = co_gen c1" "co_opSeq c2 = co_opSeq c1"
  shows "adv 1 (w, c) (w', c2)"
proof -
  have "cinv w' c2" if inv: "cinv w c" "unat (co_opSeq c) + 1 < 2 ^ 64"
  proof -
    from own_call [OF inv(1) seq_room [OF inv(2)] new op call] obtain b where
      b: "wf b" "\<not> seen b i" "invoke B b (world_env w) k = (wo_store w', Some rec, None)"
        "cinv w' c1" "world_ok wf view w'" by blast
    show ?thesis
      by (rule upd [OF b(4)]) (rule granted_now [OF b(5) ok [OF b(1-3)]])
  qed
  then show ?thesis
    using own_wmoves [OF call new op] seq_le_new [OF new] frame by (auto simp: advances_def seq_le_def)
qed

lemma adv_restore:
  assumes "newOpID c op n = (c1, ab_OperationID req)" and "ab_ClaimName req = n"
    and "backend_call B w (CAbort req) = (w', Some rec, None)"
  shows "adv 1 (w, c) (w', restoreLease c1 n rec)"
  by (rule adv_record [OF assms(1) _ assms(3)])
    (use assms(2) in \<open>auto dest: abort_ok intro: restoreLease_inv\<close>)

lemma adv_prepare:
  assumes "newOpID c op n = (c1, tr_OperationID req)" and "tr_ClaimName req = n"
    and "backend_call B w (CPrepare req) = (w', Some rec, None)"
  shows "adv 1 (w, c) (w', applyRecord v c1 n rec)"
  by (rule adv_record [OF assms(1) _ assms(3)])
    (use assms(2) in \<open>auto dest: prepare_ok intro: applyRecord_inv\<close>)

lemma adv_commit:
  assumes "newOpID c op n = (c1, cm_OperationID req)" and "cm_ClaimName req = n"
    and "backend_call B w (CCommit req) = (w', Some rec, None)"
  shows "adv 1 (w, c) (w', revokeLease v (applyRecord v c1 n rec) n r)"
  by (rule adv_record [OF assms(1) _ assms(3)])
    (use assms(2) in \<open>auto dest: commit_ok intro: revokeLease_inv applyRecord_inv\<close>)

end


section \<open>The loops of a handoff\<close>

lemma drain_claims_frame:
  "drain_claims wait d c ns = (c', r) \<Longrightarrow>
     core c' = core c \<and> co_gen c' = co_gen c \<and> co_opSeq c' = co_opSeq c"
proof (induction ns arbitrary: c)
  case (Cons n ns)
  have put: "core (put_claim c n (cl\<lparr>cl_drain := g\<rparr>)) = core c" if "get_claim c n = Some cl" for cl g
    using core_on [of "\<lambda>cl. cl\<lparr>cl_drain := g\<rparr>" c n] that by (simp add: on_claim_def)
  show ?case
    using Cons.prems Cons.IH
    by (auto simp: put Let_def split: option.splits prod.splits)
qed simp

lemma drain_claims_inv:
  "drain_claims wait d c ns = (c', r) \<Longrightarrow> coord_inv ok view seen w c' \<longleftrightarrow> coord_inv ok view seen w c"
  using drain_claims_frame [of wait d c ns c' r] by (intro coord_inv_cong) simp_all

context fenced_backend
begin

lemma adv_next: "adv (Suc 0) s t \<Longrightarrow> adv k t u \<Longrightarrow> adv (Suc k) s u"
  using advances_trans [of wf view seen B 1 s t k u] by simp

lemma adv_skip: "adv k s t \<Longrightarrow> adv (Suc k) s t"
  by (erule advances_mono) simp

lemma adv_last: "adv (Suc 0) s t \<Longrightarrow> adv (Suc k) s t"
  by (erule advances_mono) simp

lemma abort_loop_adv:
  "abort_loop B s toks w c h ns = (w', c', h') \<Longrightarrow> adv (length ns) (w, c) (w', c')"
proof (induction ns arbitrary: w c h)
  case (Cons n ns)
  show ?case
  proof (cases "map_of toks n")
    case None
    with Cons show ?thesis by (auto intro: adv_skip)
  next
    case (Some token)
    obtain c1 i where new: "newOpID c ''abort-compensate'' n = (c1, i)" by force
    define req where "req = \<lparr>ab_ClaimName = n, ab_FromGeneration = gen_ID (co_gen c1),
      ab_ToGeneration = s, ab_ExpectedToken = token, ab_OperationID = i\<rparr>"
    obtain w1 rec er where call: "backend_call B w (CAbort req) = (w1, rec, er)" by (metis prod.collapse)
    have one: "adv 1 (w, c) (w1, c1)" using adv_call [OF new _ call] by (simp add: req_def)
    have res: "adv 1 (w, c) (w1, restoreLease c1 n r)" if "rec = Some r" "er = None" for r
      using adv_restore [of c _ n c1 req w w1 r] new call that by (simp add: req_def)
    show ?thesis
      using Cons.prems Some new call one res
      by (auto simp: req_def [symmetric] split: option.splits
          dest!: Cons.IH intro: adv_next adv_last)
  qed
qed (simp add: advances_refl)

lemma abort_all_adv:
  "abort_all B s toks w c ns = (w', c', r) \<Longrightarrow> adv (length ns) (w, c) (w', c')"
proof (induction ns arbitrary: w c)
  case (Cons n ns)
  show ?case
  proof (cases "map_of toks n")
    case None
    with Cons show ?thesis by (auto intro: adv_skip)
  next
    case (Some token)
    obtain c1 i where new: "newOpID c ''abort'' n = (c1, i)" by force
    define req where "req = \<lparr>ab_ClaimName = n, ab_FromGeneration = gen_ID (co_gen c1),
      ab_ToGeneration = s, ab_ExpectedToken = token, ab_OperationID = i\<rparr>"
    obtain w1 rec er where call: "backend_call B w (CAbort req) = (w1, rec, er)" by (metis prod.collapse)
    have one: "adv 1 (w, c) (w1, c1)" using adv_call [OF new _ call] by (simp add: req_def)
    have res: "adv 1 (w, c) (w1, restoreLease c1 n r)" if "rec = Some r" "er = None" for r
      using adv_restore [of c _ n c1 req w w1 r] new call that by (simp add: req_def)
    show ?thesis
      using Cons.prems Some new call one res
      by (auto simp: req_def [symmetric] split: option.splits
          dest!: Cons.IH intro: adv_next adv_last)
  qed
qed (simp add: advances_refl)

lemma transfer_loop_adv:
  "transfer_loop B s ttl w c h ns = (w', c', h', r) \<Longrightarrow> adv (length ns) (w, c) (w', c')"
proof (induction ns arbitrary: w c h)
  case (Cons n ns)
  show ?case
  proof (cases "currentLeaseToken c n")
    case None
    with Cons show ?thesis by (auto intro: adv_skip)
  next
    case (Some token)
    obtain c1 i where new: "newOpID c ''prepare'' n = (c1, i)" by force
    define req where "req = \<lparr>tr_ClaimName = n, tr_FromGeneration = gen_ID (co_gen c1),
      tr_ToGeneration = s, tr_Token = token, tr_TTL = ttl, tr_OperationID = i\<rparr>"
    obtain w1 rec er where call: "backend_call B w (CPrepare req) = (w1, rec, er)" by (metis prod.collapse)
    have one: "adv 1 (w, c) (w1, c1)" using adv_call [OF new _ call] by (simp add: req_def)
    have res: "adv 1 (w, c) (w1, applyRecord w1 c1 n r)" if "rec = Some r" "er = None" for r
      using adv_prepare [of c _ n c1 req w w1 r w1] new call that by (simp add: req_def)
    show ?thesis
      using Cons.prems Some new call one res
      by (auto simp: req_def [symmetric] Let_def split: option.splits
          dest!: Cons.IH intro: adv_next adv_last)
  qed
qed (simp add: advances_refl)

lemma commit_loop_adv:
  "commit_loop B s toks w c h com ns = (w', c', h', com', r) \<Longrightarrow> adv (length ns) (w, c) (w', c')"
proof (induction ns arbitrary: w c h com)
  case (Cons n ns)
  show ?case
  proof (cases "map_of toks n")
    case None
    with Cons show ?thesis by (auto intro: adv_skip)
  next
    case (Some token)
    obtain c1 i where new: "newOpID c ''commit'' n = (c1, i)" by force
    define req where "req = \<lparr>cm_ClaimName = n, cm_FromGeneration = gen_ID (co_gen c1),
      cm_ToGeneration = s, cm_ExpectedToken = token, cm_TTL = cfg_LeaseTTL (co_cfg c1),
      cm_OperationID = i\<rparr>"
    obtain w1 rec er where call: "backend_call B w (CCommit req) = (w1, rec, er)" by (metis prod.collapse)
    have one: "adv 1 (w, c) (w1, c1)" using adv_call [OF new _ call] by (simp add: req_def)
    have res: "adv 1 (w, c) (w1, revokeLease w1 (applyRecord w1 c1 n r) n ReasonTransferCommitted)"
      if "rec = Some r" "er = None" for r
      using adv_commit [of c _ n c1 req w w1 r w1 ReasonTransferCommitted] new call that
      by (simp add: req_def)
    show ?thesis
      using Cons.prems Some new call one res
      by (auto simp: req_def [symmetric] Let_def split: option.splits
          dest!: Cons.IH intro: adv_next adv_last)
  qed
qed (simp add: advances_refl)

end


section \<open>Whole operations of a handoff\<close>

context fenced_backend
begin

lemma adv_seq: "adv k s t \<Longrightarrow> adv l t u \<Longrightarrow> k + l \<le> m \<Longrightarrow> adv m s u"
  by (blast intro: advances_trans advances_mono)

lemma PrepareHandoff_adv:
  assumes "PrepareHandoff B w c order = (w', c', r)"
  shows "adv 0 (w, c) (w', c')"
  using assms
  by (auto simp: PrepareHandoff_def advances_refl split: option.splits prod.splits
      dest!: adv_setState)

lemma adv_drain_claims:
  assumes "drain_claims wait d c ns = (c', r)"
  shows "adv 0 (w, c) (w, c')"
  using drain_claims_frame [OF assms] drain_claims_inv [OF assms, of wf view seen w]
  by (intro advances_local) simp_all

lemma handoff_Drain_adv:
  assumes "handoff_Drain B wait w c h = (w', c', h', r)"
  shows "adv 0 (w, c) (w', c') \<and> ho_claims h' = ho_claims h"
proof (cases "ho_status h \<noteq> HandoffPending \<and> ho_status h \<noteq> HandoffDraining")
  case True
  with assms show ?thesis by (simp add: handoff_Drain_def advances_refl)
next
  case False
  obtain w1 c1 e1 where st: "setState B w c StateDraining ReasonDrainStarted = (w1, c1, e1)"
    by (metis prod.collapse)
  define c2 where "c2 = coord_emit w1 c1 ((new_event EventDrainStarted)\<lparr>ev_Reason := ReasonDrainStarted\<rparr>)"
  obtain c3 r3 where dr: "drain_claims wait (wo_n w1) c2 (ho_claims h) = (c3, r3)" by force
  have "adv 0 (w, c) (w1, c3)"
    using adv_seq [OF adv_setState [OF st], of 0 "(w1, c3)"] adv_drain_claims [OF dr] by (simp add: c2_def)
  with assms False st dr show ?thesis
    by (cases r3) (auto simp: handoff_Drain_def Let_def c2_def [symmetric] handoff_fail_def split: prod.splits)
qed

lemma abortTokens_adv:
  assumes "abortTokens B w c h toks = (w', c', h')"
  shows "adv (length (ho_claims h)) (w, c) (w', c')"
  using assms
  by (auto simp: abortTokens_def advances_refl split: if_splits dest!: abort_loop_adv)

end

lemma abort_loop_claims:
  "abort_loop B s toks w c h ns = (w', c', h') \<Longrightarrow> ho_claims h' = ho_claims h"
  by (induction ns arbitrary: w c h) (auto split: option.splits prod.splits; fastforce)+

lemma abortTokens_claims:
  "abortTokens B w c h toks = (w', c', h') \<Longrightarrow> ho_claims h' = ho_claims h"
  by (auto simp: abortTokens_def split: if_splits dest: abort_loop_claims)

lemma transfer_loop_claims:
  "transfer_loop B s ttl w c h ns = (w', c', h', r) \<Longrightarrow> ho_claims h' = ho_claims h"
  by (induction ns arbitrary: w c h) (auto simp: Let_def split: option.splits prod.splits; fastforce)+

lemma commit_loop_claims:
  "commit_loop B s toks w c h com ns = (w', c', h', com', r) \<Longrightarrow> ho_claims h' = ho_claims h"
  by (induction ns arbitrary: w c h com) (auto simp: Let_def split: option.splits prod.splits; fastforce)+


context fenced_backend
begin

lemma handoff_Abort_adv:
  assumes "handoff_Abort B w c h = (w', c', h', r)"
  shows "adv (length (ho_claims h)) (w, c) (w', c') \<and> ho_claims h' = ho_claims h"
proof (cases "ho_status h = HandoffCommitted")
  case True
  with assms show ?thesis by (simp add: handoff_Abort_def advances_refl)
next
  case False
  obtain w1 c1 r1 where ab: "abort_all B (ho_successorID h) (ho_tokens h) w c (ho_claims h) = (w1, c1, r1)"
    by (metis prod.collapse)
  obtain w2 c2 e2 where st: "setState B w1 c1 StateActive ReasonRollback = (w2, c2, e2)"
    by (metis prod.collapse)
  have "adv (length (ho_claims h)) (w, c) (w2, c2)"
    using abort_all_adv [OF ab] adv_setState [OF st] by (rule adv_seq) simp
  with assms False ab st abort_all_adv [OF ab] show ?thesis
    by (auto simp: handoff_Abort_def Let_def split: option.splits)
qed

lemma handoff_timeout_adv:
  assumes "handoff_timeout B w c h = (w', c', h')"
  shows "adv (length (ho_claims h)) (w, c) (w', c') \<and> ho_claims h' = ho_claims h"
  using assms
  by (auto simp: handoff_timeout_def advances_refl split: if_splits prod.splits dest!: handoff_Abort_adv)

lemma handoff_Commit_adv:
  assumes "handoff_Commit B w c h = (w', c', h', r)"
  shows "adv (2 * length (ho_claims h)) (w, c) (w', c') \<and> ho_claims h' = ho_claims h"
proof (cases "\<not> ho_transferDone h \<or> ho_status h = HandoffCommitted \<or> ho_status h = HandoffAborted")
  case True
  with assms show ?thesis by (auto simp: handoff_Commit_def advances_refl split: if_splits)
next
  case False
  obtain w1 c1 h1 com r1 where
    lp: "commit_loop B (ho_successorID h) (ho_tokens h) w c h [] (ho_claims h) = (w1, c1, h1, com, r1)"
    by (metis prod.collapse)
  note one = commit_loop_adv [OF lp] commit_loop_claims [OF lp]
  show ?thesis
  proof (cases r1)
    case None
    obtain w2 c2 e2 where st: "setState B w1 c1 StateRetired ReasonRetired = (w2, c2, e2)"
      by (metis prod.collapse)
    have "adv (2 * length (ho_claims h)) (w, c) (w2, c2)"
      using one(1) adv_setState [OF st] by (rule adv_seq) simp
    with assms False lp None st one(2) show ?thesis by (auto simp: handoff_Commit_def)
  next
    case (Some nr)
    obtain n er where nr: "nr = (n, er)" by force
    obtain c2 h2 where fl: "handoff_fail w1 c1 h1 er = (c2, h2)" by force
    have fl': "adv k s (w1, c2) = adv k s (w1, c1)" "ho_claims h2 = ho_claims h1" for k s
      using fl by (auto simp: handoff_fail_def)
    obtain w3 c3 h3 where ab: "abortUncommitted B w1 c2 (startTimeoutWatcher h2) com = (w3, c3, h3)"
      by (metis prod.collapse)
    note two = abortTokens_adv [OF ab [unfolded abortUncommitted_def]]
      abortTokens_claims [OF ab [unfolded abortUncommitted_def]]
    have "adv (2 * length (ho_claims h)) (w, c) (w3, c3)"
      using adv_seq [OF _ two(1)] one fl' by (simp add: startTimeoutWatcher_def)
    with assms False lp Some nr fl ab two(2) fl'(2) one(2) show ?thesis
      by (auto simp: handoff_Commit_def startTimeoutWatcher_def)
  qed
qed

lemma handoff_Transfer_adv:
  assumes "handoff_Transfer B wait w c h s = (w', c', h', r)"
  shows "adv (2 * length (ho_claims h)) (w, c) (w', c') \<and> ho_claims h' = ho_claims h"
proof (cases "s = '''' \<or> ho_status h = HandoffCommitted \<or> ho_status h = HandoffAborted")
  case True
  with assms show ?thesis by (auto simp: handoff_Transfer_def advances_refl split: if_splits)
next
  case False
  obtain w1 c1 h1 r1 where
    dr: "(if ho_drainDone h then (w, c, h, None) else handoff_Drain B wait w c h) = (w1, c1, h1, r1)"
    by (metis prod.collapse)
  have one: "adv 0 (w, c) (w1, c1)" "ho_claims h1 = ho_claims h"
    using dr handoff_Drain_adv [of wait w c h w1 c1 h1 r1] by (auto simp: advances_refl split: if_splits)
  show ?thesis
  proof (cases r1)
    case (Some er)
    have "w' = w1" "c' = c1" "h' = h1" using assms False dr Some by (simp_all add: handoff_Transfer_def)
    with advances_mono [OF one(1)] one(2) show ?thesis by simp
  next
    case None
    define h2 where "h2 = h1\<lparr>ho_status := HandoffTransferring, ho_successorID := s, ho_tokens := []\<rparr>"
    obtain w2 c2 e2 where st: "setState B w1 c1 StateTransferring ReasonTransferPrepared = (w2, c2, e2)"
      by (metis prod.collapse)
    define ttl where "ttl = reservationTTL (cfg_LeaseTTL (co_cfg c2)) (cfg_TransferTimeout (co_cfg c2))"
    obtain w3 c3 h3 r3 where lp: "transfer_loop B s ttl w2 c2 h2 (ho_claims h1) = (w3, c3, h3, r3)"
      by (metis prod.collapse)
    have h3: "ho_claims h3 = ho_claims h" using transfer_loop_claims [OF lp] one(2) by (simp add: h2_def)
    have "adv 0 (w, c) (w2, c2)" using one(1) adv_setState [OF st] by (rule adv_seq) simp
    then have three: "adv (length (ho_claims h)) (w, c) (w3, c3)"
      using adv_seq [OF _ transfer_loop_adv [OF lp]] one(2) by (simp add: h2_def)
    have run: "handoff_Transfer B wait w c h s =
       (case (w3, c3, h3, r3) of
          (w, c, h, Some (n, er)) \<Rightarrow>
            (case handoff_fail w c h er of (c, h) \<Rightarrow>
             (case abortPrepared B w c (startTimeoutWatcher h) of (w, c, h) \<Rightarrow>
               (w, coord_emit w c ((new_event EventTransferAborted)\<lparr>ev_Claim := n,
                      ev_Err := Error_string er\<rparr>),
                h, Some (wrapClaim ''Handoff.Transfer'' n er))))
        | (w, c, h, None) \<Rightarrow> (w, c, startTimeoutWatcher (h\<lparr>ho_transferDone := True\<rparr>), None))"
      using False dr None by (simp add: handoff_Transfer_def Let_def st ttl_def [symmetric] h2_def [symmetric] lp)
    show ?thesis
    proof (cases r3)
      case None
      with assms run h3 advances_mono [OF three] show ?thesis by (auto simp: startTimeoutWatcher_def)
    next
      case (Some nr)
      obtain n er where nr: "nr = (n, er)" by force
      define h4 where "h4 = startTimeoutWatcher (snd (handoff_fail w3 c3 h3 er))"
      obtain w5 c5 h5 where
        ab: "abortPrepared B w3 (fst (handoff_fail w3 c3 h3 er)) h4 = (w5, c5, h5)"
        by (metis prod.collapse)
      have h4: "ho_claims h4 = ho_claims h" using h3 by (simp add: h4_def startTimeoutWatcher_def handoff_fail_def)
      note four = abortTokens_adv [OF ab [unfolded abortPrepared_def]]
        abortTokens_claims [OF ab [unfolded abortPrepared_def]]
      have "adv (2 * length (ho_claims h)) (w, c) (w5, c5)"
        using adv_seq [OF three, of "length (ho_claims h)" "(w5, c5)"] four(1) h4 by (simp add: handoff_fail_def)
      with assms run Some nr ab four(2) h4 show ?thesis by (auto simp: h4_def split: prod.splits)
    qed
  qed
qed

end

section \<open>What a committed handoff leaves behind\<close>

text \<open>The generation has no lease of the claim and its copy of the record names another owner.\<close>

definition fenced_out :: "Coordinator \<Rightarrow> string \<Rightarrow> bool" where
  "fenced_out c n \<longleftrightarrow>
     (\<forall>cl. get_claim c n = Some cl \<longrightarrow> cl_lease cl = None \<and> \<not> claim_Controls c cl)"

lemma fenced_out_token: "fenced_out c n \<Longrightarrow> currentLeaseToken c n = None"
  by (auto simp: fenced_out_def currentLeaseToken_def split: option.splits)

lemma fenced_out_cong:
  "get_claim c' n = get_claim c n \<Longrightarrow> gen_ID (co_gen c') = gen_ID (co_gen c) \<Longrightarrow>
     fenced_out c' n = fenced_out c n"
  by (simp add: fenced_out_def claim_Controls_def)

lemma fenced_out_emit [simp]: "fenced_out (coord_emit w c ev) n = fenced_out c n"
  by (rule fenced_out_cong) simp_all

lemma get_drop:
  "get_claim (drop_lease c n) m =
     (if m = n then map_option (\<lambda>cl. cl\<lparr>cl_lease := None\<rparr>) (get_claim c n) else get_claim c m)"
  by (auto simp: drop_lease_def lease_revoke_def get_claim_def put_claim_def update_conv split: option.splits)

lemma get_revoke:
  "get_claim (revokeLease w c n r) m =
     (if m = n then map_option (\<lambda>cl. cl\<lparr>cl_renewing := False, cl_lease := None\<rparr>) (get_claim c n)
      else get_claim c m)"
  by (auto simp: revokeLease_def Let_def get_on get_drop split: option.splits)

lemma get_apply:
  "m \<noteq> n \<Longrightarrow> get_claim (applyRecord w c n rec) m = get_claim c m"
  "map_option cl_record (get_claim (applyRecord w c n rec) n) = map_option (\<lambda>_. rec) (get_claim c n)"
  by (auto simp: applyRecord_def Let_def get_on get_drop split: option.splits)

lemma fenced_out_commit:
  assumes "cr_OwnerGeneration rec \<noteq> gen_ID (co_gen c)"
  shows "fenced_out (revokeLease w (applyRecord w c n rec) n r) n"
proof -
  have "cl_record cl = rec" if "get_claim (applyRecord w c n rec) n = Some cl" for cl
    using get_apply(2) [of w c n rec] that by (cases "get_claim c n") auto
  with assms show ?thesis
    by (auto simp: fenced_out_def get_revoke claim_Controls_def Controls_iff ToOwnership_def)
qed

lemma fenced_out_other:
  "m \<noteq> n \<Longrightarrow> fenced_out (revokeLease w (applyRecord w c n rec) n r) m = fenced_out c m"
  by (rule fenced_out_cong) (simp_all add: get_revoke get_apply)

context fenced_backend
begin

lemma commit_loop_done:
  assumes "commit_loop B s toks w c h com ns = (w', c', h', com', None)"
    and "cinv w c" and "unat (co_opSeq c) + length ns < 2 ^ 64" and "s \<noteq> gen_ID (co_gen c)"
  shows "(\<forall>n. fenced_out c n \<longrightarrow> fenced_out c' n) \<and> wext w w'
       \<and> (\<forall>n \<in> set ns. \<forall>t. map_of toks n = Some t \<longrightarrow>
             fenced_out c' n \<and> granted view w' s n (t + 1))"
  using assms
proof (induction ns arbitrary: w c h com)
  case (Cons n ns)
  show ?case
  proof (cases "map_of toks n")
    case None
    with Cons.IH [of w c h com] Cons.prems show ?thesis by simp
  next
    case (Some t)
    obtain c1 i where new: "newOpID c ''commit'' n = (c1, i)" by force
    note c1 = newOpID_simps [OF new]
    define req where "req = \<lparr>cm_ClaimName = n, cm_FromGeneration = gen_ID (co_gen c1),
      cm_ToGeneration = s, cm_ExpectedToken = t, cm_TTL = cfg_LeaseTTL (co_cfg c1), cm_OperationID = i\<rparr>"
    obtain w1 res er where call: "backend_call B w (CCommit req) = (w1, res, er)" by (metis prod.collapse)
    obtain rec where rec: "res = Some rec" "er = None"
      using Cons.prems(1) Some new call by (auto simp: req_def [symmetric] split: option.splits)
    have "co_opSeq c \<noteq> - 1" using Cons.prems(3) by (intro seq_room) simp
    from own_call [OF Cons.prems(2) this new _ call] obtain b where
      b: "wf b" "\<not> seen b i" "CommitTransfer B b (world_env w) req = (wo_store w1, Some rec, None)"
        "world_ok wf view w1"
      by (auto simp: req_def rec)
    from commit_ok [OF b(1) _ b(3)] b(2)
    have ok: "view (wo_store w1) n = rec_view rec" "cr_Phase rec = ClaimOwned"
      "cr_OwnerGeneration rec = s" "cr_FencingToken rec = t + 1"
      by (auto simp: req_def)
    have here: "granted view w1 s n (t + 1)"
      using b(4) ok last_in_set [of "wo_hist w1"] unfolding granted_def world_ok_def
      by (intro bexI [where x = "wo_store w1"]) (auto simp: rec_view_def)
    define c2 where "c2 = revokeLease w1 (applyRecord w1 c1 n rec) n ReasonTransferCommitted"
    define c3 where "c3 = coord_emit w1 c2 ((new_event EventTransferCommitted)\<lparr>ev_Claim := n,
       ev_Token := cr_FencingToken rec, ev_Reason := ReasonTransferCommitted\<rparr>)"
    have rest: "commit_loop B s toks w1 c3 (h\<lparr>ho_tokens := AList.delete n (ho_tokens h)\<rparr>) (n # com) ns
        = (w', c', h', com', None)"
      using Cons.prems(1) Some new call rec by (simp add: req_def [symmetric] c3_def c2_def Let_def)
    have adv1: "adv 1 (w, c) (w1, c3)"
      using adv_commit [of c _ n c1 req w w1 rec w1 ReasonTransferCommitted] new call rec
      by (simp add: req_def c2_def c3_def)
    have gen: "co_gen c3 = co_gen c" by (simp add: c3_def c2_def c1)
    have inv3: "cinv w1 c3" "unat (co_opSeq c3) + length ns < 2 ^ 64"
      using adv1 Cons.prems(2,3) by (auto simp: advances_def seq_le_def)
    note IH = Cons.IH [OF rest inv3 Cons.prems(4) [folded gen]]
    have out: "fenced_out c3 n"
      using fenced_out_commit [of rec c1 w1 n] ok(3) Cons.prems(4) c1(4) by (simp add: c3_def c2_def)
    have keep: "fenced_out c3 k" if "fenced_out c k" for k
      using out that fenced_out_other [of k n w1 c1 rec] fenced_out_cong [of c1 k c] c1
      by (cases "k = n") (simp_all add: c3_def c2_def)
    have ext: "wext w w1"
      using backend_call_ok [OF _ call] Cons.prems(2) by (metis coord_inv_def)
    show ?thesis
      using IH out keep here Some ext by (auto intro: wext_trans granted_mono)
  qed
qed simp

lemma handoff_Commit_done:
  assumes run: "handoff_Commit B w c h = (w', c', h', None)" and st: "ho_status h \<noteq> HandoffCommitted"
    and inv: "cinv w c" and room: "unat (co_opSeq c) + length (ho_claims h) < 2 ^ 64"
    and s: "ho_successorID h \<noteq> gen_ID (co_gen c)"
    and n: "n \<in> set (ho_claims h)" "map_of (ho_tokens h) n = Some t"
  shows "fenced_out c' n \<and> granted view w' (ho_successorID h) n (t + 1) \<and> ho_status h' = HandoffCommitted"
proof -
  obtain w1 c1 h1 com r1 where
    lp: "commit_loop B (ho_successorID h) (ho_tokens h) w c h [] (ho_claims h) = (w1, c1, h1, com, r1)"
    by (metis prod.collapse)
  have r1: "r1 = None" using run st lp
    by (auto simp: handoff_Commit_def split: if_splits option.splits prod.splits)
  obtain w2 c2 e2 where set: "setState B w1 c1 StateRetired ReasonRetired = (w2, c2, e2)"
    by (metis prod.collapse)
  have res: "w' = w2" "h' = h1\<lparr>ho_status := HandoffCommitted\<rparr>"
    "c' = coord_emit w2 c2 ((new_event EventHandoffCompleted)\<lparr>ev_Reason := ReasonTransferCommitted\<rparr>)"
    using run st lp r1 set by (auto simp: handoff_Commit_def split: if_splits)
  note fin = commit_loop_done [OF lp [unfolded r1] inv room s]
  have "get_claim c2 n = get_claim c1 n" "gen_ID (co_gen c2) = gen_ID (co_gen c1)"
    using set by (auto simp: setState_def Let_def get_claim_def coord_emit_def split: if_splits)
  then have "fenced_out c' n" using fin n by (simp add: res fenced_out_cong [of c2 n c1])
  moreover have "wext w1 w2"
  proof -
    have "cinv w1 c1" using commit_loop_adv [OF lp] inv room by (auto simp: advances_def)
    moreover have "wext w1 (fst (backend_call B w1 k))" if "cinv w1 c1" for k
      using that backend_call_ok [of w1 k] by (metis coord_inv_def prod.collapse)
    ultimately show ?thesis using set by (auto simp: setState_def Let_def split: if_splits)
  qed
  ultimately show ?thesis using fin n by (auto simp: res intro: granted_mono)
qed

end

end
