(* ===== verification/Fleet.thy ===== *)
theory Fleet
  imports Handoff_Safety Memory_Backend
begin

text \<open>
  A fleet: process generations that join one after the other, share one store and interleave the
  operations of their coordinators, handoffs included. Between any two backend calls the store may
  also serve other clients (the calls planned in the world). The theory lifts the invariant of one
  coordinator to all of them and derives that no two generations ever run under the same token and
  that a successful \<open>Commit\<close> has moved every reserved claim. The last section is about a \<open>Commit\<close>
  that is called again after it failed.
\<close>

section \<open>The members and their actions\<close>

datatype member_action =
    MClaim string
  | MAcquire string "string list"
  | MWait string "wait_event list"
  | MRenew string
  | MRelease string
  | MClose
  | MPrepare "string list"
  | MDrain
  | MTransfer string
  | MCommit
  | MAbort
  | MTimeout

type_synonym member = "Coordinator \<times> Handoff option"

text \<open>
  \<open>MAcquire n ns\<close> is an acquisition of \<open>n\<close> during which the claims \<open>ns\<close> are closed by another
  goroutine. The handoff actions apply to the handoff the member prepared last.
\<close>

definition on_handoff ::
  "'b world \<Rightarrow> Coordinator \<Rightarrow> Handoff option
   \<Rightarrow> (Handoff \<Rightarrow> 'b world \<times> Coordinator \<times> Handoff \<times> go_error option) \<Rightarrow> 'b world \<times> member" where
  "on_handoff w c ho f =
     (case ho of
        None \<Rightarrow> (w, c, None)
      | Some h \<Rightarrow> (case f h of (w, c, h, _) \<Rightarrow> (w, c, Some h)))"

fun member_act :: "'b Backend \<Rightarrow> drain_env \<Rightarrow> 'b world \<Rightarrow> member \<Rightarrow> member_action \<Rightarrow> 'b world \<times> member" where
  "member_act B wait w (c, ho) (MClaim n) = (w, fst (coord_Claim c n), ho)"
| "member_act B wait w (c, ho) (MAcquire n ns) =
     (case tryAcquire B (close_all ns) w c n of (w, c, _) \<Rightarrow> (w, c, ho))"
| "member_act B wait w (c, ho) (MWait n evs) =
     (case WaitForOwnership B w c n evs of (w, c, _) \<Rightarrow> (w, c, ho))"
| "member_act B wait w (c, ho) (MRenew n) = (case renew_tick B w c n of (w, c, _) \<Rightarrow> (w, c, ho))"
| "member_act B wait w (c, ho) (MRelease n) = (case claim_Release B w c n of (w, c, _) \<Rightarrow> (w, c, ho))"
| "member_act B wait w (c, ho) MClose = (case coord_Close B w c of (w, c, _) \<Rightarrow> (w, c, ho))"
| "member_act B wait w (c, ho) (MPrepare order) =
     (case PrepareHandoff B w c order of
        (w, c, Inl h) \<Rightarrow> (w, c, Some h)
      | (w, c, Inr _) \<Rightarrow> (w, c, ho))"
| "member_act B wait w (c, ho) MDrain = on_handoff w c ho (handoff_Drain B wait w c)"
| "member_act B wait w (c, ho) (MTransfer s) = on_handoff w c ho (\<lambda>h. handoff_Transfer B wait w c h s)"
| "member_act B wait w (c, ho) MCommit = on_handoff w c ho (handoff_Commit B w c)"
| "member_act B wait w (c, ho) MAbort = on_handoff w c ho (handoff_Abort B w c)"
| "member_act B wait w (c, ho) MTimeout =
     on_handoff w c ho (\<lambda>h. case handoff_timeout B w c h of (w, c, h) \<Rightarrow> (w, c, h, None))"

datatype fleet_action = FJoin coord_config | FAct nat member_action

type_synonym 'b fleet = "'b world \<times> member list"

fun fleet_act :: "'b Backend \<Rightarrow> drain_env \<Rightarrow> Capabilities option \<Rightarrow> 'b fleet \<Rightarrow> fleet_action \<Rightarrow> 'b fleet" where
  "fleet_act B wait caps (w, ms) (FJoin cfg) =
     (case coord_New B w caps cfg of
        (w, Inl c) \<Rightarrow> (w, ms @ [(c, None)])
      | (w, Inr _) \<Rightarrow> (w, ms))"
| "fleet_act B wait caps (w, ms) (FAct i a) =
     (if i < length ms
      then (case member_act B wait w (ms ! i) a of (w, m) \<Rightarrow> (w, ms[i := m]))
      else (w, ms))"

definition fleet_run ::
  "'b Backend \<Rightarrow> drain_env \<Rightarrow> Capabilities option \<Rightarrow> 'b fleet \<Rightarrow> fleet_action list \<Rightarrow> 'b fleet" where
  "fleet_run B wait caps = foldl (fleet_act B wait caps)"

text \<open>
  A bound on the operation identifiers an action uses: waiting tries once per round, a handoff
  needs at most two calls per claim.
\<close>

fun action_weight :: "nat \<Rightarrow> member_action \<Rightarrow> nat" where
  "action_weight m (MWait n evs) = 2 * (length evs + 1)"
| "action_weight m a = 2 * m + 2"

fun fleet_weight :: "nat \<Rightarrow> fleet_action list \<Rightarrow> nat" where
  "fleet_weight m [] = 0"
| "fleet_weight m (FJoin cfg # as) = fleet_weight m as"
| "fleet_weight m (FAct i a # as) = action_weight m a + fleet_weight m as"

text \<open>At most \<open>m\<close> claims take part in a handoff.\<close>

fun handoffs_within :: "nat \<Rightarrow> fleet_action list \<Rightarrow> bool" where
  "handoffs_within m [] = True"
| "handoffs_within m (FAct i (MPrepare order) # as) = (length order \<le> m \<and> handoffs_within m as)"
| "handoffs_within m (_ # as) = handoffs_within m as"

fun joining :: "fleet_action list \<Rightarrow> string list" where
  "joining [] = []"
| "joining (FJoin cfg # as) = cfg_GenerationID cfg # joining as"
| "joining (FAct i a # as) = joining as"

text \<open>A generation name that no identifier of another generation can be confused with.\<close>

definition gen_name :: "string \<Rightarrow> bool" where
  "gen_name g \<longleftrightarrow> g \<noteq> '''' \<and> CHR '':'' \<notin> set g"

lemma gen_name_disjoint: "gen_name g \<Longrightarrow> gen_name h \<Longrightarrow> g \<noteq> h \<Longrightarrow> ids_disjoint g h"
  using op_id_gen by (auto simp: gen_name_def ids_disjoint_def)

text \<open>A generation before it joins: nothing claimed, no identifier used.\<close>

definition blank :: "string \<Rightarrow> Coordinator" where
  "blank g = \<lparr>co_cfg = undefined, co_bus = undefined, co_supClosed = False, co_caps = undefined,
     co_gen = \<lparr>gen_ID = g, gen_Service = '''', gen_InstanceID = '''', gen_State = StateJoining,
               gen_StartedAt = 0, gen_UpdatedAt = 0, gen_Reason = ReasonRegistered\<rparr>,
     co_claims = [], co_leases = [], co_closed = False, co_opSeq = 0, co_lastHeartbeat = 0\<rparr>"

definition member_ok ::
  "('b \<Rightarrow> bool) \<Rightarrow> ('b \<Rightarrow> string \<Rightarrow> claim_view) \<Rightarrow> ('b \<Rightarrow> OperationID \<Rightarrow> bool) \<Rightarrow> nat \<Rightarrow> nat
   \<Rightarrow> 'b world \<Rightarrow> member \<Rightarrow> bool" where
  "member_ok ok view seen m k w = (\<lambda>(c, ho).
     coord_inv ok view seen w c \<and> unat (co_opSeq c) \<le> k
     \<and> (case ho of None \<Rightarrow> True | Some h \<Rightarrow> length (ho_claims h) \<le> m))"

definition member_gen :: "member \<Rightarrow> string" where
  "member_gen mb = gen_ID (co_gen (fst mb))"

text \<open>The invariant of a fleet that the generations \<open>gs\<close> will still join.\<close>

definition fleet_ok ::
  "('b \<Rightarrow> bool) \<Rightarrow> ('b \<Rightarrow> string \<Rightarrow> claim_view) \<Rightarrow> ('b \<Rightarrow> OperationID \<Rightarrow> bool) \<Rightarrow> nat \<Rightarrow> nat
   \<Rightarrow> string list \<Rightarrow> 'b fleet \<Rightarrow> bool" where
  "fleet_ok ok view seen m k gs = (\<lambda>(w, ms).
     distinct (map member_gen ms @ gs) \<and> (\<forall>g \<in> set (map member_gen ms @ gs). gen_name g)
     \<and> (\<forall>mb \<in> set ms. member_ok ok view seen m k w mb)
     \<and> (\<forall>g \<in> set gs. coord_inv ok view seen w (blank g)))"

section \<open>One action of one member\<close>

lemma close_all_Nil: "close_all [] = (\<lambda>c. c)"
  by (simp add: close_all_def fun_eq_iff)

context fenced_backend
begin

lemma wait_loop_inv:
  assumes "wait_loop B w c n evs = (w', c', r)" and "cinv w c"
    and "unat (co_opSeq c) + 2 * (length evs + 1) < 2 ^ 64"
  shows "cinv w' c' \<and> seq_le (2 * (length evs + 1)) c c' \<and> wmoves B (gen_ID (co_gen c)) w w'"
  using assms
proof (induction evs arbitrary: w c)
  case Nil
  obtain w1 c1 r1 where acq: "tryAcquire B (close_all []) w c n = (w1, c1, r1)" by (metis prod.collapse)
  have "w' = w1" "c' = c1"
    using Nil.prems(1) acq [unfolded close_all_Nil]
    by (auto simp: wait_loop.simps [of B w c n "[]"] split: sum.splits option.splits if_splits)
  with tryAcquire_inv [OF Nil.prems(2) _ acq] tryAcquire_wmoves [OF acq] Nil.prems(3) show ?case by simp
next
  case (Cons ev evs)
  obtain w1 c1 r1 where acq: "tryAcquire B (close_all []) w c n = (w1, c1, r1)" by (metis prod.collapse)
  have cases: "w' = w1 \<and> c' = c1 \<or> wait_loop B w1 c1 n evs = (w', c', r)"
    using Cons.prems(1) acq [unfolded close_all_Nil]
    by (auto simp: wait_loop.simps [of B w c n "ev # evs"]
        split: sum.splits option.splits if_splits wait_event.splits)
  have one: "cinv w1 c1 \<and> seq_le 2 c c1" "wmoves B (gen_ID (co_gen c)) w w1"
    using tryAcquire_inv [OF Cons.prems(2) _ acq] tryAcquire_wmoves [OF acq] Cons.prems(3) by simp_all
  from cases show ?case
  proof
    assume "w' = w1 \<and> c' = c1"
    with one show ?thesis by (auto simp: seq_le_def)
  next
    assume "wait_loop B w1 c1 n evs = (w', c', r)"
    from Cons.IH [OF this] one Cons.prems(3) show ?thesis
      by (auto simp: seq_le_def intro: wmoves_trans)
  qed
qed

lemma WaitForOwnership_inv:
  assumes "WaitForOwnership B w c n evs = (w', c', r)" and "cinv w c"
    and "unat (co_opSeq c) + 2 * (length evs + 1) < 2 ^ 64"
  shows "cinv w' c' \<and> seq_le (2 * (length evs + 1)) c c' \<and> wmoves B (gen_ID (co_gen c)) w w'"
  using assms wait_loop_inv [of w c n evs w' c' r]
  by (auto simp: WaitForOwnership_def seq_le_same intro: wm_refl split: option.splits)

abbreviation mok :: "nat \<Rightarrow> nat \<Rightarrow> 'a world \<Rightarrow> member \<Rightarrow> bool" where
  "mok \<equiv> member_ok wf view seen"

lemma adv_member:
  assumes "mok m k w (c, ho)" and "adv l (w, c) (w', c')" and "l \<le> v" and "k + v < 2 ^ 64"
    and "case ho' of None \<Rightarrow> True | Some h \<Rightarrow> length (ho_claims h) \<le> m"
  shows "mok m (k + v) w' (c', ho') \<and> wmoves B (gen_ID (co_gen c)) w w'
       \<and> gen_ID (co_gen c') = gen_ID (co_gen c)"
  using assms by (auto simp: member_ok_def advances_def seq_le_def)

lemma inv_member:
  assumes "mok m k w (c, ho)" and "cinv w' c' \<and> seq_le l c c'" and "wmoves B (gen_ID (co_gen c)) w w'"
    and "l \<le> v" and "ho' = ho"
  shows "mok m (k + v) w' (c', ho') \<and> wmoves B (gen_ID (co_gen c)) w w'
       \<and> gen_ID (co_gen c') = gen_ID (co_gen c)"
  using assms by (auto simp: member_ok_def seq_le_def)

lemma handoff_member:
  assumes ok: "mok m k w (c, ho)" and act: "on_handoff w c ho f = (w', c', ho')"
    and f: "\<And>h w' c' h' r. f h = (w', c', h', r) \<Longrightarrow>
              adv (2 * length (ho_claims h)) (w, c) (w', c') \<and> ho_claims h' = ho_claims h"
    and room: "k + (2 * m + 2) < 2 ^ 64"
  shows "mok m (k + (2 * m + 2)) w' (c', ho') \<and> wmoves B (gen_ID (co_gen c)) w w'
       \<and> gen_ID (co_gen c') = gen_ID (co_gen c)"
proof (cases ho)
  case None
  with act ok show ?thesis by (auto simp: on_handoff_def member_ok_def intro: wm_refl)
next
  case (Some h)
  obtain w1 c1 h1 r where run: "f h = (w1, c1, h1, r)" by (metis prod.collapse)
  have "length (ho_claims h) \<le> m" using ok Some by (simp add: member_ok_def)
  with f [OF run] run act Some show ?thesis
    by (intro adv_member [OF ok _ _ room, of "2 * length (ho_claims h)"]) (auto simp: on_handoff_def)
qed

lemma member_act_ok:
  assumes ok: "mok m k w (c, ho)" and act: "member_act B wait w (c, ho) a = (w', c', ho')"
    and room: "k + action_weight m a < 2 ^ 64"
    and size: "\<And>order. a = MPrepare order \<Longrightarrow> length order \<le> m"
  shows "mok m (k + action_weight m a) w' (c', ho') \<and> wmoves B (gen_ID (co_gen c)) w w'
       \<and> gen_ID (co_gen c') = gen_ID (co_gen c)"
proof -
  have inv: "cinv w c" and seq: "unat (co_opSeq c) \<le> k" using ok by (auto simp: member_ok_def)
  show ?thesis
  proof (cases a)
    case (MClaim n)
    have "cinv w (fst (coord_Claim c n)) \<and> seq_le 0 c (fst (coord_Claim c n))"
      using coord_Claim_inv [OF inv] by (simp add: seq_le_same)
    then show ?thesis
      by (intro inv_member [OF ok, where l = 0]) (use MClaim act in \<open>auto intro: wm_refl\<close>)
  next
    case (MAcquire n ns)
    obtain r where run: "tryAcquire B (close_all ns) w c n = (w', c', r)" "ho' = ho"
      using act MAcquire by (auto split: prod.splits)
    show ?thesis
      using tryAcquire_inv [OF inv _ run(1)] tryAcquire_wmoves [OF run(1)] run(2) seq room MAcquire
      by (intro inv_member [OF ok, where l = 2]) simp_all
  next
    case (MWait n evs)
    obtain r where run: "WaitForOwnership B w c n evs = (w', c', r)" "ho' = ho"
      using act MWait by (auto split: prod.splits)
    show ?thesis
      using WaitForOwnership_inv [OF run(1) inv] run(2) seq room MWait
      by (intro inv_member [OF ok, where l = "2 * (length evs + 1)"]) simp_all
  next
    case (MRenew n)
    obtain r where run: "renew_tick B w c n = (w', c', r)" "ho' = ho"
      using act MRenew by (auto split: prod.splits)
    show ?thesis
      using renew_tick_inv [OF inv _ run(1)] renew_tick_wmoves [OF run(1)] run(2) seq room MRenew
      by (intro inv_member [OF ok, where l = 1]) simp_all
  next
    case (MRelease n)
    obtain r where run: "claim_Release B w c n = (w', c', r)" "ho' = ho"
      using act MRelease by (auto split: prod.splits)
    show ?thesis
      using claim_Release_inv [OF inv _ run(1)] claim_Release_wmoves [OF run(1)] run(2) seq room MRelease
      by (intro inv_member [OF ok, where l = 1]) simp_all
  next
    case MClose
    obtain r where run: "coord_Close B w c = (w', c', r)" "ho' = ho"
      using act MClose by (auto split: prod.splits)
    show ?thesis
      using coord_Close_inv [OF inv run(1)] coord_Close_wmoves [OF run(1)] run(2)
      by (intro inv_member [OF ok, where l = 0]) simp_all
  next
    case (MPrepare order)
    obtain w1 c1 r where run: "PrepareHandoff B w c order = (w1, c1, r)" by (metis prod.collapse)
    have "length (ho_claims h) \<le> m" if "r = Inl h" for h
      using run size [OF MPrepare] that
      by (auto simp: PrepareHandoff_def split: option.splits prod.splits)
    with run act MPrepare ok PrepareHandoff_adv [OF run] show ?thesis
      by (intro adv_member [OF ok _ _ room, of 0]) (auto simp: member_ok_def split: sum.splits)
  next
    case MDrain
    then show ?thesis
      using handoff_member [OF ok, of "handoff_Drain B wait w c"] act room
        handoff_Drain_adv [of wait w c] advances_mono [of wf view seen B 0] by fastforce
  next
    case (MTransfer s)
    then show ?thesis
      using handoff_member [OF ok, of "\<lambda>h. handoff_Transfer B wait w c h s"] act room
        handoff_Transfer_adv [of wait w c _ s] by simp
  next
    case MCommit
    then show ?thesis
      using handoff_member [OF ok, of "handoff_Commit B w c"] act room handoff_Commit_adv [of w c] by simp
  next
    case MAbort
    have "adv (2 * length (ho_claims h)) (w, c) (w', c') \<and> ho_claims h' = ho_claims h"
      if "handoff_Abort B w c h = (w', c', h', r)" for h w' c' h' r
      using handoff_Abort_adv [OF that] advances_mono [of wf view seen B "length (ho_claims h)"] by simp
    with MAbort show ?thesis using handoff_member [OF ok, of "handoff_Abort B w c"] act room by simp
  next
    case MTimeout
    have "adv (2 * length (ho_claims h)) (w, c) (w', c') \<and> ho_claims h' = ho_claims h"
      if "(case handoff_timeout B w c h of (w, c, h) \<Rightarrow> (w, c, h, None)) = (w', c', h', r)"
      for h w' c' h' and r :: "go_error option"
      using that handoff_timeout_adv [of w c h w' c' h'] advances_mono [of wf view seen B "length (ho_claims h)"]
      by (auto split: prod.splits)
    with MTimeout show ?thesis
      using handoff_member [OF ok, of "\<lambda>h. case handoff_timeout B w c h of (w, c, h) \<Rightarrow> (w, c, h, None)"]
        act room by simp
  qed
qed

end


section \<open>The fleet\<close>

lemma Config_defaults_gen:
  "Config_defaults r t cfg = (cfg', er) \<Longrightarrow> cfg_GenerationID cfg \<noteq> '''' \<Longrightarrow>
     cfg_GenerationID cfg' = cfg_GenerationID cfg"
  by (auto simp: Config_defaults_def Config_fill_def Let_def split: if_splits option.splits)

lemma core_blank: "core (blank g) = ([], \<lambda>_. None, \<lambda>_. None)"
  by (simp add: blank_def core_def lease_of_def rec_of_def get_claim_def fun_eq_iff)

lemma blank_simps [simp]: "gen_ID (co_gen (blank g)) = g" "co_opSeq (blank g) = 0"
  by (simp_all add: blank_def)

context fenced_backend
begin

lemma coord_New_inv:
  assumes inv: "cinv w (blank (cfg_GenerationID cfg))" and g: "cfg_GenerationID cfg \<noteq> ''''"
    and new: "coord_New B w caps cfg = (w', r)"
  shows "wmoves B (cfg_GenerationID cfg) w w'
       \<and> (\<forall>c. r = Inl c \<longrightarrow> cinv w' c \<and> gen_ID (co_gen c) = cfg_GenerationID cfg \<and> co_opSeq c = 0)"
proof -
  let ?g = "cfg_GenerationID cfg"
  obtain cfg' er where def: "Config_defaults () (\<lambda>_. world_now w) cfg = (cfg', er)" by force
  note g' = Config_defaults_gen [OF def g]
  define gen where "gen = \<lparr>gen_ID = cfg_GenerationID cfg', gen_Service = cfg_Service cfg',
     gen_InstanceID = cfg_InstanceID cfg', gen_State = StateJoining,
     gen_StartedAt = world_now w, gen_UpdatedAt = world_now w, gen_Reason = ReasonRegistered\<rparr>"
  define c0 where "c0 = \<lparr>co_cfg = cfg', co_bus = newEventBus cfg', co_supClosed = False,
     co_caps = resolveCapabilities caps, co_gen = gen, co_claims = [], co_leases = [],
     co_closed = False, co_opSeq = 0, co_lastHeartbeat = 0\<rparr>"
  have c0: "core c0 = core (blank ?g)" "gen_ID (co_gen c0) = ?g" "co_opSeq c0 = 0"
    unfolding core_blank
    by (simp_all add: g' c0_def gen_def core_def lease_of_def rec_of_def get_claim_def fun_eq_iff)
  obtain w1 rec er1 where reg: "backend_call B w (CRegister gen) = (w1, rec, er1)" by (metis prod.collapse)
  have move1: "wmoves B ?g w w1" by (rule wm_step [OF wm_refl reg]) simp
  have "cinv w1 (blank ?g)" by (rule anonymous_call [OF inv _ reg]) simp
  then have inv1: "cinv w1 c0" using c0 coord_inv_cong [of c0 "blank ?g" wf view seen w1] by simp
  obtain w2 c2 er2 where st: "setState B w1 c0 StateStandby ReasonRegistered = (w2, c2, er2)"
    by (metis prod.collapse)
  note inv2 = setState_inv [OF inv1 st]
  have move2: "wmoves B ?g w w2"
    using wmoves_trans [OF _ move1] setState_wmoves [of B ?g w1 c0 StateStandby ReasonRegistered] st by simp
  show ?thesis
    using new def reg st inv2 move1 move2 c0
    by (auto simp: coord_New_def Let_def gen_def [symmetric] c0_def [symmetric]
        split: option.splits intro: wm_refl)
qed

abbreviation fok :: "nat \<Rightarrow> nat \<Rightarrow> string list \<Rightarrow> 'a fleet \<Rightarrow> bool" where
  "fok \<equiv> fleet_ok wf view seen"

lemma mok_move:
  assumes "mok m k w mb" and "wmoves B g w w'" and "ids_disjoint g (member_gen mb)" and "k \<le> k'"
  shows "mok m k' w' mb"
  using assms wmoves_inv [OF assms(2)] by (auto simp: member_ok_def member_gen_def)

lemma fleet_join_ok:
  assumes ok: "fok m k (cfg_GenerationID cfg # gs) (w, ms)"
    and act: "fleet_act B wait caps (w, ms) (FJoin cfg) = (w', ms')"
  shows "fok m k gs (w', ms')"
proof -
  let ?g = "cfg_GenerationID cfg"
  obtain w1 r where new: "coord_New B w caps cfg = (w1, r)" by force
  have names: "gen_name ?g" "\<And>mb. mb \<in> set ms \<Longrightarrow> gen_name (member_gen mb) \<and> ?g \<noteq> member_gen mb"
    "\<And>h. h \<in> set gs \<Longrightarrow> gen_name h \<and> ?g \<noteq> h"
    using ok by (auto simp: fleet_ok_def)
  have "cinv w (blank ?g)" using ok by (simp add: fleet_ok_def)
  note res = coord_New_inv [OF this _ new]
  have g: "?g \<noteq> ''''" using names(1) by (simp add: gen_name_def)
  have move: "wmoves B ?g w w1" using res g by blast
  have olds: "mok m k w1 mb" if "mb \<in> set ms" for mb
  proof (rule mok_move [OF _ move])
    show "mok m k w mb" using ok that by (simp add: fleet_ok_def)
    show "ids_disjoint ?g (member_gen mb)" using names(1) names(2) [OF that] by (intro gen_name_disjoint) auto
  qed simp
  have rest: "cinv w1 (blank h)" if "h \<in> set gs" for h
  proof (rule wmoves_inv [OF move])
    show "cinv w (blank h)" using ok that by (simp add: fleet_ok_def)
    show "ids_disjoint ?g (gen_ID (co_gen (blank h)))"
      using names(1) names(3) [OF that] by (simp add: gen_name_disjoint)
  qed
  have w': "w' = w1" using act new by (auto split: sum.splits)
  show ?thesis
  proof (cases r)
    case (Inl c)
    have ms': "ms' = ms @ [(c, None)]" using act new Inl by simp
    have "member_gen (c, None) = ?g" "mok m k w1 (c, None)"
      using res g Inl by (auto simp: member_ok_def member_gen_def)
    with ok olds rest show ?thesis
      unfolding w' ms' by (auto simp: fleet_ok_def)
  next
    case (Inr e)
    have "ms' = ms" using act new Inr by simp
    with ok olds rest show ?thesis unfolding w' by (auto simp: fleet_ok_def)
  qed
qed

lemma fleet_member_ok:
  assumes ok: "fok m k gs (w, ms)" and room: "k + action_weight m a < 2 ^ 64"
    and size: "\<And>order. a = MPrepare order \<Longrightarrow> length order \<le> m"
    and act: "fleet_act B wait caps (w, ms) (FAct i a) = (w', ms')"
  shows "fok m (k + action_weight m a) gs (w', ms')"
proof (cases "i < length ms")
  case False
  with act ok show ?thesis by (auto simp: fleet_ok_def member_ok_def)
next
  case True
  obtain c ho where mi: "ms ! i = (c, ho)" by force
  obtain w1 c1 ho1 where run: "member_act B wait w (c, ho) a = (w1, c1, ho1)" by (metis prod.collapse)
  have upd: "w' = w1" "ms' = ms[i := (c1, ho1)]" using act True mi run by auto
  have "mok m k w (c, ho)" using ok nth_mem [OF True] by (simp add: fleet_ok_def mi)
  note res = member_act_ok [OF this run room size]
  have gen: "member_gen (c1, ho1) = member_gen (ms ! i)" using res by (simp add: member_gen_def mi)
  have gens: "map member_gen ms' = map member_gen ms"
    unfolding upd(2) map_update gen using True by (metis list_update_id map_update nth_map)
  then have imgs: "member_gen ` set ms' = member_gen ` set ms" by (metis image_set)
  have names: "gen_name h" if "h \<in> set (map member_gen ms @ gs)" for h
    using ok that by (auto simp: fleet_ok_def)
  have c: "member_gen (ms ! i) = gen_ID (co_gen c)" by (simp add: mi member_gen_def)
  have "gen_name (gen_ID (co_gen c))"
    unfolding c [symmetric] by (rule names) (use nth_mem [OF True] in simp)
  then have dis: "ids_disjoint (gen_ID (co_gen c)) h"
    if "h \<in> set (map member_gen ms @ gs)" "h \<noteq> member_gen (ms ! i)" for h
    using that(2) c by (intro gen_name_disjoint names [OF that(1)]) simp_all
  have others: "mok m (k + action_weight m a) w1 (ms ! j)" if "j < length ms" "j \<noteq> i" for j
  proof (rule mok_move [where g = "gen_ID (co_gen c)"])
    show "mok m k w (ms ! j)" using ok that by (auto simp: fleet_ok_def)
    have "distinct (map member_gen ms)" using ok by (simp add: fleet_ok_def)
    then have "member_gen (ms ! j) \<noteq> member_gen (ms ! i)"
      using that True by (auto simp: distinct_conv_nth)
    with that show "ids_disjoint (gen_ID (co_gen c)) (member_gen (ms ! j))" by (intro dis) auto
  qed (use res in simp_all)
  have "mok m (k + action_weight m a) w1 mb" if mb: "mb \<in> set ms'" for mb
  proof -
    from mb obtain j where j: "j < length ms" "mb = ms' ! j" by (auto simp: in_set_conv_nth upd(2))
    with others [of j] res show ?thesis by (cases "j = i") (auto simp: upd(2))
  qed
  moreover have "cinv w1 (blank h)" if "h \<in> set gs" for h
  proof (rule wmoves_inv [where g = "gen_ID (co_gen c)" and w = w])
    have "h \<noteq> member_gen (ms ! i)" using ok that nth_mem [OF True] by (auto simp: fleet_ok_def)
    with that show "ids_disjoint (gen_ID (co_gen c)) (gen_ID (co_gen (blank h)))" by (simp add: dis)
    show "cinv w (blank h)" using ok that by (simp add: fleet_ok_def)
  qed (use res in simp)
  ultimately show ?thesis using ok gens unfolding upd(1) by (simp add: fleet_ok_def imgs)
qed

lemma fleet_run_ok:
  assumes "fok m k (joining as @ gs) fl" and "handoffs_within m as" and "k + fleet_weight m as < 2 ^ 64"
  shows "fok m (k + fleet_weight m as) gs (fleet_run B wait caps fl as)"
  using assms
proof (induction as arbitrary: k fl)
  case Nil
  then show ?case by (simp add: fleet_run_def)
next
  case (Cons a as)
  obtain w ms where fl: "fl = (w, ms)" by force
  obtain w' ms' where act: "fleet_act B wait caps (w, ms) a = (w', ms')" by force
  show ?case
  proof (cases a)
    case (FJoin cfg)
    with Cons.prems fl have "fok m k (joining as @ gs) (w', ms')"
      by (intro fleet_join_ok [OF _ act [unfolded FJoin]]) simp
    with Cons.IH Cons.prems FJoin fl act show ?thesis by (simp add: fleet_run_def)
  next
    case (FAct i b)
    have size: "length order \<le> m" if "b = MPrepare order" for order
      using Cons.prems(2) FAct that by simp
    have within: "handoffs_within m as" using Cons.prems(2) FAct by (cases b) auto
    have "fok m (k + action_weight m b) (joining as @ gs) (w', ms')"
      using Cons.prems FAct fl act size by (intro fleet_member_ok [where a = b and i = i]) auto
    with Cons.IH [of "k + action_weight m b"] Cons.prems(3) within FAct fl act show ?thesis
      by (simp add: fleet_run_def add.assoc)
  qed
qed

text \<open>A token that two generations were granted for one claim: the generations are the same.\<close>

lemma granted_exclusive:
  assumes w: "world_ok wf view w" and "granted view w g n t" and "granted view w h n t"
    and "g \<noteq> ''''" and "h \<noteq> ''''"
  shows "g = h"
proof -
  let ?R = "\<lambda>a b. \<forall>n. fence_steps (view a n) (view b n)"
  have sorted: "sorted_wrt ?R (wo_hist w)" using w by (simp add: world_ok_def)
  from assms(2,3) obtain i j where
    i: "i < length (wo_hist w)" "v_holder (view (wo_hist w ! i) n) = g" "v_token (view (wo_hist w ! i) n) = t"
    and j: "j < length (wo_hist w)" "v_holder (view (wo_hist w ! j) n) = h" "v_token (view (wo_hist w ! j) n) = t"
    by (auto simp: granted_def in_set_conv_nth)
  consider "i < j" | "i = j" | "j < i" by linarith
  then show ?thesis
  proof cases
    case 1
    then have "fence_steps (view (wo_hist w ! i) n) (view (wo_hist w ! j) n)"
      using sorted_wrt_nth_less [OF sorted 1] j(1) by blast
    from fence_steps_epoch [OF this] i j assms(5) show ?thesis by simp
  next
    case 2
    with i j show ?thesis by simp
  next
    case 3
    then have "fence_steps (view (wo_hist w ! j) n) (view (wo_hist w ! i) n)"
      using sorted_wrt_nth_less [OF sorted 3] i(1) by blast
    from fence_steps_epoch [OF this] i j assms(4) show ?thesis by simp
  qed
qed

lemma fleet_tokens_exclusive:
  assumes "fok m k gs (w, ms)" and "(c, ho) \<in> set ms" and "(d, ho') \<in> set ms"
    and "l \<in> set (co_leases c)" and "l' \<in> set (co_leases d)"
    and "le_claim l = le_claim l'" and "le_token l = le_token l'"
  shows "gen_ID (co_gen c) = gen_ID (co_gen d)"
proof (rule granted_exclusive)
  have inv: "cinv w c" "cinv w d" using assms(1-3) by (auto simp: fleet_ok_def member_ok_def)
  then show "world_ok wf view w" by (simp add: coord_inv_def)
  show "granted view w (gen_ID (co_gen c)) (le_claim l) (le_token l)"
    "granted view w (gen_ID (co_gen d)) (le_claim l) (le_token l)"
    using inv assms(4-7) by (auto simp: coord_inv_def core_ok_def core_def)
  have "gen_name (member_gen (c, ho))" "gen_name (member_gen (d, ho'))"
    using assms(1-3) unfolding fleet_ok_def by auto
  then show "gen_ID (co_gen c) \<noteq> ''''" "gen_ID (co_gen d) \<noteq> ''''"
    by (auto simp: gen_name_def member_gen_def)
qed

lemma fleet_one_live_lease:
  assumes "fok m k gs (w, ms)" and "(c, ho) \<in> set ms"
    and "i < length (co_leases c)" "\<not> le_canceled (co_leases c ! i)"
    and "j < length (co_leases c)" "\<not> le_canceled (co_leases c ! j)"
    and "le_claim (co_leases c ! i) = le_claim (co_leases c ! j)"
  shows "i = j"
proof -
  have "cinv w c" using assms(1,2) by (auto simp: fleet_ok_def member_ok_def)
  then have "leases_ok (co_leases c) (lease_of c)" by (simp add: coord_inv_def core_ok_def core_def)
  with assms(3-7) show ?thesis unfolding leases_ok_def by (metis option.inject)
qed

lemma fleet_start_ok:
  assumes "wf b" and "\<And>i. \<not> seen b i" and "wo_store w = b" and "wo_hist w = [b]"
    and "distinct gs" and "\<And>g. g \<in> set gs \<Longrightarrow> gen_name g \<and> foreign g w"
  shows "fok m 0 gs (w, [])"
  using assms
  by (simp add: fleet_ok_def coord_inv_def world_ok_def core_blank core_ok_def leases_ok_def)

end


section \<open>A fleet over the memory store\<close>

lemma mem_fleet_ok:
  assumes "wo_store w = mem_New p" and "wo_hist w = [mem_New p]"
    and "distinct (joining as)" and "list_all (\<lambda>g. gen_name g \<and> foreign g w) (joining as)"
    and "handoffs_within m as" and "fleet_weight m as < 2 ^ 64"
  shows "mem.fok m (fleet_weight m as) [] (fleet_run mem_ops wait caps (w, []) as)"
proof -
  have "mem.fok m 0 (joining as @ []) (w, [])"
    using assms(1-4)
    by (intro mem.fleet_start_ok [where b = "mem_New p"])
      (auto simp: list_all_iff mem_wf_def mem_seen_def mem_recallOp_def mem_New_def)
  from mem.fleet_run_ok [OF this assms(5), where wait = wait and caps = caps] assms(6)
  show ?thesis by simp
qed

text \<open>
  C1. Exclusive ownership in a fleet. Let generations with distinct, colon-free names join one
  after the other, and let them claim, wait, acquire, renew, release, close and hand over in any
  interleaving, with arbitrary calls of other clients in between, on one memory store. Then no two
  generations ever hold leases of one claim with the same fencing token, counting every lease a
  worker was ever given, revoked or not; and no generation has two live leases of one claim.
\<close>

theorem fleet_exclusive_ownership:
  assumes "wo_store w = mem_New p" and "wo_hist w = [mem_New p]"
    and "distinct (joining as)" and "list_all (\<lambda>g. gen_name g \<and> foreign g w) (joining as)"
    and "handoffs_within m as" and "fleet_weight m as < 2 ^ 64"
    and "fleet_run mem_ops wait caps (w, []) as = (w', ms)"
    and "i < length ms" and "j < length ms"
    and "a < length (co_leases (fst (ms ! i)))" and "b < length (co_leases (fst (ms ! j)))"
    and "le_claim (co_leases (fst (ms ! i)) ! a) = le_claim (co_leases (fst (ms ! j)) ! b)"
  shows "(le_token (co_leases (fst (ms ! i)) ! a) = le_token (co_leases (fst (ms ! j)) ! b) \<longrightarrow> i = j)
       \<and> (i = j \<and> \<not> le_canceled (co_leases (fst (ms ! i)) ! a) \<and> \<not> le_canceled (co_leases (fst (ms ! j)) ! b)
          \<longrightarrow> a = b)"
proof -
  have ok: "mem.fok m (fleet_weight m as) [] (w', ms)"
    using mem_fleet_ok [OF assms(1-6), where wait = wait and caps = caps] assms(7) by simp
  obtain c ho d ho' where m: "ms ! i = (c, ho)" "ms ! j = (d, ho')" by force
  then have mem: "(c, ho) \<in> set ms" "(d, ho') \<in> set ms" using nth_mem assms(8,9) by metis+
  have gens: "distinct (map member_gen ms)" using ok by (simp add: fleet_ok_def)
  show ?thesis
  proof (intro conjI impI)
    assume "le_token (co_leases (fst (ms ! i)) ! a) = le_token (co_leases (fst (ms ! j)) ! b)"
    with mem.fleet_tokens_exclusive [OF ok mem nth_mem nth_mem] assms(10-12) m
    have "member_gen (ms ! i) = member_gen (ms ! j)" by (simp add: member_gen_def)
    with gens assms(8,9) show "i = j" by (auto simp: distinct_conv_nth)
  next
    assume "i = j \<and> \<not> le_canceled (co_leases (fst (ms ! i)) ! a) \<and> \<not> le_canceled (co_leases (fst (ms ! j)) ! b)"
    with mem.fleet_one_live_lease [OF ok mem(1), of a b] assms(10-12) m show "a = b" by auto
  qed
qed

definition fleet_config :: "string \<Rightarrow> coord_config" where
  "fleet_config g =
     \<lparr>cfg_Service = ''billing'', cfg_InstanceID = ''pod'', cfg_Backend = Some (),
      cfg_GenerationID = g, cfg_LeaseTTL = 0, cfg_RenewInterval = 0, cfg_AcquireInterval = 0,
      cfg_TransferTimeout = 0, cfg_DrainTimeout = 0, cfg_ReadinessTimeout = 0,
      cfg_WatchBuffer = 0, cfg_EventBuffer = 0,
      cfg_Policy = \<lparr>pol_MinLeaseTTL = 0, pol_MaxLeaseTTL = 0, pol_RequireRenewBelowTTL = False,
        pol_MaxConcurrentClaims = 0, pol_AllowForceRelease = False, pol_RejectStaleRelease = False,
        pol_RequireDurable = False, pol_RequireIdempotent = False,
        pol_RequireGlobalExclusive = False, pol_FailClosedOnAmbiguous = False,
        pol_AllowLocalDegradation = True\<rparr>,
      cfg_Clock = None, cfg_Hooks = [], cfg_Observers = []\<rparr>"

text \<open>A rolling deployment: \<open>g1\<close> owns a claim and hands it over to \<open>g2\<close>.\<close>

definition rollout :: "fleet_action list" where
  "rollout =
     [FJoin (fleet_config ''g1''), FJoin (fleet_config ''g2''),
      FAct 0 (MClaim ''jobs''), FAct 1 (MClaim ''jobs''), FAct 0 (MAcquire ''jobs'' []),
      FAct 0 (MPrepare [''jobs'']), FAct 0 (MTransfer ''g2''), FAct 0 MCommit,
      FAct 1 (MAcquire ''jobs'' [])]"

definition rollout_world :: "mem_backend world" where
  "rollout_world = \<lparr>wo_store = mem_New False, wo_hist = [mem_New False],
     wo_env = (\<lambda>n. \<lparr>ctxErr = None, tExpire = 0, tNow = 0, tNotify = 0\<rparr>), wo_others = (\<lambda>_. []), wo_n = 0\<rparr>"

definition rollout_wait :: drain_env where
  "rollout_wait n g = (g, None)"

definition rollout_members :: "member list" where
  "rollout_members = snd (fleet_run mem_ops rollout_wait None (rollout_world, []) rollout)"

definition rollout_transferred :: "mem_backend fleet" where
  "rollout_transferred = fleet_run mem_ops rollout_wait None (rollout_world, []) (take 7 rollout)"

text \<open>
  The state after the transfer is prepared is computed once, with all that the concrete runs below
  need of it.
\<close>

definition rollout_commits :: "mem_backend world \<Rightarrow> Coordinator \<Rightarrow> Handoff \<Rightarrow> bool" where
  "rollout_commits w c h \<longleftrightarrow>
     snd (snd (snd (handoff_Commit mem_ops w c h))) = None
     \<and> ho_status h \<noteq> HandoffCommitted \<and> ho_status h \<noteq> HandoffAborted \<and> ho_transferDone h
     \<and> ho_successorID h = ''g2'' \<and> gen_ID (co_gen c) = ''g1''
     \<and> ho_claims h = [''jobs''] \<and> map_of (ho_tokens h) ''jobs'' = Some 1
     \<and> (case handoff_Commit mem_ops (w\<lparr>wo_store := mem_FailNext (wo_store w) (Some (Sentinel ErrBackend))\<rparr>) c h of
          (w, c, h, e1) \<Rightarrow> map_of (ho_tokens h) ''jobs'' = None \<and>
            (case handoff_Commit mem_ops w c h of (w, c, h, e2) \<Rightarrow>
              e1 \<noteq> None \<and> e2 = None \<and> ho_status h = HandoffCommitted \<and> gen_State (co_gen c) = StateRetired
              \<and> v_holder (mem_view (wo_store w) ''jobs'') = ''g1'' \<and> v_token (mem_view (wo_store w) ''jobs'') = 1
              \<and> v_pending (mem_view (wo_store w) ''jobs'') = None \<and> currentLeaseToken c ''jobs'' = Some 1))"

definition rollout_checks :: "mem_backend world \<Rightarrow> member list \<Rightarrow> bool" where
  "rollout_checks w ms \<longleftrightarrow>
     map (\<lambda>(c, _). map le_claim (co_leases c)) (snd (fleet_run mem_ops rollout_wait None (w, ms) (drop 7 rollout)))
        = [[''jobs''], [''jobs'']]
     \<and> map (\<lambda>(c, ho). ho \<noteq> None) ms = [True, False] \<and> rollout_commits w (fst (ms ! 0)) (the (snd (ms ! 0)))"

lemma rollout_eval: "case rollout_transferred of (w, ms) \<Rightarrow> rollout_checks w ms"
  by code_simp

lemma rollout_checked: "rollout_checks (fst rollout_transferred) (snd rollout_transferred)"
  using rollout_eval by (simp add: case_prod_beta)

lemma rollout_leases:
  "map (\<lambda>(c, _). map le_claim (co_leases c)) rollout_members = [[''jobs''], [''jobs'']]"
proof -
  have "fleet_run mem_ops rollout_wait None (rollout_world, []) rollout
      = fleet_run mem_ops rollout_wait None rollout_transferred (drop 7 rollout)"
    unfolding rollout_transferred_def fleet_run_def by (simp flip: foldl_append)
  then show ?thesis using rollout_checked unfolding rollout_members_def rollout_checks_def by simp
qed

lemma two_members:
  "map (\<lambda>(c, _). map le_claim (co_leases c)) ms = [[n], [n]] \<Longrightarrow>
     length ms = 2 \<and> length (co_leases (fst (ms ! 0))) = 1 \<and> length (co_leases (fst (ms ! 1))) = 1
     \<and> le_claim (co_leases (fst (ms ! 0)) ! 0) = le_claim (co_leases (fst (ms ! 1)) ! 0)"
  by (auto simp: map_eq_Cons_conv)

theorem fleet_exclusive_ownership_witness:
  "le_token (co_leases (fst (rollout_members ! 0)) ! 0)
   \<noteq> le_token (co_leases (fst (rollout_members ! 1)) ! 0)"
proof -
  have run: "fleet_run mem_ops rollout_wait None (rollout_world, []) rollout
      = (fst (fleet_run mem_ops rollout_wait None (rollout_world, []) rollout), rollout_members)"
    by (simp add: rollout_members_def)
  have start: "wo_store rollout_world = mem_New False" "wo_hist rollout_world = [mem_New False]"
    "distinct (joining rollout)" "handoffs_within 1 rollout" "fleet_weight 1 rollout < 2 ^ 64"
    "list_all (\<lambda>g. gen_name g \<and> foreign g rollout_world) (joining rollout)"
    by (simp_all add: rollout_world_def rollout_def fleet_config_def gen_name_def foreign_def)
  from fleet_exclusive_ownership [OF start(1-3,6,4,5) run, of 0 1 0 0] two_members [OF rollout_leases]
  show ?thesis by (auto simp del: length_greater_0_conv)
qed

text \<open>
  C3. What a handoff that reports success has done. Whatever the fleet did before, when \<open>Commit\<close>
  returns nil on a handoff that was not committed yet, then for every claim that was reserved for
  the successor under a token: the store gave the claim to the successor under the next token, and
  the old generation has no lease of the claim, no token to renew or release it with, and the
  handoff is marked committed.
\<close>

theorem handoff_commit_correct:
  assumes "wo_store w = mem_New p" and "wo_hist w = [mem_New p]"
    and "distinct (joining as)" and "list_all (\<lambda>g. gen_name g \<and> foreign g w) (joining as)"
    and "handoffs_within m as" and "fleet_weight m as + m < 2 ^ 64"
    and "fleet_run mem_ops wait caps (w, []) as = (w1, ms)"
    and "i < length ms" and "ms ! i = (c, Some h)"
    and "handoff_Commit mem_ops w1 c h = (w2, c2, h2, None)"
    and "ho_status h \<noteq> HandoffCommitted" and "ho_successorID h \<noteq> gen_ID (co_gen c)"
    and "n \<in> set (ho_claims h)" and "map_of (ho_tokens h) n = Some t"
  shows "granted mem_view w2 (ho_successorID h) n (t + 1) \<and> lease_of c2 n = None
       \<and> currentLeaseToken c2 n = None \<and> ho_status h2 = HandoffCommitted"
proof -
  have "mem.fok m (fleet_weight m as) [] (w1, ms)"
    using mem_fleet_ok [OF assms(1-5), where wait = wait and caps = caps] assms(6,7) by simp
  then have "mem.mok m (fleet_weight m as) w1 (c, Some h)"
    using nth_mem [OF assms(8)] assms(9) by (simp add: fleet_ok_def)
  then have inv: "coord_inv mem_wf mem_view mem_seen w1 c" and "unat (co_opSeq c) + length (ho_claims h) < 2 ^ 64"
    using assms(6) by (auto simp: member_ok_def)
  from fenced_backend.handoff_Commit_done [OF mem.fenced_backend_axioms assms(10,11) this assms(12-14)] show ?thesis
    by (auto simp: fenced_out_token lease_of_def fenced_out_def split: bind_splits)
qed

definition rollout_g1 :: "Coordinator \<times> Handoff" where
  "rollout_g1 = (case snd rollout_transferred ! 0 of (c, ho) \<Rightarrow> (c, the ho))"

definition rollout_commit :: "mem_backend world \<times> Coordinator \<times> Handoff \<times> go_error option" where
  "rollout_commit = handoff_Commit mem_ops (fst rollout_transferred) (fst rollout_g1) (snd rollout_g1)"

lemma rollout_facts:
  "map (\<lambda>(c, ho). ho \<noteq> None) (snd rollout_transferred) = [True, False]
   \<and> snd (snd (snd rollout_commit)) = None
   \<and> ho_status (snd rollout_g1) \<noteq> HandoffCommitted \<and> ho_successorID (snd rollout_g1) = ''g2''
   \<and> gen_ID (co_gen (fst rollout_g1)) = ''g1'' \<and> ho_claims (snd rollout_g1) = [''jobs'']
   \<and> map_of (ho_tokens (snd rollout_g1)) ''jobs'' = Some 1"
  using rollout_checked
  by (simp add: rollout_checks_def rollout_commits_def rollout_g1_def rollout_commit_def case_prod_beta)

theorem handoff_commit_correct_witness:
  "granted mem_view (fst rollout_commit) ''g2'' ''jobs'' 2
   \<and> currentLeaseToken (fst (snd rollout_commit)) ''jobs'' = None"
proof -
  let ?as = "take 7 rollout"
  have start: "wo_store rollout_world = mem_New False" "wo_hist rollout_world = [mem_New False]"
    "distinct (joining ?as)" "handoffs_within 1 ?as" "fleet_weight 1 ?as + 1 < 2 ^ 64"
    "list_all (\<lambda>g. gen_name g \<and> foreign g rollout_world) (joining ?as)"
    by (simp_all add: rollout_world_def rollout_def fleet_config_def gen_name_def foreign_def)
  have run: "fleet_run mem_ops rollout_wait None (rollout_world, []) ?as
      = (fst rollout_transferred, snd rollout_transferred)"
    by (simp add: rollout_transferred_def)
  note facts = rollout_facts
  have len: "0 < length (snd rollout_transferred)" using facts by (cases "snd rollout_transferred") auto
  have some: "snd (snd rollout_transferred ! 0) \<noteq> None"
    using facts by (cases "snd rollout_transferred") (auto split: prod.splits)
  then have nth: "snd rollout_transferred ! 0 = (fst rollout_g1, Some (snd rollout_g1))"
    by (auto simp: rollout_g1_def split: prod.splits)
  have com: "handoff_Commit mem_ops (fst rollout_transferred) (fst rollout_g1) (snd rollout_g1)
      = (fst rollout_commit, fst (snd rollout_commit), fst (snd (snd rollout_commit)), None)"
    using facts by (metis prod.collapse rollout_commit_def)
  from handoff_commit_correct [OF start(1-3,6,4,5) run len nth com, of "''jobs''" 1] facts
  show ?thesis by simp
qed

definition commit_twice ::
  "mem_backend world \<times> Coordinator \<times> Handoff \<times> go_error option \<times> go_error option" where
  "commit_twice =
     (let w = fst rollout_transferred;
          w = w\<lparr>wo_store := mem_FailNext (wo_store w) (Some (Sentinel ErrBackend))\<rparr>
      in case handoff_Commit mem_ops w (fst rollout_g1) (snd rollout_g1) of (w, c, h, e1) \<Rightarrow>
        (case handoff_Commit mem_ops w c h of (w, c, h, e2) \<Rightarrow> (w, c, h, e1, e2)))"

lemma abort_loop_frame:
  "abort_loop B s toks w c h ns = (w', c', h') \<Longrightarrow>
   ho_status h' = ho_status h \<and> ho_transferDone h' = ho_transferDone h"
  by (induction ns arbitrary: w c h) (auto split: option.splits prod.splits; fastforce)+

lemma commit_loop_frame:
  "commit_loop B s toks w c h com ns = (w', c', h', com', r) \<Longrightarrow> ho_transferDone h' = ho_transferDone h"
  by (induction ns arbitrary: w c h com) (auto simp: Let_def split: option.splits prod.splits; fastforce)+

lemma commit_loop_nothing:
  "\<forall>n \<in> set ns. map_of toks n = None \<Longrightarrow> commit_loop B s toks w c h com ns = (w, c, h, com, None)"
  by (induction ns) simp_all

lemma handoff_Commit_failed:
  assumes "handoff_Commit B w c h = (w1, c1, h1, Some er)" and "ho_transferDone h" and "ho_status h \<noteq> HandoffAborted"
  shows "ho_transferDone h1 \<and> ho_status h1 = HandoffFailed \<and> ho_claims h1 = ho_claims h"
proof -
  obtain w2 c2 h2 com r where loop:
    "commit_loop B (ho_successorID h) (ho_tokens h) w c h [] (ho_claims h) = (w2, c2, h2, com, r)"
    by (metis prod_cases5)
  note h2 = commit_loop_frame [OF loop] commit_loop_claims [OF loop]
  obtain n x where r: "r = Some (n, x)"
    using assms loop by (cases r) (auto simp: handoff_Commit_def split: if_splits prod.splits)
  obtain c3 h3 where fail: "handoff_fail w2 c2 h2 x = (c3, h3)" by force
  let ?toks = "filter (\<lambda>(n, t). n \<notin> set com) (ho_tokens (startTimeoutWatcher h3))"
  have "abortTokens B w2 c3 (startTimeoutWatcher h3) ?toks = (w1, c1, h1)"
    using assms loop r fail
    by (auto simp: handoff_Commit_def abortUncommitted_def split: if_splits prod.splits)
  then have "ho_status h1 = ho_status h3 \<and> ho_transferDone h1 = ho_transferDone h3 \<and> ho_claims h1 = ho_claims h3"
    by (auto simp: abortTokens_def startTimeoutWatcher_def split: if_splits
        dest: abort_loop_frame abort_loop_claims)
  with h2 fail assms(2) show ?thesis by (auto simp: handoff_fail_def)
qed

text \<open>
  C35. A retried \<open>Commit\<close> can report success for a transfer that did not happen. Over any backend, take
  a \<open>Commit\<close> that fails and whose compensation leaves no reservation open, so that each claim was
  committed or given back. Calling \<open>Commit\<close> again returns nil and marks the handoff committed,
  whatever was given back: it commits nothing, its only call of the backend is the update of the
  generation's state, and every claim and lease of the coordinator stays as the failure left it.
\<close>

theorem commit_retry_commits_nothing:
  assumes "handoff_Commit B w c h = (w1, c1, h1, Some er)" and "ho_transferDone h" and "ho_status h \<noteq> HandoffAborted"
    and "\<forall>n \<in> set (ho_claims h). map_of (ho_tokens h1) n = None"
  shows "\<exists>w2 c2 h2. handoff_Commit B w1 c1 h1 = (w2, c2, h2, None) \<and> ho_status h2 = HandoffCommitted
       \<and> co_claims c2 = co_claims c1 \<and> co_leases c2 = co_leases c1
       \<and> (w2 = w1 \<or> (\<exists>g. w2 = fst (backend_call B w1 (CUpdate g))))"
proof -
  note h1 = handoff_Commit_failed [OF assms(1-3)]
  then have loop: "commit_loop B (ho_successorID h1) (ho_tokens h1) w1 c1 h1 [] (ho_claims h1) = (w1, c1, h1, [], None)"
    using assms(4) by (intro commit_loop_nothing) simp
  obtain w2 c2 e where set: "setState B w1 c1 StateRetired ReasonRetired = (w2, c2, e)" by (metis prod_cases3)
  then have "co_claims c2 = co_claims c1 \<and> co_leases c2 = co_leases c1
      \<and> (w2 = w1 \<or> (\<exists>g. w2 = fst (backend_call B w1 (CUpdate g))))"
    by (auto simp: setState_def Let_def coord_emit_def split: if_splits)
  then show ?thesis using h1 loop set by (simp add: handoff_Commit_def coord_emit_def)
qed

definition failed_commit :: "mem_backend world \<times> Coordinator \<times> Handoff \<times> go_error option" where
  "failed_commit =
     (let w = fst rollout_transferred
      in handoff_Commit mem_ops (w\<lparr>wo_store := mem_FailNext (wo_store w) (Some (Sentinel ErrBackend))\<rparr>)
           (fst rollout_g1) (snd rollout_g1))"

theorem commit_retry_commits_nothing_witness:
  "snd (snd (snd failed_commit)) \<noteq> None
   \<and> (\<exists>w2 c2 h2. handoff_Commit mem_ops (fst failed_commit) (fst (snd failed_commit)) (fst (snd (snd failed_commit)))
        = (w2, c2, h2, None) \<and> ho_status h2 = HandoffCommitted)"
proof -
  let ?h = "fst (snd (snd failed_commit))"
  have facts: "snd (snd (snd failed_commit)) \<noteq> None" "map_of (ho_tokens ?h) ''jobs'' = None"
      "ho_claims (snd rollout_g1) = [''jobs'']" "ho_transferDone (snd rollout_g1)"
      "ho_status (snd rollout_g1) \<noteq> HandoffAborted"
    using rollout_checked
    by (simp_all add: rollout_checks_def rollout_commits_def rollout_g1_def failed_commit_def case_prod_beta Let_def)
  then obtain er where "failed_commit = (fst failed_commit, fst (snd failed_commit), ?h, Some er)"
    by (metis not_None_eq prod.collapse)
  from commit_retry_commits_nothing [OF this [unfolded failed_commit_def Let_def]] facts show ?thesis
    by (auto simp: failed_commit_def Let_def)
qed

text \<open>
  Such a run: the second \<open>Commit\<close> returns nil, marks the handoff committed and retires the generation,
  while the store still shows the claim with the old generation under the old token and the
  generation keeps its lease.
\<close>

theorem commit_retry_forgets_transfer:
  "case commit_twice of (w, c, h, e1, e2) \<Rightarrow>
     e1 \<noteq> None \<and> e2 = None \<and> ho_status h = HandoffCommitted \<and> gen_State (co_gen c) = StateRetired
     \<and> v_holder (mem_view (wo_store w) ''jobs'') = ''g1'' \<and> v_token (mem_view (wo_store w) ''jobs'') = 1
     \<and> v_pending (mem_view (wo_store w) ''jobs'') = None \<and> currentLeaseToken c ''jobs'' = Some 1"
  using rollout_checked
  by (simp add: rollout_checks_def rollout_commits_def rollout_g1_def commit_twice_def case_prod_beta Let_def)

end
