(* ===== verification/Resource_Core.thy ===== *)
theory Resource_Core
  imports Go_Strings
begin

text \<open>
  The vocabulary of the resource fabric: \<open>resource/id.go\<close>, \<open>kind.go\<close>, \<open>epoch.go\<close>, \<open>capabilities.go\<close>,
  \<open>errors.go\<close> and \<open>health.go\<close>. A resource is named by four segments with a canonical slash-separated
  form; parsing and printing are inverse on valid identifiers. Epochs are 64-bit and advance by
  one, with a terminal error before they could wrap.
\<close>

section \<open>Identifiers and errors\<close>

type_synonym Kind = string

record ResourceID =
  rid_Kind :: Kind
  rid_Environment :: string
  rid_Service :: string
  rid_Name :: string

datatype resource_sentinel =
    ErrInvalidID | ErrUnknownKind | ErrDuplicate | ErrNotFound | ErrBoundExceeded | ErrCycle
  | ErrCapabilityClaimed | ErrEpochOverflow | ErrEpochDecreased | ErrLockdown | ErrClosed
  | ErrBundleNotReady | ErrDependencyBlocked | ErrPartialAcquire | ErrEvidenceTooLarge
  | ErrInvalidArgument | ErrLeaseHeld | ErrLeaseNotHeld | ErrLeaseMode | ErrFenceRequired
  | ErrStaleFence

primrec resource_text :: "resource_sentinel \<Rightarrow> string" where
  "resource_text ErrInvalidID = ''resource: invalid id''"
| "resource_text ErrUnknownKind = ''resource: unknown kind''"
| "resource_text ErrDuplicate = ''resource: duplicate registration''"
| "resource_text ErrNotFound = ''resource: not found''"
| "resource_text ErrBoundExceeded = ''resource: bound exceeded''"
| "resource_text ErrCycle = ''resource: dependency cycle''"
| "resource_text ErrCapabilityClaimed = ''resource: capability not supported''"
| "resource_text ErrEpochOverflow = ''resource: epoch overflow''"
| "resource_text ErrEpochDecreased = ''resource: epoch must not decrease''"
| "resource_text ErrLockdown = ''resource: lockdown blocks mutation''"
| "resource_text ErrClosed = ''resource: registry closed''"
| "resource_text ErrBundleNotReady = ''resource: bundle not ready''"
| "resource_text ErrDependencyBlocked = ''resource: dependency blocked''"
| "resource_text ErrPartialAcquire = ''resource: partial acquire released''"
| "resource_text ErrEvidenceTooLarge = ''resource: evidence exceeds size limit''"
| "resource_text ErrInvalidArgument = ''resource: invalid argument''"
| "resource_text ErrLeaseHeld = ''resource: lease held''"
| "resource_text ErrLeaseNotHeld = ''resource: lease not held''"
| "resource_text ErrLeaseMode = ''resource: incompatible lease mode''"
| "resource_text ErrFenceRequired = ''resource: fencing token required''"
| "resource_text ErrStaleFence = ''resource: stale fencing token''"

text \<open>A sentinel, a typed \<open>*Error\<close> with its cause, or an error of another package.\<close>

datatype resource_error =
    RSentinel resource_sentinel
  | RError string ResourceID "resource_error option" string
  | ROther string

definition no_id :: ResourceID where
  "no_id = \<lparr>rid_Kind = '''', rid_Environment = '''', rid_Service = '''', rid_Name = ''''\<rparr>"

definition rerror :: "string \<Rightarrow> ResourceID \<Rightarrow> resource_sentinel \<Rightarrow> string \<Rightarrow> resource_error" where
  "rerror op i s msg = RError op i (Some (RSentinel s)) msg"

fun resource_Is :: "resource_error \<Rightarrow> resource_sentinel \<Rightarrow> bool" where
  "resource_Is (RSentinel s) t = (s = t)"
| "resource_Is (RError op i None msg) t = False"
| "resource_Is (RError op i (Some e) msg) t = resource_Is e t"
| "resource_Is (ROther msg) t = False"

lemma resource_Is_rerror [simp]: "resource_Is (rerror op i s msg) t \<longleftrightarrow> s = t"
  by (simp add: rerror_def)

definition ResourceID_String :: "ResourceID \<Rightarrow> string" where
  "ResourceID_String i = rid_Kind i @ ''/'' @ rid_Environment i @ ''/'' @ rid_Service i @ ''/'' @ rid_Name i"

definition ResourceID_IsZero :: "ResourceID \<Rightarrow> bool" where
  "ResourceID_IsZero i \<longleftrightarrow>
     rid_Kind i = '''' \<and> rid_Environment i = '''' \<and> rid_Service i = '''' \<and> rid_Name i = ''''"

definition ResourceID_Equal :: "ResourceID \<Rightarrow> ResourceID \<Rightarrow> bool" where
  "ResourceID_Equal i o' \<longleftrightarrow> rid_Kind i = rid_Kind o' \<and> rid_Environment i = rid_Environment o'
     \<and> rid_Service i = rid_Service o' \<and> rid_Name i = rid_Name o'"

lemma ResourceID_Equal_iff: "ResourceID_Equal i j \<longleftrightarrow> i = j"
  by (auto simp: ResourceID_Equal_def)

fun resource_Error :: "resource_error \<Rightarrow> string" where
  "resource_Error (RSentinel s) = resource_text s"
| "resource_Error (ROther msg) = msg"
| "resource_Error (RError op i cause msg) =
     (let m = (if msg = '''' then (case cause of Some e \<Rightarrow> resource_Error e | None \<Rightarrow> '''') else msg);
          m = (if m = '''' then ''error'' else m)
      in if op \<noteq> '''' \<and> rid_Name i \<noteq> '''' then
           ''resource: '' @ op @ '' id='' @ go_quote (ResourceID_String i) @ '': '' @ m
         else if op \<noteq> '''' then ''resource: '' @ op @ '': '' @ m
         else ''resource: '' @ m)"

definition resource_wrap :: "string \<Rightarrow> ResourceID \<Rightarrow> resource_error option \<Rightarrow> string \<Rightarrow> resource_error option" where
  "resource_wrap op i err msg = (case err of None \<Rightarrow> None | Some e \<Rightarrow> Some (RError op i (Some e) msg))"

section \<open>Validation\<close>

text \<open>The result is the text of the error, if any.\<close>

fun segment_runes :: "nat list \<Rightarrow> string option" where
  "segment_runes [] = None"
| "segment_runes (r # rs) =
     (if IsSpace r then Some ''segment must not contain whitespace''
      else if r < 0x20 \<or> r = 0x7f then Some ''segment contains control character''
      else segment_runes rs)"

definition validateSegment :: "string \<Rightarrow> string option" where
  "validateSegment s =
     (if s = '''' then Some ''empty segment''
      else if Contains s ''/'' then Some (''segment must not contain '' @ [CHR 0x27, CHR ''/'', CHR 0x27])
      else segment_runes (runes s))"

fun validate_segments :: "ResourceID \<Rightarrow> string list \<Rightarrow> resource_error option" where
  "validate_segments i [] = None"
| "validate_segments i (seg # segs) =
     (case validateSegment seg of
        Some msg \<Rightarrow> Some (rerror ''ResourceID.Validate'' i ErrInvalidID msg)
      | None \<Rightarrow> validate_segments i segs)"

definition ResourceID_Validate :: "ResourceID \<Rightarrow> resource_error option" where
  "ResourceID_Validate i =
     (if rid_Kind i = '''' \<or> rid_Environment i = '''' \<or> rid_Service i = '''' \<or> rid_Name i = '''' then
        Some (rerror ''ResourceID.Validate'' i ErrInvalidID ''all segments required'')
      else validate_segments i [rid_Kind i, rid_Environment i, rid_Service i, rid_Name i])"

section \<open>Kinds\<close>

definition builtinKinds :: "Kind list" where
  "builtinKinds = [''database'', ''queue'', ''stream'', ''cache'', ''filesystem'', ''object-store'',
     ''http-service'', ''grpc-service'', ''worker'', ''scheduler'', ''deployment'', ''configuration'',
     ''secret-reference'', ''rate-limit'', ''feature'', ''custom'']"

text \<open>The registered custom kinds, a global of the package, are an argument.\<close>

definition ValidKind :: "Kind list \<Rightarrow> Kind \<Rightarrow> bool" where
  "ValidKind customKinds k \<longleftrightarrow> k \<in> set builtinKinds \<or> k \<in> set customKinds"

definition RegisterCustomKind :: "Kind list \<Rightarrow> Kind \<Rightarrow> Kind list \<times> resource_error option" where
  "RegisterCustomKind customKinds k =
     (if k = '''' \<or> 64 < length k then
        (customKinds, Some (rerror ''RegisterCustomKind'' no_id ErrInvalidArgument ''invalid kind name''))
      else if list_ex (\<lambda>r. r = 0x2f \<or> r = 0x20 \<or> r < 0x20) (runes k) then
        (customKinds, Some (rerror ''RegisterCustomKind'' no_id ErrInvalidArgument ''invalid kind characters''))
      else if k \<in> set builtinKinds then
        (customKinds, Some (rerror ''RegisterCustomKind'' no_id ErrDuplicate ''built-in kind''))
      else if k \<in> set customKinds then
        (customKinds, Some (rerror ''RegisterCustomKind'' no_id ErrDuplicate ''already registered''))
      else (customKinds @ [k], None))"

definition KnownKinds :: "Kind list \<Rightarrow> Kind list" where
  "KnownKinds customKinds = builtinKinds @ customKinds"

section \<open>Parsing\<close>

definition ParseResourceID :: "Kind list \<Rightarrow> string \<Rightarrow> ResourceID + resource_error" where
  "ParseResourceID customKinds s =
     (case Split CHR ''/'' (TrimSpace s) of
        [k, e, v, n] \<Rightarrow>
          (let i = \<lparr>rid_Kind = k, rid_Environment = e, rid_Service = v, rid_Name = n\<rparr>
           in case ResourceID_Validate i of
                Some err \<Rightarrow> Inr err
              | None \<Rightarrow>
                  if \<not> ValidKind customKinds k then
                    Inr (rerror ''ParseResourceID'' i ErrUnknownKind (''unknown kind '' @ go_quote k))
                  else Inl i)
      | _ \<Rightarrow> Inr (rerror ''ParseResourceID'' no_id ErrInvalidID ''want kind/environment/service/name''))"

lemma Contains_char: "Contains s [c] \<longleftrightarrow> c \<in> set s"
  by (induction s) auto

lemma segment_runes_None: "segment_runes rs = None \<longleftrightarrow> (\<forall>r \<in> set rs. \<not> IsSpace r \<and> \<not> (r < 0x20 \<or> r = 0x7f))"
  by (induction rs) auto

lemma validateSegment_None:
  "validateSegment s = None \<longleftrightarrow>
     s \<noteq> '''' \<and> CHR ''/'' \<notin> set s \<and> (\<forall>r \<in> set (runes s). \<not> IsSpace r \<and> \<not> (r < 0x20 \<or> r = 0x7f))"
  by (simp add: validateSegment_def Contains_char segment_runes_None)

lemma Validate_None:
  "ResourceID_Validate i = None \<longleftrightarrow>
     validateSegment (rid_Kind i) = None \<and> validateSegment (rid_Environment i) = None
     \<and> validateSegment (rid_Service i) = None \<and> validateSegment (rid_Name i) = None"
proof -
  have segs: "validate_segments i ss = None \<longleftrightarrow> (\<forall>s \<in> set ss. validateSegment s = None)" for ss
    by (induction ss) (auto split: option.splits)
  have "validateSegment '''' \<noteq> None" by (simp add: validateSegment_def)
  then show ?thesis by (auto simp: ResourceID_Validate_def segs simp del: validate_segments.simps)
qed

lemma runes_slash: "runes (a @ ''/'' @ b) = runes a @ 47 # runes b"
proof -
  have "ascii CHR ''/''" "byte CHR ''/'' = 47" by (simp_all add: ascii_def byte_def)
  with chunks_join [of "CHR ''/''" a b] show ?thesis by (simp add: runes_def)
qed

lemma String_no_space:
  assumes "ResourceID_Validate i = None"
  shows "TrimSpace (ResourceID_String i) = ResourceID_String i"
proof (rule TrimSpace_id)
  have "runes (ResourceID_String i) =
      runes (rid_Kind i) @ 47 # runes (rid_Environment i) @ 47 # runes (rid_Service i) @ 47 # runes (rid_Name i)"
    unfolding ResourceID_String_def by (simp only: runes_slash)
  moreover have "\<not> IsSpace 47" by (simp add: IsSpace_def)
  ultimately show "\<not> (\<exists>r \<in> set (runes (ResourceID_String i)). IsSpace r)"
    using assms unfolding Validate_None validateSegment_None by auto
qed

lemma Split_String:
  assumes "ResourceID_Validate i = None"
  shows "Split CHR ''/'' (ResourceID_String i) = [rid_Kind i, rid_Environment i, rid_Service i, rid_Name i]"
proof -
  have "CHR ''/'' \<notin> set (rid_Kind i)" "CHR ''/'' \<notin> set (rid_Environment i)"
    "CHR ''/'' \<notin> set (rid_Service i)" "CHR ''/'' \<notin> set (rid_Name i)"
    using assms unfolding Validate_None validateSegment_None by blast+
  then show ?thesis unfolding ResourceID_String_def by (simp add: Split_append Split_none)
qed

lemma Parse_String:
  assumes "ResourceID_Validate i = None" and "ValidKind ks (rid_Kind i)"
  shows "ParseResourceID ks (ResourceID_String i) = Inl i"
  using assms by (cases i) (simp add: ParseResourceID_def String_no_space Split_String)

lemma Parse_Inl:
  assumes "ParseResourceID ks s = Inl i"
  shows "ResourceID_Validate i = None" and "ValidKind ks (rid_Kind i)"
    and "ResourceID_String i = TrimSpace s"
proof -
  obtain k e v n where parts: "Split CHR ''/'' (TrimSpace s) = [k, e, v, n]"
    and i: "i = \<lparr>rid_Kind = k, rid_Environment = e, rid_Service = v, rid_Name = n\<rparr>"
    and ok: "ResourceID_Validate i = None" "ValidKind ks k"
    using assms by (auto simp: ParseResourceID_def Let_def split: list.splits option.splits if_splits)
  show "ResourceID_Validate i = None" "ValidKind ks (rid_Kind i)" using ok i by simp_all
  show "ResourceID_String i = TrimSpace s"
    using join_Split [of "CHR ''/''" "TrimSpace s"] by (simp add: parts i ResourceID_String_def)
qed

text \<open>
  C33. Canonical names of resources. Printing a valid identifier of a known kind and parsing the text
  gives the identifier back, so no two valid identifiers share their text; and whatever text the
  parser accepts, the identifier it returns is valid, of a known kind, and prints as the text
  without the white space around it.
\<close>

theorem ResourceID_roundtrip:
  "(ResourceID_Validate i = None \<and> ValidKind ks (rid_Kind i) \<longrightarrow> ParseResourceID ks (ResourceID_String i) = Inl i)
   \<and> (ResourceID_Validate i = None \<and> ResourceID_Validate j = None \<and> ResourceID_String i = ResourceID_String j
      \<longrightarrow> i = j)
   \<and> (ParseResourceID ks s = Inl i \<longrightarrow>
        ResourceID_Validate i = None \<and> ValidKind ks (rid_Kind i) \<and> ResourceID_String i = TrimSpace s)"
proof (intro conjI impI)
  assume "ResourceID_Validate i = None \<and> ResourceID_Validate j = None \<and> ResourceID_String i = ResourceID_String j"
  then have "[rid_Kind i, rid_Environment i, rid_Service i, rid_Name i]
      = [rid_Kind j, rid_Environment j, rid_Service j, rid_Name j]"
    using Split_String by metis
  then show "i = j" by simp
qed (auto simp: Parse_String Parse_Inl)

definition orders_db :: ResourceID where
  "orders_db = \<lparr>rid_Kind = ''database'', rid_Environment = ''production'', rid_Service = ''payments-api'',
     rid_Name = ''orders''\<rparr>"

theorem ResourceID_roundtrip_witness:
  "ParseResourceID [] ''database/production/payments-api/orders'' = Inl orders_db"
proof -
  have "list_all ascii ''database''" "list_all ascii ''production''" "list_all ascii ''payments-api''"
    "list_all ascii ''orders''"
    by (simp_all add: ascii_def byte_def)
  then have "ResourceID_Validate orders_db = None"
    by (simp add: Validate_None validateSegment_None orders_db_def runes_ascii byte_def IsSpace_def)
  moreover have "ValidKind [] (rid_Kind orders_db)"
    "ResourceID_String orders_db = ''database/production/payments-api/orders''"
    by (simp_all add: orders_db_def ValidKind_def builtinKinds_def ResourceID_String_def)
  ultimately
show ?thesis using ResourceID_roundtrip [of orders_db "[]" orders_db "''''"] by simp
qed

section \<open>Epochs\<close>

type_synonym ResourceEpoch = u64

definition MaxResourceEpoch :: ResourceEpoch where
  "MaxResourceEpoch = (- 1) - 1"

definition Epoch_Next :: "ResourceEpoch \<Rightarrow> ResourceEpoch \<times> resource_error option" where
  "Epoch_Next e =
     (if MaxResourceEpoch \<le> e then
        (e, Some (rerror ''ResourceEpoch.Next'' no_id ErrEpochOverflow ''resource epoch overflow''))
      else (e + 1, None))"

record EpochAdvance =
  ea_From :: ResourceEpoch
  ea_To :: ResourceEpoch
  ea_Reason :: string

definition no_advance :: EpochAdvance where
  "no_advance = \<lparr>ea_From = 0, ea_To = 0, ea_Reason = ''''\<rparr>"

definition AdvanceEpoch ::
  "ResourceEpoch \<Rightarrow> string \<Rightarrow> ResourceEpoch \<times> EpochAdvance \<times> resource_error option" where
  "AdvanceEpoch e reason =
     (if reason = '''' then
        (e, no_advance, Some (rerror ''AdvanceEpoch'' no_id ErrInvalidArgument ''reason required''))
      else
        (case Epoch_Next e of
           (_, Some err) \<Rightarrow> (e, no_advance, Some err)
         | (next, None) \<Rightarrow> (next, \<lparr>ea_From = e, ea_To = next, ea_Reason = reason\<rparr>, None)))"

definition EnsureNotDecreased :: "ResourceEpoch \<Rightarrow> ResourceEpoch \<Rightarrow> resource_error option" where
  "EnsureNotDecreased current proposed =
     (if proposed < current then
        Some (rerror ''EnsureNotDecreased'' no_id ErrEpochDecreased ''proposed epoch is older'')
      else None)"

lemma Epoch_Next_Some:
  assumes "Epoch_Next e = (e', None)"
  shows "e < e'" "e' = e + 1" "e' \<le> MaxResourceEpoch"
proof -
  have lt: "e < MaxResourceEpoch" and e': "e' = e + 1"
    using assms by (auto simp: Epoch_Next_def split: if_splits)
  show "e' = e + 1" by fact
  show "e < e'" unfolding e' using lt by (rule word_Suc_less)
  show "e' \<le> MaxResourceEpoch" unfolding e' using lt by (rule inc_le)
qed

lemma AdvanceEpoch_Some:
  assumes "AdvanceEpoch e reason = (e', adv, None)"
  shows "e < e'" "e' = e + 1" "adv = \<lparr>ea_From = e, ea_To = e', ea_Reason = reason\<rparr>" "reason \<noteq> ''''"
  using assms Epoch_Next_Some [of e e']
  by (auto simp: AdvanceEpoch_def split: if_splits option.splits prod.splits)

lemma AdvanceEpoch_err: "AdvanceEpoch e reason = (e', adv, Some err) \<Longrightarrow> e' = e"
  by (auto simp: AdvanceEpoch_def split: if_splits option.splits prod.splits)

section \<open>Capabilities\<close>

record ResourceCapabilities =
  SupportsOwnership :: bool
  SupportsFencing :: bool
  SupportsDrain :: bool
  SupportsHealth :: bool
  SupportsFailover :: bool
  SupportsTransactions :: bool
  SupportsSnapshots :: bool
  SupportsRecovery :: bool
  SupportsRateLimit :: bool

fun require_checks :: "(string \<times> bool \<times> bool) list \<Rightarrow> resource_error option" where
  "require_checks [] = None"
| "require_checks ((name, need, have') # cs) =
     (if need \<and> \<not> have' then
        Some (rerror ''Capabilities.Require'' no_id ErrCapabilityClaimed (name @ '' not supported''))
      else require_checks cs)"

definition Capabilities_Require :: "ResourceCapabilities \<Rightarrow> ResourceCapabilities \<Rightarrow> resource_error option" where
  "Capabilities_Require c required = require_checks
     [(''ownership'', SupportsOwnership required, SupportsOwnership c),
      (''fencing'', SupportsFencing required, SupportsFencing c),
      (''drain'', SupportsDrain required, SupportsDrain c),
      (''health'', SupportsHealth required, SupportsHealth c),
      (''failover'', SupportsFailover required, SupportsFailover c),
      (''transactions'', SupportsTransactions required, SupportsTransactions c),
      (''snapshots'', SupportsSnapshots required, SupportsSnapshots c),
      (''recovery'', SupportsRecovery required, SupportsRecovery c),
      (''rate_limit'', SupportsRateLimit required, SupportsRateLimit c)]"

definition no_caps :: ResourceCapabilities where
  "no_caps = \<lparr>SupportsOwnership = False, SupportsFencing = False, SupportsDrain = False,
     SupportsHealth = False, SupportsFailover = False, SupportsTransactions = False,
     SupportsSnapshots = False, SupportsRecovery = False, SupportsRateLimit = False\<rparr>"

section \<open>Health\<close>

datatype HealthStatus = HealthEmpty | HealthUnknown | HealthHealthy | HealthDegraded | HealthUnhealthy | HealthBlocked

datatype HealthDimension =
    DimConnectivity | DimLatency | DimCapacity | DimAuthn | DimAuthz | DimConsistency
  | DimReplication | DimDurability | DimAvailability | DimConfiguration | DimSecurity

definition AllHealthDimensions :: "HealthDimension list" where
  "AllHealthDimensions = [DimConnectivity, DimLatency, DimCapacity, DimAuthn, DimAuthz, DimConsistency,
     DimReplication, DimDurability, DimAvailability, DimConfiguration, DimSecurity]"

record DimensionHealth =
  dh_Status :: HealthStatus
  dh_Message :: string

record ResourceHealth =
  rh_Overall :: HealthStatus
  rh_CheckedAt :: time
  rh_Message :: string
  rh_Dimensions :: "(HealthDimension \<times> DimensionHealth) list"

primrec rankHealth :: "HealthStatus \<Rightarrow> nat" where
  "rankHealth HealthHealthy = 0"
| "rankHealth HealthDegraded = 1"
| "rankHealth HealthUnknown = 2"
| "rankHealth HealthBlocked = 3"
| "rankHealth HealthUnhealthy = 4"
| "rankHealth HealthEmpty = 2"

definition worseHealth :: "HealthStatus \<Rightarrow> HealthStatus \<Rightarrow> HealthStatus" where
  "worseHealth a b = (if rankHealth b > rankHealth a then b else a)"

definition ComputeOverall :: "ResourceHealth \<Rightarrow> ResourceHealth" where
  "ComputeOverall h =
     (if rh_Dimensions h = [] then
        (if rh_Overall h = HealthEmpty then h\<lparr>rh_Overall := HealthUnknown\<rparr> else h)
      else h\<lparr>rh_Overall := foldl (\<lambda>worst (_, d). worseHealth worst (dh_Status d)) HealthHealthy (rh_Dimensions h)\<rparr>)"

definition HealthyReport :: "time \<Rightarrow> string \<Rightarrow> ResourceHealth" where
  "HealthyReport now msg = \<lparr>rh_Overall = HealthHealthy, rh_CheckedAt = now, rh_Message = msg,
     rh_Dimensions = [(DimAvailability, \<lparr>dh_Status = HealthHealthy, dh_Message = ''''\<rparr>),
                      (DimConnectivity, \<lparr>dh_Status = HealthHealthy, dh_Message = ''''\<rparr>)]\<rparr>"

text \<open>The overall status ranks with the worst dimension, and does not depend on the map's order.\<close>

lemma worst_rank:
  "rankHealth (foldl (\<lambda>worst (_, d). worseHealth worst (dh_Status d)) w ds)
     = Max (insert (rankHealth w) ((\<lambda>(_, d). rankHealth (dh_Status d)) ` set ds))"
proof (induction ds arbitrary: w)
  case (Cons x ds)
  obtain k d where x: "x = (k, d)" by force
  have "rankHealth (worseHealth w (dh_Status d)) = max (rankHealth w) (rankHealth (dh_Status d))"
    by (simp add: worseHealth_def)
  with Cons [of "worseHealth w (dh_Status d)"] show ?case
    by (cases "ds = []") (simp_all add: x insert_commute max.commute max.left_commute Max_insert)
qed simp

end
