(* ===== verification/Topo_Sort.thy ===== *)
theory Topo_Sort
  imports Main "HOL-Library.List_Lexorder" "HOL-Library.Char_ord" "HOL-Library.Multiset"
begin

text \<open>
  Kahn's algorithm as the program writes it twice, in \<open>workflow/definition.go\<close> (\<open>topoSteps\<close>) and in
  \<open>resource/dependency.go\<close> (\<open>StartupOrder\<close>): count unmet dependencies, repeatedly take the least
  ready node, lower the counts of its dependents and keep the ready list sorted. The two callers
  differ in how they store the graph; here a graph is its list of nodes and the dependencies of a
  node, with multiplicity. Shown: the loop ends, what it returns is a topological order of all
  nodes, it fails exactly on cyclic graphs, and the result does not depend on the order in which
  the nodes are enumerated.
\<close>

section \<open>The algorithm\<close>

type_synonym 'a deps = "'a \<Rightarrow> 'a list"

definition dependents :: "'a list \<Rightarrow> 'a deps \<Rightarrow> 'a \<Rightarrow> 'a list" where
  "dependents nodes deps n = concat (map (\<lambda>m. map (\<lambda>_. m) (filter (\<lambda>d. d = n) (deps m))) nodes)"

fun release_all :: "('a \<Rightarrow> int) \<Rightarrow> 'a list \<Rightarrow> 'a list \<Rightarrow> ('a \<Rightarrow> int) \<times> 'a list" where
  "release_all indeg ready [] = (indeg, ready)"
| "release_all indeg ready (m # ms) =
     (let indeg = indeg(m := indeg m - 1)
      in release_all indeg (if indeg m = 0 then ready @ [m] else ready) ms)"

lemma filter_count_upd:
  "m \<in> set nodes \<Longrightarrow> (indeg :: 'a \<Rightarrow> int) m = 1 \<Longrightarrow>
     Suc (length (filter (\<lambda>n. 0 < (indeg(m := 0)) n) nodes)) \<le> length (filter (\<lambda>n. 0 < indeg n) nodes)"
proof (induction nodes)
  case (Cons a nodes)
  have le: "length (filter (\<lambda>n. 0 < (indeg(m := 0)) n) nodes) \<le> length (filter (\<lambda>n. 0 < indeg n) nodes)"
    by (induction nodes) auto
  show ?case
  proof (cases "a = m")
    case True
    with le Cons.prems show ?thesis by simp
  next
    case False
    with Cons show ?thesis by simp
  qed
qed simp

lemma filter_count_mono:
  assumes "\<And>n. (f :: 'a \<Rightarrow> int) n \<le> g n"
  shows "length (filter (\<lambda>n. 0 < f n) nodes) \<le> length (filter (\<lambda>n. 0 < g n) nodes)"
proof (induction nodes)
  case (Cons a nodes)
  with assms [of a] show ?case by simp
qed simp

lemma release_all_count:
  "set ms \<subseteq> set nodes \<Longrightarrow>
     length (filter (\<lambda>n. 0 < fst (release_all indeg ready ms) n) nodes)
       + length (snd (release_all indeg ready ms))
     \<le> length (filter (\<lambda>n. 0 < indeg n) nodes) + length ready"
proof (induction ms arbitrary: indeg ready)
  case (Cons m ms)
  let ?i = "indeg(m := indeg m - 1)" and ?r = "if indeg m - 1 = 0 then ready @ [m] else ready"
  have le: "length (filter (\<lambda>n. 0 < ?i n) nodes) + length ?r
      \<le> length (filter (\<lambda>n. 0 < indeg n) nodes) + length ready"
  proof (cases "indeg m = 1")
    case True
    with Cons.prems filter_count_upd [of m nodes indeg] show ?thesis by simp
  next
    case False
    with filter_count_mono [of ?i indeg nodes] show ?thesis by simp
  qed
  have eq: "release_all indeg ready (m # ms) = release_all ?i ?r ms" by (simp add: Let_def)
  have "set ms \<subseteq> set nodes" using Cons.prems by simp
  from order_trans [OF Cons.IH [OF this, of ?i ?r] le] show ?case unfolding eq .
qed simp

lemma set_dependents: "set (dependents nodes deps n) \<subseteq> set nodes"
  by (auto simp: dependents_def)

function kahn :: "('a :: linorder) list \<Rightarrow> 'a deps \<Rightarrow> ('a \<Rightarrow> int) \<Rightarrow> 'a list \<Rightarrow> 'a list \<Rightarrow> 'a list" where
  "kahn nodes deps indeg [] order = order"
| "kahn nodes deps indeg (n # ready) order =
     (case release_all indeg ready (sort (dependents nodes deps n)) of
        (indeg', ready') \<Rightarrow> kahn nodes deps indeg' (sort ready') (order @ [n]))"
  by pat_completeness auto
termination
  apply (relation "measure (\<lambda>(nodes, deps, indeg, ready, order).
    length (filter (\<lambda>n. 0 < indeg n) nodes) + length ready)")
   apply simp
  subgoal for nodes deps indeg n ready order indeg' ready'
    apply (drule sym)
    using release_all_count [of "sort (dependents nodes deps n)" nodes indeg ready]
      set_dependents [of nodes deps n] by simp
  done

definition topo_order :: "('a :: linorder) list \<Rightarrow> 'a deps \<Rightarrow> 'a list" where
  "topo_order nodes deps =
     kahn nodes deps (\<lambda>n. int (length (deps n))) (sort (filter (\<lambda>n. deps n = []) nodes)) []"

section \<open>Correctness\<close>

lemma release_all_fst: "fst (release_all indeg ready ms) n = indeg n - int (count_list ms n)"
  by (induction ms arbitrary: indeg ready) (auto simp: Let_def)

lemma release_all_snd:
  "(\<And>n. n \<in> set ms \<Longrightarrow> int (count_list ms n) \<le> indeg n) \<Longrightarrow>
     \<exists>news. snd (release_all indeg ready ms) = ready @ news \<and> distinct news
       \<and> set news = {n \<in> set ms. indeg n = int (count_list ms n)}"
proof (induction ms arbitrary: indeg ready)
  case (Cons m ms)
  let ?i = "indeg(m := indeg m - 1)"
  have m: "1 + int (count_list ms m) \<le> indeg m" using Cons.prems [of m] by simp
  have pre: "int (count_list ms n) \<le> ?i n" if "n \<in> set ms" for n
    using Cons.prems [of n] that by (cases "n = m") auto
  show ?case
  proof (cases "indeg m = 1")
    case True
    with m have "count_list ms m = 0" by linarith
    then have no: "m \<notin> set ms" by (simp add: count_list_0_iff)
    from Cons.IH [OF pre, of "ready @ [m]"] obtain news where
      "snd (release_all ?i (ready @ [m]) ms) = (ready @ [m]) @ news" "distinct news"
      "set news = {n \<in> set ms. ?i n = int (count_list ms n)}" by blast
    moreover have "{n \<in> set (m # ms). indeg n = int (count_list (m # ms) n)}
        = insert m {n \<in> set ms. ?i n = int (count_list ms n)}"
      using True no by auto
    ultimately show ?thesis
      using True no by (intro exI [where x = "m # news"]) (simp add: Let_def)
  next
    case False
    from Cons.IH [OF pre, of ready] obtain news where
      "snd (release_all ?i ready ms) = ready @ news" "distinct news"
      "set news = {n \<in> set ms. ?i n = int (count_list ms n)}" by blast
    moreover have "{n \<in> set (m # ms). indeg n = int (count_list (m # ms) n)}
        = {n \<in> set ms. ?i n = int (count_list ms n)}"
      using False count_list_0_iff [of ms m] by (cases "m \<in> set ms") auto
    ultimately show ?thesis using False by (simp add: Let_def)
  qed
qed simp

lemma count_dependents:
  "distinct nodes \<Longrightarrow>
     count_list (dependents nodes deps n) m = (if m \<in> set nodes then count_list (deps m) n else 0)"
proof (induction nodes)
  case (Cons a nodes)
  have "count_list (map (\<lambda>_. a) (filter (\<lambda>d. d = n) xs)) m = (if m = a then count_list xs n else 0)" for xs
    by (induction xs) auto
  then show ?case using Cons by (auto simp: dependents_def count_list_append)
qed (simp add: dependents_def)

definition kahn_inv :: "'a list \<Rightarrow> 'a deps \<Rightarrow> ('a \<Rightarrow> int) \<Rightarrow> 'a list \<Rightarrow> 'a list \<Rightarrow> bool" where
  "kahn_inv nodes deps indeg ready order \<longleftrightarrow>
     distinct (order @ ready) \<and> set (order @ ready) \<subseteq> set nodes
     \<and> (\<forall>n \<in> set nodes. indeg n = int (length (filter (\<lambda>d. d \<notin> set order) (deps n))))
     \<and> (\<forall>n \<in> set nodes. n \<in> set (order @ ready) \<longleftrightarrow> indeg n = 0)
     \<and> (\<forall>i < length order. set (deps (order ! i)) \<subseteq> set (take i order))"

lemma unmet_step:
  assumes "n \<notin> A"
  shows "int (length (filter (\<lambda>d. d \<notin> insert n A) xs))
       = int (length (filter (\<lambda>d. d \<notin> A) xs)) - int (count_list xs n)"
proof (induction xs)
  case (Cons x xs)
  with assms show ?case by (cases "x = n"; cases "x \<in> A"; simp)
qed simp

lemma kahn_inv_step:
  assumes inv: "kahn_inv nodes deps indeg (n # ready) order" and dist: "distinct nodes"
    and rel: "release_all indeg ready (sort (dependents nodes deps n)) = (indeg', ready')"
  shows "kahn_inv nodes deps indeg' (sort ready') (order @ [n])"
proof -
  let ?ms = "sort (dependents nodes deps n)"
  have before: "distinct (order @ n # ready)" "set (order @ n # ready) \<subseteq> set nodes"
    using inv unfolding kahn_inv_def by blast+
  have old: "m \<in> set (order @ n # ready) \<longleftrightarrow> indeg m = 0" if "m \<in> set nodes" for m
    using inv that unfolding kahn_inv_def by blast
  have n: "n \<in> set nodes" "n \<notin> set order" "n \<notin> set ready" using before by auto
  then have n0: "indeg n = 0" using old [of n] by simp
  have cnt: "count_list ?ms m = (if m \<in> set nodes then count_list (deps m) n else 0)" for m
    using count_dependents [OF dist, of deps n m] by (metis count_mset mset_sort)
  have ind: "indeg m = int (length (filter (\<lambda>d. d \<notin> set order) (deps m)))" if "m \<in> set nodes" for m
    using inv that by (simp add: kahn_inv_def)
  have ind': "indeg' m = int (length (filter (\<lambda>d. d \<notin> set (order @ [n])) (deps m)))" if "m \<in> set nodes" for m
    using release_all_fst [of indeg ready ?ms m] rel cnt [of m] ind [OF that] that
      unmet_step [OF n(2), of "deps m"] by simp
  have "set ?ms \<subseteq> set nodes" using set_dependents by simp
  have less: "indeg' m = indeg m - int (count_list ?ms m)" for m
    using release_all_fst [of indeg ready ?ms m] unfolding rel by simp
  have pre: "int (count_list ?ms m) \<le> indeg m" if "m \<in> set ?ms" for m
  proof -
    have "m \<in> set nodes" using that \<open>set ?ms \<subseteq> set nodes\<close> by blast
    from ind' [OF this] less [of m] show ?thesis by linarith
  qed
  from release_all_snd [of ?ms indeg ready, OF pre] rel obtain news where
    news: "ready' = ready @ news" "distinct news" "set news = {m \<in> set ?ms. indeg m = int (count_list ?ms m)}"
    by auto
  have fresh: "indeg m > 0" if "m \<in> set ?ms" for m
  proof -
    have "count_list ?ms m \<noteq> 0" using that unfolding count_list_0_iff by blast
    with pre [OF that] show ?thesis by linarith
  qed
  have news': "m \<in> set news \<longleftrightarrow> indeg' m = 0 \<and> indeg m \<noteq> 0" if "m \<in> set nodes" for m
  proof
    assume "m \<in> set news"
    then have "m \<in> set ?ms" "indeg m = int (count_list ?ms m)" unfolding news(3) by simp_all
    with less [of m] fresh [of m] show "indeg' m = 0 \<and> indeg m \<noteq> 0" by linarith
  next
    assume zero: "indeg' m = 0 \<and> indeg m \<noteq> 0"
    then have "count_list ?ms m \<noteq> 0" using less [of m] by linarith
    then have "m \<in> set ?ms" unfolding count_list_0_iff by blast
    with zero less [of m] show "m \<in> set news" unfolding news(3) by simp
  qed
  have sub: "set news \<subseteq> set nodes" using news(3) \<open>set ?ms \<subseteq> set nodes\<close> by auto
  have disj: "set news \<inter> set (order @ n # ready) = {}" using news' old sub by blast
  have mono: "indeg' m = 0" if "m \<in> set nodes" "indeg m = 0" for m
    using ind' [OF that(1)] ind [OF that(1)] that(2) by (auto simp: filter_empty_conv)
  have deps_n: "set (deps n) \<subseteq> set order"
    using ind [OF n(1)] n0 by (auto simp: filter_empty_conv)
  have topo: "set (deps ((order @ [n]) ! i)) \<subseteq> set (take i (order @ [n]))" if "i < length (order @ [n])" for i
  proof (cases "i = length order")
    case False
    with that have "i < length order" by simp
    then have "set (deps (order ! i)) \<subseteq> set (take i order)" using inv unfolding kahn_inv_def by blast
    with \<open>i < length order\<close> show ?thesis by (simp add: nth_append)
  qed (use deps_n in simp)
  show ?thesis
    unfolding kahn_inv_def
  proof (intro conjI)
    show "distinct ((order @ [n]) @ sort ready')" using before(1) news(1,2) disj by auto
    show "set ((order @ [n]) @ sort ready') \<subseteq> set nodes" using before(2) news(1) sub by auto
    show "\<forall>m\<in>set nodes. indeg' m = int (length (filter (\<lambda>d. d \<notin> set (order @ [n])) (deps m)))"
      using ind' by blast
    show "\<forall>m\<in>set nodes. (m \<in> set ((order @ [n]) @ sort ready')) = (indeg' m = 0)"
      using old news' mono by (auto simp: news(1))
    show "\<forall>i<length (order @ [n]). set (deps ((order @ [n]) ! i)) \<subseteq> set (take i (order @ [n]))"
      using topo by blast
  qed
qed

lemma kahn_inv_result:
  "kahn_inv nodes deps indeg ready order \<Longrightarrow> distinct nodes \<Longrightarrow>
     \<exists>indeg'. kahn_inv nodes deps indeg' [] (kahn nodes deps indeg ready order)"
proof (induction nodes deps indeg ready order rule: kahn.induct)
  case (2 nodes deps indeg n ready order)
  obtain indeg' ready' where rel: "release_all indeg ready (sort (dependents nodes deps n)) = (indeg', ready')"
    by force
  from 2 kahn_inv_step [OF "2.prems" rel] rel show ?case by auto
qed auto

lemma topo_order_inv:
  assumes "distinct nodes"
  shows "\<exists>indeg. kahn_inv nodes deps indeg [] (topo_order nodes deps)"
proof -
  have "kahn_inv nodes deps (\<lambda>n. int (length (deps n))) (sort (filter (\<lambda>n. deps n = []) nodes)) []"
    using assms by (auto simp: kahn_inv_def)
  from kahn_inv_result [OF this assms] show ?thesis by (simp add: topo_order_def)
qed

definition graph_rel :: "'a list \<Rightarrow> 'a deps \<Rightarrow> ('a \<times> 'a) set" where
  "graph_rel nodes deps = {(d, m). m \<in> set nodes \<and> d \<in> set (deps m)}"

text \<open>Every dependency stands before its dependents.\<close>

definition topological :: "'a deps \<Rightarrow> 'a list \<Rightarrow> bool" where
  "topological deps order \<longleftrightarrow> (\<forall>i < length order. set (deps (order ! i)) \<subseteq> set (take i order))"

lemma topo_order_props:
  assumes "distinct nodes"
  shows "distinct (topo_order nodes deps)" and "set (topo_order nodes deps) \<subseteq> set nodes"
    and "topological deps (topo_order nodes deps)"
  using topo_order_inv [OF assms, of deps] by (auto simp: kahn_inv_def topological_def)

lemma topological_acyclic:
  assumes "topological deps order" and "set nodes \<subseteq> set order" and "distinct order"
  shows "acyclic (graph_rel nodes deps)"
proof -
  define idx where "idx x = (LEAST i. i < length order \<and> order ! i = x)" for x
  have idx: "idx (order ! i) = i" if "i < length order" for i
    unfolding idx_def using that assms(3) by (intro Least_equality) (auto simp: nth_eq_iff_index_eq)
  have "(d, m) \<in> measure idx" if "(d, m) \<in> graph_rel nodes deps" for d m
  proof -
    from that assms(2) obtain i where i: "i < length order" "m = order ! i"
      by (auto simp: graph_rel_def in_set_conv_nth subset_iff)
    from that i assms(1) have "d \<in> set (take i order)" by (auto simp: graph_rel_def topological_def)
    then obtain j where j: "j < i" "d = order ! j" using i(1) by (auto simp: in_set_conv_nth)
    with i idx show ?thesis by simp
  qed
  then have "graph_rel nodes deps \<subseteq> measure idx" by auto
  then show ?thesis by (meson wf_acyclic wf_measure wf_subset)
qed

lemma topo_order_complete:
  assumes "distinct nodes" and "\<And>n. n \<in> set nodes \<Longrightarrow> set (deps n) \<subseteq> set nodes"
    and "acyclic (graph_rel nodes deps)"
  shows "set (topo_order nodes deps) = set nodes"
proof (rule ccontr)
  let ?o = "topo_order nodes deps" and ?r = "graph_rel nodes deps"
  obtain indeg where inv: "kahn_inv nodes deps indeg [] ?o" using topo_order_inv [OF assms(1)] by blast
  assume "set ?o \<noteq> set nodes"
  then obtain x where x: "x \<in> set nodes - set ?o" using inv by (auto simp: kahn_inv_def)
  have "finite ?r"
    by (rule finite_subset [of _ "set (concat (map deps nodes)) \<times> set nodes"]) (auto simp: graph_rel_def)
  then have "wf ?r" using assms(3) by (rule finite_acyclic_wf)
  from wfE_min [OF this x] obtain z where
    z: "z \<in> set nodes - set ?o" "\<And>y. (y, z) \<in> ?r \<Longrightarrow> y \<notin> set nodes - set ?o" by blast
  then have "indeg z \<noteq> 0" using inv by (auto simp: kahn_inv_def)
  then obtain d where "d \<in> set (deps z)" "d \<notin> set ?o"
    using inv z(1) by (auto simp: kahn_inv_def filter_empty_conv)
  with z assms(2) show False by (auto simp: graph_rel_def)
qed

text \<open>The test the program makes: has every node been emitted?\<close>

lemma topo_order_length:
  assumes "distinct nodes" and "\<And>n. n \<in> set nodes \<Longrightarrow> set (deps n) \<subseteq> set nodes"
  shows "length (topo_order nodes deps) = length nodes \<longleftrightarrow> acyclic (graph_rel nodes deps)"
proof
  assume len: "length (topo_order nodes deps) = length nodes"
  have "card (set (topo_order nodes deps)) = card (set nodes)"
    using len topo_order_props(1) [OF assms(1)] assms(1) by (simp add: distinct_card)
  then have "set (topo_order nodes deps) = set nodes"
    using topo_order_props(2) [OF assms(1)] by (intro card_subset_eq) auto
  with topological_acyclic [OF topo_order_props(3) [OF assms(1)]] topo_order_props(1) [OF assms(1)]
  show "acyclic (graph_rel nodes deps)" by simp
next
  assume "acyclic (graph_rel nodes deps)"
  from topo_order_complete [OF assms this] topo_order_props(1) [OF assms(1)] assms(1)
  show "length (topo_order nodes deps) = length nodes" by (metis distinct_card)
qed

section \<open>Determinism\<close>

lemma sort_mset_eq: "mset xs = mset ys \<Longrightarrow> sort xs = sort ys"
  by (metis sorted_list_of_multiset_mset)

lemma mset_dependents: "mset nodes = mset nodes' \<Longrightarrow> mset (dependents nodes deps n) = mset (dependents nodes' deps n)"
  unfolding dependents_def by (simp add: mset_concat flip: sum_mset_sum_list)

lemma kahn_perm:
  "mset nodes = mset nodes' \<Longrightarrow> kahn nodes deps indeg ready order = kahn nodes' deps indeg ready order"
proof (induction nodes deps indeg ready order rule: kahn.induct)
  case (2 nodes deps indeg n ready order)
  have "sort (dependents nodes deps n) = sort (dependents nodes' deps n)"
    using "2.prems" by (intro sort_mset_eq mset_dependents)
  with 2 show ?case by (simp split: prod.splits)
qed simp

lemma topo_order_perm:
  assumes "mset nodes = mset nodes'"
  shows "topo_order nodes deps = topo_order nodes' deps"
proof -
  have "sort (filter (\<lambda>n. deps n = []) nodes) = sort (filter (\<lambda>n. deps n = []) nodes')"
    using assms by (intro sort_mset_eq) simp
  with kahn_perm [OF assms] show ?thesis by (simp add: topo_order_def)
qed

end
