(* ===== verification/Resource_Graph.thy ===== *)
theory Resource_Graph
  imports Resource_Core Topo_Sort "HOL-Library.AList"
begin

text \<open>
  \<open>resource/dependency.go\<close>: the graph of resource dependencies. An edge from a key to another says
  that the first depends on the second. The Go map of sets is an association list of lists;
  \<open>graph_ok\<close> is its shape. \<open>Define\<close> keeps the graph acyclic, refusing an edge exactly when the new
  target already depends on the source, so a startup order always exists.
\<close>

type_synonym DependencyGraph = "(string \<times> string list) list"

definition NewDependencyGraph :: DependencyGraph where
  "NewDependencyGraph = []"

definition edges_of :: "DependencyGraph \<Rightarrow> string \<Rightarrow> string list" where
  "edges_of g n = (case map_of g n of None \<Rightarrow> [] | Some ts \<Rightarrow> ts)"

definition graph_nodes :: "DependencyGraph \<Rightarrow> string list" where
  "graph_nodes g = concat (map (\<lambda>(f, ts). f # ts) g)"

definition DependenciesOf :: "DependencyGraph \<Rightarrow> string \<Rightarrow> string list" where
  "DependenciesOf g from = sort (edges_of g from)"

definition StartupOrder :: "DependencyGraph \<Rightarrow> string list \<Rightarrow> string list + resource_error" where
  "StartupOrder g known =
     (let nodes = remdups (known @ graph_nodes g);
          order = topo_order nodes (edges_of g)
      in if length order \<noteq> length nodes then
           Inr (rerror ''StartupOrder'' no_id ErrCycle ''dependency cycle detected'')
         else Inl order)"

definition hasCycle :: "DependencyGraph \<Rightarrow> bool" where
  "hasCycle g = (case StartupOrder g (remdups (graph_nodes g)) of Inl _ \<Rightarrow> False | Inr _ \<Rightarrow> True)"

definition add_edge :: "DependencyGraph \<Rightarrow> string \<Rightarrow> string \<Rightarrow> DependencyGraph" where
  "add_edge g from to = AList.update from (List.insert to (edges_of g from)) g"

definition drop_edge :: "DependencyGraph \<Rightarrow> string \<Rightarrow> string \<Rightarrow> DependencyGraph" where
  "drop_edge g from to =
     (let ts = removeAll to (edges_of g from)
      in if ts = [] then AList.delete from g else AList.update from ts g)"

definition Define :: "DependencyGraph \<Rightarrow> string \<Rightarrow> string \<Rightarrow> DependencyGraph \<times> resource_error option" where
  "Define g from to =
     (if from = '''' \<or> to = '''' then
        (g, Some (rerror ''DefineDependency'' no_id ErrInvalidArgument ''empty dependency endpoint''))
      else if from = to then (g, Some (rerror ''DefineDependency'' no_id ErrCycle ''self-dependency''))
      else
        (let g' = add_edge g from to
         in if hasCycle g' then
              (drop_edge g' from to,
               Some (rerror ''DefineDependency'' no_id ErrCycle ''dependency would create a cycle''))
            else (g', None)))"

definition removeNode :: "DependencyGraph \<Rightarrow> string \<Rightarrow> DependencyGraph" where
  "removeNode g key =
     List.map_filter (\<lambda>(f, ts).
       if f = key then None
       else (let ts = removeAll key ts in if ts = [] then None else Some (f, ts))) g"

section \<open>The relation of a graph\<close>

definition dep_rel :: "DependencyGraph \<Rightarrow> (string \<times> string) set" where
  "dep_rel g = {(d, n). d \<in> set (edges_of g n)}"

definition graph_ok :: "DependencyGraph \<Rightarrow> bool" where
  "graph_ok g \<longleftrightarrow> distinct (map fst g) \<and> (\<forall>f ts. map_of g f = Some ts \<longrightarrow> ts \<noteq> [] \<and> distinct ts)"

lemma edges_of_nodes: "set (edges_of g n) \<subseteq> set (graph_nodes g)"
proof (cases "map_of g n")
  case (Some ts)
  then have "(n, ts) \<in> set g" by (rule map_of_SomeD)
  with Some show ?thesis by (force simp: edges_of_def graph_nodes_def)
qed (simp add: edges_of_def)

lemma edges_of_source: "edges_of g n \<noteq> [] \<Longrightarrow> n \<in> set (graph_nodes g)"
proof (cases "map_of g n")
  case (Some ts)
  then have "(n, ts) \<in> set g" by (rule map_of_SomeD)
  with Some show ?thesis by (force simp: graph_nodes_def)
qed (simp add: edges_of_def)

lemma graph_rel_dep_rel:
  assumes "set (graph_nodes g) \<subseteq> set nodes"
  shows "graph_rel nodes (edges_of g) = dep_rel g"
proof -
  have "n \<in> set nodes" if "d \<in> set (edges_of g n)" for d n
    using edges_of_source [of g n] assms that by (cases "edges_of g n") auto
  then show ?thesis by (auto simp: graph_rel_def dep_rel_def)
qed

lemma StartupOrder_acyclic:
  "(\<exists>order. StartupOrder g known = Inl order) \<longleftrightarrow> acyclic (dep_rel g)"
proof -
  let ?nodes = "remdups (known @ graph_nodes g)"
  have closed: "set (edges_of g n) \<subseteq> set ?nodes" for n using edges_of_nodes [of g n] by auto
  have "length (topo_order ?nodes (edges_of g)) = length ?nodes \<longleftrightarrow> acyclic (graph_rel ?nodes (edges_of g))"
    using closed by (intro topo_order_length) auto
  also have "graph_rel ?nodes (edges_of g) = dep_rel g" by (rule graph_rel_dep_rel) simp
  finally show ?thesis by (auto simp: StartupOrder_def Let_def)
qed

lemma hasCycle_iff: "hasCycle g \<longleftrightarrow> \<not> acyclic (dep_rel g)"
  using StartupOrder_acyclic [of g "remdups (graph_nodes g)"]
  by (auto simp: hasCycle_def split: sum.splits)

lemma StartupOrder_Inl:
  assumes "StartupOrder g known = Inl order"
  shows "distinct order" and "set order = set known \<union> set (graph_nodes g)"
    and "topological (edges_of g) order"
proof -
  let ?nodes = "remdups (known @ graph_nodes g)"
  have order: "order = topo_order ?nodes (edges_of g)" and len: "length order = length ?nodes"
    using assms by (auto simp: StartupOrder_def Let_def split: if_splits)
  have dist: "distinct ?nodes" by simp
  note props = topo_order_props [OF dist, of "edges_of g", folded order]
  show "distinct order" "topological (edges_of g) order" using props by simp_all
  have "card (set order) = card (set ?nodes)" using len props(1) dist by (metis distinct_card)
  then have "set order = set ?nodes" using props(2) by (intro card_subset_eq) auto
  then show "set order = set known \<union> set (graph_nodes g)" by simp
qed

lemma StartupOrder_perm:
  assumes "set known = set known'"
  shows "StartupOrder g known = StartupOrder g known'"
proof -
  have "mset (remdups (known @ graph_nodes g)) = mset (remdups (known' @ graph_nodes g))"
    using assms by (intro set_eq_iff_mset_remdups_eq [THEN iffD1]) auto
  then have "topo_order (remdups (known @ graph_nodes g)) (edges_of g)
      = topo_order (remdups (known' @ graph_nodes g)) (edges_of g)"
    and "length (remdups (known @ graph_nodes g)) = length (remdups (known' @ graph_nodes g))"
    by (rule topo_order_perm, rule mset_eq_length)
  then show ?thesis by (simp add: StartupOrder_def Let_def)
qed

section \<open>Changing the graph\<close>

lemma edges_of_update: "edges_of (AList.update f ts g) n = (if n = f then ts else edges_of g n)"
  by (simp add: edges_of_def update_conv)

lemma edges_of_delete: "edges_of (AList.delete f g) n = (if n = f then [] else edges_of g n)"
  by (simp add: edges_of_def delete_conv)

lemma edges_of_add: "set (edges_of (add_edge g f t) n) = set (edges_of g n) \<union> (if n = f then {t} else {})"
  by (auto simp: add_edge_def edges_of_update)

lemma dep_rel_add: "dep_rel (add_edge g f t) = insert (t, f) (dep_rel g)"
  by (auto simp: dep_rel_def edges_of_add split: if_splits)

lemma edges_of_drop: "edges_of (drop_edge g f t) n = (if n = f then removeAll t (edges_of g n) else edges_of g n)"
  by (auto simp: drop_edge_def Let_def edges_of_update edges_of_delete)

lemma removeNode_simps [simp]:
  "removeNode [] k = []"
  "removeNode ((f, ts) # g) k =
     (if f = k \<or> removeAll k ts = [] then removeNode g k else (f, removeAll k ts) # removeNode g k)"
  by (simp_all add: removeNode_def List.map_filter_simps Let_def)

lemma keys_remove: "fst ` set (removeNode g k) \<subseteq> fst ` set g"
proof (induction g)
  case (Cons x g)
  then show ?case by (cases x) (simp add: subset_insertI2 insert_mono)
qed simp

lemma distinct_remove: "distinct (map fst g) \<Longrightarrow> distinct (map fst (removeNode g k))"
proof (induction g)
  case (Cons x g)
  obtain f ts where x: "x = (f, ts)" by force
  have "f \<notin> fst ` set (removeNode g k)" using Cons.prems keys_remove [of g k] x by auto
  with Cons x show ?case by simp
qed simp

lemma map_of_remove:
  "distinct (map fst g) \<Longrightarrow>
     map_of (removeNode g k) n =
       (if n = k then None
        else (case map_of g n of
                None \<Rightarrow> None
              | Some ts \<Rightarrow> if removeAll k ts = [] then None else Some (removeAll k ts)))"
proof (induction g)
  case (Cons x g)
  obtain f ts where x: "x = (f, ts)" by force
  have none: "map_of (removeNode g k) f = None"
    using Cons.prems keys_remove [of g k] x by (auto simp: map_of_eq_None_iff)
  from Cons.prems x have IH: "map_of (removeNode g k) n =
       (if n = k then None
        else (case map_of g n of
                None \<Rightarrow> None
              | Some ts \<Rightarrow> if removeAll k ts = [] then None else Some (removeAll k ts)))"
    by (intro Cons.IH) simp
  show ?case
    using IH none by (cases "n = f") (auto simp: x)
qed simp

lemma edges_of_remove:
  assumes "distinct (map fst g)"
  shows "edges_of (removeNode g k) n = (if n = k then [] else removeAll k (edges_of g n))"
  by (simp add: edges_of_def map_of_remove [OF assms] split: option.splits)

lemma dep_rel_remove: "distinct (map fst g) \<Longrightarrow> dep_rel (removeNode g k) \<subseteq> dep_rel g"
  by (auto simp: dep_rel_def edges_of_remove split: if_splits)

lemma graph_ok_new [simp]: "graph_ok NewDependencyGraph"
  by (simp add: graph_ok_def NewDependencyGraph_def)

lemma acyclic_new [simp]: "acyclic (dep_rel NewDependencyGraph)"
  by (simp add: dep_rel_def NewDependencyGraph_def edges_of_def acyclic_def)

lemma graph_ok_edges: "graph_ok g \<Longrightarrow> distinct (edges_of g n)"
  by (auto simp: graph_ok_def edges_of_def split: option.splits)

lemma graph_ok_update: "graph_ok g \<Longrightarrow> ts \<noteq> [] \<Longrightarrow> distinct ts \<Longrightarrow> graph_ok (AList.update f ts g)"
  unfolding graph_ok_def by (simp add: distinct_update update_conv)

lemma graph_ok_delete: "graph_ok g \<Longrightarrow> graph_ok (AList.delete f g)"
  unfolding graph_ok_def by (simp add: distinct_delete delete_conv)

lemma graph_ok_add: "graph_ok g \<Longrightarrow> graph_ok (add_edge g f t)"
  unfolding add_edge_def by (rule graph_ok_update) (auto simp: List.insert_def graph_ok_edges)

lemma graph_ok_drop: "graph_ok g \<Longrightarrow> graph_ok (drop_edge g f t)"
  using graph_ok_edges [of g f]
  by (simp add: drop_edge_def Let_def graph_ok_delete graph_ok_update distinct_removeAll)

lemma graph_ok_remove: "graph_ok g \<Longrightarrow> graph_ok (removeNode g k)"
  unfolding graph_ok_def
  by (auto simp: distinct_remove map_of_remove distinct_removeAll split: option.splits if_splits)

text \<open>
  \<open>Define\<close> refuses an edge exactly when it would close a cycle, that is when \<open>to\<close> already depends on
  \<open>from\<close>, directly or not; and it leaves the dependencies as they were when it refuses.
\<close>

lemma Define_result:
  assumes "acyclic (dep_rel g)" and "from \<noteq> ''''" and "to \<noteq> ''''"
  shows "snd (Define g from to) = None \<longleftrightarrow> from \<noteq> to \<and> (from, to) \<notin> (dep_rel g)\<^sup>*"
  using assms by (auto simp: Define_def Let_def hasCycle_iff dep_rel_add acyclic_insert)

lemma Define_ok:
  assumes "graph_ok g" and "acyclic (dep_rel g)"
  shows "graph_ok (fst (Define g from to)) \<and> acyclic (dep_rel (fst (Define g from to)))"
proof -
  have "dep_rel (drop_edge (add_edge g from to) from to) \<subseteq> dep_rel g"
    by (auto simp: dep_rel_def edges_of_drop edges_of_add split: if_splits)
  then have "acyclic (dep_rel (drop_edge (add_edge g from to) from to))"
    using assms(2) acyclic_subset by blast
  with assms show ?thesis
    by (auto simp: Define_def Let_def hasCycle_iff graph_ok_add graph_ok_drop)
qed

lemma Define_edges:
  assumes "acyclic (dep_rel g)"
  shows "set (edges_of (fst (Define g from to)) n)
       = set (edges_of g n) \<union> (if snd (Define g from to) = None \<and> n = from then {to} else {})"
proof -
  have "to \<notin> set (edges_of g from)" if "hasCycle (add_edge g from to)"
  proof
    assume "to \<in> set (edges_of g from)"
    then have "insert (to, from) (dep_rel g) = dep_rel g" by (auto simp: dep_rel_def)
    with that assms show False by (simp add: hasCycle_iff dep_rel_add)
  qed
  then show ?thesis by (auto simp: Define_def Let_def edges_of_add edges_of_drop)
qed

end
