(* ===== verification/Resource_Registry.thy ===== *)
theory Resource_Registry
  imports Resource_Graph
begin

text \<open>
  \<open>resource/registry.go\<close> with the \<open>Entry\<close> and \<open>Metadata\<close> of \<open>resource/resource.go\<close>: the bounded table of
  registered resources and the graph of their dependencies. Adapters are outside the program: of
  a resource the model keeps what the registry asks it once (identifier, kind, capabilities); its
  health at the moment of a call is an argument, and so is the answer of the lockdown checker
  (\<open>blocks\<close>). The registered custom kinds, a package global, are threaded through the history.
\<close>

record Resource =
  rs_ID :: ResourceID
  rs_Kind :: Kind
  rs_Capabilities :: ResourceCapabilities

record Metadata =
  md_Labels :: "(string \<times> string) list"
  md_Tags :: "string list"
  md_Notes :: string
  md_Source :: string

record Entry =
  en_Resource :: Resource
  en_Meta :: Metadata
  en_Epoch :: ResourceEpoch
  en_RegisteredAt :: time

record Metrics =
  mt_Registered :: u64
  mt_Removed :: u64
  mt_Duplicates :: u64
  mt_BoundRejects :: u64
  mt_EpochAdvances :: u64
  mt_LockdownBlocks :: u64

record Registry =
  rg_entries :: "(string \<times> Entry) list"
  rg_max :: nat
  rg_closed :: bool
  rg_deps :: DependencyGraph
  rg_metrics :: Metrics

definition DefaultMaxResources :: nat where
  "DefaultMaxResources = 1024"

definition NewRegistry :: "int \<Rightarrow> Registry" where
  "NewRegistry maxResources =
     \<lparr>rg_entries = [], rg_max = (if maxResources \<le> 0 then DefaultMaxResources else nat maxResources),
      rg_closed = False, rg_deps = NewDependencyGraph,
      rg_metrics = \<lparr>mt_Registered = 0, mt_Removed = 0, mt_Duplicates = 0, mt_BoundRejects = 0,
        mt_EpochAdvances = 0, mt_LockdownBlocks = 0\<rparr>\<rparr>"

definition on_metrics :: "Registry \<Rightarrow> (Metrics \<Rightarrow> Metrics) \<Rightarrow> Registry" where
  "on_metrics r f = r\<lparr>rg_metrics := f (rg_metrics r)\<rparr>"

definition checkMutationLocked :: "bool \<Rightarrow> Registry \<Rightarrow> string \<Rightarrow> Registry \<times> resource_error option" where
  "checkMutationLocked blocks r op =
     (if blocks then
        (on_metrics r (\<lambda>m. m\<lparr>mt_LockdownBlocks := mt_LockdownBlocks m + 1\<rparr>),
         Some (rerror op no_id ErrLockdown ''lockdown active''))
      else (r, None))"

definition Register ::
  "Kind list \<Rightarrow> bool \<Rightarrow> time \<Rightarrow> Registry \<Rightarrow> Resource option \<Rightarrow> Metadata \<Rightarrow> Registry \<times> (Entry + resource_error)" where
  "Register customKinds blocks now r res meta =
     (case res of
        None \<Rightarrow> (r, Inr (rerror ''Register'' no_id ErrInvalidArgument ''nil resource''))
      | Some res \<Rightarrow>
     (let i = rs_ID res
      in case ResourceID_Validate i of
           Some err \<Rightarrow> (r, Inr (RError ''Register'' i (Some err) ''invalid id''))
         | None \<Rightarrow>
             if \<not> ValidKind customKinds (rid_Kind i) then
               (r, Inr (rerror ''Register'' i ErrUnknownKind ''unknown kind''))
             else if rs_Kind res \<noteq> rid_Kind i then
               (r, Inr (rerror ''Register'' i ErrInvalidArgument ''kind mismatch between ID and Kind()''))
             else if rg_closed r then (r, Inr (rerror ''Register'' i ErrClosed ''registry closed''))
             else
               (case checkMutationLocked blocks r ''Register'' of
                  (r, Some err) \<Rightarrow> (r, Inr err)
                | (r, None) \<Rightarrow>
                    (let key = ResourceID_String i
                     in if map_of (rg_entries r) key \<noteq> None then
                          (on_metrics r (\<lambda>m. m\<lparr>mt_Duplicates := mt_Duplicates m + 1\<rparr>),
                           Inr (rerror ''Register'' i ErrDuplicate ''already registered''))
                        else if length (rg_entries r) \<ge> rg_max r then
                          (on_metrics r (\<lambda>m. m\<lparr>mt_BoundRejects := mt_BoundRejects m + 1\<rparr>),
                           Inr (rerror ''Register'' i ErrBoundExceeded ''max resources reached''))
                        else
                          (let ent = \<lparr>en_Resource = res, en_Meta = meta, en_Epoch = 0, en_RegisteredAt = now\<rparr>;
                               r = r\<lparr>rg_entries := AList.update key ent (rg_entries r)\<rparr>
                           in (on_metrics r (\<lambda>m. m\<lparr>mt_Registered := mt_Registered m + 1\<rparr>), Inl ent))))))"

definition Remove :: "bool \<Rightarrow> Registry \<Rightarrow> ResourceID \<Rightarrow> Registry \<times> resource_error option" where
  "Remove blocks r i =
     (if rg_closed r then (r, Some (rerror ''Remove'' i ErrClosed ''registry closed''))
      else
        (case checkMutationLocked blocks r ''Remove'' of
           (r, Some err) \<Rightarrow> (r, Some err)
         | (r, None) \<Rightarrow>
             (let key = ResourceID_String i
              in if map_of (rg_entries r) key = None then
                   (r, Some (rerror ''Remove'' i ErrNotFound ''not found''))
                 else
                   (let r = r\<lparr>rg_entries := AList.delete key (rg_entries r),
                              rg_deps := removeNode (rg_deps r) key\<rparr>
                    in (on_metrics r (\<lambda>m. m\<lparr>mt_Removed := mt_Removed m + 1\<rparr>), None)))))"

definition registry_Get :: "Registry \<Rightarrow> ResourceID \<Rightarrow> Entry + resource_error" where
  "registry_Get r i =
     (case map_of (rg_entries r) (ResourceID_String i) of
        None \<Rightarrow> Inr (rerror ''Get'' i ErrNotFound ''not found'')
      | Some ent \<Rightarrow> Inl ent)"

definition registry_List :: "Registry \<Rightarrow> Entry list" where
  "registry_List r = map (\<lambda>k. the (map_of (rg_entries r) k)) (sort (map fst (rg_entries r)))"

definition registry_Count :: "Registry \<Rightarrow> nat" where
  "registry_Count r = length (rg_entries r)"

definition Advance ::
  "bool \<Rightarrow> Registry \<Rightarrow> ResourceID \<Rightarrow> string \<Rightarrow> Registry \<times> (EpochAdvance + resource_error)" where
  "Advance blocks r i reason =
     (if rg_closed r then (r, Inr (rerror ''Advance'' i ErrClosed ''registry closed''))
      else
        (case checkMutationLocked blocks r ''Advance'' of
           (r, Some err) \<Rightarrow> (r, Inr err)
         | (r, None) \<Rightarrow>
             (case map_of (rg_entries r) (ResourceID_String i) of
                None \<Rightarrow> (r, Inr (rerror ''Advance'' i ErrNotFound ''not found''))
              | Some ent \<Rightarrow>
                  (case AdvanceEpoch (en_Epoch ent) reason of
                     (_, _, Some err) \<Rightarrow> (r, Inr (RError ''Advance'' i (Some err) (resource_Error err)))
                   | (next, adv, None) \<Rightarrow>
                       (let r = r\<lparr>rg_entries := AList.update (ResourceID_String i) (ent\<lparr>en_Epoch := next\<rparr>)
                                    (rg_entries r)\<rparr>
                        in (on_metrics r (\<lambda>m. m\<lparr>mt_EpochAdvances := mt_EpochAdvances m + 1\<rparr>), Inl adv))))))"

definition DefineDependency ::
  "bool \<Rightarrow> Registry \<Rightarrow> ResourceID \<Rightarrow> ResourceID \<Rightarrow> Registry \<times> resource_error option" where
  "DefineDependency blocks r from to =
     (if rg_closed r then (r, Some (rerror ''DefineDependency'' no_id ErrClosed ''registry closed''))
      else
        (case checkMutationLocked blocks r ''DefineDependency'' of
           (r, Some err) \<Rightarrow> (r, Some err)
         | (r, None) \<Rightarrow>
             (let fk = ResourceID_String from; tk = ResourceID_String to
              in if map_of (rg_entries r) fk = None then
                   (r, Some (rerror ''DefineDependency'' from ErrNotFound ''from not registered''))
                 else if map_of (rg_entries r) tk = None then
                   (r, Some (rerror ''DefineDependency'' to ErrNotFound ''to not registered''))
                 else
                   (case Define (rg_deps r) fk tk of (g, err) \<Rightarrow> (r\<lparr>rg_deps := g\<rparr>, err)))))"

fun keysToIDs :: "Kind list \<Rightarrow> string list \<Rightarrow> ResourceID list + resource_error" where
  "keysToIDs customKinds [] = Inl []"
| "keysToIDs customKinds (k # ks) =
     (case ParseResourceID customKinds k of
        Inr err \<Rightarrow> Inr err
      | Inl i \<Rightarrow> (case keysToIDs customKinds ks of Inr err \<Rightarrow> Inr err | Inl is' \<Rightarrow> Inl (i # is')))"

definition registry_StartupOrder :: "Kind list \<Rightarrow> Registry \<Rightarrow> ResourceID list + resource_error" where
  "registry_StartupOrder customKinds r =
     (case StartupOrder (rg_deps r) (map fst (rg_entries r)) of
        Inr err \<Rightarrow> Inr err
      | Inl keys \<Rightarrow> keysToIDs customKinds keys)"

definition ShutdownOrder :: "Kind list \<Rightarrow> Registry \<Rightarrow> ResourceID list + resource_error" where
  "ShutdownOrder customKinds r =
     (case registry_StartupOrder customKinds r of Inr err \<Rightarrow> Inr err | Inl order \<Rightarrow> Inl (rev order))"

definition unusable :: "HealthStatus \<Rightarrow> bool" where
  "unusable h \<longleftrightarrow> h = HealthUnhealthy \<or> h = HealthBlocked"

definition MissingDependencies ::
  "(Resource \<Rightarrow> ResourceHealth) \<Rightarrow> DependencyGraph \<Rightarrow> string \<Rightarrow> (string \<times> Entry) list \<Rightarrow> string list" where
  "MissingDependencies health g from entries =
     filter (\<lambda>to. case map_of entries to of
                    None \<Rightarrow> True
                  | Some ent \<Rightarrow> unusable (rh_Overall (health (en_Resource ent))))
       (DependenciesOf g from)"

fun join_comma :: "string list \<Rightarrow> string" where
  "join_comma [] = ''''"
| "join_comma [k] = k"
| "join_comma (k # ks) = k @ '', '' @ join_comma ks"

definition joinKeys :: "string list \<Rightarrow> string" where
  "joinKeys keys = join_comma (sort keys)"

definition HealthStatus_string :: "HealthStatus \<Rightarrow> string" where
  "HealthStatus_string s =
     (case s of HealthEmpty \<Rightarrow> '''' | HealthUnknown \<Rightarrow> ''unknown'' | HealthHealthy \<Rightarrow> ''healthy''
      | HealthDegraded \<Rightarrow> ''degraded'' | HealthUnhealthy \<Rightarrow> ''unhealthy'' | HealthBlocked \<Rightarrow> ''blocked'')"

definition BlockedExplanation :: "(Resource \<Rightarrow> ResourceHealth) \<Rightarrow> Registry \<Rightarrow> ResourceID \<Rightarrow> string" where
  "BlockedExplanation health r i =
     (let key = ResourceID_String i
      in case map_of (rg_entries r) key of
           None \<Rightarrow> ''resource not registered''
         | Some ent \<Rightarrow>
             (let missing = MissingDependencies health (rg_deps r) key (rg_entries r)
              in if missing \<noteq> [] then
                   ''blocked by missing or unhealthy dependencies: '' @ joinKeys missing
                 else
                   (let h = rh_Overall (health (en_Resource ent))
                    in if unusable h then ''resource health is '' @ HealthStatus_string h else '''')))"

definition registry_Close :: "Registry \<Rightarrow> Registry" where
  "registry_Close r = r\<lparr>rg_closed := True\<rparr>"

section \<open>Histories\<close>

datatype reg_op =
    OpKind Kind
  | OpRegister bool time "Resource option" Metadata
  | OpRemove bool ResourceID
  | OpAdvance bool ResourceID string
  | OpDefine bool ResourceID ResourceID
  | OpClose

fun reg_act :: "Kind list \<times> Registry \<Rightarrow> reg_op \<Rightarrow> Kind list \<times> Registry" where
  "reg_act (ks, r) (OpKind k) = (fst (RegisterCustomKind ks k), r)"
| "reg_act (ks, r) (OpRegister blocks now res meta) = (ks, fst (Register ks blocks now r res meta))"
| "reg_act (ks, r) (OpRemove blocks i) = (ks, fst (Remove blocks r i))"
| "reg_act (ks, r) (OpAdvance blocks i reason) = (ks, fst (Advance blocks r i reason))"
| "reg_act (ks, r) (OpDefine blocks from to) = (ks, fst (DefineDependency blocks r from to))"
| "reg_act (ks, r) OpClose = (ks, registry_Close r)"

definition reg_run :: "Kind list \<times> Registry \<Rightarrow> reg_op list \<Rightarrow> Kind list \<times> Registry" where
  "reg_run = foldl reg_act"

section \<open>Invariant\<close>

definition entry_ok :: "Kind list \<Rightarrow> string \<Rightarrow> Entry \<Rightarrow> bool" where
  "entry_ok ks k ent \<longleftrightarrow>
     (let i = rs_ID (en_Resource ent)
      in k = ResourceID_String i \<and> ResourceID_Validate i = None \<and> ValidKind ks (rid_Kind i)
         \<and> rs_Kind (en_Resource ent) = rid_Kind i)"

definition registry_ok :: "Kind list \<Rightarrow> Registry \<Rightarrow> bool" where
  "registry_ok ks r \<longleftrightarrow>
     distinct (map fst (rg_entries r)) \<and> length (rg_entries r) \<le> rg_max r
     \<and> (\<forall>k ent. map_of (rg_entries r) k = Some ent \<longrightarrow> entry_ok ks k ent)
     \<and> graph_ok (rg_deps r) \<and> acyclic (dep_rel (rg_deps r))
     \<and> set (graph_nodes (rg_deps r)) \<subseteq> fst ` set (rg_entries r)"

lemma on_metrics_simps [simp]:
  "rg_entries (on_metrics r f) = rg_entries r" "rg_max (on_metrics r f) = rg_max r"
  "rg_deps (on_metrics r f) = rg_deps r" "rg_closed (on_metrics r f) = rg_closed r"
  "registry_ok ks (on_metrics r f) = registry_ok ks r"
  by (simp_all add: on_metrics_def registry_ok_def)

lemma checkMutation_simps:
  "checkMutationLocked b r op = (r', e) \<Longrightarrow>
     (e = None \<longrightarrow> r' = r) \<and> (\<exists>f. r' = on_metrics r f)"
  by (auto simp: checkMutationLocked_def on_metrics_def split: if_splits intro: exI [where x = "\<lambda>m. m"])

lemma dom_entries: "k \<in> fst ` set xs \<longleftrightarrow> map_of xs k \<noteq> None"
  by (simp add: map_of_eq_None_iff)

lemma keys_delete: "fst ` set (AList.delete k xs) = fst ` set xs - {k}"
  by (metis delete_keys set_map set_removeAll)

lemma registry_ok_new: "registry_ok ks (NewRegistry m)"
  by (simp add: registry_ok_def NewRegistry_def DefaultMaxResources_def graph_nodes_def)
    (simp add: NewDependencyGraph_def)

lemma ValidKind_mono: "ValidKind ks k \<Longrightarrow> ValidKind (fst (RegisterCustomKind ks k')) k"
  by (auto simp: ValidKind_def RegisterCustomKind_def)

lemma registry_ok_kind: "registry_ok ks r \<Longrightarrow> registry_ok (fst (RegisterCustomKind ks k)) r"
  using ValidKind_mono by (auto simp: registry_ok_def entry_ok_def Let_def)

lemma registry_ok_register:
  assumes "registry_ok ks r"
  shows "registry_ok ks (fst (Register ks blocks now r res meta))"
proof (cases "snd (Register ks blocks now r res meta)")
  case (Inr err)
  then obtain f where "fst (Register ks blocks now r res meta) = on_metrics r f \<or> fst (Register ks blocks now r res meta) = r"
    by (auto simp: Register_def Let_def checkMutationLocked_def split: option.splits if_splits)
  with assms show ?thesis by auto
next
  case (Inl ent)
  then obtain re where res: "res = Some re" and ok: "ResourceID_Validate (rs_ID re) = None"
      "ValidKind ks (rid_Kind (rs_ID re))" "rs_Kind re = rid_Kind (rs_ID re)"
    and fresh: "map_of (rg_entries r) (ResourceID_String (rs_ID re)) = None" "length (rg_entries r) < rg_max r"
    and ent: "en_Resource ent = re"
    and r': "fst (Register ks blocks now r res meta) =
      on_metrics (r\<lparr>rg_entries := AList.update (ResourceID_String (rs_ID re)) ent (rg_entries r)\<rparr>)
        (\<lambda>m. m\<lparr>mt_Registered := mt_Registered m + 1\<rparr>)"
    by (auto simp: Register_def Let_def checkMutationLocked_def split: option.splits if_splits)
  show ?thesis
    using assms ok fresh ent
    by (auto simp: r' registry_ok_def distinct_update length_update_new update_conv entry_ok_def Let_def
        dom_update)
qed

lemma graph_nodes_Cons: "graph_nodes ((f, ts) # g) = f # ts @ graph_nodes g"
  by (simp add: graph_nodes_def)

lemma graph_nodes_remove: "set (graph_nodes (removeNode g k)) \<subseteq> set (graph_nodes g) - {k}"
proof (induction g)
  case (Cons x g)
  then show ?case by (cases x) (auto simp: graph_nodes_Cons split: if_splits)
qed (simp add: graph_nodes_def)

lemma registry_ok_remove:
  assumes "registry_ok ks r"
  shows "registry_ok ks (fst (Remove blocks r i))"
proof (cases "snd (Remove blocks r i)")
  case (Some err)
  then obtain f where "fst (Remove blocks r i) = on_metrics r f \<or> fst (Remove blocks r i) = r"
    by (auto simp: Remove_def Let_def checkMutationLocked_def split: option.splits if_splits)
  with assms show ?thesis by auto
next
  case None
  let ?k = "ResourceID_String i"
  have r': "fst (Remove blocks r i) = on_metrics (r\<lparr>rg_entries := AList.delete ?k (rg_entries r),
      rg_deps := removeNode (rg_deps r) ?k\<rparr>) (\<lambda>m. m\<lparr>mt_Removed := mt_Removed m + 1\<rparr>)"
    using None by (auto simp: Remove_def Let_def checkMutationLocked_def split: option.splits if_splits)
  have g: "graph_ok (rg_deps r)" "acyclic (dep_rel (rg_deps r))" "distinct (map fst (rg_deps r))"
    using assms by (auto simp: registry_ok_def graph_ok_def)
  have "acyclic (dep_rel (removeNode (rg_deps r) ?k))"
    using acyclic_subset [OF g(2) dep_rel_remove [OF g(3)]] .
  moreover have "set (graph_nodes (removeNode (rg_deps r) ?k)) \<subseteq> fst ` set (AList.delete ?k (rg_entries r))"
    using graph_nodes_remove [of "rg_deps r" ?k] assms unfolding registry_ok_def keys_delete by blast
  moreover have "length (AList.delete ?k (rg_entries r)) \<le> rg_max r"
    using assms length_delete_le [of ?k "rg_entries r"] by (simp add: registry_ok_def)
  ultimately show ?thesis
    using assms g graph_ok_remove
    by (auto simp: r' registry_ok_def distinct_delete delete_conv)
qed

lemma registry_ok_advance:
  assumes "registry_ok ks r"
  shows "registry_ok ks (fst (Advance blocks r i reason))"
proof (cases "snd (Advance blocks r i reason)")
  case (Inr err)
  then obtain f where "fst (Advance blocks r i reason) = on_metrics r f \<or> fst (Advance blocks r i reason) = r"
    by (auto simp: Advance_def Let_def checkMutationLocked_def split: option.splits if_splits prod.splits)
  with assms show ?thesis by auto
next
  case (Inl adv)
  then obtain ent e where ent: "map_of (rg_entries r) (ResourceID_String i) = Some ent"
    and r': "fst (Advance blocks r i reason) = on_metrics (r\<lparr>rg_entries :=
        AList.update (ResourceID_String i) (ent\<lparr>en_Epoch := e\<rparr>) (rg_entries r)\<rparr>)
        (\<lambda>m. m\<lparr>mt_EpochAdvances := mt_EpochAdvances m + 1\<rparr>)"
    by (auto simp: Advance_def Let_def checkMutationLocked_def split: option.splits if_splits prod.splits)
  show ?thesis
    using assms ent
    by (auto simp: r' registry_ok_def distinct_update length_update_old update_conv entry_ok_def Let_def
        dom_update)
qed

lemma graph_nodes_iff:
  assumes "graph_ok g"
  shows "n \<in> set (graph_nodes g) \<longleftrightarrow> edges_of g n \<noteq> [] \<or> (\<exists>f. n \<in> set (edges_of g f))"
proof
  assume "n \<in> set (graph_nodes g)"
  then obtain f ts where "(f, ts) \<in> set g" and n: "n = f \<or> n \<in> set ts" by (auto simp: graph_nodes_def)
  then have "map_of g f = Some ts" using assms by (simp add: graph_ok_def)
  then have "edges_of g f = ts" "ts \<noteq> []" using assms by (simp add: edges_of_def, unfold graph_ok_def, blast)
  with n show "edges_of g n \<noteq> [] \<or> (\<exists>f. n \<in> set (edges_of g f))" by blast
next
  assume "edges_of g n \<noteq> [] \<or> (\<exists>f. n \<in> set (edges_of g f))"
  then show "n \<in> set (graph_nodes g)" using edges_of_source [of g n] edges_of_nodes by blast
qed

lemma graph_nodes_Define:
  assumes "graph_ok g" and "acyclic (dep_rel g)"
  shows "set (graph_nodes (fst (Define g from to))) \<subseteq> set (graph_nodes g) \<union> {from, to}"
proof
  let ?g = "fst (Define g from to)"
  fix n assume "n \<in> set (graph_nodes ?g)"
  then have "set (edges_of ?g n) \<noteq> {} \<or> (\<exists>f. n \<in> set (edges_of ?g f))"
    using Define_ok [OF assms, of "from" "to"] by (simp add: graph_nodes_iff)
  then show "n \<in> set (graph_nodes g) \<union> {from, to}"
    unfolding Define_edges [OF assms(2)] using edges_of_nodes edges_of_source [of g n] by (auto split: if_splits)
qed

lemma registry_ok_define:
  assumes "registry_ok ks r"
  shows "registry_ok ks (fst (DefineDependency blocks r from to))"
proof -
  have g: "graph_ok (rg_deps r)" "acyclic (dep_rel (rg_deps r))"
    using assms by (auto simp: registry_ok_def)
  let ?fk = "ResourceID_String from" and ?tk = "ResourceID_String to"
  show ?thesis
  proof (cases "rg_closed r \<or> blocks \<or> map_of (rg_entries r) ?fk = None \<or> map_of (rg_entries r) ?tk = None")
    case True
    with assms show ?thesis by (auto simp: DefineDependency_def checkMutationLocked_def Let_def)
  next
    case False
    let ?g = "fst (Define (rg_deps r) ?fk ?tk)"
    have r': "fst (DefineDependency blocks r from to) = r\<lparr>rg_deps := ?g\<rparr>"
      using False by (auto simp: DefineDependency_def checkMutationLocked_def Let_def split: prod.splits)
    have "?fk \<in> fst ` set (rg_entries r)" "?tk \<in> fst ` set (rg_entries r)"
      using False by (simp_all only: dom_entries) simp_all
    then have "set (graph_nodes ?g) \<subseteq> fst ` set (rg_entries r)"
      using graph_nodes_Define [OF g, of ?fk ?tk] assms unfolding registry_ok_def by blast
    with Define_ok [OF g] assms show ?thesis by (simp add: r' registry_ok_def)
  qed
qed

lemma registry_ok_act:
  assumes "registry_ok ks r"
  shows "registry_ok (fst (reg_act (ks, r) a)) (snd (reg_act (ks, r) a))"
proof (cases a)
  case OpClose
  with assms show ?thesis by (simp add: registry_Close_def registry_ok_def)
qed (simp_all add: assms registry_ok_kind registry_ok_register registry_ok_remove registry_ok_advance
    registry_ok_define)

lemma registry_ok_run: "registry_ok ks r \<Longrightarrow> reg_run (ks, r) ops = (ks', r') \<Longrightarrow> registry_ok ks' r'"
  unfolding reg_run_def
proof (induction ops arbitrary: ks r)
  case (Cons a ops)
  obtain ks1 r1 where step: "reg_act (ks, r) a = (ks1, r1)" by force
  have "registry_ok ks1 r1"
    using registry_ok_act [OF Cons.prems(1), of a] step by simp
  then show ?case using Cons.prems(2) step by (intro Cons.IH) simp_all
qed simp

section \<open>Orders\<close>

lemma keysToIDs_map:
  assumes "list_all (\<lambda>i. ResourceID_Validate i = None \<and> ValidKind ks (rid_Kind i)) is'"
  shows "keysToIDs ks (map ResourceID_String is') = Inl is'"
  using assms by (induction is') (simp_all add: Parse_String)

lemma registry_ids:
  assumes "registry_ok ks r"
  shows "\<exists>is'. map fst (rg_entries r) = map ResourceID_String is'
     \<and> set is' = (\<lambda>ent. rs_ID (en_Resource ent)) ` set (registry_List r)
     \<and> list_all (\<lambda>i. ResourceID_Validate i = None \<and> ValidKind ks (rid_Kind i)) is'"
proof -
  let ?id = "\<lambda>ent. rs_ID (en_Resource ent)"
  have dist: "distinct (map fst (rg_entries r))" using assms by (simp add: registry_ok_def)
  have ent: "entry_ok ks k ent" if "(k, ent) \<in> set (rg_entries r)" for k ent
    using assms dist that by (simp add: registry_ok_def)
  have keys: "map fst (rg_entries r) = map ResourceID_String (map (?id \<circ> snd) (rg_entries r))"
    using ent by (auto simp: entry_ok_def Let_def)
  have "set (registry_List r) = snd ` set (rg_entries r)"
    using dist by (force simp: registry_List_def image_image)
  then have ids: "set (map (?id \<circ> snd) (rg_entries r)) = ?id ` set (registry_List r)"
    by (simp add: image_image)
  have "list_all (\<lambda>i. ResourceID_Validate i = None \<and> ValidKind ks (rid_Kind i)) (map (?id \<circ> snd) (rg_entries r))"
    using ent by (auto simp: list_all_iff entry_ok_def Let_def)
  with keys ids show ?thesis by blast
qed

lemma topological_map:
  assumes "topological deps (map f xs)" and "i < length xs"
  shows "set (deps (f (xs ! i))) \<subseteq> f ` set (take i xs)"
  using assms by (auto simp: topological_def take_map)

lemma preimage_list:
  assumes "inj_on f A" and "set ys = f ` A"
  shows "\<exists>xs. ys = map f xs \<and> set xs = A"
proof -
  let ?xs = "map (inv_into A f) ys"
  have "map f ?xs = ys" using assms(2) by (auto simp: f_inv_into_f intro!: map_idI)
  moreover have "set ?xs = A" using assms by (simp add: inv_into_image_cancel)
  ultimately show ?thesis by metis
qed

lemma registry_StartupOrder_ok:
  assumes "registry_ok ks r"
  shows "\<exists>order. registry_StartupOrder ks r = Inl order \<and> distinct order
     \<and> set order = (\<lambda>ent. rs_ID (en_Resource ent)) ` set (registry_List r)
     \<and> topological (edges_of (rg_deps r)) (map ResourceID_String order)"
proof -
  obtain is' where is': "map fst (rg_entries r) = map ResourceID_String is'"
      "set is' = (\<lambda>ent. rs_ID (en_Resource ent)) ` set (registry_List r)"
      "list_all (\<lambda>i. ResourceID_Validate i = None \<and> ValidKind ks (rid_Kind i)) is'"
    using registry_ids [OF assms] by blast
  have ok: "acyclic (dep_rel (rg_deps r))" "set (graph_nodes (rg_deps r)) \<subseteq> set (map fst (rg_entries r))"
    using assms unfolding registry_ok_def set_map by blast+
  obtain keys where keys: "StartupOrder (rg_deps r) (map fst (rg_entries r)) = Inl keys"
    using ok(1) StartupOrder_acyclic [of "rg_deps r" "map fst (rg_entries r)"] by blast
  have set_keys: "set keys = ResourceID_String ` set is'"
    using StartupOrder_Inl(2) [OF keys] ok(2) unfolding is'(1) set_map by blast
  have parse: "ParseResourceID ks (ResourceID_String i) = Inl i" if "i \<in> set is'" for i
    using is'(3) that by (auto simp: list_all_iff intro: Parse_String)
  have "inj_on ResourceID_String (set is')"
    by (rule inj_onI) (metis parse sum.inject(1))
  then obtain order where order: "keys = map ResourceID_String order" "set order = set is'"
    using preimage_list [OF _ set_keys] by blast
  have "keysToIDs ks (map ResourceID_String order) = Inl order"
    using is'(3) by (intro keysToIDs_map) (simp add: list_all_iff order(2))
  then have "registry_StartupOrder ks r = Inl order"
    using keys by (simp add: registry_StartupOrder_def order(1))
  moreover have "distinct order" "topological (edges_of (rg_deps r)) (map ResourceID_String order)"
    using StartupOrder_Inl(1, 3) [OF keys] unfolding order(1) by (simp_all only: distinct_map)
  ultimately show ?thesis using is'(2) order(2) by metis
qed

text \<open>
  C10. Startup and shutdown orders. After any history of registrations, removals, epoch advances,
  dependency definitions and a closing, whether the calls were accepted or refused, a fresh
  registry answers \<open>StartupOrder\<close> without error: the answer lists the identifiers of exactly the
  registered resources, each once, every resource after all its dependencies; \<open>ShutdownOrder\<close> is
  the reverse; and the registry never holds more entries than its bound.
\<close>

theorem registry_startup_order:
  assumes "reg_run (ks0, NewRegistry m) ops = (ks, r)"
  shows "\<exists>order. registry_StartupOrder ks r = Inl order \<and> ShutdownOrder ks r = Inl (rev order)
     \<and> distinct order \<and> set order = (\<lambda>ent. rs_ID (en_Resource ent)) ` set (registry_List r)
     \<and> topological (edges_of (rg_deps r)) (map ResourceID_String order)
     \<and> registry_Count r \<le> rg_max r"
proof -
  have ok: "registry_ok ks r" using registry_ok_run [OF registry_ok_new assms] .
  then have "registry_Count r \<le> rg_max r" by (simp add: registry_ok_def registry_Count_def)
  moreover obtain order where "registry_StartupOrder ks r = Inl order" "distinct order"
    "set order = (\<lambda>ent. rs_ID (en_Resource ent)) ` set (registry_List r)"
    "topological (edges_of (rg_deps r)) (map ResourceID_String order)"
    using registry_StartupOrder_ok [OF ok] by blast
  ultimately show ?thesis by (simp add: ShutdownOrder_def)
qed

definition sample_resource :: "Kind \<Rightarrow> string \<Rightarrow> Resource" where
  "sample_resource k n =
     \<lparr>rs_ID = \<lparr>rid_Kind = k, rid_Environment = ''prod'', rid_Service = ''pay'', rid_Name = n\<rparr>,
      rs_Kind = k, rs_Capabilities = no_caps\<rparr>"

definition no_meta :: Metadata where
  "no_meta = \<lparr>md_Labels = [], md_Tags = [], md_Notes = '''', md_Source = ''''\<rparr>"

definition api :: Resource where
  "api = sample_resource ''worker'' ''api''"

definition db :: Resource where
  "db = sample_resource ''database'' ''db''"

definition sample_history :: "reg_op list" where
  "sample_history =
     [OpRegister False 1 (Some api) no_meta, OpRegister False 2 (Some db) no_meta,
      OpDefine False (rs_ID api) (rs_ID db), OpDefine False (rs_ID db) (rs_ID api)]"

definition sample_entry :: "Resource \<Rightarrow> time \<Rightarrow> Entry" where
  "sample_entry res t = \<lparr>en_Resource = res, en_Meta = no_meta, en_Epoch = 0, en_RegisteredAt = t\<rparr>"

lemma sample_valid:
  "ResourceID_Validate (rs_ID api) = None" "ResourceID_Validate (rs_ID db) = None"
proof -
  have "list_all ascii ''worker''" "list_all ascii ''api''" "list_all ascii ''database''" "list_all ascii ''db''"
    "list_all ascii ''prod''" "list_all ascii ''pay''"
    by (simp_all add: ascii_def byte_def)
  then show "ResourceID_Validate (rs_ID api) = None" "ResourceID_Validate (rs_ID db) = None"
    by (simp_all add: Validate_None validateSegment_None api_def db_def sample_resource_def runes_ascii
        byte_def IsSpace_def)
qed

lemma sample_string:
  "ResourceID_String (rs_ID api) = ''worker/prod/pay/api''"
  "ResourceID_String (rs_ID db) = ''database/prod/pay/db''"
  by (simp_all add: api_def db_def sample_resource_def ResourceID_String_def)

lemma sample_kind:
  "ValidKind [] (rid_Kind (rs_ID api))" "ValidKind [] (rid_Kind (rs_ID db))"
  "rs_Kind api = rid_Kind (rs_ID api)" "rs_Kind db = rid_Kind (rs_ID db)"
  by (simp_all add: api_def db_def sample_resource_def ValidKind_def builtinKinds_def)

lemma sample_Define:
  "Define [] ''worker/prod/pay/api'' ''database/prod/pay/db''
     = ([(''worker/prod/pay/api'', [''database/prod/pay/db''])], None)"
  "fst (Define [(''worker/prod/pay/api'', [''database/prod/pay/db''])]
         ''database/prod/pay/db'' ''worker/prod/pay/api'')
     = [(''worker/prod/pay/api'', [''database/prod/pay/db''])]"
  by code_simp+

lemma sample_run:
  assumes "reg_run ([], NewRegistry 2) sample_history = (ks, r)"
  shows "rg_entries r = [(''worker/prod/pay/api'', sample_entry api 1), (''database/prod/pay/db'', sample_entry db 2)]"
    and "rg_deps r = [(''worker/prod/pay/api'', [''database/prod/pay/db''])]" and "ks = []"
proof -
  note run = assms [unfolded sample_history_def reg_run_def, symmetric]
  show "rg_entries r = [(''worker/prod/pay/api'', sample_entry api 1), (''database/prod/pay/db'', sample_entry db 2)]"
    "rg_deps r = [(''worker/prod/pay/api'', [''database/prod/pay/db''])]" "ks = []"
    using run
    by (simp_all add: Register_def NewRegistry_def sample_valid sample_string sample_kind checkMutationLocked_def
        on_metrics_def DefineDependency_def sample_Define sample_entry_def NewDependencyGraph_def
        split_beta Let_def)
qed

theorem registry_startup_order_witness:
  "\<exists>order. registry_StartupOrder [] (snd (reg_run ([], NewRegistry 2) sample_history)) = Inl order
     \<and> distinct order \<and> set order = {rs_ID api, rs_ID db}"
proof -
  obtain ks r where run: "reg_run ([], NewRegistry 2) sample_history = (ks, r)" by force
  note eval = sample_run [OF run]
  have "set (registry_List r) = {sample_entry api 1, sample_entry db 2}"
    by (auto simp: registry_List_def eval(1))
  with registry_startup_order [OF run] show ?thesis by (auto simp: run eval(3) sample_entry_def)
qed

section \<open>Epochs\<close>

lemma Register_keeps:
  assumes "map_of (rg_entries r) k = Some ent"
  shows "map_of (rg_entries (fst (Register ks blocks now r res meta))) k = Some ent"
  using assms
  by (auto simp: Register_def Let_def checkMutationLocked_def update_conv split: option.splits)

lemma Remove_keeps:
  assumes "map_of (rg_entries r) k = Some ent" and "ResourceID_String i \<noteq> k"
  shows "map_of (rg_entries (fst (Remove blocks r i))) k = Some ent"
  using assms by (auto simp: Remove_def Let_def checkMutationLocked_def delete_conv')

lemma Define_keeps: "rg_entries (fst (DefineDependency blocks r from to)) = rg_entries r"
  by (auto simp: DefineDependency_def Let_def checkMutationLocked_def split: prod.splits)

lemma Advance_epoch:
  assumes "map_of (rg_entries r) k = Some ent"
  shows "\<exists>ent'. map_of (rg_entries (fst (Advance blocks r i reason))) k = Some ent'
     \<and> en_Resource ent' = en_Resource ent \<and> en_Epoch ent \<le> en_Epoch ent'"
proof (cases "snd (Advance blocks r i reason)")
  case (Inr err)
  then have "rg_entries (fst (Advance blocks r i reason)) = rg_entries r"
    by (auto simp: Advance_def Let_def checkMutationLocked_def split: option.splits if_splits prod.splits)
  with assms show ?thesis by simp
next
  case (Inl adv)
  then obtain e0 e where e0: "map_of (rg_entries r) (ResourceID_String i) = Some e0"
    and e: "AdvanceEpoch (en_Epoch e0) reason = (e, adv, None)"
    and r': "rg_entries (fst (Advance blocks r i reason)) =
      AList.update (ResourceID_String i) (e0\<lparr>en_Epoch := e\<rparr>) (rg_entries r)"
    by (auto simp: Advance_def Let_def checkMutationLocked_def split: option.splits if_splits prod.splits)
  show ?thesis
    using assms e0 AdvanceEpoch_Some(1) [OF e] by (auto simp: r' update_conv)
qed

fun removes :: "string \<Rightarrow> reg_op \<Rightarrow> bool" where
  "removes k (OpRemove b i) = (ResourceID_String i = k)"
| "removes k _ = False"

lemma reg_act_epoch:
  assumes "map_of (rg_entries r) k = Some ent" and "\<not> removes k a"
  shows "\<exists>ent'. map_of (rg_entries (snd (reg_act (ks, r) a))) k = Some ent'
     \<and> en_Resource ent' = en_Resource ent \<and> en_Epoch ent \<le> en_Epoch ent'"
proof (cases a)
  case (OpAdvance b i reason)
  with Advance_epoch [OF assms(1)] show ?thesis by simp
qed (use assms in \<open>simp_all add: Register_keeps Remove_keeps Define_keeps registry_Close_def\<close>)

text \<open>
  Epochs never decrease. As long as a resource is not removed, every history of registry calls
  keeps its entry and its adapter, and its epoch only grows.
\<close>

theorem registry_epoch_monotone:
  assumes "registry_Get r i = Inl ent" and "\<not> list_ex (removes (ResourceID_String i)) ops"
  shows "\<exists>ent'. registry_Get (snd (reg_run (ks, r) ops)) i = Inl ent'
     \<and> en_Resource ent' = en_Resource ent \<and> en_Epoch ent \<le> en_Epoch ent'"
proof -
  have "\<exists>ent'. map_of (rg_entries (snd (foldl reg_act (ks, r) ops))) (ResourceID_String i) = Some ent'
     \<and> en_Resource ent' = en_Resource ent \<and> en_Epoch ent \<le> en_Epoch ent'"
    if "map_of (rg_entries r) (ResourceID_String i) = Some ent"
    using that assms(2)
  proof (induction ops arbitrary: ks r ent)
    case (Cons a ops)
    obtain ks' r' where a: "reg_act (ks, r) a = (ks', r')" by force
    obtain ent1 where ent1: "map_of (rg_entries r') (ResourceID_String i) = Some ent1"
      "en_Resource ent1 = en_Resource ent" "en_Epoch ent \<le> en_Epoch ent1"
      using reg_act_epoch [OF Cons.prems(1), of a ks] Cons.prems(2) a by auto
    from Cons.IH [OF ent1(1), of ks'] Cons.prems(2) ent1(2, 3) a show ?case
      by (auto intro: order_trans)
  qed auto
  with assms(1) show ?thesis
    by (auto simp: registry_Get_def reg_run_def split: option.splits)
qed

theorem registry_epoch_monotone_witness:
  "\<exists>r ent ent'. registry_Get r (rs_ID api) = Inl ent \<and> en_Epoch ent = 3
     \<and> registry_Get (snd (reg_run ([], r) sample_history)) (rs_ID api) = Inl ent' \<and> 3 \<le> en_Epoch ent'"
proof -
  let ?ent = "sample_entry api 1\<lparr>en_Epoch := 3\<rparr>"
  let ?r = "NewRegistry 2\<lparr>rg_entries := [(''worker/prod/pay/api'', ?ent)]\<rparr>"
  have "registry_Get ?r (rs_ID api) = Inl ?ent" by (simp add: registry_Get_def sample_string)
  moreover have "\<not> list_ex (removes (ResourceID_String (rs_ID api))) sample_history"
    by (simp add: sample_history_def)
  ultimately show ?thesis
    using registry_epoch_monotone [of ?r "rs_ID api" ?ent sample_history "[]"] by fastforce
qed

text \<open>
  The bound on epochs ends with the entry: removing a resource and registering it again starts its
  epoch at 0, whatever it had reached.
\<close>

lemma registry_epoch_restarts:
  assumes "registry_Get r i = Inl ent" and "Remove False r i = (r1, None)"
    and "Register ks False now r1 res meta = (r2, Inl ent2)" and "rs_ID (the res) = i"
  shows "\<exists>ent'. registry_Get r2 i = Inl ent' \<and> en_Epoch ent' = 0"
proof -
  obtain re where res: "res = Some re"
    using assms(3) by (cases res) (auto simp: Register_def)
  then have i: "i = rs_ID re" using assms(4) by simp
  have "map_of (rg_entries r2) (ResourceID_String i) = Some ent2 \<and> en_Epoch ent2 = 0"
    using assms(3) unfolding res i
    by (auto simp: Register_def Let_def checkMutationLocked_def update_conv split: option.splits if_splits)
  then show ?thesis by (simp add: registry_Get_def)
qed

text \<open>
  What \<open>DefineDependency\<close> accepts. On an open registry out of lockdown, reached by any
  history, a dependency between two registered resources is accepted exactly when they differ and
  the second does not depend on the first already, directly or through others; it then adds
  exactly this dependency, and a refused one changes no dependency. No entry changes.
\<close>

theorem DefineDependency_exact:
  assumes "reg_run (ks0, NewRegistry m) ops = (ks, r)" and "\<not> rg_closed r"
    and "registry_Get r from = Inl e1" and "registry_Get r to = Inl e2"
    and "DefineDependency False r from to = (r', err)"
  shows "(err = None \<longleftrightarrow> ResourceID_String from \<noteq> ResourceID_String to
           \<and> (ResourceID_String from, ResourceID_String to) \<notin> (dep_rel (rg_deps r))\<^sup>*)
     \<and> dep_rel (rg_deps r') = dep_rel (rg_deps r)
         \<union> (if err = None then {(ResourceID_String to, ResourceID_String from)} else {})
     \<and> rg_entries r' = rg_entries r"
proof -
  let ?fk = "ResourceID_String from" and ?tk = "ResourceID_String to"
  have "registry_ok ks r" using registry_ok_run [OF registry_ok_new assms(1)] .
  then have acyc: "acyclic (dep_rel (rg_deps r))" unfolding registry_ok_def by blast
  have reg: "map_of (rg_entries r) ?fk \<noteq> None" "map_of (rg_entries r) ?tk \<noteq> None"
    using assms(3, 4) by (auto simp: registry_Get_def split: option.splits)
  have step: "r' = r\<lparr>rg_deps := fst (Define (rg_deps r) ?fk ?tk)\<rparr>" "err = snd (Define (rg_deps r) ?fk ?tk)"
    using assms(2, 5) reg
    by (auto simp: DefineDependency_def checkMutationLocked_def Let_def split: prod.splits)
  have ne: "?fk \<noteq> ''''" "?tk \<noteq> ''''" by (simp_all add: ResourceID_String_def)
  have "dep_rel (rg_deps r') = dep_rel (rg_deps r) \<union> (if err = None then {(?tk, ?fk)} else {})"
    using Define_edges [OF acyc, of ?fk ?tk] by (auto simp: dep_rel_def step split: if_splits)
  with Define_result [OF acyc ne] step show ?thesis by simp
qed

theorem DefineDependency_exact_witness:
  "\<exists>r. snd (DefineDependency False r (rs_ID api) (rs_ID db)) = None \<and> registry_Count r = 2"
proof -
  let ?ops = "[OpRegister False 1 (Some api) no_meta, OpRegister False 2 (Some db) no_meta]"
  obtain ks r where run: "reg_run ([], NewRegistry 2) ?ops = (ks, r)" by force
  have r: "rg_entries r = [(''worker/prod/pay/api'', sample_entry api 1), (''database/prod/pay/db'', sample_entry db 2)]"
    "rg_deps r = []" "\<not> rg_closed r"
    using run [symmetric]
    by (simp_all add: reg_run_def Register_def NewRegistry_def sample_valid sample_string sample_kind
        checkMutationLocked_def on_metrics_def sample_entry_def NewDependencyGraph_def Let_def)
  obtain r' err where d: "DefineDependency False r (rs_ID api) (rs_ID db) = (r', err)" by force
  have "registry_Get r (rs_ID api) = Inl (sample_entry api 1)" "registry_Get r (rs_ID db) = Inl (sample_entry db 2)"
    by (simp_all add: registry_Get_def r sample_string)
  from DefineDependency_exact [OF run r(3) this d]
  have "err = None" by (simp add: sample_string r(2) dep_rel_def edges_of_def)
  with d r(1) show ?thesis by (auto simp: registry_Count_def intro: exI [where x = r])
qed

end
