(* ===== verification/Resource_Lease.thy ===== *)
theory Resource_Lease
  imports Resource_Registry
begin

text \<open>
  \<open>resource/lease.go\<close> and \<open>resource/acquire.go\<close>: in-process leases on registered resources and the
  acquisition of several resources in canonical order with rollback. The map from keys to held
  leases is a function (an absent key holds the empty list), as is the map of fences. What the
  surroundings answer during a call (lockdown, the two clock readings, the context) is a
  \<open>lease_env\<close>. \<open>Lease\<close> looks the resource up in the registry before it takes the manager's lock; here
  the two are one step.
\<close>

type_synonym LeaseMode = string

definition LeaseExclusive :: LeaseMode where "LeaseExclusive = ''exclusive''"
definition LeaseShared :: LeaseMode where "LeaseShared = ''shared''"
definition LeaseReadOnly :: LeaseMode where "LeaseReadOnly = ''read-only''"
definition LeaseMaintenance :: LeaseMode where "LeaseMaintenance = ''maintenance''"
definition LeaseMigration :: LeaseMode where "LeaseMigration = ''migration''"
definition LeaseAdministrative :: LeaseMode where "LeaseAdministrative = ''administrative''"

lemmas mode_defs = LeaseExclusive_def LeaseShared_def LeaseReadOnly_def LeaseMaintenance_def
  LeaseMigration_def LeaseAdministrative_def

record LeaseRequest =
  lq_Purpose :: string
  lq_Mode :: LeaseMode
  lq_Owner :: string
  lq_TTL :: duration
  lq_Fence :: u64

record ResLease =
  rl_ID :: ResourceID
  rl_Mode :: LeaseMode
  rl_Owner :: string
  rl_Purpose :: string
  rl_Fence :: u64
  rl_Epoch :: ResourceEpoch
  rl_ExpiresAt :: time
  rl_AcquiredAt :: time

record LeaseManager =
  lm_held :: "string \<Rightarrow> ResLease list"
  lm_fence :: "string \<Rightarrow> u64"

record LeaseHandle =
  lh_IDs :: "ResourceID list"
  lh_Leases :: "ResLease list"

record lease_env =
  lv_ctx :: "string option"
  lv_blocks :: bool
  lv_expire :: time
  lv_grant :: time

definition NewLeaseManager :: LeaseManager where
  "NewLeaseManager = \<lparr>lm_held = (\<lambda>_. []), lm_fence = (\<lambda>_. 0)\<rparr>"

definition modeRequiresFence :: "LeaseMode \<Rightarrow> bool" where
  "modeRequiresFence m \<longleftrightarrow>
     m = LeaseExclusive \<or> m = LeaseMaintenance \<or> m = LeaseMigration \<or> m = LeaseAdministrative"

definition modesCompatible :: "LeaseMode \<Rightarrow> LeaseMode \<Rightarrow> bool" where
  "modesCompatible a b =
     (if a = LeaseExclusive \<or> b = LeaseExclusive then False
      else if a = LeaseMaintenance \<or> b = LeaseMaintenance \<or> a = LeaseMigration \<or> b = LeaseMigration
        \<or> a = LeaseAdministrative \<or> b = LeaseAdministrative then False
      else True)"

definition compatibleLocked :: "LeaseManager \<Rightarrow> string \<Rightarrow> LeaseMode \<Rightarrow> resource_sentinel option" where
  "compatibleLocked m key mode =
     (if list_all (\<lambda>l. modesCompatible (rl_Mode l) mode) (lm_held m key) then None else Some ErrLeaseHeld)"

definition lease_expired :: "time \<Rightarrow> ResLease \<Rightarrow> bool" where
  "lease_expired now l \<longleftrightarrow> \<not> IsZero (rl_ExpiresAt l) \<and> \<not> now < rl_ExpiresAt l"

definition live :: "time \<Rightarrow> ResLease list \<Rightarrow> ResLease list" where
  "live now ls = filter (\<lambda>l. \<not> lease_expired now l) ls"

definition lm_expireLocked :: "time \<Rightarrow> LeaseManager \<Rightarrow> string \<Rightarrow> LeaseManager" where
  "lm_expireLocked now m key = m\<lparr>lm_held := (lm_held m)(key := live now (lm_held m key))\<rparr>"

definition needs_fence :: "Entry \<Rightarrow> LeaseMode \<Rightarrow> bool" where
  "needs_fence ent mode \<longleftrightarrow> SupportsFencing (rs_Capabilities (en_Resource ent)) \<and> modeRequiresFence mode"

definition lease_mode :: "LeaseRequest \<Rightarrow> LeaseMode" where
  "lease_mode req = (if lq_Mode req = '''' then LeaseExclusive else lq_Mode req)"

definition raise_fence :: "Entry \<Rightarrow> LeaseManager \<Rightarrow> string \<Rightarrow> u64 \<Rightarrow> LeaseManager" where
  "raise_fence ent m key f =
     (if SupportsFencing (rs_Capabilities (en_Resource ent)) \<and> lm_fence m key < f
      then m\<lparr>lm_fence := (lm_fence m)(key := f)\<rparr> else m)"

definition granted_lease :: "lease_env \<Rightarrow> Entry \<Rightarrow> ResourceID \<Rightarrow> LeaseRequest \<Rightarrow> ResLease" where
  "granted_lease env ent i req =
     \<lparr>rl_ID = i, rl_Mode = lease_mode req, rl_Owner = lq_Owner req, rl_Purpose = lq_Purpose req,
      rl_Fence = lq_Fence req, rl_Epoch = en_Epoch ent,
      rl_ExpiresAt = (if 0 < lq_TTL req then lv_grant env + lq_TTL req else 0),
      rl_AcquiredAt = lv_grant env\<rparr>"

definition lm_Lease ::
  "lease_env \<Rightarrow> Registry \<times> LeaseManager \<Rightarrow> ResourceID \<Rightarrow> LeaseRequest \<Rightarrow> (Registry \<times> LeaseManager) \<times> (ResLease + resource_error)" where
  "lm_Lease env s i req =
     (let (r, m) = s; mode = lease_mode req; key = ResourceID_String i
      in if lq_Owner req = '''' then ((r, m), Inr (rerror ''Lease'' i ErrInvalidArgument ''owner required''))
         else
           (case registry_Get r i of
              Inr err \<Rightarrow> ((r, m), Inr err)
            | Inl ent \<Rightarrow>
                if needs_fence ent mode \<and> lq_Fence req = 0 then
                  ((r, m), Inr (rerror ''Lease'' i ErrFenceRequired ''fencing token required''))
                else
                  (case checkMutationLocked (lv_blocks env) r ''Lease'' of
                     (r, Some err) \<Rightarrow> ((r, m), Inr err)
                   | (r, None) \<Rightarrow>
                       (let m = lm_expireLocked (lv_expire env) m key
                        in case compatibleLocked m key mode of
                             Some err \<Rightarrow> ((r, m), Inr (rerror ''Lease'' i err (resource_text err)))
                           | None \<Rightarrow>
                               if needs_fence ent mode \<and> lq_Fence req < lm_fence m key then
                                 ((r, m), Inr (rerror ''Lease'' i ErrStaleFence ''stale fencing token''))
                               else
                                 (let m = raise_fence ent m key (lq_Fence req);
                                      lease = granted_lease env ent i req
                                  in ((r, m\<lparr>lm_held := (lm_held m)(key := lm_held m key @ [lease])\<rparr>), Inl lease))))))"

fun remove_first :: "('a \<Rightarrow> bool) \<Rightarrow> 'a list \<Rightarrow> 'a list option" where
  "remove_first P [] = None"
| "remove_first P (x # xs) = (if P x then Some xs else map_option ((#) x) (remove_first P xs))"

definition lm_Release ::
  "LeaseManager \<Rightarrow> ResourceID \<Rightarrow> string \<Rightarrow> LeaseMode \<Rightarrow> LeaseManager \<times> resource_error option" where
  "lm_Release m i owner mode =
     (let key = ResourceID_String i
      in case remove_first (\<lambda>l. rl_Owner l = owner \<and> (mode = '''' \<or> rl_Mode l = mode)) (lm_held m key) of
           Some ls \<Rightarrow> (m\<lparr>lm_held := (lm_held m)(key := ls)\<rparr>, None)
         | None \<Rightarrow> (m, Some (rerror ''Release'' i ErrLeaseNotHeld ''lease not held'')))"

definition lm_Held :: "time \<Rightarrow> LeaseManager \<Rightarrow> ResourceID \<Rightarrow> LeaseManager \<times> ResLease list" where
  "lm_Held now m i =
     (let m = lm_expireLocked now m (ResourceID_String i) in (m, lm_held m (ResourceID_String i)))"

definition releaseLeases :: "LeaseManager \<Rightarrow> ResLease list \<Rightarrow> LeaseManager" where
  "releaseLeases m leases = foldl (\<lambda>m l. fst (lm_Release m (rl_ID l) (rl_Owner l) (rl_Mode l))) m (rev leases)"

definition zero_request :: LeaseRequest where
  "zero_request = \<lparr>lq_Purpose = '''', lq_Mode = '''', lq_Owner = '''', lq_TTL = 0, lq_Fence = 0\<rparr>"

definition request_of :: "(string \<times> LeaseRequest) list \<Rightarrow> ResourceID \<Rightarrow> LeaseRequest" where
  "request_of reqs i = (case map_of reqs (ResourceID_String i) of None \<Rightarrow> zero_request | Some req \<Rightarrow> req)"

fun lm_acquire_loop ::
  "(nat \<Rightarrow> lease_env) \<Rightarrow> nat \<Rightarrow> (string \<times> LeaseRequest) list \<Rightarrow> ResLease list \<Rightarrow> Registry \<times> LeaseManager \<Rightarrow> ResourceID list \<Rightarrow>
   (Registry \<times> LeaseManager) \<times> (LeaseHandle + resource_error)" where
  "lm_acquire_loop env n reqs held s [] =
     (s, Inl \<lparr>lh_IDs = map rl_ID held, lh_Leases = held\<rparr>)"
| "lm_acquire_loop env n reqs held s (i # is') =
     (case lv_ctx (env n) of
        Some err \<Rightarrow>
          ((fst s, releaseLeases (snd s) held),
           Inr (RError ''AcquireAll'' no_id (Some (ROther err)) ''context done''))
      | None \<Rightarrow>
          (case lm_Lease (env n) s i (request_of reqs i) of
             (s, Inr err) \<Rightarrow>
               ((fst s, releaseLeases (snd s) held),
                Inr (rerror ''AcquireAll'' i ErrPartialAcquire (resource_Error err)))
           | (s, Inl lease) \<Rightarrow> lm_acquire_loop env (Suc n) reqs (held @ [lease]) s is'))"

definition lm_AcquireAll ::
  "Kind list \<Rightarrow> (nat \<Rightarrow> lease_env) \<Rightarrow> Registry \<times> LeaseManager \<Rightarrow> (string \<times> LeaseRequest) list \<Rightarrow>
   (Registry \<times> LeaseManager) \<times> (LeaseHandle + resource_error)" where
  "lm_AcquireAll customKinds env s reqs =
     (if reqs = [] then (s, Inr (rerror ''AcquireAll'' no_id ErrInvalidArgument ''empty request''))
      else
        (case keysToIDs customKinds (map fst reqs) of
           Inr err \<Rightarrow> (s, Inr err)
         | Inl ids \<Rightarrow> lm_acquire_loop env 0 reqs [] s (sort_key ResourceID_String ids)))"

definition ReleaseHandle :: "LeaseManager \<Rightarrow> LeaseHandle \<Rightarrow> LeaseManager" where
  "ReleaseHandle m h =
     (let m = releaseLeases m (lh_Leases h)
      in if lh_Leases h = [] then foldl (\<lambda>m i. fst (lm_Release m i '''' '''')) m (lh_IDs h) else m)"

section \<open>Acquisition over any acquire and release function\<close>

text \<open>
  The function \<open>AcquireAll\<close> of \<open>acquire.go\<close>: the caller's functions act on a state of their own; the
  number of the iteration stands for the passing of time between the calls.
\<close>

definition releasePartial ::
  "('w \<Rightarrow> ResourceID \<Rightarrow> 'w) option \<Rightarrow> 'w \<Rightarrow> ResourceID list \<Rightarrow> 'w" where
  "releasePartial release w held =
     (case release of None \<Rightarrow> w | Some release \<Rightarrow> foldl release w (rev held))"

fun acquire_all_loop ::
  "(nat \<Rightarrow> string option) \<Rightarrow> (nat \<Rightarrow> 'w \<Rightarrow> ResourceID \<Rightarrow> 'w \<times> resource_error option) \<Rightarrow>
   ('w \<Rightarrow> ResourceID \<Rightarrow> 'w) option \<Rightarrow> nat \<Rightarrow> ResourceID list \<Rightarrow> 'w \<Rightarrow> ResourceID list \<Rightarrow> 'w \<times> (LeaseHandle + resource_error)" where
  "acquire_all_loop ctx acquire release n held w [] = (w, Inl \<lparr>lh_IDs = held, lh_Leases = []\<rparr>)"
| "acquire_all_loop ctx acquire release n held w (i # is') =
     (case ctx n of
        Some err \<Rightarrow>
          (releasePartial release w held,
           Inr (RError ''AcquireAll'' no_id (Some (ROther err)) ''context done''))
      | None \<Rightarrow>
          (case acquire n w i of
             (w, Some err) \<Rightarrow>
               (releasePartial release w held,
                Inr (rerror ''AcquireAll'' i ErrPartialAcquire (resource_Error err)))
           | (w, None) \<Rightarrow> acquire_all_loop ctx acquire release (Suc n) (held @ [i]) w is'))"

definition AcquireAll ::
  "(nat \<Rightarrow> string option) \<Rightarrow> (nat \<Rightarrow> 'w \<Rightarrow> ResourceID \<Rightarrow> 'w \<times> resource_error option) option \<Rightarrow>
   ('w \<Rightarrow> ResourceID \<Rightarrow> 'w) option \<Rightarrow> 'w \<Rightarrow> ResourceID list \<Rightarrow> 'w \<times> (LeaseHandle + resource_error)" where
  "AcquireAll ctx acquire release w ids =
     (case acquire of
        None \<Rightarrow> (w, Inr (rerror ''AcquireAll'' no_id ErrInvalidArgument ''nil acquire''))
      | Some acquire \<Rightarrow> acquire_all_loop ctx acquire release 0 [] w (sort_key ResourceID_String ids))"

definition ReleaseAll :: "('w \<Rightarrow> ResourceID \<Rightarrow> 'w) option \<Rightarrow> 'w \<Rightarrow> LeaseHandle \<Rightarrow> 'w" where
  "ReleaseAll release w h = releasePartial release w (lh_IDs h)"

text \<open>
  What a caller must give for the rollback to work. \<open>held\<close> is what is kept under each key. An acquire
  touches its own key only: a failed one leaves there what was there up to housekeeping (\<open>kept\<close>), a
  successful one has \<open>added\<close> the resource's entry. A release of an entry that was added where nothing
  could be mistaken for it (\<open>clear\<close>) leaves what was there before, up to housekeeping.
\<close>

locale undoable =
  fixes acquire :: "nat \<Rightarrow> 'w \<Rightarrow> ResourceID \<Rightarrow> 'w \<times> resource_error option"
    and release :: "'w \<Rightarrow> ResourceID \<Rightarrow> 'w"
    and held :: "'w \<Rightarrow> string \<Rightarrow> 'x"
    and clear :: "ResourceID \<Rightarrow> 'x \<Rightarrow> bool"
    and kept :: "'x \<Rightarrow> 'x \<Rightarrow> bool"
    and added :: "ResourceID \<Rightarrow> 'x \<Rightarrow> 'x \<Rightarrow> bool"
  assumes kept_refl: "kept x x"
    and acquire_frame: "acquire n w i = (w', e) \<Longrightarrow> k \<noteq> ResourceID_String i \<Longrightarrow> held w' k = held w k"
    and acquire_fails: "acquire n w i = (w', Some err) \<Longrightarrow>
      kept (held w (ResourceID_String i)) (held w' (ResourceID_String i))"
    and acquire_ok: "acquire n w i = (w', None) \<Longrightarrow>
      added i (held w (ResourceID_String i)) (held w' (ResourceID_String i))"
    and release_frame: "k \<noteq> ResourceID_String i \<Longrightarrow> held (release w i) k = held w k"
    and release_undoes: "clear i x \<Longrightarrow> added i x (held w (ResourceID_String i)) \<Longrightarrow>
      kept x (held (release w i) (ResourceID_String i))"
begin

text \<open>Where the acquisition stands: added at the keys acquired so far, untouched elsewhere.\<close>

definition acquired :: "'w \<Rightarrow> 'w \<Rightarrow> ResourceID list \<Rightarrow> bool" where
  "acquired w0 w is' \<longleftrightarrow>
     (\<forall>i \<in> set is'. added i (held w0 (ResourceID_String i)) (held w (ResourceID_String i)))
     \<and> (\<forall>k. k \<notin> ResourceID_String ` set is' \<longrightarrow> held w k = held w0 k)"

lemma rollback:
  assumes "distinct (map ResourceID_String is')"
    and "\<And>i. i \<in> set is' \<Longrightarrow> clear i (held w0 (ResourceID_String i))"
    and "\<And>i. i \<in> set is' \<Longrightarrow> added i (held w0 (ResourceID_String i)) (held w (ResourceID_String i))"
    and "\<And>k. k \<notin> ResourceID_String ` set is' \<Longrightarrow> kept (held w0 k) (held w k)"
  shows "kept (held w0 k) (held (foldl release w is') k)"
  using assms
proof (induction is' arbitrary: w)
  case (Cons i is')
  let ?k = "ResourceID_String i"
  have undo: "kept (held w0 ?k) (held (release w i) ?k)"
    by (rule release_undoes) (simp_all add: Cons.prems)
  have "?k \<notin> ResourceID_String ` set is'" using Cons.prems(1) by simp
  then have other: "ResourceID_String j \<noteq> ?k" if "j \<in> set is'" for j
    using that by (metis imageI)
  show ?case
    unfolding foldl_Cons
  proof (rule Cons.IH)
    show "kept (held w0 j) (held (release w i) j)" if "j \<notin> ResourceID_String ` set is'" for j
      using that undo Cons.prems(4) [of j] by (cases "j = ?k") (simp_all add: release_frame)
  qed (use Cons.prems other in \<open>auto simp: release_frame\<close>)
qed simp

lemma acquired_more:
  assumes "acquired w0 w is'" and "acquire n w i = (v, None)" and "ResourceID_String i \<notin> ResourceID_String ` set is'"
  shows "acquired w0 v (is' @ [i])"
proof -
  have keep: "held v k = held w k" if "k \<in> ResourceID_String ` set is'" for k
    using acquire_frame [OF assms(2), of k] assms(3) that by metis
  then show ?thesis
    using assms acquire_frame [OF assms(2)] acquire_ok [OF assms(2)] by (auto simp: acquired_def)
qed

lemma acquired_undone:
  assumes "acquired w0 w is'" and "distinct (map ResourceID_String is')"
    and "\<And>i. i \<in> set is' \<Longrightarrow> clear i (held w0 (ResourceID_String i))"
    and "\<And>k. k \<in> ResourceID_String ` set is' \<Longrightarrow> held v k = held w k"
    and "\<And>k. kept (held w k) (held v k)"
  shows "kept (held w0 k) (held (foldl release v (rev is')) k)"
proof (rule rollback)
  show "kept (held w0 j) (held v j)" if "j \<notin> ResourceID_String ` set (rev is')" for j
    using that assms(1) assms(5) [of j] by (simp add: acquired_def)
qed (use assms(1-4) in \<open>auto simp: acquired_def rev_map [symmetric]\<close>)

lemma loop_held:
  assumes "acquired w0 w acq" and "distinct (map ResourceID_String (acq @ is'))"
    and "\<And>i. i \<in> set (acq @ is') \<Longrightarrow> clear i (held w0 (ResourceID_String i))"
    and "acquire_all_loop ctx acquire (Some release) n acq w is' = (w', res)"
  shows "case res of
      Inr _ \<Rightarrow> (\<forall>k. kept (held w0 k) (held w' k))
    | Inl h \<Rightarrow> lh_IDs h = acq @ is' \<and> acquired w0 w' (acq @ is')"
  using assms
proof (induction is' arbitrary: n acq w)
  case Nil
  then show ?case by (auto split: sum.splits)
next
  case (Cons i is')
  let ?k = "ResourceID_String i"
  have new: "?k \<notin> ResourceID_String ` set acq" using Cons.prems(2) by auto
  note undone = acquired_undone [OF Cons.prems(1)]
  obtain v e where a: "acquire n w i = (v, e)" by force
  consider err where "ctx n = Some err" | err where "ctx n = None" "e = Some err" | "ctx n = None" "e = None"
    by (cases "ctx n"; cases e) auto
  then show ?case
  proof cases
    case 1
    then have "w' = foldl release w (rev acq)" "\<not> isl res"
      using Cons.prems(4) by (auto simp: releasePartial_def)
    with undone [of w] Cons.prems(2,3) show ?thesis by (auto simp: kept_refl split: sum.splits)
  next
    case (2 err)
    then have w': "w' = foldl release v (rev acq)" "\<not> isl res"
      using Cons.prems(4) a by (auto simp: releasePartial_def)
    have "kept (held w k) (held v k)" for k
      using acquire_fails [of n w i v err] acquire_frame [OF a, of k] a 2 kept_refl by (cases "k = ?k") auto
    moreover have "held v k = held w k" if "k \<in> ResourceID_String ` set acq" for k
      using that new acquire_frame [OF a, of k] by metis
    ultimately have "kept (held w0 k) (held w' k)" for k
      unfolding w'(1) using Cons.prems(2,3) by (intro undone) auto
    with w'(2) show ?thesis by (auto split: sum.splits)
  next
    case 3
    have "case res of Inr _ \<Rightarrow> (\<forall>k. kept (held w0 k) (held w' k))
      | Inl h \<Rightarrow> lh_IDs h = (acq @ [i]) @ is' \<and> acquired w0 w' ((acq @ [i]) @ is')"
      by (rule Cons.IH) (use Cons.prems 3 a new in \<open>auto intro: acquired_more\<close>)
    then show ?thesis by (cases res) simp_all
  qed
qed

lemma AcquireAll_atomic:
  assumes "distinct (map ResourceID_String ids)"
    and "\<And>i. i \<in> set ids \<Longrightarrow> clear i (held w (ResourceID_String i))"
    and "AcquireAll ctx (Some acquire) (Some release) w ids = (w', res)"
  shows "case res of
      Inr _ \<Rightarrow> (\<forall>k. kept (held w k) (held w' k))
    | Inl h \<Rightarrow> lh_IDs h = sort_key ResourceID_String ids \<and> acquired w w' ids"
proof -
  have "mset (map ResourceID_String (sort_key ResourceID_String ids)) = mset (map ResourceID_String ids)"
    by simp
  then have "distinct (map ResourceID_String (sort_key ResourceID_String ids))"
    using assms(1) mset_eq_imp_distinct_iff by blast
  moreover have "acquired w w []" by (simp add: acquired_def)
  ultimately have "case res of Inr _ \<Rightarrow> (\<forall>k. kept (held w k) (held w' k))
      | Inl h \<Rightarrow> lh_IDs h = [] @ sort_key ResourceID_String ids \<and> acquired w w' ([] @ sort_key ResourceID_String ids)"
    using assms by (intro loop_held [where ctx = ctx and n = 0]) (simp_all add: AcquireAll_def)
  then show ?thesis by (cases res) (simp_all add: acquired_def)
qed

end

section \<open>The lease manager's acquisition is the general one\<close>

definition lease_acquire ::
  "(nat \<Rightarrow> lease_env) \<Rightarrow> (string \<times> LeaseRequest) list \<Rightarrow> nat \<Rightarrow> Registry \<times> LeaseManager \<Rightarrow> ResourceID \<Rightarrow>
   (Registry \<times> LeaseManager) \<times> resource_error option" where
  "lease_acquire env reqs n s i =
     (case lm_Lease (env n) s i (request_of reqs i) of (s, Inl _) \<Rightarrow> (s, None) | (s, Inr err) \<Rightarrow> (s, Some err))"

definition lease_release ::
  "(string \<times> LeaseRequest) list \<Rightarrow> Registry \<times> LeaseManager \<Rightarrow> ResourceID \<Rightarrow> Registry \<times> LeaseManager" where
  "lease_release reqs s i =
     (fst s, fst (lm_Release (snd s) i (lq_Owner (request_of reqs i)) (lease_mode (request_of reqs i))))"

definition lease_tok :: "(string \<times> LeaseRequest) list \<Rightarrow> ResourceID \<Rightarrow> string \<times> LeaseMode" where
  "lease_tok reqs i = (lq_Owner (request_of reqs i), lease_mode (request_of reqs i))"

definition owner_mode :: "ResLease \<Rightarrow> string \<times> LeaseMode" where
  "owner_mode l = (rl_Owner l, rl_Mode l)"

text \<open>What a call of \<open>Lease\<close> does to the manager: it grants, or at most drops expired leases.\<close>

lemma lm_Lease_fails:
  assumes "lm_Lease env (r, m) i req = ((r', m'), Inr err)"
  shows "m' = m \<or> m' = lm_expireLocked (lv_expire env) m (ResourceID_String i)"
  using assms
  by (auto simp: lm_Lease_def Let_def split: if_splits option.splits sum.splits prod.splits)

lemma lm_Lease_grants:
  assumes "lm_Lease env (r, m) i req = ((r', m'), Inl l)"
  defines "key \<equiv> ResourceID_String i"
  defines "m1 \<equiv> lm_expireLocked (lv_expire env) m key"
  obtains ent where "registry_Get r i = Inl ent" "\<not> (needs_fence ent (lease_mode req) \<and> lq_Fence req = 0)"
    "compatibleLocked m1 key (lease_mode req) = None"
    "\<not> (needs_fence ent (lease_mode req) \<and> lq_Fence req < lm_fence m1 key)"
    "l = granted_lease env ent i req"
    "m' = (raise_fence ent m1 key (lq_Fence req))\<lparr>lm_held := (lm_held m1)(key := lm_held m1 key @ [l])\<rparr>"
proof -
  have held: "lm_held (raise_fence e x k f) = lm_held x" for e x k f by (simp add: raise_fence_def)
  from assms(1) that show thesis
    unfolding lm_Lease_def Let_def key_def m1_def
    by (auto simp: held split: if_splits option.splits sum.splits prod.splits)
qed

lemma lm_Lease_registry: "lm_Lease env (r, m) i req = ((r', m'), Inl l) \<Longrightarrow> r' = r"
  by (auto simp: lm_Lease_def Let_def checkMutationLocked_def split: if_splits option.splits sum.splits)

lemma granted_lease_simps [simp]:
  "rl_ID (granted_lease env ent i req) = i" "rl_Mode (granted_lease env ent i req) = lease_mode req"
  "rl_Owner (granted_lease env ent i req) = lq_Owner req" "rl_Fence (granted_lease env ent i req) = lq_Fence req"
  "rl_ExpiresAt (granted_lease env ent i req) = (if 0 < lq_TTL req then lv_grant env + lq_TTL req else 0)"
  by (simp_all add: granted_lease_def)

lemma lm_Lease_ok:
  assumes "lm_Lease env (r, m) i req = ((r', m'), Inl l)"
  defines "key \<equiv> ResourceID_String i" and "ls \<equiv> live (lv_expire env) (lm_held m (ResourceID_String i))"
  shows "lm_held m' = (lm_held m)(key := ls @ [l])"
    and "list_all (\<lambda>l'. modesCompatible (rl_Mode l') (rl_Mode l)) ls"
    and "rl_ID l = i" "rl_Owner l = lq_Owner req" "rl_Mode l = lease_mode req" "rl_Fence l = lq_Fence req"
    and "rl_ExpiresAt l = (if 0 < lq_TTL req then lv_grant env + lq_TTL req else 0)"
proof -
  obtain ent where e: "compatibleLocked (lm_expireLocked (lv_expire env) m key) key (lease_mode req) = None"
      "l = granted_lease env ent i req"
      "m' = (raise_fence ent (lm_expireLocked (lv_expire env) m key) key (lq_Fence req))
        \<lparr>lm_held := (lm_held (lm_expireLocked (lv_expire env) m key))
           (key := lm_held (lm_expireLocked (lv_expire env) m key) key @ [l])\<rparr>"
    using lm_Lease_grants [OF assms(1)] unfolding key_def by blast
  show "lm_held m' = (lm_held m)(key := ls @ [l])"
    by (simp add: e(3) lm_expireLocked_def key_def ls_def)
  show "list_all (\<lambda>l'. modesCompatible (rl_Mode l') (rl_Mode l)) ls"
    using e(1) by (simp add: e(2) compatibleLocked_def lm_expireLocked_def key_def ls_def split: if_splits)
  show "rl_ID l = i" "rl_Owner l = lq_Owner req" "rl_Mode l = lease_mode req" "rl_Fence l = lq_Fence req"
    "rl_ExpiresAt l = (if 0 < lq_TTL req then lv_grant env + lq_TTL req else 0)"
    by (simp_all add: e(2))
qed

lemma lm_Lease_fence:
  assumes "lm_Lease env (r, m) i req = ((r', m'), Inl l)"
  defines "key \<equiv> ResourceID_String i"
  obtains ent where "registry_Get r i = Inl ent"
    "needs_fence ent (rl_Mode l) \<Longrightarrow> lq_Fence req \<noteq> 0 \<and> lm_fence m key \<le> lq_Fence req \<and> lm_fence m' key = lq_Fence req"
    "lm_fence m key \<le> lm_fence m' key" "\<And>k. k \<noteq> key \<Longrightarrow> lm_fence m' k = lm_fence m k"
proof -
  let ?m = "lm_expireLocked (lv_expire env) m key"
  have fence: "lm_fence ?m = lm_fence m" by (simp add: lm_expireLocked_def)
  obtain ent where ent: "registry_Get r i = Inl ent"
      "\<not> (needs_fence ent (lease_mode req) \<and> lq_Fence req = 0)"
      "\<not> (needs_fence ent (lease_mode req) \<and> lq_Fence req < lm_fence ?m key)"
      "l = granted_lease env ent i req"
    and m': "m' = (raise_fence ent ?m key (lq_Fence req))\<lparr>lm_held := (lm_held ?m)(key := lm_held ?m key @ [l])\<rparr>"
    using lm_Lease_grants [OF assms(1)] unfolding key_def by blast
  have f: "lm_fence m' = (if SupportsFencing (rs_Capabilities (en_Resource ent)) \<and> lm_fence m key < lq_Fence req
      then (lm_fence m)(key := lq_Fence req) else lm_fence m)"
    by (simp add: m' raise_fence_def fence)
  show thesis
  proof (rule that [OF ent(1)])
    show "lm_fence m key \<le> lm_fence m' key" "\<And>k. k \<noteq> key \<Longrightarrow> lm_fence m' k = lm_fence m k"
      unfolding f by auto
    assume "needs_fence ent (rl_Mode l)"
    with ent(2-4) show "lq_Fence req \<noteq> 0 \<and> lm_fence m key \<le> lq_Fence req \<and> lm_fence m' key = lq_Fence req"
      unfolding f by (auto simp: fence needs_fence_def)
  qed
qed

lemma releaseLeases_eq:
  assumes "list_all (\<lambda>l. rl_Owner l = lq_Owner (request_of reqs (rl_ID l))
      \<and> rl_Mode l = lease_mode (request_of reqs (rl_ID l))) held"
  shows "(fst s, releaseLeases (snd s) held) = foldl (lease_release reqs) s (rev (map rl_ID held))"
proof -
  have "foldl (lease_release reqs) s (map rl_ID ls)
      = (fst s, foldl (\<lambda>m l. fst (lm_Release m (rl_ID l) (rl_Owner l) (rl_Mode l))) (snd s) ls)"
    if "list_all (\<lambda>l. rl_Owner l = lq_Owner (request_of reqs (rl_ID l))
      \<and> rl_Mode l = lease_mode (request_of reqs (rl_ID l))) ls" for ls s
    using that by (induction ls arbitrary: s) (simp_all add: lease_release_def)
  from this [of "rev held" s] assms show ?thesis
    by (simp add: releaseLeases_def rev_map list_all_rev)
qed

lemma lm_acquire_loop_eq:
  assumes "list_all (\<lambda>l. rl_Owner l = lq_Owner (request_of reqs (rl_ID l))
      \<and> rl_Mode l = lease_mode (request_of reqs (rl_ID l))) held"
    and "lm_acquire_loop env n reqs held s is' = (s', res)"
    and "acquire_all_loop (\<lambda>n. lv_ctx (env n)) (lease_acquire env reqs) (Some (lease_release reqs)) n
       (map rl_ID held) s is' = (w', res')"
  shows "w' = s' \<and> map_sum lh_IDs id res' = map_sum lh_IDs id res"
  using assms
proof (induction is' arbitrary: n held s)
  case (Cons i is')
  obtain s1 l where L: "lm_Lease (env n) s i (request_of reqs i) = (s1, l)" by (metis prod.collapse)
  note undo = releaseLeases_eq [OF Cons.prems(1)]
  consider e where "lv_ctx (env n) = Some e" | e where "lv_ctx (env n) = None" "l = Inr e"
    | l' where "lv_ctx (env n) = None" "l = Inl l'" by (cases l) auto
  then show ?case
  proof cases
    case (3 l')
    obtain r m r1 m1 where s: "s = (r, m)" "s1 = (r1, m1)" by (cases s, cases s1) blast
    note g = lm_Lease_ok [OF L [unfolded 3 s]]
    have hyp: "list_all (\<lambda>l. rl_Owner l = lq_Owner (request_of reqs (rl_ID l))
      \<and> rl_Mode l = lease_mode (request_of reqs (rl_ID l))) (held @ [l'])"
      using Cons.prems(1) g(3-5) by simp
    show ?thesis
      by (rule Cons.IH [OF hyp]) (use Cons.prems(2, 3) 3 L g(3) in \<open>simp_all add: lease_acquire_def\<close>)
  qed (use Cons.prems L in \<open>auto simp: lease_acquire_def releasePartial_def undo\<close>)
qed auto

text \<open>
  The manager's functions satisfy the laws of rollback, whatever the clock reads at each call:
  housekeeping is the removal of expired leases.
\<close>

definition lease_kept :: "(nat \<Rightarrow> lease_env) \<Rightarrow> ResLease list \<Rightarrow> ResLease list \<Rightarrow> bool" where
  "lease_kept env ls ls' \<longleftrightarrow> ls' = ls \<or> (\<exists>n. ls' = live (lv_expire (env n)) ls)"

definition lease_added ::
  "(nat \<Rightarrow> lease_env) \<Rightarrow> (string \<times> LeaseRequest) list \<Rightarrow> ResourceID \<Rightarrow> ResLease list \<Rightarrow> ResLease list \<Rightarrow> bool" where
  "lease_added env reqs i ls ls' \<longleftrightarrow>
     (\<exists>n ent. ls' = live (lv_expire (env n)) ls @ [granted_lease (env n) ent i (request_of reqs i)])"

definition lease_clear ::
  "(nat \<Rightarrow> lease_env) \<Rightarrow> (string \<times> LeaseRequest) list \<Rightarrow> ResourceID \<Rightarrow> ResLease list \<Rightarrow> bool" where
  "lease_clear env reqs i ls \<longleftrightarrow>
     (\<forall>l \<in> set ls. owner_mode l = lease_tok reqs i \<longrightarrow> (\<forall>n. lease_expired (lv_expire (env n)) l))"

lemma remove_first_mset:
  "remove_first P ls = Some ls' \<Longrightarrow> \<exists>l. l \<in> set ls \<and> P l \<and> mset ls = add_mset l (mset ls') \<and> set ls' \<subseteq> set ls"
  by (induction ls arbitrary: ls') (fastforce split: if_splits)+

lemma remove_first_last:
  "\<not> list_ex P ls \<Longrightarrow> P l \<Longrightarrow> remove_first P (ls @ [l]) = Some ls"
  by (induction ls) auto

lemma lease_acquire_fails:
  assumes "lease_acquire env reqs n s i = (s', Some err)"
  shows "lm_held (snd s') = lm_held (snd s) \<or> lm_held (snd s') = (lm_held (snd s))(ResourceID_String i :=
      live (lv_expire (env n)) (lm_held (snd s) (ResourceID_String i)))"
proof -
  obtain r m r' m' where s: "s = (r, m)" "s' = (r', m')" by (cases s, cases s') blast
  have L: "lm_Lease (env n) (r, m) i (request_of reqs i) = ((r', m'), Inr err)"
    using assms by (auto simp: lease_acquire_def s split: sum.splits prod.splits)
  show ?thesis using lm_Lease_fails [OF L] by (auto simp: s lm_expireLocked_def)
qed

lemma lease_acquire_ok:
  assumes "lease_acquire env reqs n s i = (s', None)"
  obtains ent where "lm_held (snd s') = (lm_held (snd s))(ResourceID_String i :=
      live (lv_expire (env n)) (lm_held (snd s) (ResourceID_String i))
      @ [granted_lease (env n) ent i (request_of reqs i)])"
proof -
  obtain r m r' m' where s: "s = (r, m)" "s' = (r', m')" by (cases s, cases s') blast
  obtain l where L: "lm_Lease (env n) (r, m) i (request_of reqs i) = ((r', m'), Inl l)"
    using assms by (auto simp: lease_acquire_def s split: sum.splits prod.splits)
  obtain ent where "l = granted_lease (env n) ent i (request_of reqs i)"
    using lm_Lease_grants [OF L] by blast
  with lm_Lease_ok(1) [OF L] that [of ent] show thesis by (simp add: s)
qed

lemma lease_release_held:
  "lm_held (snd (lease_release reqs s i)) =
     (case remove_first (\<lambda>l. owner_mode l = lease_tok reqs i) (lm_held (snd s) (ResourceID_String i)) of
        None \<Rightarrow> lm_held (snd s)
      | Some ls \<Rightarrow> (lm_held (snd s))(ResourceID_String i := ls))"
proof -
  have "(\<lambda>l. rl_Owner l = lq_Owner (request_of reqs i)
     \<and> (lease_mode (request_of reqs i) = '''' \<or> rl_Mode l = lease_mode (request_of reqs i)))
    = (\<lambda>l. owner_mode l = lease_tok reqs i)"
    by (auto simp: owner_mode_def lease_tok_def lease_mode_def LeaseExclusive_def fun_eq_iff)
  then show ?thesis
    by (simp add: lease_release_def lm_Release_def Let_def split: option.split)
qed

interpretation mgr: undoable "lease_acquire env reqs" "lease_release reqs" "\<lambda>s. lm_held (snd s)"
  "lease_clear env reqs" "lease_kept env" "lease_added env reqs" for env reqs
proof unfold_locales
  fix n s i s' e k
  assume a: "lease_acquire env reqs n s i = (s', e)" and k: "k \<noteq> ResourceID_String i"
  show "lm_held (snd s') k = lm_held (snd s) k"
  proof (cases e)
    case None
    with a k show ?thesis by (auto elim: lease_acquire_ok)
  next
    case (Some err)
    with a k lease_acquire_fails [of env reqs n s i s' err] show ?thesis by auto
  qed
next
  fix i x and s :: "Registry \<times> LeaseManager"
  let ?k = "ResourceID_String i"
  assume clear: "lease_clear env reqs i x" and "lease_added env reqs i x (lm_held (snd s) ?k)"
  then obtain n ent where ls: "lm_held (snd s) ?k
      = live (lv_expire (env n)) x @ [granted_lease (env n) ent i (request_of reqs i)]"
    by (auto simp: lease_added_def)
  have "\<not> list_ex (\<lambda>l. owner_mode l = lease_tok reqs i) (live (lv_expire (env n)) x)"
    using clear by (auto simp: lease_clear_def live_def list_ex_iff)
  moreover have "owner_mode (granted_lease (env n) ent i (request_of reqs i)) = lease_tok reqs i"
    by (simp add: owner_mode_def lease_tok_def)
  ultimately have "lm_held (snd (lease_release reqs s i)) ?k = live (lv_expire (env n)) x"
    by (simp add: lease_release_held ls remove_first_last)
  then show "lease_kept env x (lm_held (snd (lease_release reqs s i)) ?k)"
    by (auto simp: lease_kept_def)
next
  fix n s i s'
  let ?k = "ResourceID_String i"
  assume "lease_acquire env reqs n s i = (s', None)"
  then obtain ent where "lm_held (snd s') ?k
      = live (lv_expire (env n)) (lm_held (snd s) ?k) @ [granted_lease (env n) ent i (request_of reqs i)]"
    by (rule lease_acquire_ok) simp
  then show "lease_added env reqs i (lm_held (snd s) ?k) (lm_held (snd s') ?k)"
    unfolding lease_added_def by blast
next
  fix n s i s' err
  assume "lease_acquire env reqs n s i = (s', Some err)"
  from lease_acquire_fails [OF this]
  show "lease_kept env (lm_held (snd s) (ResourceID_String i)) (lm_held (snd s') (ResourceID_String i))"
    unfolding lease_kept_def by (metis fun_upd_same)
qed (simp_all add: lease_kept_def lease_release_held split: option.split)

section \<open>Histories\<close>

datatype lease_op =
    LReg reg_op
  | LLease lease_env ResourceID LeaseRequest
  | LRelease ResourceID string LeaseMode
  | LHeld time ResourceID
  | LAcquireAll "nat \<Rightarrow> lease_env" "(string \<times> LeaseRequest) list"
  | LReleaseHandle LeaseHandle

type_synonym lease_state = "Kind list \<times> Registry \<times> LeaseManager"

fun lease_act :: "lease_state \<Rightarrow> lease_op \<Rightarrow> lease_state" where
  "lease_act (ks, r, m) (LReg a) = (let (ks, r) = reg_act (ks, r) a in (ks, r, m))"
| "lease_act (ks, r, m) (LLease env i req) = (ks, fst (lm_Lease env (r, m) i req))"
| "lease_act (ks, r, m) (LRelease i owner mode) = (ks, r, fst (lm_Release m i owner mode))"
| "lease_act (ks, r, m) (LHeld now i) = (ks, r, fst (lm_Held now m i))"
| "lease_act (ks, r, m) (LAcquireAll env reqs) = (ks, fst (lm_AcquireAll ks env (r, m) reqs))"
| "lease_act (ks, r, m) (LReleaseHandle h) = (ks, r, ReleaseHandle m h)"

definition lease_run :: "lease_state \<Rightarrow> lease_op list \<Rightarrow> lease_state" where
  "lease_run = foldl lease_act"

definition lease_inv :: "LeaseManager \<Rightarrow> bool" where
  "lease_inv m \<longleftrightarrow> (\<forall>k. sorted_wrt (\<lambda>l l'. modesCompatible (rl_Mode l) (rl_Mode l')) (lm_held m k))"

text \<open>Every change of the manager keeps the leases compatible and lowers no fence.\<close>

definition lease_step :: "LeaseManager \<Rightarrow> LeaseManager \<Rightarrow> bool" where
  "lease_step m m' \<longleftrightarrow> (lease_inv m \<longrightarrow> lease_inv m') \<and> (\<forall>k. lm_fence m k \<le> lm_fence m' k)"

lemma lease_step_refl [simp]: "lease_step m m"
  by (simp add: lease_step_def)

lemma lease_step_trans: "lease_step m m' \<Longrightarrow> lease_step m' m'' \<Longrightarrow> lease_step m m''"
  unfolding lease_step_def by (meson order_trans)

lemma lease_step_expire: "lease_step m (lm_expireLocked now m k)"
  by (simp add: lease_step_def lease_inv_def lm_expireLocked_def live_def sorted_wrt_filter)

lemma sorted_wrt_remove_first:
  "sorted_wrt R ls \<Longrightarrow> remove_first P ls = Some ls' \<Longrightarrow> sorted_wrt R ls'"
proof (induction ls arbitrary: ls')
  case (Cons l ls)
  show ?case
  proof (cases "P l")
    case False
    then obtain z where z: "remove_first P ls = Some z" "ls' = l # z" using Cons.prems(2) by auto
    then have "set z \<subseteq> set ls" using remove_first_mset by fast
    with Cons z show ?thesis by auto
  qed (use Cons.prems in simp)
qed simp

lemma lease_step_release: "lease_step m (fst (lm_Release m i owner mode))"
  by (auto simp: lease_step_def lease_inv_def lm_Release_def Let_def
      intro: sorted_wrt_remove_first split: option.splits)

lemma lease_step_fold: "(\<And>m x. lease_step m (f m x)) \<Longrightarrow> lease_step m (foldl f m xs)"
  by (induction xs arbitrary: m) (auto intro: lease_step_trans)

lemma lease_step_releases: "lease_step m (releaseLeases m ls)"
  unfolding releaseLeases_def by (rule lease_step_fold) (rule lease_step_release)

lemma lease_step_Lease: "lease_step m (snd (fst (lm_Lease env (r, m) i req)))"
proof -
  obtain r' m' res where L: "lm_Lease env (r, m) i req = ((r', m'), res)" by (metis prod.collapse)
  show ?thesis
  proof (cases res)
    case (Inr err)
    with lm_Lease_fails [of env r m i req r' m' err] L show ?thesis by (auto simp: lease_step_expire)
  next
    case (Inl l)
    note g = lm_Lease_ok [OF L [unfolded Inl]]
    have "lease_inv m'" if "lease_inv m"
      using that g(2) by (auto simp: lease_inv_def g(1) sorted_wrt_append live_def sorted_wrt_filter list_all_iff)
    moreover have "lm_fence m k \<le> lm_fence m' k" for k
    proof (rule lm_Lease_fence [OF L [unfolded Inl]])
      assume "lm_fence m (ResourceID_String i) \<le> lm_fence m' (ResourceID_String i)"
        and "\<And>k. k \<noteq> ResourceID_String i \<Longrightarrow> lm_fence m' k = lm_fence m k"
      then show ?thesis by (cases "k = ResourceID_String i") simp_all
    qed
    ultimately show ?thesis by (simp add: lease_step_def L)
  qed
qed

lemma lease_step_loop: "lease_step (snd s) (snd (fst (lm_acquire_loop env n reqs held s is')))"
proof (induction is' arbitrary: n held s)
  case (Cons i is')
  obtain r m where s: "s = (r, m)" by force
  obtain s1 res where L: "lm_Lease (env n) s i (request_of reqs i) = (s1, res)" by (metis prod.collapse)
  have st: "lease_step m (snd s1)" using lease_step_Lease [of m "env n" r i "request_of reqs i"] L s by simp
  have undo: "lease_step m (releaseLeases (snd s1) held)"
    by (rule lease_step_trans [OF st lease_step_releases])
  show ?case
  proof (cases res)
    case (Inl l)
    have "lease_step m (snd (fst (lm_acquire_loop env (Suc n) reqs (held @ [l]) s1 is')))"
      by (rule lease_step_trans [OF st Cons.IH])
    then show ?thesis using L Inl by (simp add: s lease_step_releases split: option.splits)
  qed (use L undo in \<open>simp add: s lease_step_releases split: option.splits\<close>)
qed simp

lemma lease_step_act: "lease_act (ks, r, m) a = (ks', r', m') \<Longrightarrow> lease_step m m'"
proof (cases a)
  case (LLease env i req)
  then show "lease_act (ks, r, m) a = (ks', r', m') \<Longrightarrow> ?thesis"
    using lease_step_Lease [of m env r i req] by simp
next
  case (LAcquireAll env reqs)
  then show "lease_act (ks, r, m) a = (ks', r', m') \<Longrightarrow> ?thesis"
    using lease_step_loop [of "(r, m)"]
    by (auto simp: lm_AcquireAll_def split: if_splits sum.splits) (metis snd_conv fst_conv)+
next
  case (LReleaseHandle h)
  have "lease_step (releaseLeases m (lh_Leases h))
      (foldl (\<lambda>m i. fst (lm_Release m i '''' '''')) (releaseLeases m (lh_Leases h)) (lh_IDs h))"
    by (rule lease_step_fold) (rule lease_step_release)
  with LReleaseHandle show "lease_act (ks, r, m) a = (ks', r', m') \<Longrightarrow> ?thesis"
    using lease_step_trans [OF lease_step_releases] by (auto simp: ReleaseHandle_def Let_def lease_step_releases)
qed (auto simp: lm_Held_def lease_step_expire lease_step_release Let_def split: prod.splits)

lemma lease_step_run: "lease_run (ks, r, m) ops = (ks', r', m') \<Longrightarrow> lease_step m m'"
  unfolding lease_run_def
proof (induction ops arbitrary: ks r m)
  case (Cons a ops)
  obtain ks1 r1 m1 where a: "lease_act (ks, r, m) a = (ks1, r1, m1)" by (metis prod_cases3)
  show ?case
    using lease_step_trans [OF lease_step_act [OF a] Cons.IH [of ks1 r1 m1]] Cons.prems a by simp
qed simp

text \<open>
  C11. Exclusive leases are exclusive. Along any history of lease calls, multi-resource acquisitions
  with their rollbacks, releases and registry calls on a new manager, the leases held on a resource
  are pairwise compatible; so a lease in exclusive, maintenance, migration or administrative mode
  is the only lease held on its resource.
\<close>

theorem lease_exclusion:
  assumes "lease_run (ks, r, NewLeaseManager) ops = (ks', r', m)"
    and "l \<in> set (lm_held m k)" and "modeRequiresFence (rl_Mode l)"
  shows "lm_held m k = [l]"
proof -
  have "lease_inv NewLeaseManager" by (simp add: lease_inv_def NewLeaseManager_def)
  then have "lease_inv m" using lease_step_run [OF assms(1)] unfolding lease_step_def by blast
  then have sorted: "sorted_wrt (\<lambda>l l'. modesCompatible (rl_Mode l) (rl_Mode l')) (lm_held m k)"
    by (simp add: lease_inv_def)
  have "\<not> modesCompatible (rl_Mode l) b" "\<not> modesCompatible b (rl_Mode l)" for b
    using assms(3) by (auto simp: modeRequiresFence_def modesCompatible_def)
  moreover obtain xs ys where "lm_held m k = xs @ l # ys" using assms(2) by (meson split_list)
  ultimately show ?thesis
    using sorted by (cases xs; cases ys) (auto simp: sorted_wrt_append)
qed

text \<open>
  Fencing tokens of leases never go back. When a resource that supports fencing grants a lease
  in a mode that needs a fence, and later, after any history, grants another one, both tokens are
  not zero and the second is not smaller than the first.
\<close>

theorem lease_fence_monotone:
  assumes "lm_Lease env1 (r, m) i req1 = ((r1, m1), Inl l1)"
    and "registry_Get r i = Inl e1" and "needs_fence e1 (rl_Mode l1)"
    and "lease_run (ks, r1, m1) ops = (ks', r2, m2)"
    and "lm_Lease env2 (r2, m2) i req2 = (s3, Inl l2)"
    and "registry_Get r2 i = Inl e2" and "needs_fence e2 (rl_Mode l2)"
  shows "rl_Fence l1 \<noteq> 0 \<and> rl_Fence l2 \<noteq> 0 \<and> rl_Fence l1 \<le> rl_Fence l2"
proof -
  let ?k = "ResourceID_String i"
  obtain r3 m3 where s3: "s3 = (r3, m3)" by force
  have 1: "rl_Fence l1 \<noteq> 0 \<and> lm_fence m1 ?k = rl_Fence l1"
    by (rule lm_Lease_fence [OF assms(1)]) (use assms(2, 3) lm_Lease_ok(6) [OF assms(1)] in simp)
  have 2: "rl_Fence l2 \<noteq> 0 \<and> lm_fence m2 ?k \<le> rl_Fence l2"
    by (rule lm_Lease_fence [OF assms(5) [unfolded s3]])
      (use assms(6, 7) lm_Lease_ok(6) [OF assms(5) [unfolded s3]] in simp)
  have "lm_fence m1 ?k \<le> lm_fence m2 ?k" using lease_step_run [OF assms(4)] by (simp add: lease_step_def)
  with 1 2 show ?thesis by auto
qed

definition fenced_caps :: ResourceCapabilities where
  "fenced_caps = no_caps\<lparr>SupportsFencing := True\<rparr>"

definition sample_registry :: Registry where
  "sample_registry = NewRegistry 2\<lparr>rg_entries :=
     [(''worker/prod/pay/api'', sample_entry api 1),
      (''database/prod/pay/db'', sample_entry (db\<lparr>rs_Capabilities := fenced_caps\<rparr>) 2)]\<rparr>"

definition calm :: lease_env where
  "calm = \<lparr>lv_ctx = None, lv_blocks = False, lv_expire = 10, lv_grant = 10\<rparr>"

definition sample_request :: "string \<Rightarrow> LeaseMode \<Rightarrow> u64 \<Rightarrow> LeaseRequest" where
  "sample_request owner mode f =
     \<lparr>lq_Purpose = '''', lq_Mode = mode, lq_Owner = owner, lq_TTL = 5, lq_Fence = f\<rparr>"

definition sample_leases :: "lease_op list" where
  "sample_leases =
     [LLease calm (rs_ID db) (sample_request ''a'' '''' 7),
      LLease calm (rs_ID db) (sample_request ''b'' LeaseShared 9),
      LLease calm (rs_ID api) (sample_request ''a'' LeaseShared 0),
      LLease calm (rs_ID api) (sample_request ''b'' LeaseReadOnly 0)]"

theorem lease_exclusion_witness:
  "\<exists>m l. snd (snd (lease_run ([], sample_registry, NewLeaseManager) sample_leases)) = m
     \<and> rl_Owner l = ''a'' \<and> lm_held m ''database/prod/pay/db'' = [l]
     \<and> map rl_Owner (lm_held m ''worker/prod/pay/api'') = [''a'', ''b'']"
proof -
  obtain ks r m where run: "lease_run ([], sample_registry, NewLeaseManager) sample_leases = (ks, r, m)"
    by (metis prod_cases3)
  have "map (\<lambda>l. (rl_Owner l, rl_Mode l)) (lm_held (snd (snd (lease_run ([], sample_registry, NewLeaseManager) sample_leases)))
      ''database/prod/pay/db'') = [(''a'', ''exclusive'')]
    \<and> map rl_Owner (lm_held (snd (snd (lease_run ([], sample_registry, NewLeaseManager) sample_leases)))
      ''worker/prod/pay/api'') = [''a'', ''b'']"
    by code_simp
  then obtain l where l: "l \<in> set (lm_held m ''database/prod/pay/db'')" "rl_Owner l = ''a''" "rl_Mode l = ''exclusive''"
    and api: "map rl_Owner (lm_held m ''worker/prod/pay/api'') = [''a'', ''b'']"
    unfolding run by auto
  have "modeRequiresFence (rl_Mode l)" by (simp add: l(3) modeRequiresFence_def LeaseExclusive_def)
  with lease_exclusion [OF run l(1)] l(2) api run show ?thesis by auto
qed

definition first_lease :: "(Registry \<times> LeaseManager) \<times> (ResLease + resource_error)" where
  "first_lease = lm_Lease calm (sample_registry, NewLeaseManager) (rs_ID db) (sample_request ''a'' '''' 7)"

definition after_release :: lease_state where
  "after_release = lease_run ([], fst first_lease) [LRelease (rs_ID db) ''a'' '''']"

definition second_lease :: "(Registry \<times> LeaseManager) \<times> (ResLease + resource_error)" where
  "second_lease = lm_Lease calm (snd after_release) (rs_ID db) (sample_request ''b'' '''' 9)"

theorem lease_fence_monotone_witness:
  "\<exists>l1 l2. snd first_lease = Inl l1 \<and> snd second_lease = Inl l2 \<and> rl_Fence l1 \<noteq> 0 \<and> rl_Fence l1 \<le> rl_Fence l2"
proof -
  let ?db = "sample_entry (db\<lparr>rs_Capabilities := fenced_caps\<rparr>) 2"
  have eval: "map_sum rl_Mode (\<lambda>_. ()) (snd first_lease) = Inl LeaseExclusive"
    "map_sum rl_Mode (\<lambda>_. ()) (snd second_lease) = Inl LeaseExclusive"
    by code_simp+
  obtain l1 l2 where l: "snd first_lease = Inl l1" "snd second_lease = Inl l2"
      "rl_Mode l1 = LeaseExclusive" "rl_Mode l2 = LeaseExclusive"
    using eval by (cases "snd first_lease"; cases "snd second_lease") auto
  obtain r1 m1 where 1: "first_lease = ((r1, m1), Inl l1)" using l(1) by (metis prod.collapse)
  obtain ks2 r2 m2 where 2: "after_release = (ks2, r2, m2)" by (metis prod_cases3)
  obtain s3 where 3: "second_lease = (s3, Inl l2)" using l(2) by (metis prod.collapse)
  have "r2 = sample_registry"
    using 2 lm_Lease_registry [OF 1 [unfolded first_lease_def]] by (simp add: 1 lease_run_def after_release_def)
  then have ent: "registry_Get sample_registry (rs_ID db) = Inl ?db" "registry_Get r2 (rs_ID db) = Inl ?db"
    by (simp_all add: registry_Get_def sample_string sample_registry_def)
  have need: "needs_fence ?db LeaseExclusive"
    by (simp add: needs_fence_def sample_entry_def fenced_caps_def modeRequiresFence_def)
  from lease_fence_monotone [OF 1 [unfolded first_lease_def] ent(1) _ 2 [unfolded after_release_def 1 fst_conv]
      3 [unfolded second_lease_def 2 snd_conv]] ent(2) need l
  show ?thesis by simp
qed

definition sample_requests :: "(string \<times> LeaseRequest) list" where
  "sample_requests = [(''worker/prod/pay/api'', sample_request ''a'' LeaseShared 0),
     (''database/prod/pay/db'', sample_request ''a'' '''' 7)]"

lemma sample_keys: "keysToIDs [] (map fst sample_requests) = Inl [rs_ID api, rs_ID db]"
  using keysToIDs_map [of "[]" "[rs_ID api, rs_ID db]"]
  by (simp add: sample_requests_def sample_string sample_valid sample_kind)

definition busy :: "Registry \<times> LeaseManager" where
  "busy = fst (lm_Lease calm (sample_registry, NewLeaseManager) (rs_ID api) (sample_request ''b'' LeaseExclusive 0))"

lemma busy_refuses:
  "\<exists>s' err. lm_AcquireAll [] (\<lambda>_. calm) busy sample_requests = (s', Inr err)"
proof -
  let ?res = "lm_acquire_loop (\<lambda>_. calm) 0 sample_requests [] busy
      (sort_key ResourceID_String [rs_ID api, rs_ID db])"
  have "\<not> isl (snd ?res)" by code_simp
  then obtain err where "?res = (fst ?res, Inr err)" by (metis isl_def old.sum.exhaust prod.collapse)
  moreover have "lm_AcquireAll [] (\<lambda>_. calm) busy sample_requests = ?res"
    unfolding lm_AcquireAll_def sample_keys by (simp add: sample_requests_def)
  ultimately show ?thesis by metis
qed

text \<open>
  C29. The manager's own loop over several leases is the general one. For requests whose keys parse,
  \<open>LeaseManager.AcquireAll\<close> leaves the state and returns the identifiers or the error that
  \<open>AcquireAll\<close> gives with the manager's \<open>Lease\<close> as acquire and its \<open>Release\<close> as release function.
\<close>

theorem lm_AcquireAll_equiv:
  assumes "reqs \<noteq> []" and "keysToIDs ks (map fst reqs) = Inl ids"
    and "lm_AcquireAll ks env s reqs = (s', res)"
    and "AcquireAll (\<lambda>n. lv_ctx (env n)) (Some (lease_acquire env reqs)) (Some (lease_release reqs)) s ids = (w', res')"
  shows "w' = s' \<and> map_sum lh_IDs id res' = map_sum lh_IDs id res"
  using lm_acquire_loop_eq [of reqs "[]" env 0 s "sort_key ResourceID_String ids" s' res w' res'] assms
  by (simp add: lm_AcquireAll_def AcquireAll_def)

theorem lm_AcquireAll_equiv_witness:
  "fst (AcquireAll (\<lambda>n. lv_ctx calm) (Some (lease_acquire (\<lambda>_. calm) sample_requests))
      (Some (lease_release sample_requests)) busy [rs_ID api, rs_ID db])
   = fst (lm_AcquireAll [] (\<lambda>_. calm) busy sample_requests)"
proof -
  have "sample_requests \<noteq> []" by (simp add: sample_requests_def)
  from lm_AcquireAll_equiv [OF this sample_keys, where env = "\<lambda>_. calm" and s = busy] show ?thesis
    by (metis prod.collapse)
qed

text \<open>
  C28. Acquiring several resources is all or nothing, with the clock moving as it likes between the
  steps. Take a call of \<open>LeaseManager.AcquireAll\<close> for distinct resources on none of which the
  requesting owner already has an unexpired lease of the requested mode. If the call fails, at
  whatever resource and for whatever reason, then under every key the list of leases is exactly the
  one before the call, except that leases expired at one of the clock readings may have been
  dropped. If it succeeds, every requested resource has got exactly one lease, at the end of its
  list and made from its request, and under no other key has anything changed.
\<close>

theorem lm_AcquireAll_atomic:
  assumes "reqs \<noteq> []" and "keysToIDs ks (map fst reqs) = Inl ids" and "distinct (map ResourceID_String ids)"
    and "\<forall>i \<in> set ids. \<forall>l \<in> set (lm_held (snd s) (ResourceID_String i)).
      rl_Owner l = lq_Owner (request_of reqs i) \<longrightarrow> rl_Mode l = lease_mode (request_of reqs i) \<longrightarrow>
      (\<forall>n. lease_expired (lv_expire (env n)) l)"
    and "lm_AcquireAll ks env s reqs = (s', res)"
  shows "case res of
      Inr _ \<Rightarrow> (\<forall>k. lm_held (snd s') k = lm_held (snd s) k
          \<or> (\<exists>n. lm_held (snd s') k = live (lv_expire (env n)) (lm_held (snd s) k)))
    | Inl h \<Rightarrow> lh_IDs h = sort_key ResourceID_String ids
        \<and> (\<forall>i \<in> set ids. \<exists>n ent. lm_held (snd s') (ResourceID_String i)
             = live (lv_expire (env n)) (lm_held (snd s) (ResourceID_String i))
               @ [granted_lease (env n) ent i (request_of reqs i)])
        \<and> (\<forall>k. k \<notin> ResourceID_String ` set ids \<longrightarrow> lm_held (snd s') k = lm_held (snd s) k)"
proof -
  obtain w' res' where A: "AcquireAll (\<lambda>n. lv_ctx (env n)) (Some (lease_acquire env reqs))
      (Some (lease_release reqs)) s ids = (w', res')" by (metis prod.collapse)
  have eq: "w' = s'" "map_sum lh_IDs id res' = map_sum lh_IDs id res"
    using lm_acquire_loop_eq [of reqs "[]" env 0 s "sort_key ResourceID_String ids" s' res w' res'] assms A
    by (simp_all add: lm_AcquireAll_def AcquireAll_def)
  have "lease_clear env reqs i (lm_held (snd s) (ResourceID_String i))" if "i \<in> set ids" for i
    using assms(4) that by (simp add: lease_clear_def owner_mode_def lease_tok_def)
  from mgr.AcquireAll_atomic [OF assms(3) this A] eq show ?thesis
    by (cases res; cases res') (simp_all add: lease_kept_def lease_added_def mgr.acquired_def)
qed

theorem lm_AcquireAll_atomic_witness:
  "\<exists>s' err. lm_AcquireAll [] (\<lambda>_. calm) busy sample_requests = (s', Inr err)
     \<and> lm_held (snd s') ''database/prod/pay/db'' = []"
proof -
  have sample: "sample_requests \<noteq> []" by (simp add: sample_requests_def)
  have db: "lm_held (snd busy) ''database/prod/pay/db'' = []"
    and owners: "map rl_Owner (lm_held (snd busy) ''worker/prod/pay/api'') = [''b'']"
    by code_simp+
  have req: "lq_Owner (request_of sample_requests (rs_ID api)) = ''a''"
    by (simp add: request_of_def sample_requests_def sample_string sample_request_def)
  have "rl_Owner l = ''b''" if "l \<in> set (lm_held (snd busy) ''worker/prod/pay/api'')" for l
    using arg_cong [OF owners, of set] that by auto
  then have "\<forall>i \<in> set [rs_ID api, rs_ID db]. \<forall>l \<in> set (lm_held (snd busy) (ResourceID_String i)).
      rl_Owner l = lq_Owner (request_of sample_requests i) \<longrightarrow>
      rl_Mode l = lease_mode (request_of sample_requests i) \<longrightarrow>
      (\<forall>n. lease_expired (lv_expire ((\<lambda>_. calm) n)) l)"
    using req db by (auto simp: sample_string)
  moreover have "distinct (map ResourceID_String [rs_ID api, rs_ID db])" by (simp add: sample_string)
  moreover obtain s' err where res: "lm_AcquireAll [] (\<lambda>_. calm) busy sample_requests = (s', Inr err)"
    using busy_refuses by blast
  ultimately have "\<forall>k. lm_held (snd s') k = lm_held (snd busy) k
      \<or> (\<exists>n::nat. lm_held (snd s') k = live (lv_expire calm) (lm_held (snd busy) k))"
    using lm_AcquireAll_atomic [OF sample sample_keys, of busy "\<lambda>_. calm" s' "Inr err"] by simp
  then have "lm_held (snd s') ''database/prod/pay/db'' = []"
    using db by (metis filter.simps(1) live_def)
  with res show ?thesis by blast
qed

end
