(* ===== verification/Workflow_Defs.thy ===== *)
theory Workflow_Defs
  imports Resource_Registry
begin

text \<open>
  \<open>workflow/state.go\<close>, \<open>workflow/errors.go\<close> and \<open>workflow/definition.go\<close>: the states of a workflow and
  of its steps, the typed error, and the builder of definitions. An action or compensation is user
  code: a function of the moment it is called (a number, so that two calls may differ) and of the
  \<open>ExecContext\<close>. Shown: what \<open>Build\<close> accepts, and that its order runs every step once, after its
  dependencies.
\<close>

section \<open>States\<close>

datatype State =
    StateCreated | StateValidating | StateWaiting | StateRunning | StatePaused | StateCompensating
  | StateCompleted | StateFailed | StateCancelled | StateBlocked | StateLockedDown
  | StateRequiresIntervention | StateRequiresReconciliation | StateOther string

primrec State_string :: "State \<Rightarrow> string" where
  "State_string StateCreated = ''created''"
| "State_string StateValidating = ''validating''"
| "State_string StateWaiting = ''waiting''"
| "State_string StateRunning = ''running''"
| "State_string StatePaused = ''paused''"
| "State_string StateCompensating = ''compensating''"
| "State_string StateCompleted = ''completed''"
| "State_string StateFailed = ''failed''"
| "State_string StateCancelled = ''cancelled''"
| "State_string StateBlocked = ''blocked''"
| "State_string StateLockedDown = ''locked-down''"
| "State_string StateRequiresIntervention = ''requires-intervention''"
| "State_string StateRequiresReconciliation = ''requires-reconciliation''"
| "State_string (StateOther s) = s"

definition Terminal :: "State \<Rightarrow> bool" where
  "Terminal s \<longleftrightarrow> s = StateCompleted \<or> s = StateFailed \<or> s = StateCancelled"

definition CanTransition :: "State \<Rightarrow> State \<Rightarrow> bool" where
  "CanTransition from to =
     (if from = to then True
      else if Terminal from then False
      else case from of
        StateCreated \<Rightarrow> to = StateValidating \<or> to = StateCancelled \<or> to = StateLockedDown
      | StateValidating \<Rightarrow> to = StateWaiting \<or> to = StateRunning \<or> to = StateFailed \<or> to = StateLockedDown
          \<or> to = StateCancelled
      | StateWaiting \<Rightarrow> to = StateRunning \<or> to = StatePaused \<or> to = StateCancelled \<or> to = StateLockedDown
          \<or> to = StateBlocked
      | StateRunning \<Rightarrow> to = StatePaused \<or> to = StateCompensating \<or> to = StateCompleted \<or> to = StateFailed
          \<or> to = StateCancelled \<or> to = StateLockedDown \<or> to = StateRequiresIntervention
          \<or> to = StateRequiresReconciliation \<or> to = StateBlocked
      | StatePaused \<Rightarrow> to = StateRunning \<or> to = StateCancelled \<or> to = StateLockedDown \<or> to = StateFailed
      | StateCompensating \<Rightarrow> to = StateFailed \<or> to = StateCompleted \<or> to = StateRequiresIntervention
          \<or> to = StateRequiresReconciliation
      | StateBlocked \<Rightarrow> to = StateRunning \<or> to = StatePaused \<or> to = StateCancelled \<or> to = StateFailed
          \<or> to = StateCompensating
      | StateLockedDown \<Rightarrow> to = StateRunning \<or> to = StatePaused \<or> to = StateCancelled \<or> to = StateFailed
          \<or> to = StateCompensating
      | StateRequiresIntervention \<Rightarrow> to = StateRunning \<or> to = StatePaused \<or> to = StateCancelled
          \<or> to = StateFailed \<or> to = StateCompensating
      | StateRequiresReconciliation \<Rightarrow> to = StateRunning \<or> to = StatePaused \<or> to = StateCancelled
          \<or> to = StateFailed \<or> to = StateCompensating
      | _ \<Rightarrow> False)"

text \<open>The zero value of a step's status, the empty string, is \<open>StepNone\<close>.\<close>

datatype StepStatus =
    StepNone | StepPending | StepRunning | StepCompleted | StepFailed | StepCompensating
  | StepCompensated | StepSkipped | StepReconcile

record Evidence =
  ev_Time :: time
  ev_Event :: string
  ev_Summary :: string
  ev_Attrs :: "(string \<times> string) list"

record StepState =
  ss_Name :: string
  ss_Status :: StepStatus
  ss_Attempt :: int
  ss_StartedAt :: time
  ss_FinishedAt :: time
  ss_Error :: string
  ss_Evidence :: "Evidence list"

datatype IdempotencyMode = Idempotent | RequiresOperationID | NotRetryable | RequiresReconciliation
  | IdempotencyOther string

section \<open>Errors\<close>

datatype workflow_sentinel =
    ErrInvalidDefinition | ErrUnknownStep | ErrWorkflowCycle | ErrInvalidState | ErrInstanceNotFound
  | ErrEngineClosed | ErrWorkflowLockdown | ErrCapability | ErrAmbiguous | ErrRequiresReconciliation
  | ErrNotRetryable | ErrCompensationFailed | ErrStaleEpoch | ErrCancelled | ErrWorkflowBound
  | ErrWorkflowArgument

primrec workflow_text :: "workflow_sentinel \<Rightarrow> string" where
  "workflow_text ErrInvalidDefinition = ''workflow: invalid definition''"
| "workflow_text ErrUnknownStep = ''workflow: unknown step''"
| "workflow_text ErrWorkflowCycle = ''workflow: step dependency cycle''"
| "workflow_text ErrInvalidState = ''workflow: invalid state transition''"
| "workflow_text ErrInstanceNotFound = ''workflow: instance not found''"
| "workflow_text ErrEngineClosed = ''workflow: engine closed''"
| "workflow_text ErrWorkflowLockdown = ''workflow: lockdown blocks mutation''"
| "workflow_text ErrCapability = ''workflow: resource capability validation failed''"
| "workflow_text ErrAmbiguous = ''workflow: ambiguous step outcome''"
| "workflow_text ErrRequiresReconciliation = ''workflow: requires reconciliation''"
| "workflow_text ErrNotRetryable = ''workflow: step is not retryable''"
| "workflow_text ErrCompensationFailed = ''workflow: compensation failed''"
| "workflow_text ErrStaleEpoch = ''workflow: resource epoch newer than compensation target''"
| "workflow_text ErrCancelled = ''workflow: cancelled''"
| "workflow_text ErrWorkflowBound = ''workflow: bound exceeded''"
| "workflow_text ErrWorkflowArgument = ''workflow: invalid argument''"

text \<open>
  A sentinel, the typed error (operation, workflow, step, cause, message), an error of a context,
  or an error of other code.
\<close>

datatype werror =
    WSentinel workflow_sentinel
  | WError string string string "werror option" string
  | WContext string
  | WOther string

definition werr :: "string \<Rightarrow> string \<Rightarrow> string \<Rightarrow> workflow_sentinel \<Rightarrow> string \<Rightarrow> werror" where
  "werr op w step s msg = WError op w step (Some (WSentinel s)) msg"

fun werror_Is :: "werror \<Rightarrow> workflow_sentinel \<Rightarrow> bool" where
  "werror_Is (WSentinel s) t = (s = t)"
| "werror_Is (WError op w step None msg) t = False"
| "werror_Is (WError op w step (Some e) msg) t = werror_Is e t"
| "werror_Is (WContext msg) t = False"
| "werror_Is (WOther msg) t = False"

fun werror_context :: "werror \<Rightarrow> bool" where
  "werror_context (WContext msg) = True"
| "werror_context (WError op w step (Some e) msg) = werror_context e"
| "werror_context _ = False"

fun werror_Error :: "werror \<Rightarrow> string" where
  "werror_Error (WSentinel s) = workflow_text s"
| "werror_Error (WContext msg) = msg"
| "werror_Error (WOther msg) = msg"
| "werror_Error (WError op w step cause msg) =
     (let m = (if msg = '''' then (case cause of Some e \<Rightarrow> werror_Error e | None \<Rightarrow> '''') else msg);
          m = (if m = '''' then ''error'' else m)
      in if op \<noteq> '''' \<and> step \<noteq> '''' then
           ''workflow: '' @ op @ '' workflow='' @ go_quote w @ '' step='' @ go_quote step @ '': '' @ m
         else if op \<noteq> '''' \<and> w \<noteq> '''' then ''workflow: '' @ op @ '' workflow='' @ go_quote w @ '': '' @ m
         else if op \<noteq> '''' then ''workflow: '' @ op @ '': '' @ m
         else ''workflow: '' @ m)"

section \<open>Steps and definitions\<close>

record Result =
  re_Evidence :: Evidence
  re_Ambiguous :: bool

record ExecContext =
  ec_Workflow :: string
  ec_InstanceID :: string
  ec_Step :: string
  ec_Attempt :: int
  ec_DryRun :: bool
  ec_OperationID :: string
  ec_Attrs :: "(string \<times> string) list"
  ec_ResourceEpoch :: ResourceEpoch
  ec_ResourceID :: ResourceID

type_synonym ActionFunc = "nat \<Rightarrow> ExecContext \<Rightarrow> Result \<times> werror option"

record StepDef =
  sd_Name :: string
  sd_Action :: ActionFunc
  sd_Compensate :: "ActionFunc option"
  sd_DependsOn :: "string list"
  sd_ParallelGroup :: string
  sd_Idempotency :: IdempotencyMode
  sd_Mutates :: bool
  sd_RequiredCaps :: ResourceCapabilities
  sd_ResourceID :: ResourceID

record Definition =
  df_Name :: string
  df_steps :: "(string \<times> StepDef) list"
  df_order :: "string list"

record Builder =
  bd_name :: string
  bd_steps :: "(string \<times> StepDef) list"
  bd_err :: "werror option"

definition Define :: "string \<Rightarrow> Builder" where
  "Define name =
     \<lparr>bd_name = name, bd_steps = [],
      bd_err = (if name = '''' then Some (werr ''Define'' '''' '''' ErrInvalidDefinition ''name required'') else None)\<rparr>"

definition builder_Step :: "Builder \<Rightarrow> string \<Rightarrow> ActionFunc option \<Rightarrow> Builder" where
  "builder_Step b name action =
     (if bd_err b \<noteq> None then b
      else case action of
        None \<Rightarrow> b\<lparr>bd_err := Some (werr ''Step'' (bd_name b) '''' ErrInvalidDefinition ''name and action required'')\<rparr>
      | Some action \<Rightarrow>
          if name = '''' then
            b\<lparr>bd_err := Some (werr ''Step'' (bd_name b) '''' ErrInvalidDefinition ''name and action required'')\<rparr>
          else b\<lparr>bd_steps := AList.update name
            \<lparr>sd_Name = name, sd_Action = action, sd_Compensate = None, sd_DependsOn = [], sd_ParallelGroup = '''',
             sd_Idempotency = Idempotent, sd_Mutates = False, sd_RequiredCaps = no_caps, sd_ResourceID = no_id\<rparr>
            (bd_steps b)\<rparr>)"

text \<open>The setters share their frame: nothing after an error, an error for an unknown step.\<close>

definition set_step :: "string \<Rightarrow> (StepDef \<Rightarrow> StepDef) \<Rightarrow> Builder \<Rightarrow> string \<Rightarrow> Builder" where
  "set_step op f b name =
     (if bd_err b \<noteq> None then b
      else case map_of (bd_steps b) name of
        None \<Rightarrow> b\<lparr>bd_err := Some (werr op (bd_name b) name ErrUnknownStep ''unknown step'')\<rparr>
      | Some s \<Rightarrow> b\<lparr>bd_steps := AList.update name (f s) (bd_steps b)\<rparr>)"

definition builder_Compensate :: "Builder \<Rightarrow> string \<Rightarrow> ActionFunc option \<Rightarrow> Builder" where
  "builder_Compensate b step fn = set_step ''Compensate'' (\<lambda>s. s\<lparr>sd_Compensate := fn\<rparr>) b step"

definition builder_Depend :: "Builder \<Rightarrow> string \<Rightarrow> string list \<Rightarrow> Builder" where
  "builder_Depend b step deps = set_step ''Depend'' (\<lambda>s. s\<lparr>sd_DependsOn := sd_DependsOn s @ deps\<rparr>) b step"

definition builder_ParallelGroup :: "Builder \<Rightarrow> string \<Rightarrow> string list \<Rightarrow> Builder" where
  "builder_ParallelGroup b grp steps =
     foldl (set_step ''ParallelGroup'' (\<lambda>s. s\<lparr>sd_ParallelGroup := grp\<rparr>)) b steps"

definition builder_Idempotency :: "Builder \<Rightarrow> string \<Rightarrow> IdempotencyMode \<Rightarrow> Builder" where
  "builder_Idempotency b step mode = set_step ''Idempotency'' (\<lambda>s. s\<lparr>sd_Idempotency := mode\<rparr>) b step"

definition builder_Mutating :: "Builder \<Rightarrow> string \<Rightarrow> bool \<Rightarrow> Builder" where
  "builder_Mutating b step mutates = set_step ''Mutating'' (\<lambda>s. s\<lparr>sd_Mutates := mutates\<rparr>) b step"

definition builder_RequireCaps :: "Builder \<Rightarrow> string \<Rightarrow> ResourceID \<Rightarrow> ResourceCapabilities \<Rightarrow> Builder" where
  "builder_RequireCaps b step i caps =
     set_step ''RequireCaps'' (\<lambda>s. s\<lparr>sd_ResourceID := i, sd_RequiredCaps := caps\<rparr>) b step"

definition step_deps :: "(string \<times> StepDef) list \<Rightarrow> string \<Rightarrow> string list" where
  "step_deps steps n = (case map_of steps n of None \<Rightarrow> [] | Some s \<Rightarrow> sd_DependsOn s)"

definition topoSteps :: "(string \<times> StepDef) list \<Rightarrow> string list + werror" where
  "topoSteps steps =
     (let nodes = map fst steps; order = topo_order nodes (step_deps steps)
      in if length order \<noteq> length nodes then Inr (werr ''Build'' '''' '''' ErrWorkflowCycle ''step dependency cycle'')
         else Inl order)"

fun unknown_dep :: "string list \<Rightarrow> (string \<times> StepDef) list \<Rightarrow> (string \<times> string) option" where
  "unknown_dep known [] = None"
| "unknown_dep known ((n, s) # ss) =
     (case List.find (\<lambda>d. d \<notin> set known) (sd_DependsOn s) of
        Some d \<Rightarrow> Some (n, d)
      | None \<Rightarrow> unknown_dep known ss)"

definition Build :: "Builder \<Rightarrow> Definition + werror" where
  "Build b =
     (case bd_err b of
        Some e \<Rightarrow> Inr e
      | None \<Rightarrow>
          if bd_steps b = [] then Inr (werr ''Build'' (bd_name b) '''' ErrInvalidDefinition ''no steps'')
          else case unknown_dep (map fst (bd_steps b)) (bd_steps b) of
            Some (n, d) \<Rightarrow> Inr (werr ''Build'' (bd_name b) n ErrUnknownStep (''depends on unknown step '' @ d))
          | None \<Rightarrow>
              (case topoSteps (bd_steps b) of
                 Inr e \<Rightarrow> Inr e
               | Inl order \<Rightarrow> Inl \<lparr>df_Name = bd_name b, df_steps = bd_steps b, df_order = order\<rparr>))"

definition def_Steps :: "Definition \<Rightarrow> string list" where
  "def_Steps d = df_order d"

definition def_Step :: "Definition \<Rightarrow> string \<Rightarrow> StepDef option" where
  "def_Step d name = map_of (df_steps d) name"

section \<open>Histories of a builder\<close>

datatype builder_op =
    BStep string "ActionFunc option"
  | BCompensate string "ActionFunc option"
  | BDepend string "string list"
  | BParallelGroup string "string list"
  | BIdempotency string IdempotencyMode
  | BMutating string bool
  | BRequireCaps string ResourceID ResourceCapabilities

primrec builder_act :: "Builder \<Rightarrow> builder_op \<Rightarrow> Builder" where
  "builder_act b (BStep n a) = builder_Step b n a"
| "builder_act b (BCompensate n a) = builder_Compensate b n a"
| "builder_act b (BDepend n ds) = builder_Depend b n ds"
| "builder_act b (BParallelGroup g ns) = builder_ParallelGroup b g ns"
| "builder_act b (BIdempotency n m) = builder_Idempotency b n m"
| "builder_act b (BMutating n m) = builder_Mutating b n m"
| "builder_act b (BRequireCaps n i c) = builder_RequireCaps b n i c"

definition builder_ok :: "Builder \<Rightarrow> bool" where
  "builder_ok b \<longleftrightarrow> distinct (map fst (bd_steps b)) \<and> (\<forall>n s. map_of (bd_steps b) n = Some s \<longrightarrow> sd_Name s = n)"

lemma builder_ok_update:
  "builder_ok b \<Longrightarrow> sd_Name s = n \<Longrightarrow> builder_ok (b\<lparr>bd_steps := AList.update n s (bd_steps b)\<rparr>)"
  by (simp add: builder_ok_def distinct_update update_conv del: map_of_eq_Some_iff)

lemma builder_ok_err: "builder_ok (b\<lparr>bd_err := e\<rparr>) = builder_ok b"
  by (simp add: builder_ok_def)

lemma builder_ok_set:
  assumes "\<And>s. sd_Name (f s) = sd_Name s" and "builder_ok b"
  shows "builder_ok (set_step op f b n)"
proof (cases "map_of (bd_steps b) n")
  case (Some s)
  then have "sd_Name (f s) = n" using assms unfolding builder_ok_def by blast
  with assms(2) Some show ?thesis by (simp add: set_step_def builder_ok_update)
qed (use assms(2) in \<open>simp add: set_step_def builder_ok_err\<close>)

lemma builder_ok_fold:
  "(\<And>s. sd_Name (f s) = sd_Name s) \<Longrightarrow> builder_ok b \<Longrightarrow> builder_ok (foldl (set_step op f) b ns)"
  by (induction ns arbitrary: b) (simp_all add: builder_ok_set)

lemma builder_ok_act: "builder_ok b \<Longrightarrow> builder_ok (builder_act b a)"
proof (cases a)
  case (BStep n x)
  then show "builder_ok b \<Longrightarrow> ?thesis"
    by (simp add: builder_Step_def builder_ok_update builder_ok_err split: option.splits)
qed (simp_all add: builder_Compensate_def builder_Depend_def builder_ParallelGroup_def
    builder_Idempotency_def builder_Mutating_def builder_RequireCaps_def builder_ok_set builder_ok_fold)

lemma builder_ok_run: "builder_ok b \<Longrightarrow> builder_ok (foldl builder_act b as)"
  by (induction as arbitrary: b) (simp_all add: builder_ok_act)

text \<open>What the engine may assume of a definition that \<open>Build\<close> returned.\<close>

definition def_ok :: "Definition \<Rightarrow> bool" where
  "def_ok d \<longleftrightarrow> distinct (df_order d) \<and> set (df_order d) = fst ` set (df_steps d)
     \<and> distinct (map fst (df_steps d))
     \<and> (\<forall>n s. map_of (df_steps d) n = Some s \<longrightarrow> sd_Name s = n)
     \<and> topological (step_deps (df_steps d)) (df_order d)"

lemma unknown_dep_None:
  "unknown_dep known ss = None \<longleftrightarrow> (\<forall>(n, s) \<in> set ss. set (sd_DependsOn s) \<subseteq> set known)"
proof (induction known ss rule: unknown_dep.induct)
  case (2 known n s ss)
  show ?case
  proof (cases "List.find (\<lambda>d. d \<notin> set known) (sd_DependsOn s)")
    case None
    then have "set (sd_DependsOn s) \<subseteq> set known" by (auto simp: find_None_iff)
    with 2 None show ?thesis by simp
  next
    case (Some d)
    then have "d \<in> set (sd_DependsOn s)" "d \<notin> set known" by (auto simp: find_Some_iff)
    with Some show ?thesis by auto
  qed
qed simp

lemma step_deps_known:
  assumes "unknown_dep (map fst ss) ss = None"
  shows "set (step_deps ss n) \<subseteq> set (map fst ss)"
proof (cases "map_of ss n")
  case (Some s)
  then have "(n, s) \<in> set ss" by (rule map_of_SomeD)
  with assms Some show ?thesis by (auto simp: unknown_dep_None step_deps_def)
qed (simp add: step_deps_def)

lemma Build_ok:
  assumes "builder_ok b" and "Build b = Inl d"
  shows "def_ok d" and "df_Name d = bd_name b" and "df_steps d = bd_steps b"
proof -
  let ?nodes = "map fst (bd_steps b)" and ?deps = "step_deps (bd_steps b)"
  from assms(2) have d: "d = \<lparr>df_Name = bd_name b, df_steps = bd_steps b, df_order = topo_order ?nodes ?deps\<rparr>"
    and len: "length (topo_order ?nodes ?deps) = length ?nodes"
    by (auto simp: Build_def topoSteps_def Let_def split: option.splits if_splits sum.splits prod.splits)
  show "df_Name d = bd_name b" "df_steps d = bd_steps b" by (simp_all add: d)
  have dist: "distinct ?nodes" using assms(1) by (simp add: builder_ok_def)
  note props = topo_order_props [OF dist, of ?deps]
  have "card (set (topo_order ?nodes ?deps)) = card (set ?nodes)"
    using len props(1) dist by (metis distinct_card)
  then have "set (topo_order ?nodes ?deps) = set ?nodes" using props(2) by (intro card_subset_eq) auto
  then show "def_ok d"
    using props(1, 3) dist assms(1) by (simp add: def_ok_def d builder_ok_def)
qed

lemma Build_exact:
  assumes "builder_ok b" and "bd_err b = None" and "bd_steps b \<noteq> []"
    and "unknown_dep (map fst (bd_steps b)) (bd_steps b) = None"
  shows "(\<exists>d. Build b = Inl d) \<longleftrightarrow> acyclic (graph_rel (map fst (bd_steps b)) (step_deps (bd_steps b)))"
proof -
  let ?nodes = "map fst (bd_steps b)" and ?deps = "step_deps (bd_steps b)"
  have dist: "distinct ?nodes" using assms(1) by (simp add: builder_ok_def)
  have "length (topo_order ?nodes ?deps) = length ?nodes \<longleftrightarrow> acyclic (graph_rel ?nodes ?deps)"
    using step_deps_known [OF assms(4)] by (intro topo_order_length [OF dist])
  then show ?thesis using assms(2-4) by (simp add: Build_def topoSteps_def Let_def)
qed

text \<open>
  C21. What \<open>Build\<close> accepts. After any sequence of builder calls that recorded no error, with at
  least one step and no dependency on an unknown step, \<open>Build\<close> returns a definition exactly when
  the dependencies have no cycle; its order then lists every step once, each after the steps it
  depends on.
\<close>

theorem Build_correct:
  assumes "b = foldl builder_act (Define name) ops" and "bd_err b = None" and "bd_steps b \<noteq> []"
    and "unknown_dep (map fst (bd_steps b)) (bd_steps b) = None"
  shows "((\<exists>d. Build b = Inl d) \<longleftrightarrow> acyclic (graph_rel (map fst (bd_steps b)) (step_deps (bd_steps b))))
     \<and> (\<forall>d. Build b = Inl d \<longrightarrow> distinct (df_order d) \<and> set (df_order d) = fst ` set (bd_steps b)
          \<and> topological (step_deps (bd_steps b)) (df_order d))"
proof -
  have "builder_ok (Define name)" by (simp add: builder_ok_def Define_def)
  then have ok: "builder_ok b" unfolding assms(1) by (rule builder_ok_run)
  show ?thesis
    using Build_exact [OF ok assms(2-4)] Build_ok [OF ok] by (auto simp: def_ok_def)
qed

definition no_evidence :: Evidence where
  "no_evidence = \<lparr>ev_Time = 0, ev_Event = '''', ev_Summary = '''', ev_Attrs = []\<rparr>"

definition succeed :: ActionFunc where
  "succeed n ec = (\<lparr>re_Evidence = no_evidence, re_Ambiguous = False\<rparr>, None)"

definition deploy_ops :: "builder_op list" where
  "deploy_ops = [BStep ''migrate'' (Some succeed), BStep ''backup'' (Some succeed), BDepend ''migrate'' [''backup'']]"

theorem Build_correct_witness:
  "\<exists>d. Build (foldl builder_act (Define ''deploy'') deploy_ops) = Inl d \<and> distinct (df_order d)
     \<and> set (df_order d) = {''backup'', ''migrate''}"
proof -
  let ?b = "foldl builder_act (Define ''deploy'') deploy_ops"
  have b: "bd_err ?b = None" "bd_steps ?b \<noteq> []" "unknown_dep (map fst (bd_steps ?b)) (bd_steps ?b) = None"
    "map fst (bd_steps ?b) = [''migrate'', ''backup'']"
    by (simp_all add: deploy_ops_def Define_def builder_Step_def builder_Depend_def set_step_def)
  have "isl (Build ?b)" by code_simp
  then obtain d where d: "Build ?b = Inl d" by (auto simp: isl_def)
  have "fst ` set (bd_steps ?b) = {''backup'', ''migrate''}"
    using arg_cong [OF b(4), of set] by auto
  with Build_correct [OF refl b(1-3)] d show ?thesis by auto
qed

end
