(* ===== verification/Workflow_Store.thy ===== *)
theory Workflow_Store
  imports Workflow_Defs
begin

text \<open>
  \<open>workflow/store.go\<close>: the three stores of checkpoints. Clones are equal values. The contract the
  engine relies on is the locale \<open>checkpoint_store\<close>, interpreted for the memory store and the journal
  store. JSON encoding is a pair of functions, with the laws the code relies
  on as hypotheses of \<open>json_codec\<close>; a write to a file may stop after any number of bytes.
\<close>

record Checkpoint =
  cp_InstanceID :: string
  cp_Workflow :: string
  cp_State :: State
  cp_Steps :: "(string \<times> StepState) list"
  cp_UpdatedAt :: time
  cp_DryRun :: bool
  cp_Attrs :: "(string \<times> string) list"
  cp_CompletedSteps :: "string list"
  cp_EpochAtStep :: "(string \<times> u64) list"

definition zero_checkpoint :: Checkpoint where
  "zero_checkpoint = \<lparr>cp_InstanceID = '''', cp_Workflow = '''', cp_State = StateOther '''', cp_Steps = [],
     cp_UpdatedAt = 0, cp_DryRun = False, cp_Attrs = [], cp_CompletedSteps = [], cp_EpochAtStep = []\<rparr>"

definition DefaultMaxInstances :: nat where
  "DefaultMaxInstances = 256"

definition store_max :: "int \<Rightarrow> nat" where
  "store_max m = (if m \<le> 0 then DefaultMaxInstances else nat m)"

section \<open>The contract\<close>

locale checkpoint_store =
  fixes Save :: "'env \<Rightarrow> time \<Rightarrow> 'st \<Rightarrow> Checkpoint \<Rightarrow> 'st \<times> werror option"
    and Load :: "'st \<Rightarrow> string \<Rightarrow> Checkpoint + werror"
    and Delete :: "'env \<Rightarrow> time \<Rightarrow> 'st \<Rightarrow> string \<Rightarrow> 'st \<times> werror option"
    and inv :: "'st \<Rightarrow> bool" and view :: "'st \<Rightarrow> string \<rightharpoonup> Checkpoint"
  assumes Save_inv: "inv st \<Longrightarrow> inv (fst (Save env t st cp))"
    and Save_ok: "inv st \<Longrightarrow> Save env t st cp = (st', None) \<Longrightarrow>
      view st' = (view st)(cp_InstanceID cp \<mapsto> cp\<lparr>cp_UpdatedAt := t\<rparr>)"
    and Save_frame: "inv st \<Longrightarrow> i \<noteq> cp_InstanceID cp \<Longrightarrow> view (fst (Save env t st cp)) i = view st i"
    and Load_view: "inv st \<Longrightarrow> (case Load st i of Inl cp \<Rightarrow> view st i = Some cp | Inr _ \<Rightarrow> view st i = None)"
    and Delete_inv: "inv st \<Longrightarrow> inv (fst (Delete env t st i))"
    and Delete_ok: "inv st \<Longrightarrow> Delete env t st i = (st', None) \<Longrightarrow> view st' = (view st)(i := None)"
    and Delete_frame: "inv st \<Longrightarrow> j \<noteq> i \<Longrightarrow> view (fst (Delete env t st i)) j = view st j"
begin

lemma Load_saved:
  assumes "inv st" and "Save env t st cp = (st', None)"
  shows "Load st' (cp_InstanceID cp) = Inl (cp\<lparr>cp_UpdatedAt := t\<rparr>)"
proof -
  have "inv st'" using Save_inv [OF assms(1), of env t cp] assms(2) by simp
  from Load_view [OF this, of "cp_InstanceID cp"] Save_ok [OF assms] show ?thesis
    by (auto split: sum.splits)
qed

lemma Load_other:
  assumes "inv st" and "i \<noteq> cp_InstanceID cp" and "Load st i = Inl cp'"
  shows "Load (fst (Save env t st cp)) i = Inl cp'"
  using Load_view [OF Save_inv [OF assms(1)], of env t cp i] Load_view [OF assms(1), of i]
    Save_frame [OF assms(1, 2), of env t] assms(3)
  by (auto split: sum.splits)

lemma Load_deleted:
  assumes "inv st" and "Delete env t st i = (st', None)"
  shows "\<exists>e. Load st' i = Inr e"
proof -
  have "inv st'" using Delete_inv [OF assms(1), of env t i] assms(2) by simp
  from Load_view [OF this, of i] Delete_ok [OF assms] show ?thesis by (auto split: sum.splits)
qed

end

section \<open>The memory store\<close>

record MemoryStore =
  ms_data :: "(string \<times> Checkpoint) list"
  ms_max :: nat

definition NewMemoryStore :: "int \<Rightarrow> MemoryStore" where
  "NewMemoryStore m = \<lparr>ms_data = [], ms_max = store_max m\<rparr>"

definition ms_Save :: "time \<Rightarrow> MemoryStore \<Rightarrow> Checkpoint \<Rightarrow> MemoryStore \<times> werror option" where
  "ms_Save now s cp =
     (if map_of (ms_data s) (cp_InstanceID cp) = None \<and> length (ms_data s) \<ge> ms_max s then
        (s, Some (werr ''Store.Save'' '''' '''' ErrWorkflowBound ''max instances''))
      else (s\<lparr>ms_data := AList.update (cp_InstanceID cp) (cp\<lparr>cp_UpdatedAt := now\<rparr>) (ms_data s)\<rparr>, None))"

definition ms_Load :: "MemoryStore \<Rightarrow> string \<Rightarrow> Checkpoint + werror" where
  "ms_Load s i =
     (case map_of (ms_data s) i of
        None \<Rightarrow> Inr (werr ''Store.Load'' '''' '''' ErrInstanceNotFound ''not found'')
      | Some cp \<Rightarrow> Inl cp)"

definition ms_Delete :: "MemoryStore \<Rightarrow> string \<Rightarrow> MemoryStore \<times> werror option" where
  "ms_Delete s i = (s\<lparr>ms_data := AList.delete i (ms_data s)\<rparr>, None)"

definition ms_List :: "MemoryStore \<Rightarrow> Checkpoint list + werror" where
  "ms_List s = Inl (map snd (ms_data s))"

definition ms_inv :: "MemoryStore \<Rightarrow> bool" where
  "ms_inv s \<longleftrightarrow> distinct (map fst (ms_data s)) \<and> length (ms_data s) \<le> ms_max s"

lemma ms_inv_save: "ms_inv s \<Longrightarrow> ms_inv (fst (ms_Save now s cp))"
  by (cases "map_of (ms_data s) (cp_InstanceID cp)")
    (auto simp: ms_inv_def ms_Save_def distinct_update length_update_new length_update_old)

lemma ms_inv_delete: "ms_inv s \<Longrightarrow> ms_inv (fst (ms_Delete s i))"
  using length_delete_le [of i "ms_data s"] by (simp add: ms_inv_def ms_Delete_def distinct_delete)

interpretation mst: checkpoint_store "\<lambda>_ :: unit. ms_Save" ms_Load "\<lambda>_ _. ms_Delete" ms_inv
  "\<lambda>s. map_of (ms_data s)"
proof unfold_locales
  fix st st' :: MemoryStore and t cp
  assume "ms_inv st" and "ms_Save t st cp = (st', None)"
  then show "map_of (ms_data st') = (map_of (ms_data st))(cp_InstanceID cp \<mapsto> cp\<lparr>cp_UpdatedAt := t\<rparr>)"
    by (auto simp: ms_Save_def update_conv' split: if_splits)
next
  fix st :: MemoryStore and i
  show "case ms_Load st i of Inl cp \<Rightarrow> map_of (ms_data st) i = Some cp | Inr _ \<Rightarrow> map_of (ms_data st) i = None"
    by (simp add: ms_Load_def split: option.splits)
qed (simp_all add: ms_inv_save ms_inv_delete,
    auto simp: ms_Save_def ms_Delete_def update_conv delete_conv')

section \<open>JSON\<close>

text \<open>
  What the stores rely on: a value is read back as it was written, and a compact encoding contains
  no line feed. \<open>json_codec\<close> states it for the values of a set, those a program run encodes.
\<close>

record 'a codec =
  marshal :: "'a \<Rightarrow> string"
  unmarshal :: "string \<Rightarrow> 'a option"

definition newline :: char where
  "newline = CHR 0x0A"

definition json_codec :: "'a codec \<Rightarrow> 'a set \<Rightarrow> bool" where
  "json_codec c A \<longleftrightarrow> (\<forall>x \<in> A. unmarshal c (marshal c x) = Some x \<and> marshal c x \<noteq> [] \<and> newline \<notin> set (marshal c x))"

section \<open>The file store\<close>

text \<open>
  The file holds one encoded map; \<open>None\<close> is a missing file. A call of the operating system may fail
  with an error: reading, or any step of writing before the rename, which leaves the file as it was.
\<close>

record file_fault =
  ff_read :: "string option"
  ff_write :: "string option"

record FileStore =
  fs_file :: "string option"
  fs_max :: nat

type_synonym cp_map = "(string \<times> Checkpoint) list"

definition NewFileStore :: "int \<Rightarrow> string option \<Rightarrow> FileStore" where
  "NewFileStore m file = \<lparr>fs_file = file, fs_max = store_max m\<rparr>"

definition fs_load :: "cp_map codec \<Rightarrow> string option \<Rightarrow> string option \<Rightarrow> cp_map + werror" where
  "fs_load c fault file =
     (case fault of
        Some e \<Rightarrow> Inr (WOther e)
      | None \<Rightarrow>
          (case file of
             None \<Rightarrow> Inl []
           | Some raw \<Rightarrow>
               if raw = '''' then Inl []
               else case unmarshal c raw of
                 None \<Rightarrow> Inr (WOther ''json'')
               | Some all \<Rightarrow> Inl all))"

definition fs_write :: "cp_map codec \<Rightarrow> string option \<Rightarrow> FileStore \<Rightarrow> cp_map \<Rightarrow> FileStore \<times> werror option" where
  "fs_write c fault s all =
     (case fault of
        Some e \<Rightarrow> (s, Some (WOther e))
      | None \<Rightarrow> (s\<lparr>fs_file := Some (marshal c all)\<rparr>, None))"

definition fs_Save ::
  "cp_map codec \<Rightarrow> file_fault \<Rightarrow> time \<Rightarrow> FileStore \<Rightarrow> Checkpoint \<Rightarrow> FileStore \<times> werror option" where
  "fs_Save c f now s cp =
     (case fs_load c (ff_read f) (fs_file s) of
        Inr e \<Rightarrow> (s, Some e)
      | Inl all \<Rightarrow>
          if map_of all (cp_InstanceID cp) = None \<and> length all \<ge> fs_max s then
            (s, Some (werr ''FileStore.Save'' '''' '''' ErrWorkflowBound ''max instances''))
          else fs_write c (ff_write f) s (AList.update (cp_InstanceID cp) (cp\<lparr>cp_UpdatedAt := now\<rparr>) all))"

definition fs_Load :: "cp_map codec \<Rightarrow> string option \<Rightarrow> FileStore \<Rightarrow> string \<Rightarrow> Checkpoint + werror" where
  "fs_Load c fault s i =
     (case fs_load c fault (fs_file s) of
        Inr e \<Rightarrow> Inr e
      | Inl all \<Rightarrow>
          (case map_of all i of
             None \<Rightarrow> Inr (werr ''FileStore.Load'' '''' '''' ErrInstanceNotFound ''not found'')
           | Some cp \<Rightarrow> Inl cp))"

definition fs_Delete :: "cp_map codec \<Rightarrow> file_fault \<Rightarrow> FileStore \<Rightarrow> string \<Rightarrow> FileStore \<times> werror option" where
  "fs_Delete c f s i =
     (case fs_load c (ff_read f) (fs_file s) of
        Inr e \<Rightarrow> (s, Some e)
      | Inl all \<Rightarrow> fs_write c (ff_write f) s (AList.delete i all))"

definition fs_List :: "cp_map codec \<Rightarrow> string option \<Rightarrow> FileStore \<Rightarrow> Checkpoint list + werror" where
  "fs_List c fault s =
     (case fs_load c fault (fs_file s) of Inr e \<Rightarrow> Inr e | Inl all \<Rightarrow> Inl (map snd all))"

section \<open>The journal store\<close>

record journalRecord =
  jr_Op :: string
  jr_Checkpoint :: Checkpoint
  jr_InstanceID :: string
  jr_At :: time

record JournalStore =
  js_max :: nat
  js_data :: "(string \<times> Checkpoint) list"
  js_file :: string

text \<open>Go's loop with its two indices: the pieces between line feeds, the last one if not empty.\<close>

fun splitLines_from :: "string \<Rightarrow> string \<Rightarrow> string list" where
  "splitLines_from cur [] = (if cur = [] then [] else [cur])"
| "splitLines_from cur (c # cs) = (if c = newline then cur # splitLines_from [] cs else splitLines_from (cur @ [c]) cs)"

definition splitLines :: "string \<Rightarrow> string list" where
  "splitLines raw = splitLines_from [] raw"

definition replay_line :: "journalRecord codec \<Rightarrow> cp_map \<Rightarrow> string \<Rightarrow> cp_map" where
  "replay_line c data line =
     (if line = '''' then data
      else case unmarshal c line of
        None \<Rightarrow> data
      | Some rec \<Rightarrow>
          if jr_Op rec = ''save'' then
            AList.update (cp_InstanceID (jr_Checkpoint rec)) (jr_Checkpoint rec) data
          else if jr_Op rec = ''delete'' then AList.delete (jr_InstanceID rec) data
          else data)"

definition replay :: "journalRecord codec \<Rightarrow> string \<Rightarrow> cp_map" where
  "replay c raw = foldl (replay_line c) [] (splitLines raw)"

definition NewJournalStore :: "journalRecord codec \<Rightarrow> string option \<Rightarrow> string \<Rightarrow> int \<Rightarrow> JournalStore + werror" where
  "NewJournalStore c fault file m =
     (case fault of
        Some e \<Rightarrow> Inr (WOther e)
      | None \<Rightarrow> Inl \<lparr>js_max = store_max m, js_data = replay c file, js_file = file\<rparr>)"

text \<open>
  An append writes the encoded record and a line feed. A fault \<open>(n, e)\<close> lets \<open>n\<close> bytes reach the file
  before the call returns the error \<open>e\<close> (or before the process dies).
\<close>

definition appendLocked :: "journalRecord codec \<Rightarrow> (nat \<times> string) option \<Rightarrow> JournalStore \<Rightarrow> journalRecord \<Rightarrow>
  JournalStore \<times> werror option" where
  "appendLocked c fault s rec =
     (let line = marshal c rec @ [newline]
      in case fault of
           None \<Rightarrow> (s\<lparr>js_file := js_file s @ line\<rparr>, None)
         | Some (n, e) \<Rightarrow> (s\<lparr>js_file := js_file s @ take n line\<rparr>, Some (WOther e)))"

definition save_record :: "Checkpoint \<Rightarrow> journalRecord" where
  "save_record cp = \<lparr>jr_Op = ''save'', jr_Checkpoint = cp, jr_InstanceID = '''', jr_At = cp_UpdatedAt cp\<rparr>"

definition delete_record :: "time \<Rightarrow> string \<Rightarrow> journalRecord" where
  "delete_record now i = \<lparr>jr_Op = ''delete'', jr_Checkpoint = zero_checkpoint, jr_InstanceID = i, jr_At = now\<rparr>"

definition js_Save :: "journalRecord codec \<Rightarrow> (nat \<times> string) option \<Rightarrow> time \<Rightarrow> JournalStore \<Rightarrow> Checkpoint \<Rightarrow>
  JournalStore \<times> werror option" where
  "js_Save c fault now s cp =
     (if map_of (js_data s) (cp_InstanceID cp) = None \<and> length (js_data s) \<ge> js_max s then
        (s, Some (werr ''JournalStore.Save'' '''' '''' ErrWorkflowBound ''max instances''))
      else
        (let cp = cp\<lparr>cp_UpdatedAt := now\<rparr>;
             s = s\<lparr>js_data := AList.update (cp_InstanceID cp) cp (js_data s)\<rparr>
         in appendLocked c fault s (save_record cp)))"

definition js_Load :: "JournalStore \<Rightarrow> string \<Rightarrow> Checkpoint + werror" where
  "js_Load s i =
     (case map_of (js_data s) i of
        None \<Rightarrow> Inr (werr ''JournalStore.Load'' '''' '''' ErrInstanceNotFound ''not found'')
      | Some cp \<Rightarrow> Inl cp)"

definition js_Delete :: "journalRecord codec \<Rightarrow> (nat \<times> string) option \<Rightarrow> time \<Rightarrow> JournalStore \<Rightarrow> string \<Rightarrow>
  JournalStore \<times> werror option" where
  "js_Delete c fault now s i =
     appendLocked c fault (s\<lparr>js_data := AList.delete i (js_data s)\<rparr>) (delete_record now i)"

definition js_List :: "JournalStore \<Rightarrow> Checkpoint list + werror" where
  "js_List s = Inl (map snd (js_data s))"

interpretation jst: checkpoint_store "\<lambda>(c, fault). js_Save c fault" js_Load "\<lambda>(c, fault). js_Delete c fault"
  "\<lambda>_. True" "\<lambda>s. map_of (js_data s)"
proof unfold_locales
  fix st st' :: JournalStore and env :: "journalRecord codec \<times> (nat \<times> string) option" and t cp
  assume "(case env of (c, fault) \<Rightarrow> js_Save c fault) t st cp = (st', None)"
  then show "map_of (js_data st') = (map_of (js_data st))(cp_InstanceID cp \<mapsto> cp\<lparr>cp_UpdatedAt := t\<rparr>)"
    by (auto simp: js_Save_def appendLocked_def Let_def update_conv' split: if_splits option.splits prod.splits)
next
  fix st :: JournalStore and i
  show "case js_Load st i of Inl cp \<Rightarrow> map_of (js_data st) i = Some cp | Inr _ \<Rightarrow> map_of (js_data st) i = None"
    by (simp add: js_Load_def split: option.splits)
qed (auto simp: js_Save_def js_Delete_def appendLocked_def Let_def update_conv delete_conv'
    split: option.splits prod.splits)

lemma fs_roundtrip:
  assumes "fs_Save c f t s cp = (s', None)" and "fs_load c None (fs_file s) = Inl all"
    and "json_codec c {AList.update (cp_InstanceID cp) (cp\<lparr>cp_UpdatedAt := t\<rparr>) all}"
  shows "fs_Load c None s' (cp_InstanceID cp) = Inl (cp\<lparr>cp_UpdatedAt := t\<rparr>)"
    and "i \<noteq> cp_InstanceID cp \<Longrightarrow> fs_Load c None s' i = fs_Load c None s i"
proof -
  let ?all = "AList.update (cp_InstanceID cp) (cp\<lparr>cp_UpdatedAt := t\<rparr>) all"
  have "fs_load c (ff_read f) (fs_file s) = Inl all"
    using assms(1, 2) by (auto simp: fs_Save_def fs_load_def split: option.splits sum.splits)
  then have "fs_file s' = Some (marshal c ?all)"
    using assms(1) by (auto simp: fs_Save_def fs_write_def split: if_splits option.splits)
  then have load: "fs_load c None (fs_file s') = Inl ?all"
    using assms(3) by (simp add: fs_load_def json_codec_def)
  show "fs_Load c None s' (cp_InstanceID cp) = Inl (cp\<lparr>cp_UpdatedAt := t\<rparr>)"
    by (simp add: fs_Load_def load update_conv)
  show "i \<noteq> cp_InstanceID cp \<Longrightarrow> fs_Load c None s' i = fs_Load c None s i"
    by (simp add: fs_Load_def load assms(2) update_conv)
qed

section \<open>Recovery of a journal\<close>

definition lines_of :: "journalRecord codec \<Rightarrow> journalRecord list \<Rightarrow> string" where
  "lines_of c recs = concat (map (\<lambda>r. marshal c r @ [newline]) recs)"

fun apply_record :: "cp_map \<Rightarrow> journalRecord \<Rightarrow> cp_map" where
  "apply_record data rec =
     (if jr_Op rec = ''save'' then AList.update (cp_InstanceID (jr_Checkpoint rec)) (jr_Checkpoint rec) data
      else if jr_Op rec = ''delete'' then AList.delete (jr_InstanceID rec) data
      else data)"

lemma splitLines_line: "newline \<notin> set l \<Longrightarrow> splitLines_from cur (l @ newline # rest) = (cur @ l) # splitLines_from [] rest"
  by (induction l arbitrary: cur) auto

lemma splitLines_tail: "newline \<notin> set l \<Longrightarrow> splitLines_from cur l = (if cur @ l = [] then [] else [cur @ l])"
  by (induction l arbitrary: cur) auto

lemma splitLines_lines:
  assumes "json_codec c (set recs)"
  shows "splitLines (lines_of c recs @ rest) = map (marshal c) recs @ splitLines rest"
  using assms
  by (induction recs) (simp_all add: splitLines_def lines_of_def json_codec_def splitLines_line)

lemma replay_rest:
  assumes "json_codec c (set recs)"
  shows "replay c (lines_of c recs @ rest) = foldl (replay_line c) (foldl apply_record [] recs) (splitLines rest)"
proof -
  have "foldl (replay_line c) data (map (marshal c) recs) = foldl apply_record data recs" for data
    using assms by (induction recs arbitrary: data) (auto simp: replay_line_def json_codec_def)
  then show ?thesis by (simp add: replay_def splitLines_lines [OF assms])
qed

lemma replay_lines:
  assumes "json_codec c (set recs)" and "newline \<notin> set tail"
  shows "replay c (lines_of c recs @ tail) = replay_line c (foldl apply_record [] recs) tail"
  using assms(2) by (simp add: replay_rest [OF assms(1)] splitLines_def splitLines_tail) (simp add: replay_line_def)

datatype js_op = JSave time Checkpoint | JDelete time string

primrec js_act :: "journalRecord codec \<Rightarrow> (nat \<times> string) option \<Rightarrow> JournalStore \<Rightarrow> js_op \<Rightarrow> JournalStore \<times> werror option" where
  "js_act c fault s (JSave t cp) = js_Save c fault t s cp"
| "js_act c fault s (JDelete t i) = js_Delete c fault t s i"

text \<open>The records a call appends: none when it is refused.\<close>

primrec js_recs :: "JournalStore \<Rightarrow> js_op \<Rightarrow> journalRecord list" where
  "js_recs s (JSave t cp) =
     (if map_of (js_data s) (cp_InstanceID cp) = None \<and> length (js_data s) \<ge> js_max s then []
      else [save_record (cp\<lparr>cp_UpdatedAt := t\<rparr>)])"
| "js_recs s (JDelete t i) = [delete_record t i]"

lemma js_act_ok:
  "js_data (fst (js_act c fault s a)) = foldl apply_record (js_data s) (js_recs s a)"
  "js_max (fst (js_act c fault s a)) = js_max s"
  "js_file (fst (js_act c fault s a)) = js_file s @
     (case fault of None \<Rightarrow> lines_of c (js_recs s a) | Some (n, e) \<Rightarrow> take n (lines_of c (js_recs s a)))"
  by (cases a; simp add: js_Save_def js_Delete_def appendLocked_def Let_def save_record_def delete_record_def
      lines_of_def split: option.splits)+

fun js_run :: "journalRecord codec \<Rightarrow> JournalStore \<Rightarrow> js_op list \<Rightarrow> JournalStore" where
  "js_run c s [] = s"
| "js_run c s (a # as) = js_run c (fst (js_act c None s a)) as"

fun js_trace :: "journalRecord codec \<Rightarrow> JournalStore \<Rightarrow> js_op list \<Rightarrow> journalRecord list" where
  "js_trace c s [] = []"
| "js_trace c s (a # as) = js_recs s a @ js_trace c (fst (js_act c None s a)) as"

lemma js_run_file: "js_file (js_run c s as) = js_file s @ lines_of c (js_trace c s as)"
  by (induction as arbitrary: s) (simp_all add: js_act_ok lines_of_def)

lemma js_run_data: "js_data (js_run c s as) = foldl apply_record (js_data s) (js_trace c s as)"
  by (induction as arbitrary: s) (simp_all add: js_act_ok)

definition empty_journal :: "int \<Rightarrow> JournalStore" where
  "empty_journal m = \<lparr>js_max = store_max m, js_data = [], js_file = []\<rparr>"

text \<open>
  C19. A journal recovers what it stored. Let a journal that started empty take any sequence of saves
  and deletes, and let the process die while it appends one more record, after any number of bytes
  (all of them included). Opening the file again gives exactly the checkpoints the store held
  before that last call, or exactly those it held after it. Encoded records are read back as
  written, hold no line feed, and no proper prefix of one is itself a record.
\<close>

theorem journal_crash_recovery:
  assumes "s = js_run c (empty_journal m) as"
    and "json_codec c (set (js_trace c (empty_journal m) as @ js_recs s a))"
    and "\<forall>r \<in> set (js_recs s a). \<forall>k. 0 < k \<and> k < length (marshal c r) \<longrightarrow> unmarshal c (take k (marshal c r)) = None"
    and "js_act c (Some (n, e)) s a = (s', err)"
  shows "replay c (js_file s) = js_data s
     \<and> (replay c (js_file s') = js_data s \<or> replay c (js_file s') = js_data s')"
proof -
  let ?tr = "js_trace c (empty_journal m) as"
  have fileq: "js_file s = lines_of c ?tr" and data: "js_data s = foldl apply_record [] ?tr"
    by (simp_all add: assms(1) js_run_file js_run_data empty_journal_def)
  have codec: "json_codec c (set ?tr)" using assms(2) by (simp add: json_codec_def)
  have file': "js_file s' = lines_of c ?tr @ take n (lines_of c (js_recs s a))"
    and data': "js_data s' = foldl apply_record (js_data s) (js_recs s a)"
    using js_act_ok [of c "Some (n, e)" s a] assms(4) by (simp_all add: fileq)
  have old: "replay c (js_file s) = js_data s"
    using replay_lines [OF codec, of "[]"] by (simp add: fileq data replay_line_def)
  have "replay c (js_file s') = js_data s \<or> replay c (js_file s') = js_data s'"
  proof (cases "js_recs s a")
    case Nil
    then show ?thesis using old by (simp add: file' fileq lines_of_def)
  next
    case (Cons r rs)
    then have recs: "js_recs s a = [r]" by (cases a) (auto split: if_splits)
    have r: "unmarshal c (marshal c r) = Some r" "marshal c r \<noteq> []" "newline \<notin> set (marshal c r)"
      using assms(2) by (simp_all add: recs json_codec_def)
    have torn: "unmarshal c (take k (marshal c r)) = None" if "0 < k" "k < length (marshal c r)" for k
      using assms(3) that by (simp add: recs)
    have applied: "js_data s' = apply_record (js_data s) r" by (simp add: data' recs)
    have notl: "newline \<notin> set (take n (marshal c r))" using r(3) by (meson in_set_takeD)
    consider "n = 0" | "0 < n" "n < length (marshal c r)" | "n = length (marshal c r)" | "length (marshal c r) < n"
      by linarith
    then show ?thesis
    proof cases
      case 4
      then have "take n (lines_of c [r]) = lines_of c [r]" by (simp add: lines_of_def)
      then have "js_file s' = lines_of c (?tr @ [r]) @ []" by (simp add: file' recs lines_of_def)
      moreover have "json_codec c (set (?tr @ [r]))" using assms(2) by (simp add: recs json_codec_def)
      ultimately show ?thesis using replay_lines [of c "?tr @ [r]" "[]"]
        by (simp add: applied data replay_line_def)
    qed (use replay_lines [OF codec notl] torn [of n] r in
        \<open>simp_all add: file' recs lines_of_def applied data [symmetric] replay_line_def del: apply_record.simps\<close>,
        simp_all add: replay_line_def)
  qed
  with old show ?thesis by simp
qed

definition two_codec :: "journalRecord \<Rightarrow> journalRecord \<Rightarrow> journalRecord codec" where
  "two_codec r1 r2 =
     \<lparr>marshal = (\<lambda>r. if r = r1 then ''{1}'' else if r = r2 then ''{2}'' else ''{}''),
      unmarshal = (\<lambda>s. if s = ''{1}'' then Some r1 else if s = ''{2}'' then Some r2 else None)\<rparr>"

definition sample_cp :: "string \<Rightarrow> Checkpoint" where
  "sample_cp i = zero_checkpoint\<lparr>cp_InstanceID := i, cp_State := StateRunning\<rparr>"

definition sample_rec :: "time \<Rightarrow> string \<Rightarrow> journalRecord" where
  "sample_rec t i = save_record ((sample_cp i)\<lparr>cp_UpdatedAt := t\<rparr>)"

definition sample_codec :: "journalRecord codec" where
  "sample_codec = two_codec (sample_rec 1 ''a'') (sample_rec 2 ''b'')"

lemma sample_rec_neq: "sample_rec 1 ''a'' \<noteq> sample_rec 2 ''b''"
  by (simp add: sample_rec_def save_record_def sample_cp_def)

lemma sample_json: "json_codec sample_codec {sample_rec 1 ''a'', sample_rec 2 ''b''}"
  using sample_rec_neq
  by (auto simp: json_codec_def sample_codec_def two_codec_def newline_def)

lemma take_three: "0 < k \<Longrightarrow> k < 3 \<Longrightarrow> take k [a, b, c] = [a] \<or> take k [a, b, c] = [a, b]"
  by (cases "k = 1") (auto simp: numeral_eq_Suc take_Cons' less_Suc_eq)

theorem journal_crash_recovery_witness:
  "\<exists>s s' err. js_act sample_codec (Some (2, ''killed'')) s (JSave 2 (sample_cp ''b'')) = (s', err)
     \<and> map fst (js_data s) = [''a''] \<and> js_file s = ''{1}'' @ [newline]
     \<and> (replay sample_codec (js_file s') = js_data s \<or> replay sample_codec (js_file s') = js_data s')"
proof -
  let ?as = "[JSave 1 (sample_cp ''a'')]" and ?a = "JSave 2 (sample_cp ''b'')"
  let ?s = "js_run sample_codec (empty_journal 4) ?as"
  have data: "js_data ?s = [(''a'', (sample_cp ''a'')\<lparr>cp_UpdatedAt := 1\<rparr>)]" "js_max ?s = 4"
    "js_trace sample_codec (empty_journal 4) ?as = [sample_rec 1 ''a'']"
    by (simp_all add: js_Save_def appendLocked_def Let_def empty_journal_def store_max_def sample_rec_def
        save_record_def)
      (simp_all add: sample_cp_def)
  have recs: "js_recs ?s ?a = [sample_rec 2 ''b'']"
    unfolding js_recs.simps data by (simp add: sample_rec_def sample_cp_def)
  have fileq: "js_file ?s = ''{1}'' @ [newline]"
    by (simp only: js_run_file data(3)) (simp add: empty_journal_def lines_of_def sample_codec_def two_codec_def)
  obtain s' err where step: "js_act sample_codec (Some (2, ''killed'')) ?s ?a = (s', err)" by force
  have m2: "marshal sample_codec (sample_rec 2 ''b'') = ''{2}''"
    using sample_rec_neq by (simp add: sample_codec_def two_codec_def)
  have torn: "unmarshal sample_codec (take k ''{2}'') = None" if "0 < k \<and> k < length ''{2}''" for k
    using that take_three [of k "CHR ''{''" "CHR ''2''" "CHR ''}''"]
    by (auto simp: sample_codec_def two_codec_def)
  have "replay sample_codec (js_file ?s) = js_data ?s
     \<and> (replay sample_codec (js_file s') = js_data ?s \<or> replay sample_codec (js_file s') = js_data s')"
  proof (rule journal_crash_recovery [OF refl _ _ step])
    show "json_codec sample_codec (set (js_trace sample_codec (empty_journal 4) ?as @ js_recs ?s ?a))"
      unfolding data(3) recs using sample_json by simp
    show "\<forall>r \<in> set (js_recs ?s ?a). \<forall>k. 0 < k \<and> k < length (marshal sample_codec r) \<longrightarrow>
        unmarshal sample_codec (take k (marshal sample_codec r)) = None"
      unfolding recs using torn by (simp add: m2)
  qed
  then have "replay sample_codec (js_file s') = js_data ?s \<or> replay sample_codec (js_file s') = js_data s'" ..
  moreover have "map fst (js_data ?s) = [''a'']" unfolding data by simp
  ultimately show ?thesis using step fileq by (metis (no_types))
qed

text \<open>
  C37. A torn line swallows the next record. After a crash in the middle of an append, the journal is
  reopened without repairing the incomplete last line. A save that then returns nil is visible in
  the running store, but its line continues the torn one: when the file is opened again the
  checkpoint is gone.
\<close>

theorem journal_torn_line_loses_next:
  assumes "s = js_run c (empty_journal m) as" and "json_codec c (set (js_trace c (empty_journal m) as))"
    and "js_recs s (JSave t1 cp1) = [r1]" and "0 < n" and "n < length (marshal c r1)"
    and "unmarshal c (take n (marshal c r1)) = None" and "newline \<notin> set (marshal c r1)"
    and "js_Save c (Some (n, e)) t1 s cp1 = (s', Some err)"
    and "NewJournalStore c None (js_file s') m = Inl s1"
    and "js_Save c None t2 s1 cp2 = (s2, None)"
    and "r2 = save_record (cp2\<lparr>cp_UpdatedAt := t2\<rparr>)" and "newline \<notin> set (marshal c r2)"
    and "unmarshal c (take n (marshal c r1) @ marshal c r2) = None"
    and "NewJournalStore c None (js_file s2) m = Inl s3"
  shows "js_Load s2 (cp_InstanceID cp2) = Inl (cp2\<lparr>cp_UpdatedAt := t2\<rparr>) \<and> js_data s3 = js_data s"
proof -
  let ?tr = "js_trace c (empty_journal m) as" and ?torn = "take n (marshal c r1)"
  have fileq: "js_file s = lines_of c ?tr" and data: "js_data s = foldl apply_record [] ?tr"
    by (simp_all add: assms(1) js_run_file js_run_data empty_journal_def)
  have "js_file s' = lines_of c ?tr @ ?torn"
    using js_act_ok(3) [of c "Some (n, e)" s "JSave t1 cp1"] assms(3, 5, 8)
    by (simp add: fileq lines_of_def)
  then have f1: "js_file s1 = lines_of c ?tr @ ?torn" using assms(9) by (auto simp: NewJournalStore_def)
  have f2: "js_file s2 = js_file s1 @ marshal c r2 @ [newline]"
    using assms(10, 11) by (auto simp: js_Save_def appendLocked_def Let_def split: if_splits)
  have "newline \<notin> set (?torn @ marshal c r2)" using assms(7, 12) by (auto dest: in_set_takeD)
  then have "splitLines ((?torn @ marshal c r2) @ newline # []) = [?torn @ marshal c r2]"
    unfolding splitLines_def by (subst splitLines_line) simp_all
  moreover have "js_file s2 = lines_of c ?tr @ (?torn @ marshal c r2) @ newline # []" by (simp add: f2 f1)
  ultimately have "replay c (js_file s2) = js_data s"
    using assms(13) by (simp only: replay_rest [OF assms(2)] data) (simp add: replay_line_def)
  moreover have "js_Load s2 (cp_InstanceID cp2) = Inl (cp2\<lparr>cp_UpdatedAt := t2\<rparr>)"
    using jst.Load_saved [where env = "(c, None)" and t = t2 and st = s1 and cp = cp2 and st' = s2] assms(10)
    by simp
  ultimately show ?thesis using assms(14) by (auto simp: NewJournalStore_def)
qed

theorem journal_torn_line_loses_next_witness:
  "\<exists>s2 s3 cp. js_Load s2 ''b'' = Inl cp \<and> NewJournalStore sample_codec None (js_file s2) 4 = Inl s3
     \<and> js_data s3 = []"
proof -
  let ?s = "empty_journal 4" and ?c = sample_codec
  let ?s' = "fst (js_Save ?c (Some (2, ''killed'')) 1 ?s (sample_cp ''a''))"
  define s1 where "s1 = \<lparr>js_max = 4, js_data = replay ?c (js_file ?s'), js_file = js_file ?s'\<rparr>"
  have m: "marshal ?c (sample_rec 1 ''a'') = ''{1}''" "marshal ?c (sample_rec 2 ''b'') = ''{2}''"
    using sample_rec_neq by (simp_all add: sample_codec_def two_codec_def)
  have s1: "NewJournalStore ?c None (js_file ?s') 4 = Inl s1"
    by (simp add: NewJournalStore_def s1_def store_max_def)
  obtain err where crash: "js_Save ?c (Some (2, ''killed'')) 1 ?s (sample_cp ''a'') = (?s', Some err)"
    by (simp add: js_Save_def appendLocked_def empty_journal_def store_max_def Let_def)
  have recs: "js_recs ?s (JSave 1 (sample_cp ''a'')) = [sample_rec 1 ''a'']"
    by (simp add: empty_journal_def store_max_def sample_rec_def)
  have file': "js_file ?s' = lines_of ?c [] @ ''{1''"
    using js_act_ok(3) [of ?c "Some (2, ''killed'')" ?s "JSave 1 (sample_cp ''a'')", unfolded recs]
    by (simp add: m lines_of_def) (simp add: empty_journal_def)
  have "replay ?c (js_file ?s') = []"
    unfolding file' by (subst replay_lines) (simp_all add: json_codec_def newline_def replay_line_def
        sample_codec_def two_codec_def)
  then have "js_data s1 = []" by (simp add: s1_def)
  then obtain s2 where s2: "js_Save ?c None 2 s1 (sample_cp ''b'') = (s2, None)"
    by (auto simp: js_Save_def appendLocked_def Let_def s1_def)
  define s3 where "s3 = \<lparr>js_max = 4, js_data = replay ?c (js_file s2), js_file = js_file s2\<rparr>"
  have s3: "NewJournalStore ?c None (js_file s2) 4 = Inl s3"
    by (simp add: NewJournalStore_def s3_def store_max_def)
  have r2: "sample_rec 2 ''b'' = save_record ((sample_cp ''b'')\<lparr>cp_UpdatedAt := 2\<rparr>)"
    by (simp add: sample_rec_def)
  have "js_Load s2 (cp_InstanceID (sample_cp ''b'')) = Inl ((sample_cp ''b'')\<lparr>cp_UpdatedAt := 2\<rparr>)
      \<and> js_data s3 = js_data ?s"
    by (rule journal_torn_line_loses_next [where as = "[]" and n = 2, OF _ _ recs _ _ _ _ crash s1 s2 r2 _ _ s3])
      (simp_all add: m json_codec_def newline_def, simp_all add: sample_codec_def two_codec_def)
  then show ?thesis using s3 by (auto simp: sample_cp_def empty_journal_def)
qed

end
