(* ===== verification/Workflow_Engine.thy ===== *)
theory Workflow_Engine
  imports Workflow_Store
begin

text \<open>
  \<open>workflow/engine.go\<close>: the execution of a definition with checkpoints, compensation, resumption and
  parallel groups. The surroundings of a run are a record of functions of a tick that advances with
  every interaction, so every call may be answered differently: the store, the clock, the context,
  the lockdown gate, the resource lookup and the race of a goroutine for a slot of the semaphore.
  What a run does to the outside is its log, in order: attempted saves with the checkpoint and the
  outcome, actions, compensations and audit records. The actions of a parallel batch are logged in
  the order of the batch; their outcomes are arbitrary.
\<close>

section \<open>State\<close>

record Instance =
  in_ID :: string
  in_Workflow :: string
  in_State :: State
  in_DryRun :: bool
  in_Checkpoint :: Checkpoint

record RunOptions =
  op_InstanceID :: string
  op_DryRun :: bool
  op_OperationID :: string
  op_Attrs :: "(string \<times> string) list"
  op_Resume :: bool

record 'st wenv =
  we_Save :: "nat \<Rightarrow> 'st \<Rightarrow> Checkpoint \<Rightarrow> 'st \<times> werror option"
  we_clock :: "nat \<Rightarrow> time"
  we_ctx :: "nat \<Rightarrow> string option"
  we_blocks :: "nat \<Rightarrow> bool"
  we_Resources :: "(nat \<Rightarrow> ResourceID \<Rightarrow> Entry + resource_error) option"
  we_gate :: "nat \<Rightarrow> string option"

datatype wevent =
    ESave Checkpoint "werror option"
  | EAct string ExecContext
  | EComp string ExecContext
  | EAudit string string string string

record 'st run =
  rn_store :: 'st
  rn_tick :: nat
  rn_log :: "wevent list"

definition emit :: "wevent \<Rightarrow> 'st run \<Rightarrow> 'st run" where
  "emit ev s = s\<lparr>rn_tick := Suc (rn_tick s), rn_log := rn_log s @ [ev]\<rparr>"

definition tick :: "'st run \<Rightarrow> 'st run" where
  "tick s = s\<lparr>rn_tick := Suc (rn_tick s)\<rparr>"

definition wf_audit :: "RunOptions \<Rightarrow> string \<Rightarrow> string \<Rightarrow> string \<Rightarrow> 'st run \<Rightarrow> 'st run" where
  "wf_audit opts action res result s = emit (EAudit action res result (op_OperationID opts)) s"

definition zero_step :: StepState where
  "zero_step = \<lparr>ss_Name = '''', ss_Status = StepNone, ss_Attempt = 0, ss_StartedAt = 0, ss_FinishedAt = 0,
     ss_Error = '''', ss_Evidence = []\<rparr>"

definition step_of :: "Checkpoint \<Rightarrow> string \<Rightarrow> StepState" where
  "step_of cp n = (case map_of (cp_Steps cp) n of None \<Rightarrow> zero_step | Some st \<Rightarrow> st)"

definition status :: "Instance \<Rightarrow> string \<Rightarrow> StepStatus" where
  "status inst n = ss_Status (step_of (in_Checkpoint inst) n)"

definition put_step :: "Instance \<Rightarrow> string \<Rightarrow> StepState \<Rightarrow> Instance" where
  "put_step inst n st =
     inst\<lparr>in_Checkpoint := (in_Checkpoint inst)\<lparr>cp_Steps := AList.update n st (cp_Steps (in_Checkpoint inst))\<rparr>\<rparr>"

definition set_state :: "Instance \<Rightarrow> State \<Rightarrow> Instance" where
  "set_state inst st = inst\<lparr>in_State := st, in_Checkpoint := (in_Checkpoint inst)\<lparr>cp_State := st\<rparr>\<rparr>"

definition epoch_at :: "Instance \<Rightarrow> string \<Rightarrow> u64" where
  "epoch_at inst n = (case map_of (cp_EpochAtStep (in_Checkpoint inst)) n of None \<Rightarrow> 0 | Some e \<Rightarrow> e)"

text \<open>
  A step of the order always exists in a definition that \<open>Build\<close> returned; the default stands for
  the nil pointer the code would meet otherwise.
\<close>

definition nil_step :: StepDef where
  "nil_step = \<lparr>sd_Name = '''', sd_Action = succeed, sd_Compensate = None, sd_DependsOn = [],
     sd_ParallelGroup = '''', sd_Idempotency = Idempotent, sd_Mutates = False, sd_RequiredCaps = no_caps,
     sd_ResourceID = no_id\<rparr>"

definition the_step :: "Definition \<Rightarrow> string \<Rightarrow> StepDef" where
  "the_step d n = (case def_Step d n of None \<Rightarrow> nil_step | Some s \<Rightarrow> s)"

definition persist :: "'st wenv \<Rightarrow> 'st run \<Rightarrow> Instance \<Rightarrow> 'st run \<times> Instance \<times> werror option" where
  "persist env s inst =
     (let cp = (in_Checkpoint inst)\<lparr>cp_State := in_State inst, cp_UpdatedAt := we_clock env (rn_tick s)\<rparr>;
          (st, e) = we_Save env (rn_tick s) (rn_store s) cp
      in (emit (ESave cp e) (s\<lparr>rn_store := st\<rparr>), inst\<lparr>in_Checkpoint := cp\<rparr>, e))"

text \<open>Setting a state and saving it, with the error of the save dropped (\<open>_ = e.persist(inst)\<close>).\<close>

definition save_state :: "'st wenv \<Rightarrow> 'st run \<Rightarrow> Instance \<Rightarrow> State \<Rightarrow> 'st run \<times> Instance" where
  "save_state env s inst st = (case persist env s (set_state inst st) of (s, inst, _) \<Rightarrow> (s, inst))"

definition save_quietly :: "'st wenv \<Rightarrow> 'st run \<Rightarrow> Instance \<Rightarrow> 'st run \<times> Instance" where
  "save_quietly env s inst = (case persist env s inst of (s, inst, _) \<Rightarrow> (s, inst))"

definition exec_context :: "Definition \<Rightarrow> RunOptions \<Rightarrow> Instance \<Rightarrow> StepDef \<Rightarrow> string \<Rightarrow> int \<Rightarrow> ResourceEpoch \<Rightarrow> ExecContext" where
  "exec_context d opts inst step n attempt epoch =
     \<lparr>ec_Workflow = df_Name d, ec_InstanceID = in_ID inst, ec_Step = n, ec_Attempt = attempt,
      ec_DryRun = in_DryRun inst, ec_OperationID = op_OperationID opts, ec_Attrs = op_Attrs opts,
      ec_ResourceEpoch = epoch, ec_ResourceID = sd_ResourceID step\<rparr>"

definition dry_result :: "time \<Rightarrow> string \<Rightarrow> string \<Rightarrow> Result" where
  "dry_result now event summary =
     \<lparr>re_Evidence = \<lparr>ev_Time = now, ev_Event = event, ev_Summary = summary, ev_Attrs = []\<rparr>, re_Ambiguous = False\<rparr>"

definition lookup_epoch :: "'st wenv \<Rightarrow> 'st run \<Rightarrow> StepDef \<Rightarrow> ResourceEpoch" where
  "lookup_epoch env s step =
     (if ResourceID_IsZero (sd_ResourceID step) then 0
      else case we_Resources env of
        None \<Rightarrow> 0
      | Some get \<Rightarrow> (case get (rn_tick s) (sd_ResourceID step) of Inr _ \<Rightarrow> 0 | Inl ent \<Rightarrow> en_Epoch ent))"

definition locked :: "'st wenv \<Rightarrow> 'st run \<Rightarrow> StepDef \<Rightarrow> bool" where
  "locked env s step \<longleftrightarrow> sd_Mutates step \<and> we_blocks env (rn_tick s)"

section \<open>Compensation\<close>

definition stale_epoch :: "'st wenv \<Rightarrow> 'st run \<Rightarrow> Instance \<Rightarrow> StepDef \<Rightarrow> string \<Rightarrow> ResourceEpoch option" where
  "stale_epoch env s inst step n =
     (if ResourceID_IsZero (sd_ResourceID step) then None
      else case we_Resources env of
        None \<Rightarrow> None
      | Some get \<Rightarrow>
          (case get (rn_tick s) (sd_ResourceID step) of
             Inr _ \<Rightarrow> None
           | Inl ent \<Rightarrow> if en_Epoch ent > epoch_at inst n then Some (en_Epoch ent) else None))"

definition compensate_step :: "'st wenv \<Rightarrow> Definition \<Rightarrow> RunOptions \<Rightarrow> 'st run \<Rightarrow> Instance \<Rightarrow> string \<Rightarrow>
  'st run \<times> Instance \<times> werror option" where
  "compensate_step env d opts s inst n =
     (case def_Step d n of
        None \<Rightarrow> (s, inst, None)
      | Some step \<Rightarrow>
     (case sd_Compensate step of
        None \<Rightarrow> (s, inst, None)
      | Some undo \<Rightarrow>
          if status inst n = StepCompensated then (s, inst, None)
          else if locked env s step then
            (tick s, inst, Some (werr ''Compensate'' (df_Name d) n ErrWorkflowLockdown ''lockdown during compensate''))
          else
            (let s = tick s
             in case stale_epoch env s inst step n of
                  Some cur \<Rightarrow>
                    (tick s, inst, Some (werr ''Compensate'' (df_Name d) n ErrStaleEpoch
                       (''current epoch '' @ decimal (unat cur) @ '' > recorded '' @ decimal (unat (epoch_at inst n)))))
                | None \<Rightarrow>
                    (let s = tick s;
                         st = step_of (in_Checkpoint inst) n;
                         st = st\<lparr>ss_Status := StepCompensating\<rparr>;
                         (s, inst) = save_quietly env s (put_step inst n st);
                         ec = exec_context d opts inst step n (ss_Attempt st) (epoch_at inst n);
                         (s, res, err) =
                           (if in_DryRun inst then
                              (s, dry_result (we_clock env (rn_tick s)) ''dry-run-compensate'' '''', None)
                            else (case undo (rn_tick s) ec of (res, err) \<Rightarrow> (emit (EComp n ec) s, res, err)))
                     in if err \<noteq> None \<or> re_Ambiguous res then
                          (let msg = (case err of Some e \<Rightarrow> werror_Error e | None \<Rightarrow> ''compensation failed'');
                               inst = put_step inst n (st\<lparr>ss_Status := StepFailed, ss_Error := msg\<rparr>);
                               s = wf_audit opts ''workflow.compensate'' n ''failed'' s
                           in (s, inst, Some (werr ''Compensate'' (df_Name d) n ErrCompensationFailed msg)))
                        else
                          (let st = st\<lparr>ss_Status := StepCompensated, ss_FinishedAt := we_clock env (rn_tick s),
                                       ss_Evidence := ss_Evidence st @ [re_Evidence res]\<rparr>;
                               inst = put_step inst n st;
                               s = wf_audit opts ''workflow.compensate'' n ''ok'' s;
                               (s, inst) = save_quietly env s inst
                           in (s, inst, None))))))"

fun compensate_loop :: "'st wenv \<Rightarrow> Definition \<Rightarrow> RunOptions \<Rightarrow> 'st run \<Rightarrow> Instance \<Rightarrow> string list \<Rightarrow>
  'st run \<times> Instance \<times> werror option" where
  "compensate_loop env d opts s inst [] = (s, inst, None)"
| "compensate_loop env d opts s inst (n # ns) =
     (case compensate_step env d opts s inst n of
        (s, inst, Some e) \<Rightarrow> (s, inst, Some e)
      | (s, inst, None) \<Rightarrow> compensate_loop env d opts s inst ns)"

definition compensate :: "'st wenv \<Rightarrow> Definition \<Rightarrow> RunOptions \<Rightarrow> 'st run \<Rightarrow> Instance \<Rightarrow>
  'st run \<times> Instance \<times> werror option" where
  "compensate env d opts s inst =
     (let (s, inst) = save_state env s inst StateCompensating
      in compensate_loop env d opts s inst (rev (cp_CompletedSteps (in_Checkpoint inst))))"

text \<open>The end of every failing path: compensate, then fail with \<open>err\<close> or ask for intervention.\<close>

definition compensate_and_fail :: "'st wenv \<Rightarrow> Definition \<Rightarrow> RunOptions \<Rightarrow> 'st run \<Rightarrow> Instance \<Rightarrow> werror \<Rightarrow>
  'st run \<times> Instance \<times> werror option" where
  "compensate_and_fail env d opts s inst err =
     (case compensate env d opts s inst of
        (s, inst, Some cerr) \<Rightarrow>
          (case save_state env s inst StateRequiresIntervention of (s, inst) \<Rightarrow> (s, inst, Some cerr))
      | (s, inst, None) \<Rightarrow> (case save_state env s inst StateFailed of (s, inst) \<Rightarrow> (s, inst, Some err)))"

definition failResumeNotRetryable :: "'st wenv \<Rightarrow> Definition \<Rightarrow> RunOptions \<Rightarrow> 'st run \<Rightarrow> Instance \<Rightarrow> StepDef \<Rightarrow> StepState \<Rightarrow>
  'st run \<times> Instance \<times> werror option" where
  "failResumeNotRetryable env d opts s inst step st =
     compensate_and_fail env d opts s inst (werr ''Run'' (df_Name d) (sd_Name step) ErrNotRetryable (ss_Error st))"

section \<open>One step\<close>

definition handleStepFailure :: "'st wenv \<Rightarrow> Definition \<Rightarrow> RunOptions \<Rightarrow> 'st run \<Rightarrow> Instance \<Rightarrow> StepDef \<Rightarrow> StepState \<Rightarrow>
  Result \<Rightarrow> werror option \<Rightarrow> 'st run \<times> Instance \<times> werror option" where
  "handleStepFailure env d opts s inst step st res err =
     (let n = sd_Name step; now = we_clock env (rn_tick s);
          msg = (case err of Some e \<Rightarrow> werror_Error e | None \<Rightarrow> '''')
      in if re_Ambiguous res \<or> sd_Idempotency step = RequiresReconciliation
            \<or> (case err of Some e \<Rightarrow> werror_Is e ErrAmbiguous | None \<Rightarrow> False) then
           (let st = st\<lparr>ss_Status := StepReconcile,
                        ss_Error := (if re_Ambiguous res then ''ambiguous outcome'' else msg),
                        ss_FinishedAt := now, ss_Evidence := ss_Evidence st @ [re_Evidence res]\<rparr>;
                (s, inst) = save_state env s (put_step inst n st) StateRequiresReconciliation;
                s = wf_audit opts ''workflow.step.reconcile'' n ''requires-reconciliation'' s
            in (s, inst, Some (werr ''Run'' (df_Name d) n ErrRequiresReconciliation (ss_Error st))))
         else if sd_Idempotency step = NotRetryable
            \<or> (sd_Idempotency step = RequiresOperationID \<and> op_OperationID opts = '''') then
           (let st = st\<lparr>ss_Status := StepFailed,
                        ss_Error := (if sd_Idempotency step = RequiresOperationID \<and> op_OperationID opts = ''''
                                     then ''operation id required for retry'' else msg),
                        ss_FinishedAt := now\<rparr>
            in compensate_and_fail env d opts s (put_step inst n st)
                 (werr ''Run'' (df_Name d) n ErrNotRetryable (ss_Error st)))
         else
           (let st = st\<lparr>ss_Status := StepFailed, ss_Error := msg, ss_FinishedAt := now,
                        ss_Evidence := ss_Evidence st @ [re_Evidence res]\<rparr>
            in case compensate_and_fail env d opts s (put_step inst n st) (WError ''Run'' (df_Name d) n err msg) of
                 (s, inst, e) \<Rightarrow>
                   (if in_State inst = StateFailed then wf_audit opts ''workflow.step.fail'' n ''failed'' s else s,
                    inst, e)))"

definition complete_step :: "Instance \<Rightarrow> string \<Rightarrow> StepState \<Rightarrow> ResourceEpoch \<Rightarrow> Instance" where
  "complete_step inst n st epoch =
     (let inst = put_step inst n st; cp = in_Checkpoint inst
      in inst\<lparr>in_Checkpoint := cp\<lparr>cp_CompletedSteps := cp_CompletedSteps cp @ [n],
                                  cp_EpochAtStep := AList.update n epoch (cp_EpochAtStep cp)\<rparr>\<rparr>)"

definition runStep :: "'st wenv \<Rightarrow> Definition \<Rightarrow> RunOptions \<Rightarrow> 'st run \<Rightarrow> Instance \<Rightarrow> StepDef \<Rightarrow>
  'st run \<times> Instance \<times> werror option" where
  "runStep env d opts s inst step =
     (let n = sd_Name step; now = we_clock env (rn_tick s);
          st = step_of (in_Checkpoint inst) n;
          st = st\<lparr>ss_Name := n, ss_Status := StepRunning, ss_Attempt := ss_Attempt st + 1, ss_StartedAt := now\<rparr>;
          (s, inst) = save_quietly env s (put_step inst n st);
          epoch = lookup_epoch env s step;
          s = tick s;
          ec = exec_context d opts inst step n (ss_Attempt st) epoch;
          (s, res, err) =
            (if in_DryRun inst then (s, dry_result now ''dry-run'' ''skipped side effects'', None)
             else (case sd_Action step (rn_tick s) ec of (res, err) \<Rightarrow> (emit (EAct n ec) s, res, err)))
      in if err \<noteq> None \<or> re_Ambiguous res then handleStepFailure env d opts s inst step st res err
         else
           (let st = st\<lparr>ss_Status := StepCompleted, ss_FinishedAt := we_clock env (rn_tick s),
                        ss_Evidence := ss_Evidence st @ [re_Evidence res]\<rparr>;
                inst = complete_step inst n st epoch;
                s = wf_audit opts ''workflow.step.ok'' n ''completed'' s
            in persist env s inst))"

section \<open>Resumption\<close>

definition prepareStepResume :: "'st wenv \<Rightarrow> Definition \<Rightarrow> RunOptions \<Rightarrow> 'st run \<Rightarrow> Instance \<Rightarrow> string \<Rightarrow>
  'st run \<times> Instance \<times> bool \<times> werror option" where
  "prepareStepResume env d opts s inst n =
     (let st = step_of (in_Checkpoint inst) n; step = the_step d n;
          no_op = sd_Idempotency step = RequiresOperationID \<and> op_OperationID opts = '''';
          reconcile = (\<lambda>inst st. case save_state env s inst StateRequiresReconciliation of (s, inst) \<Rightarrow>
             (s, inst, False, Some (werr ''Run'' (df_Name d) n ErrRequiresReconciliation (ss_Error st))))
      in case ss_Status st of
           StepCompleted \<Rightarrow> (s, inst, True, None)
         | StepCompensated \<Rightarrow> (s, inst, True, None)
         | StepSkipped \<Rightarrow> (s, inst, True, None)
         | StepFailed \<Rightarrow>
             if sd_Idempotency step = NotRetryable \<or> no_op then
               (case failResumeNotRetryable env d opts s inst step st of (s, inst, e) \<Rightarrow> (s, inst, False, e))
             else (s, put_step inst n (st\<lparr>ss_Status := StepPending, ss_Error := ''''\<rparr>), False, None)
         | StepRunning \<Rightarrow>
             if sd_Idempotency step = NotRetryable \<or> sd_Idempotency step = RequiresReconciliation then
               (let st = st\<lparr>ss_Status := StepReconcile,
                            ss_Error := ''interrupted while running; requires reconciliation''\<rparr>
                in reconcile (put_step inst n st) st)
             else if no_op then
               (let st = st\<lparr>ss_Status := StepFailed,
                            ss_Error := ''operation id required to retry interrupted step''\<rparr>
                in case failResumeNotRetryable env d opts s (put_step inst n st) step st of
                     (s, inst, e) \<Rightarrow> (s, inst, False, e))
             else (s, put_step inst n (st\<lparr>ss_Status := StepPending\<rparr>), False, None)
         | StepReconcile \<Rightarrow> reconcile inst st
         | _ \<Rightarrow> (s, inst, False, None))"

section \<open>Sequential execution\<close>

definition cancel_run :: "'st wenv \<Rightarrow> Definition \<Rightarrow> 'st run \<Rightarrow> Instance \<Rightarrow> string \<Rightarrow> 'st run \<times> Instance \<times> werror option" where
  "cancel_run env d s inst msg =
     (case save_state env s inst StateCancelled of (s, inst) \<Rightarrow>
        (s, inst, Some (werr ''Run'' (df_Name d) '''' ErrCancelled msg)))"

definition lock_run :: "'st wenv \<Rightarrow> Definition \<Rightarrow> 'st run \<Rightarrow> Instance \<Rightarrow> string \<Rightarrow> 'st run \<times> Instance \<times> werror option" where
  "lock_run env d s inst n =
     (case save_state env s inst StateLockedDown of (s, inst) \<Rightarrow>
        (s, inst, Some (werr ''Run'' (df_Name d) n ErrWorkflowLockdown ''lockdown blocks mutation step'')))"

definition finish_run :: "'st wenv \<Rightarrow> 'st run \<Rightarrow> Instance \<Rightarrow> 'st run \<times> Instance \<times> werror option" where
  "finish_run env s inst = persist env s (set_state inst StateCompleted)"

fun sequential_loop :: "'st wenv \<Rightarrow> Definition \<Rightarrow> RunOptions \<Rightarrow> 'st run \<Rightarrow> Instance \<Rightarrow> string list \<Rightarrow>
  'st run \<times> Instance \<times> werror option" where
  "sequential_loop env d opts s inst [] = finish_run env s inst"
| "sequential_loop env d opts s inst (n # ns) =
     (case we_ctx env (rn_tick s) of
        Some msg \<Rightarrow> cancel_run env d s inst msg
      | None \<Rightarrow>
          (case prepareStepResume env d opts (tick s) inst n of
             (s, inst, skip, Some e) \<Rightarrow> (s, inst, Some e)
           | (s, inst, True, None) \<Rightarrow> sequential_loop env d opts s inst ns
           | (s, inst, False, None) \<Rightarrow>
               if locked env s (the_step d n) then lock_run env d (tick s) inst n
               else
                 (case runStep env d opts (tick s) inst (the_step d n) of
                    (s, inst, Some e) \<Rightarrow> (s, inst, Some e)
                  | (s, inst, None) \<Rightarrow> sequential_loop env d opts s inst ns)))"

definition executeSequential :: "'st wenv \<Rightarrow> Definition \<Rightarrow> RunOptions \<Rightarrow> 'st run \<Rightarrow> Instance \<Rightarrow>
  'st run \<times> Instance \<times> werror option" where
  "executeSequential env d opts s inst = sequential_loop env d opts s inst (df_order d)"

section \<open>Parallel groups\<close>

definition step_done :: "StepStatus \<Rightarrow> bool" where
  "step_done st \<longleftrightarrow> st = StepCompleted \<or> st = StepCompensated \<or> st = StepSkipped"

text \<open>The scan for ready steps; it resumes interrupted steps on the way.\<close>

fun ready_loop :: "'st wenv \<Rightarrow> Definition \<Rightarrow> RunOptions \<Rightarrow> 'st run \<Rightarrow> Instance \<Rightarrow> string list \<Rightarrow> string list \<Rightarrow> string list \<Rightarrow>
  'st run \<times> Instance \<times> string list \<times> string list \<times> werror option" where
  "ready_loop env d opts s inst done_steps ready [] = (s, inst, done_steps, ready, None)"
| "ready_loop env d opts s inst done_steps ready (n # ns) =
     (if n \<in> set done_steps \<or> status inst n = StepFailed \<or> status inst n = StepReconcile
         \<or> \<not> list_all (\<lambda>m. m \<in> set done_steps) (sd_DependsOn (the_step d n))
      then ready_loop env d opts s inst done_steps ready ns
      else
        (case prepareStepResume env d opts s inst n of
           (s, inst, skip, Some e) \<Rightarrow> (s, inst, done_steps, ready, Some e)
         | (s, inst, True, None) \<Rightarrow> ready_loop env d opts s inst (done_steps @ [n]) ready ns
         | (s, inst, False, None) \<Rightarrow> ready_loop env d opts s inst done_steps (ready @ [n]) ns))"

record prepared =
  pr_name :: string
  pr_step :: StepDef
  pr_exec :: ExecContext
  pr_st :: StepState
  pr_epoch :: ResourceEpoch

record outcome =
  oc_p :: prepared
  oc_res :: Result
  oc_err :: "werror option"

fun locked_member :: "'st wenv \<Rightarrow> Definition \<Rightarrow> 'st run \<Rightarrow> string list \<Rightarrow> 'st run \<times> string option" where
  "locked_member env d s [] = (s, None)"
| "locked_member env d s (n # ns) =
     (if locked env s (the_step d n) then (tick s, Some n) else locked_member env d (tick s) ns)"

fun prepare_batch :: "'st wenv \<Rightarrow> Definition \<Rightarrow> RunOptions \<Rightarrow> time \<Rightarrow> 'st run \<Rightarrow> Instance \<Rightarrow> string list \<Rightarrow>
  'st run \<times> Instance \<times> prepared list" where
  "prepare_batch env d opts now s inst [] = (s, inst, [])"
| "prepare_batch env d opts now s inst (n # ns) =
     (let step = the_step d n; st = step_of (in_Checkpoint inst) n;
          st = st\<lparr>ss_Name := n, ss_Status := StepRunning, ss_Attempt := ss_Attempt st + 1, ss_StartedAt := now\<rparr>;
          inst = put_step inst n st;
          epoch = lookup_epoch env s step;
          p = \<lparr>pr_name = n, pr_step = step, pr_exec = exec_context d opts inst step n (ss_Attempt st) epoch,
               pr_st = st, pr_epoch = epoch\<rparr>
      in case prepare_batch env d opts now (tick s) inst ns of (s, inst, ps) \<Rightarrow> (s, inst, p # ps))"

fun run_batch :: "'st wenv \<Rightarrow> time \<Rightarrow> Instance \<Rightarrow> 'st run \<Rightarrow> prepared list \<Rightarrow> 'st run \<times> outcome list" where
  "run_batch env now inst s [] = (s, [])"
| "run_batch env now inst s (p # ps) =
     (let (s, o') =
        (case we_gate env (rn_tick s) of
           Some msg \<Rightarrow>
             (tick s, \<lparr>oc_p = p, oc_res = \<lparr>re_Evidence = no_evidence, re_Ambiguous = False\<rparr>, oc_err = Some (WContext msg)\<rparr>)
         | None \<Rightarrow>
             if in_DryRun inst then
               (tick s, \<lparr>oc_p = p, oc_res = dry_result now ''dry-run'' ''skipped side effects'', oc_err = None\<rparr>)
             else
               (case sd_Action (pr_step p) (rn_tick s) (pr_exec p) of (res, err) \<Rightarrow>
                  (emit (EAct (pr_name p) (pr_exec p)) s, \<lparr>oc_p = p, oc_res = res, oc_err = err\<rparr>)))
      in case run_batch env now inst s ps of (s, os) \<Rightarrow> (s, o' # os))"

definition failed_outcome :: "outcome \<Rightarrow> bool" where
  "failed_outcome oc \<longleftrightarrow> oc_err oc \<noteq> None \<or> re_Ambiguous (oc_res oc)"

fun apply_outcomes :: "'st wenv \<Rightarrow> RunOptions \<Rightarrow> 'st run \<Rightarrow> Instance \<Rightarrow> outcome list \<Rightarrow> 'st run \<times> Instance" where
  "apply_outcomes env opts s inst [] = (s, inst)"
| "apply_outcomes env opts s inst (oc # os) =
     (if failed_outcome oc then apply_outcomes env opts s inst os
      else
        (let n = pr_name (oc_p oc);
             st = (pr_st (oc_p oc))\<lparr>ss_Status := StepCompleted, ss_FinishedAt := we_clock env (rn_tick s),
               ss_Evidence := ss_Evidence (pr_st (oc_p oc)) @ [re_Evidence (oc_res oc)]\<rparr>;
             inst = complete_step inst n st (pr_epoch (oc_p oc));
             s = wf_audit opts ''workflow.step.ok'' n ''completed'' s
         in apply_outcomes env opts s inst os))"

fun fail_siblings :: "'st wenv \<Rightarrow> 'st run \<Rightarrow> string \<Rightarrow> Instance \<Rightarrow> outcome list \<Rightarrow> Instance" where
  "fail_siblings env s failed inst [] = inst"
| "fail_siblings env s failed inst (oc # os) =
     (let n = pr_name (oc_p oc); st = step_of (in_Checkpoint inst) n
      in fail_siblings env s failed
           (if n \<noteq> failed \<and> ss_Status st = StepRunning then
              put_step inst n (st\<lparr>ss_Status := StepFailed, ss_Error := ''sibling step failed in parallel group'',
                                  ss_FinishedAt := we_clock env (rn_tick s)\<rparr>)
            else inst) os)"

definition batch_failure :: "'st wenv \<Rightarrow> Definition \<Rightarrow> RunOptions \<Rightarrow> 'st run \<Rightarrow> Instance \<Rightarrow> outcome list \<Rightarrow> outcome \<Rightarrow>
  'st run \<times> Instance \<times> werror option" where
  "batch_failure env d opts s inst os oc =
     (let inst = fail_siblings env s (pr_name (oc_p oc)) inst os;
          (s, inst) = save_quietly env s inst
      in case oc_err oc of
           Some e \<Rightarrow>
             if werror_context e then cancel_run env d s inst (werror_Error e)
             else handleStepFailure env d opts s inst (pr_step (oc_p oc)) (pr_st (oc_p oc)) (oc_res oc) (oc_err oc)
         | None \<Rightarrow> handleStepFailure env d opts s inst (pr_step (oc_p oc)) (pr_st (oc_p oc)) (oc_res oc) None)"

definition runParallelBatch :: "'st wenv \<Rightarrow> Definition \<Rightarrow> RunOptions \<Rightarrow> 'st run \<Rightarrow> Instance \<Rightarrow> string list \<Rightarrow>
  'st run \<times> Instance \<times> werror option" where
  "runParallelBatch env d opts s inst names =
     (case locked_member env d s names of
        (s, Some n) \<Rightarrow> lock_run env d s inst n
      | (s, None) \<Rightarrow>
          (let now = we_clock env (rn_tick s);
               (s, inst, preps) = prepare_batch env d opts now s inst names
           in case persist env s inst of
                (s, inst, Some e) \<Rightarrow> (s, inst, Some e)
              | (s, inst, None) \<Rightarrow>
                  (let (s, os) = run_batch env now inst s preps;
                       os = sort_key (\<lambda>oc. pr_name (oc_p oc)) os;
                       (s, inst) = apply_outcomes env opts s inst os;
                       (s, inst) = save_quietly env s inst
                   in case List.find failed_outcome os of
                        None \<Rightarrow> (s, inst, None)
                      | Some oc \<Rightarrow> batch_failure env d opts s inst os oc)))"

definition stuck :: "'st wenv \<Rightarrow> Definition \<Rightarrow> 'st run \<Rightarrow> Instance \<Rightarrow> string list \<Rightarrow> 'st run \<times> Instance \<times> werror option" where
  "stuck env d s inst done_steps =
     (case List.find (\<lambda>n. n \<notin> set done_steps \<and> (status inst n = StepFailed \<or> status inst n = StepReconcile)) (df_order d) of
        Some n \<Rightarrow>
          (let st = step_of (in_Checkpoint inst) n
           in if ss_Status st = StepFailed then
                (case save_state env s inst StateFailed of (s, inst) \<Rightarrow>
                   (s, inst, Some (werr ''Run'' (df_Name d) n ErrNotRetryable (ss_Error st))))
              else
                (case save_state env s inst StateRequiresReconciliation of (s, inst) \<Rightarrow>
                   (s, inst, Some (werr ''Run'' (df_Name d) n ErrRequiresReconciliation (ss_Error st)))))
      | None \<Rightarrow> (s, inst, Some (werr ''Run'' (df_Name d) '''' ErrInvalidState ''no ready steps'')))"

definition group_of :: "Definition \<Rightarrow> string \<Rightarrow> string" where
  "group_of d n = sd_ParallelGroup (the_step d n)"

definition first_group :: "Definition \<Rightarrow> string list \<Rightarrow> string option" where
  "first_group d ready =
     (case sort (filter (\<lambda>g. g \<noteq> '''') (map (group_of d) ready)) of [] \<Rightarrow> None | g # _ \<Rightarrow> Some g)"

text \<open>
  The loop of \<open>executeParallel\<close>. Each round that does not return finishes at least one more step, so
  as many rounds as there are steps, and one for the last test, are enough; running out of rounds is
  \<open>None\<close>.
\<close>

fun parallel_loop :: "nat \<Rightarrow> 'st wenv \<Rightarrow> Definition \<Rightarrow> RunOptions \<Rightarrow> 'st run \<Rightarrow> Instance \<Rightarrow> string list \<Rightarrow>
  ('st run \<times> Instance \<times> werror option) option" where
  "parallel_loop 0 env d opts s inst done_steps = None"
| "parallel_loop (Suc fuel) env d opts s inst done_steps =
     (if \<not> length done_steps < length (df_order d) then Some (finish_run env s inst)
      else case we_ctx env (rn_tick s) of
        Some msg \<Rightarrow> Some (cancel_run env d s inst msg)
      | None \<Rightarrow>
          (case ready_loop env d opts (tick s) inst done_steps [] (df_order d) of
             (s, inst, _, _, Some e) \<Rightarrow> Some (s, inst, Some e)
           | (s, inst, done_steps, ready, None) \<Rightarrow>
               if ready = [] then Some (stuck env d s inst done_steps)
               else case first_group d ready of
                 Some g \<Rightarrow>
                   (let batch = filter (\<lambda>n. group_of d n = g) ready
                    in case runParallelBatch env d opts s inst batch of
                         (s, inst, Some e) \<Rightarrow> Some (s, inst, Some e)
                       | (s, inst, None) \<Rightarrow>
                           parallel_loop fuel env d opts s inst
                             (done_steps @ filter (\<lambda>n. step_done (status inst n)) batch))
               | None \<Rightarrow>
                   (let n = hd ready
                    in if locked env s (the_step d n) then Some (lock_run env d (tick s) inst n)
                       else case runStep env d opts (tick s) inst (the_step d n) of
                              (s, inst, Some e) \<Rightarrow> Some (s, inst, Some e)
                            | (s, inst, None) \<Rightarrow> parallel_loop fuel env d opts s inst (done_steps @ [n]))))"

definition executeParallel :: "'st wenv \<Rightarrow> Definition \<Rightarrow> RunOptions \<Rightarrow> 'st run \<Rightarrow> Instance \<Rightarrow>
  ('st run \<times> Instance \<times> werror option) option" where
  "executeParallel env d opts s inst =
     parallel_loop (Suc (length (df_order d))) env d opts s inst
       (filter (\<lambda>n. step_done (status inst n)) (df_order d))"

section \<open>A run\<close>

definition validateCaps :: "'st wenv \<Rightarrow> 'st run \<Rightarrow> StepDef \<Rightarrow> werror option" where
  "validateCaps env s step =
     (case we_Resources env of
        None \<Rightarrow>
          if sd_RequiredCaps step \<noteq> no_caps then
            Some (werr ''validateCaps'' '''' (sd_Name step) ErrCapability ''resource lookup not configured'')
          else None
      | Some get \<Rightarrow>
          (case get (rn_tick s) (sd_ResourceID step) of
             Inr e \<Rightarrow> Some (werr ''validateCaps'' '''' (sd_Name step) ErrCapability (resource_Error e))
           | Inl ent \<Rightarrow>
               (case Capabilities_Require (rs_Capabilities (en_Resource ent)) (sd_RequiredCaps step) of
                  Some e \<Rightarrow> Some (werr ''validateCaps'' '''' (sd_Name step) ErrCapability (resource_Error e))
                | None \<Rightarrow> None)))"

fun validate_loop :: "'st wenv \<Rightarrow> Definition \<Rightarrow> 'st run \<Rightarrow> string list \<Rightarrow> 'st run \<times> werror option" where
  "validate_loop env d s [] = (s, None)"
| "validate_loop env d s (n # ns) =
     (if ResourceID_IsZero (sd_ResourceID (the_step d n)) then validate_loop env d s ns
      else case validateCaps env s (the_step d n) of
        Some e \<Rightarrow> (tick s, Some e)
      | None \<Rightarrow> validate_loop env d (tick s) ns)"

definition execute :: "'st wenv \<Rightarrow> Definition \<Rightarrow> RunOptions \<Rightarrow> 'st run \<Rightarrow> Instance \<Rightarrow>
  ('st run \<times> Instance \<times> werror option) option" where
  "execute env d opts s inst =
     (case persist env s (set_state inst StateValidating) of
        (s, inst, Some e) \<Rightarrow> Some (s, inst, Some e)
      | (s, inst, None) \<Rightarrow>
          (case validate_loop env d s (df_order d) of
             (s, Some e) \<Rightarrow> (case save_state env s inst StateFailed of (s, inst) \<Rightarrow> Some (s, inst, Some e))
           | (s, None) \<Rightarrow>
               (case save_state env s inst StateRunning of (s, inst) \<Rightarrow>
                  if list_ex (\<lambda>n. group_of d n \<noteq> '''') (df_order d) then executeParallel env d opts s inst
                  else Some (executeSequential env d opts s inst))))"

definition fresh_instance :: "string \<Rightarrow> string \<Rightarrow> RunOptions \<Rightarrow> Instance" where
  "fresh_instance i name opts =
     \<lparr>in_ID = i, in_Workflow = name, in_State = StateCreated, in_DryRun = op_DryRun opts,
      in_Checkpoint = \<lparr>cp_InstanceID = i, cp_Workflow = name, cp_State = StateCreated, cp_Steps = [],
        cp_UpdatedAt = 0, cp_DryRun = op_DryRun opts, cp_Attrs = op_Attrs opts, cp_CompletedSteps = [],
        cp_EpochAtStep = []\<rparr>\<rparr>"

definition resumed_instance :: "string \<Rightarrow> Checkpoint \<Rightarrow> Instance" where
  "resumed_instance i cp =
     \<lparr>in_ID = i, in_Workflow = cp_Workflow cp, in_State = cp_State cp, in_DryRun = cp_DryRun cp,
      in_Checkpoint = cp\<rparr>"

record Engine =
  eg_defs :: "(string \<times> Definition) list"
  eg_max :: nat
  eg_maxParallel :: nat
  eg_closed :: bool
  eg_instances :: "(string \<times> Instance) list"

definition DefaultMaxParallel :: nat where
  "DefaultMaxParallel = 8"

definition NewEngine :: "int \<Rightarrow> int \<Rightarrow> Engine" where
  "NewEngine maxRuns maxParallel =
     \<lparr>eg_defs = [], eg_max = store_max maxRuns,
      eg_maxParallel = (if maxParallel \<le> 0 then DefaultMaxParallel else nat maxParallel),
      eg_closed = False, eg_instances = []\<rparr>"

definition engine_Register :: "Engine \<Rightarrow> Definition option \<Rightarrow> Engine \<times> werror option" where
  "engine_Register e def' =
     (case def' of
        None \<Rightarrow> (e, Some (werr ''Register'' '''' '''' ErrInvalidDefinition ''nil definition''))
      | Some d \<Rightarrow>
          if df_Name d = '''' then (e, Some (werr ''Register'' '''' '''' ErrInvalidDefinition ''nil definition''))
          else if eg_closed e then (e, Some (werr ''Register'' '''' '''' ErrEngineClosed ''engine closed''))
          else (e\<lparr>eg_defs := AList.update (df_Name d) d (eg_defs e)\<rparr>, None))"

definition engine_Close :: "Engine \<Rightarrow> Engine" where
  "engine_Close e = e\<lparr>eg_closed := True\<rparr>"

text \<open>
  \<open>Run\<close>: the instance is entered in the engine's table before it executes and is the object the table
  holds afterwards. \<open>newID\<close> is the random identifier drawn when the caller gives none; \<open>load\<close> is the
  store's \<open>Load\<close>. The outer \<open>None\<close> is that of the loop bound above.
\<close>

definition engine_Run :: "('st \<Rightarrow> string \<Rightarrow> Checkpoint + werror) \<Rightarrow> 'st wenv \<Rightarrow> string \<Rightarrow> Engine \<Rightarrow> 'st run \<Rightarrow> string \<Rightarrow>
  RunOptions \<Rightarrow> (Engine \<times> 'st run \<times> Instance option \<times> werror option) option" where
  "engine_Run load env newID e s name opts =
     (if eg_closed e then Some (e, s, None, Some (werr ''Run'' name '''' ErrEngineClosed ''engine closed''))
      else case map_of (eg_defs e) name of
        None \<Rightarrow> Some (e, s, None, Some (werr ''Run'' name '''' ErrInstanceNotFound ''definition not registered''))
      | Some d \<Rightarrow>
          if \<not> op_Resume opts \<and> length (eg_instances e) \<ge> eg_max e then
            Some (e, s, None, Some (werr ''Run'' name '''' ErrWorkflowBound ''max instances''))
          else
            (let i = (if op_InstanceID opts = '''' then newID else op_InstanceID opts)
             in case (if op_Resume opts then
                        (case load (rn_store s) i of Inl cp \<Rightarrow> Inl (resumed_instance i cp) | Inr err \<Rightarrow> Inr err)
                      else Inl (fresh_instance i name opts)) of
                  Inr err \<Rightarrow> Some (e, s, None, Some err)
                | Inl inst \<Rightarrow>
                    (let s = wf_audit opts ''workflow.run'' name ''start'' s
                     in case execute env d opts s inst of
                          None \<Rightarrow> None
                        | Some (s, inst, err) \<Rightarrow>
                            (let e = e\<lparr>eg_instances := AList.update i inst (eg_instances e)\<rparr>;
                                 s = wf_audit opts ''workflow.run'' name
                                       (if err = None then State_string (in_State inst) else ''error'') s
                             in Some (e, s, Some inst, err)))))"

definition engine_Get :: "('st \<Rightarrow> string \<Rightarrow> Checkpoint + werror) \<Rightarrow> Engine \<Rightarrow> 'st \<Rightarrow> string \<Rightarrow> Instance + werror" where
  "engine_Get load e st i =
     (case map_of (eg_instances e) i of
        Some inst \<Rightarrow> Inl inst
      | None \<Rightarrow> (case load st i of Inr err \<Rightarrow> Inr err | Inl cp \<Rightarrow> Inl (resumed_instance (cp_InstanceID cp) cp)))"

definition ListDefinitions :: "Engine \<Rightarrow> string list" where
  "ListDefinitions e = map fst (eg_defs e)"

definition ListInstances :: "Engine \<Rightarrow> Instance list" where
  "ListInstances e = map snd (eg_instances e)"

end
