(* ===== verification/Workflow_Run.thy ===== *)
theory Workflow_Run
  imports Workflow_Engine
begin

text \<open>
  Invariants of a workflow run. The locale \<open>run_invariant\<close> collects what a predicate on the log of a
  run and the instance must satisfy to hold throughout a run; its lemmas carry the predicate through
  compensation, failure handling, resumption, single steps, parallel batches and both loops, once
  for every predicate, and show on the way that a run returns and what a run without an error has
  done. The predicate \<open>A ns\<close> holds between the save that marks the steps \<open>ns\<close> as running and their
  actions.
\<close>

section \<open>Statuses\<close>

lemma status_put [simp]: "status (put_step inst n st) m = (if m = n then ss_Status st else status inst m)"
  by (simp add: status_def put_step_def step_of_def update_conv)

lemma status_set_state [simp]: "status (set_state inst st) = status inst"
  by (rule ext) (simp add: status_def set_state_def step_of_def)

lemma status_complete [simp]: "status (complete_step inst n st ep) m = (if m = n then ss_Status st else status inst m)"
  by (simp add: status_def complete_step_def put_step_def step_of_def update_conv Let_def)

lemma dry_simps [simp]:
  "in_DryRun (put_step inst n st) = in_DryRun inst" "in_DryRun (set_state inst sta) = in_DryRun inst"
  "in_DryRun (complete_step inst n st ep) = in_DryRun inst"
  by (simp_all add: put_step_def set_state_def complete_step_def Let_def)

lemma state_simps [simp]:
  "in_State (put_step inst n st) = in_State inst" "in_State (set_state inst sta) = sta"
  "in_State (complete_step inst n st ep) = in_State inst"
  by (simp_all add: put_step_def set_state_def complete_step_def Let_def)

lemma rn_simps [simp]:
  "rn_log (tick s) = rn_log s" "rn_log (emit ev s) = rn_log s @ [ev]" "rn_store (tick s) = rn_store s"
  "rn_store (emit ev s) = rn_store s"
  "rn_log (wf_audit opts a b c s) = rn_log s @ [EAudit a b c (op_OperationID opts)]"
  by (simp_all add: tick_def emit_def wf_audit_def)

lemma persist_effect:
  assumes "persist env s inst = (s', inst', e)"
  shows "rn_log s' = rn_log s @ [ESave (in_Checkpoint inst') e]" "status inst' = status inst"
    "in_DryRun inst' = in_DryRun inst" "in_State inst' = in_State inst"
    "cp_CompletedSteps (in_Checkpoint inst') = cp_CompletedSteps (in_Checkpoint inst)"
    "step_of (in_Checkpoint inst') = step_of (in_Checkpoint inst)"
    "e = snd (we_Save env (rn_tick s) (rn_store s) (in_Checkpoint inst'))"
    "cp_State (in_Checkpoint inst') = in_State inst"
  using assms by (auto simp: persist_def Let_def status_def step_of_def split: prod.splits)

lemma save_quietly_persist: "save_quietly env s inst = (s', inst') \<Longrightarrow> \<exists>e. persist env s inst = (s', inst', e)"
  by (auto simp: save_quietly_def split: prod.splits)

lemma save_state_persist: "save_state env s inst st = (s', inst') \<Longrightarrow> \<exists>e. persist env s (set_state inst st) = (s', inst', e)"
  by (auto simp: save_state_def split: prod.splits)

definition startable :: "StepStatus \<Rightarrow> bool" where
  "startable st \<longleftrightarrow> st = StepNone \<or> st = StepPending \<or> st = StepCompensating"

text \<open>A step may start: its status allows it and the steps it depends on are done.\<close>

definition may :: "Definition \<Rightarrow> Instance \<Rightarrow> string \<Rightarrow> bool" where
  "may d inst n \<longleftrightarrow> startable (status inst n) \<and> (\<forall>m \<in> set (sd_DependsOn (the_step d n)). step_done (status inst m))"

section \<open>Invariants of a run\<close>

definition ready_inv :: "Definition \<Rightarrow> Instance \<Rightarrow> string list \<Rightarrow> string list \<Rightarrow> string list \<Rightarrow> bool" where
  "ready_inv d inst dn rd ns \<longleftrightarrow> (\<forall>m \<in> set dn. step_done (status inst m)) \<and> distinct dn
     \<and> (\<forall>n \<in> set rd. may d inst n \<and> n \<notin> set dn) \<and> distinct (rd @ ns)"

lemma ready_inv_skip: "ready_inv d inst dn rd (n # ns) \<Longrightarrow> ready_inv d inst dn rd ns"
  by (simp add: ready_inv_def)

lemma ready_inv_done:
  "ready_inv d inst dn rd (n # ns) \<Longrightarrow> step_done (status inst n) \<Longrightarrow> n \<notin> set dn
   \<Longrightarrow> ready_inv d inst (dn @ [n]) rd ns"
  by (auto simp: ready_inv_def)

lemma ready_inv_ready:
  assumes inv: "ready_inv d inst dn rd (n # ns)" and fresh: "\<not> step_done (status inst n)"
    and start: "startable (status inst' n)" and same: "\<And>m. m \<noteq> n \<Longrightarrow> status inst' m = status inst m"
    and deps: "set (sd_DependsOn (the_step d n)) \<subseteq> set dn" and "n \<notin> set dn"
  shows "ready_inv d inst' dn (rd @ [n]) ns"
proof -
  have keep: "status inst' m = status inst m" if "step_done (status inst m)" for m
    using that fresh same [of m] by (cases "m = n") auto
  have "may d inst' n" using start deps inv keep by (auto simp: may_def ready_inv_def)
  moreover have "may d inst' k" if "k \<in> set rd" for k
  proof -
    have "k \<noteq> n" using inv that by (auto simp: ready_inv_def)
    then show ?thesis using inv that same [of k] keep by (auto simp: may_def ready_inv_def)
  qed
  ultimately show ?thesis using inv keep assms(6) by (auto simp: ready_inv_def)
qed

lemma ready_inv_batch:
  assumes "ready_inv d inst dn rd []" and "set b \<subseteq> set rd" and "distinct b" and "distinct order"
    and "\<And>m. status inst' m = (if m \<in> set b then StepCompleted else status inst m)"
  shows "ready_inv d inst' (dn @ b) [] order" and "filter (\<lambda>n. step_done (status inst' n)) b = b"
  using assms by (auto simp: ready_inv_def step_done_def subset_iff intro: filter_True)

lemma first_group_batch:
  "first_group d rd = Some g \<Longrightarrow> filter (\<lambda>n. group_of d n = g) rd \<noteq> []"
proof -
  assume "first_group d rd = Some g"
  then obtain gs where "sort (filter (\<lambda>g. g \<noteq> '''') (map (group_of d) rd)) = g # gs"
    by (auto simp: first_group_def split: list.splits)
  then have "set (sort (filter (\<lambda>g. g \<noteq> '''') (map (group_of d) rd))) = set (g # gs)" by (rule arg_cong)
  then have "g \<in> group_of d ` set rd" by auto
  then show ?thesis by (auto simp: filter_empty_conv)
qed

lemma first_group_None: "first_group d rd = None \<Longrightarrow> n \<in> set rd \<Longrightarrow> group_of d n = ''''"
proof -
  assume "first_group d rd = None" and n: "n \<in> set rd"
  then have "sort (filter (\<lambda>g. g \<noteq> '''') (map (group_of d) rd)) = []"
    by (auto simp: first_group_def split: list.splits)
  then have "set (filter (\<lambda>g. g \<noteq> '''') (map (group_of d) rd)) = {}" by (metis set_empty set_sort)
  with n show ?thesis by auto
qed

lemma all_done:
  assumes "distinct dn" and "set dn \<subseteq> set order" and "\<not> length dn < length order"
  shows "set dn = set order"
proof -
  have "card (set dn) = length dn" by (rule distinct_card [OF assms(1)])
  then have "card (set order) \<le> card (set dn)" using assms(3) card_length [of order] by linarith
  then show ?thesis by (intro card_seteq assms(2)) simp_all
qed

lemma the_step_name: "def_ok d \<Longrightarrow> n \<in> set (df_order d) \<Longrightarrow> sd_Name (the_step d n) = n"
  by (auto simp: def_ok_def the_step_def def_Step_def map_of_eq_None_iff split: option.splits)

locale run_invariant =
  fixes env :: "'st wenv" and d :: Definition and opts :: RunOptions
    and P :: "'st run \<Rightarrow> Instance \<Rightarrow> bool" and A :: "string list \<Rightarrow> 'st run \<Rightarrow> Instance \<Rightarrow> bool"
  assumes P_tick: "P s inst \<Longrightarrow> P (tick s) inst"
    and P_audit: "P s inst \<Longrightarrow> P (wf_audit opts a b c s) inst"
    and P_state: "P s inst \<Longrightarrow> P s (set_state inst sta)"
    and P_save: "P s inst \<Longrightarrow> persist env s inst = (s', inst', e) \<Longrightarrow> P s' inst'"
    and P_comp: "P s inst \<Longrightarrow> \<not> in_DryRun inst \<Longrightarrow> P (emit (EComp n ec) s) inst"
    and P_undo: "P s inst \<Longrightarrow> def_Step d n = Some step \<Longrightarrow> sd_Compensate step = Some f \<Longrightarrow>
      ss_Status st = StepCompensating \<or> ss_Status st = StepFailed \<or> ss_Status st = StepCompensated \<Longrightarrow>
      P s (put_step inst n st)"
    and P_retry: "P s inst \<Longrightarrow> sd_Idempotency (the_step d n) \<noteq> NotRetryable \<Longrightarrow> ss_Status st = StepPending \<Longrightarrow>
      P s (put_step inst n st)"
    and P_fail: "P s inst \<Longrightarrow> status inst n = StepRunning \<Longrightarrow>
      ss_Status st = StepFailed \<or> ss_Status st = StepReconcile \<Longrightarrow> P s (put_step inst n st)"
    and P_complete: "P s inst \<Longrightarrow> status inst n = StepRunning \<Longrightarrow> ss_Status st = StepCompleted \<Longrightarrow>
      P s (complete_step inst n st ep)"
    and A_P: "A ns s inst \<Longrightarrow> P s inst"
    and A_tick: "A ns s inst \<Longrightarrow> A ns (tick s) inst"
    and A_act: "A (n # ns) s inst \<Longrightarrow> \<not> in_DryRun inst \<Longrightarrow> A ns (emit (EAct n ec) s) inst"
    and A_skip: "A (n # ns) s inst \<Longrightarrow> A ns s inst"
    and A_start: "P s inst \<Longrightarrow> distinct ns \<Longrightarrow> (\<And>n. n \<in> set ns \<Longrightarrow> may d inst n) \<Longrightarrow>
      (\<And>n. n \<in> set ns \<Longrightarrow> status inst2 n = StepRunning) \<Longrightarrow>
      (\<And>n. n \<notin> set ns \<Longrightarrow> status inst2 n = status inst n) \<Longrightarrow> in_DryRun inst2 = in_DryRun inst \<Longrightarrow>
      persist env s inst2 = (s', inst', e) \<Longrightarrow> A (filter (\<lambda>n. e = None \<or> group_of d n = '''') ns) s' inst'"
begin

lemma P_quiet: "P s inst \<Longrightarrow> save_quietly env s inst = (s', inst') \<Longrightarrow> P s' inst'"
  using P_save save_quietly_persist by blast

lemma P_sstate: "P s inst \<Longrightarrow> save_state env s inst sta = (s', inst') \<Longrightarrow> P s' inst'"
  using P_save P_state save_state_persist by blast

lemma compensate_step_P:
  assumes "P s inst" and "compensate_step env d opts s inst n = (s', inst', e)"
  shows "P s' inst'"
proof (cases "\<exists>step f. def_Step d n = Some step \<and> sd_Compensate step = Some f \<and> status inst n \<noteq> StepCompensated
    \<and> \<not> locked env s step \<and> stale_epoch env (tick s) inst step n = None")
  case False
  with assms show ?thesis
    by (auto simp: compensate_step_def Let_def P_tick split: option.splits if_splits)
next
  case True
  then obtain step f where step: "def_Step d n = Some step" "sd_Compensate step = Some f"
    and go: "status inst n \<noteq> StepCompensated" "\<not> locked env s step" "stale_epoch env (tick s) inst step n = None"
    by blast
  let ?st = "(step_of (in_Checkpoint inst) n)\<lparr>ss_Status := StepCompensating\<rparr>"
  obtain s1 inst1 where save: "save_quietly env (tick (tick s)) (put_step inst n ?st) = (s1, inst1)" by force
  have P1: "P s1 inst1"
    by (rule P_quiet [OF _ save]) (rule P_undo [OF _ step], use assms(1) P_tick in auto)
  let ?ec = "exec_context d opts inst1 step n (ss_Attempt ?st) (epoch_at inst1 n)"
  let ?r = "if in_DryRun inst1 then (s1, dry_result (we_clock env (rn_tick s1)) ''dry-run-compensate'' '''', None)
    else (case f (rn_tick s1) ?ec of (res, err) \<Rightarrow> (emit (EComp n ?ec) s1, res, err))"
  obtain s2 res err where run: "?r = (s2, res, err)" by (metis prod_cases3)
  have P2: "P s2 inst1" using run P1 P_comp by (auto split: if_splits prod.splits)
  have fail: "P (wf_audit opts a b c s2) (put_step inst1 n (?st\<lparr>ss_Status := StepFailed, ss_Error := msg\<rparr>))" for a b c msg
    by (rule P_audit, rule P_undo [OF P2 step]) simp
  have good: "P (wf_audit opts a b c s2) (put_step inst1 n (?st\<lparr>ss_Status := StepCompensated, ss_FinishedAt := t,
      ss_Evidence := ev\<rparr>))" for a b c t ev
    by (rule P_audit, rule P_undo [OF P2 step]) simp
  show ?thesis
    using assms(2) fail P_quiet [OF good]
    by (auto simp: compensate_step_def step go save run Let_def split: if_splits prod.splits)
qed

lemma compensate_loop_P:
  "P s inst \<Longrightarrow> compensate_loop env d opts s inst ns = (s', inst', e) \<Longrightarrow> P s' inst'"
proof (induction ns arbitrary: s inst)
  case (Cons n ns)
  obtain s1 inst1 e1 where c: "compensate_step env d opts s inst n = (s1, inst1, e1)" by (metis prod_cases3)
  note P1 = compensate_step_P [OF Cons.prems(1) c]
  show ?case using Cons.prems(2) P1 Cons.IH [OF P1] by (cases e1) (auto simp: c)
qed simp

lemma compensate_P:
  assumes "P s inst" and "compensate env d opts s inst = (s', inst', e)"
  shows "P s' inst'"
proof -
  obtain s1 inst1 where s1: "save_state env s inst StateCompensating = (s1, inst1)" by force
  show ?thesis
    using compensate_loop_P [OF P_sstate [OF assms(1) s1]] assms(2) by (simp add: compensate_def s1)
qed

lemma compensate_and_fail_P:
  assumes "P s inst" and "compensate_and_fail env d opts s inst err = (s', inst', e)"
  shows "P s' inst'" and "\<exists>x. e = Some x"
proof -
  obtain s1 inst1 e1 where c: "compensate env d opts s inst = (s1, inst1, e1)" by (metis prod_cases3)
  note P1 = compensate_P [OF assms(1) c]
  show "P s' inst'" "\<exists>x. e = Some x"
    using assms(2) P_sstate [OF P1]
    by (auto simp: compensate_and_fail_def c split: option.splits prod.splits)
qed

lemma handleStepFailure_P:
  assumes "P s inst" and "status inst (sd_Name step) = StepRunning"
    and "handleStepFailure env d opts s inst step st res err = (s', inst', e)"
  shows "P s' inst'" and "\<exists>x. e = Some x"
proof -
  have put: "P s (put_step inst (sd_Name step) st')" if "ss_Status st' = StepFailed \<or> ss_Status st' = StepReconcile" for st'
    by (rule P_fail [OF assms(1, 2) that])
  have fail: "P s1 inst1 \<and> (\<exists>x. e1 = Some x)"
    if "compensate_and_fail env d opts s (put_step inst (sd_Name step) st') err' = (s1, inst1, e1)"
      "ss_Status st' = StepFailed" for st' err' s1 inst1 e1
    using compensate_and_fail_P [OF put that(1)] that(2) by blast
  have rec: "P s1 inst1" if "save_state env s (put_step inst (sd_Name step) st') sta = (s1, inst1)"
      "ss_Status st' = StepReconcile" for st' sta s1 inst1
    using P_sstate [OF put that(1)] that(2) by blast
  have "P s' inst' \<and> (\<exists>x. e = Some x)"
    using assms(3) P_audit
    by (auto simp: handleStepFailure_def Let_def split: if_splits prod.splits dest!: fail rec)
  then show "P s' inst'" and "\<exists>x. e = Some x" by blast+
qed

lemma runStep_P:
  assumes "P s inst" and "step = the_step d (sd_Name step)" and "may d inst (sd_Name step)"
    and "runStep env d opts s inst step = (s', inst', e)" and "group_of d (sd_Name step) = ''''"
  shows "P s' inst'"
    and "e = None \<Longrightarrow> status inst' = (status inst)(sd_Name step := StepCompleted)"
    and "e = None \<Longrightarrow> in_DryRun inst' = in_DryRun inst"
proof -
  let ?n = "sd_Name step" and ?now = "we_clock env (rn_tick s)"
  let ?st = "step_of (in_Checkpoint inst) ?n"
  let ?st = "?st\<lparr>ss_Name := ?n, ss_Status := StepRunning, ss_Attempt := ss_Attempt ?st + 1, ss_StartedAt := ?now\<rparr>"
  obtain s1 inst1 where save: "save_quietly env s (put_step inst ?n ?st) = (s1, inst1)" by force
  then obtain e1 where pers: "persist env s (put_step inst ?n ?st) = (s1, inst1, e1)"
    using save_quietly_persist by blast
  note eff = persist_effect [OF pers]
  have "A (filter (\<lambda>n. e1 = None \<or> group_of d n = '''') [?n]) s1 inst1"
    by (rule A_start [OF assms(1) _ _ _ _ _ pers]) (use assms(3) in simp_all)
  then have A1: "A [?n] (tick s1) inst1" using assms(5) by (simp add: A_tick)
  have run1: "status inst1 ?n = StepRunning" by (simp add: eff(2))
  let ?ep = "lookup_epoch env s1 step"
  let ?ec = "exec_context d opts inst1 step ?n (ss_Attempt ?st) ?ep"
  let ?r = "if in_DryRun inst1 then (tick s1, dry_result ?now ''dry-run'' ''skipped side effects'', None)
    else (case sd_Action step (rn_tick (tick s1)) ?ec of (res, err) \<Rightarrow> (emit (EAct ?n ?ec) (tick s1), res, err))"
  obtain s2 res err where run: "?r = (s2, res, err)" by (metis prod_cases3)
  have P2: "P s2 inst1"
    using run A_P [OF A1] A_P [OF A_act [OF A1]] by (auto split: if_splits prod.splits)
  have def': "runStep env d opts s inst step =
     (if err \<noteq> None \<or> re_Ambiguous res then handleStepFailure env d opts s2 inst1 step ?st res err
      else persist env (wf_audit opts ''workflow.step.ok'' ?n ''completed'' s2)
        (complete_step inst1 ?n (?st\<lparr>ss_Status := StepCompleted, ss_FinishedAt := we_clock env (rn_tick s2),
           ss_Evidence := ss_Evidence ?st @ [re_Evidence res]\<rparr>) ?ep))"
    by (simp add: runStep_def Let_def save run)
  have ok: "P (wf_audit opts a b c s2) (complete_step inst1 ?n st' ep)" if "ss_Status st' = StepCompleted" for a b c st' ep
    by (rule P_audit, rule P_complete [OF P2 run1 that])
  show "P s' inst'"
  proof (cases "err \<noteq> None \<or> re_Ambiguous res")
    case True
    then show ?thesis using handleStepFailure_P(1) [OF P2 run1] assms(4) by (simp add: def')
  next
    case False
    with assms(4) show ?thesis by (simp add: def') (erule P_save [OF ok, rotated], simp)
  qed
  assume none: "e = None"
  then have good: "\<not> (err \<noteq> None \<or> re_Ambiguous res)"
    using handleStepFailure_P(2) [OF P2 run1] assms(4) by (fastforce simp: def' split: if_splits)
  have "persist env (wf_audit opts ''workflow.step.ok'' ?n ''completed'' s2)
        (complete_step inst1 ?n (?st\<lparr>ss_Status := StepCompleted, ss_FinishedAt := we_clock env (rn_tick s2),
           ss_Evidence := ss_Evidence ?st @ [re_Evidence res]\<rparr>) ?ep) = (s', inst', e)"
    using good assms(4) unfolding def' by simp
  note eff3 = persist_effect(2, 3) [OF this]
  show "status inst' = (status inst)(?n := StepCompleted)"
    by (rule ext) (simp add: eff3(1) eff(2))
  show "in_DryRun inst' = in_DryRun inst" by (simp add: eff3(2) eff(3))
qed

lemma prepareStepResume_P:
  assumes "P s inst" and "prepareStepResume env d opts s inst n = (s', inst', skip, e)"
    and "sd_Name (the_step d n) = n"
  shows "P s' inst'"
    and "e = None \<Longrightarrow> skip \<Longrightarrow> inst' = inst \<and> step_done (status inst n)"
    and "e = None \<Longrightarrow> \<not> skip \<Longrightarrow> startable (status inst' n)"
    and "e = None \<Longrightarrow> m \<noteq> n \<Longrightarrow> status inst' m = status inst m"
    and "e = None \<Longrightarrow> in_DryRun inst' = in_DryRun inst"
    and "e = None \<Longrightarrow> \<not> skip \<Longrightarrow> \<not> step_done (status inst n)"
proof -
  let ?st = "step_of (in_Checkpoint inst) n" and ?step = "the_step d n"
  have status: "status inst n = ss_Status ?st" by (simp add: status_def)
  have running: "P s (put_step inst n st')"
    if "ss_Status ?st = StepRunning" "ss_Status st' = StepFailed \<or> ss_Status st' = StepReconcile" for st'
    using P_fail [OF assms(1) _ that(2)] that(1) status by simp
  have retry: "P s (put_step inst n st')" if "sd_Idempotency ?step \<noteq> NotRetryable" "ss_Status st' = StepPending" for st'
    using P_retry [OF assms(1) that] .
  have sstate: "P s1 inst1" if "P s i" "save_state env s i sta = (s1, inst1)" for i sta s1 inst1
    by (rule P_sstate [OF that])
  have caf: "P s1 inst1 \<and> (\<exists>x. e1 = Some x)" if "P s i"
      "failResumeNotRetryable env d opts s i ?step st' = (s1, inst1, e1)" for i st' s1 inst1 e1
    using compensate_and_fail_P [OF that(1)] that(2) unfolding failResumeNotRetryable_def by blast
  have res: "P s' inst' \<and> (e = None \<longrightarrow>
      (if skip then inst' = inst \<and> step_done (status inst n)
       else startable (status inst' n) \<and> \<not> step_done (status inst n))
      \<and> (m \<noteq> n \<longrightarrow> status inst' m = status inst m) \<and> in_DryRun inst' = in_DryRun inst)" for m
  proof (cases "ss_Status ?st")
    case StepRunning
    show ?thesis
      using assms(2) running [OF StepRunning] retry
      by (auto simp: prepareStepResume_def Let_def StepRunning startable_def step_done_def status
          split: if_splits prod.splits
          dest: caf [rotated] sstate [rotated])
  next
    case StepFailed
    show ?thesis
      using assms(1, 2) retry
      by (auto simp: prepareStepResume_def Let_def StepFailed startable_def step_done_def status
          split: if_splits prod.splits
          dest: caf [rotated] sstate [rotated])
  next
    case StepReconcile
    show ?thesis
      using assms(1, 2)
      by (auto simp: prepareStepResume_def Let_def StepReconcile split: prod.splits dest: sstate [rotated])
  qed (use assms(1, 2) in \<open>auto simp: prepareStepResume_def Let_def startable_def step_done_def status_def\<close>)
  show "P s' inst'" using res by blast
  show "e = None \<Longrightarrow> skip \<Longrightarrow> inst' = inst \<and> step_done (status inst n)"
    "e = None \<Longrightarrow> \<not> skip \<Longrightarrow> startable (status inst' n)"
    "e = None \<Longrightarrow> m \<noteq> n \<Longrightarrow> status inst' m = status inst m"
    "e = None \<Longrightarrow> in_DryRun inst' = in_DryRun inst"
    "e = None \<Longrightarrow> \<not> skip \<Longrightarrow> \<not> step_done (status inst n)"
    using res [of m] by auto
qed

text \<open>A parallel batch.\<close>

lemma run_batch_A:
  "A (map pr_name ps) s inst \<Longrightarrow> run_batch env now inst s ps = (s', os) \<Longrightarrow> P s' inst \<and> map oc_p os = ps"
proof (induction ps arbitrary: s os)
  case (Cons p ps)
  obtain s1 oc where one: "(case we_gate env (rn_tick s) of
           Some msg \<Rightarrow>
             (tick s, \<lparr>oc_p = p, oc_res = \<lparr>re_Evidence = no_evidence, re_Ambiguous = False\<rparr>, oc_err = Some (WContext msg)\<rparr>)
         | None \<Rightarrow>
             if in_DryRun inst then
               (tick s, \<lparr>oc_p = p, oc_res = dry_result now ''dry-run'' ''skipped side effects'', oc_err = None\<rparr>)
             else
               (case sd_Action (pr_step p) (rn_tick s) (pr_exec p) of (res, err) \<Rightarrow>
                  (emit (EAct (pr_name p) (pr_exec p)) s, \<lparr>oc_p = p, oc_res = res, oc_err = err\<rparr>))) = (s1, oc)"
    by (metis prod.collapse)
  have A1: "A (map pr_name ps) s1 inst" and p: "oc_p oc = p"
    using one Cons.prems(1) A_tick A_skip A_act by (auto split: option.splits if_splits prod.splits)
  obtain os1 where os1: "run_batch env now inst s1 ps = (s', os1)" "os = oc # os1"
    using Cons.prems(2) by (auto simp: one split: prod.splits)
  from Cons.IH [OF A1 os1(1)] os1(2) p show ?case by simp
qed (use A_P in simp)

lemma apply_outcomes_P:
  assumes "P s inst" and "distinct (map (\<lambda>oc. pr_name (oc_p oc)) os)"
    and "\<And>oc. oc \<in> set os \<Longrightarrow> status inst (pr_name (oc_p oc)) = StepRunning"
    and "apply_outcomes env opts s inst os = (s', inst')"
  shows "P s' inst'
    \<and> (\<forall>m. status inst' m = (if \<exists>oc \<in> set os. pr_name (oc_p oc) = m \<and> \<not> failed_outcome oc then StepCompleted
         else status inst m))
    \<and> in_DryRun inst' = in_DryRun inst"
  using assms
proof (induction os arbitrary: s inst)
  case (Cons oc os)
  show ?case
  proof (cases "failed_outcome oc")
    case True
    with Cons.IH [OF Cons.prems(1)] Cons.prems(2-4) show ?thesis by auto
  next
    case False
    let ?n = "pr_name (oc_p oc)"
    let ?st = "(pr_st (oc_p oc))\<lparr>ss_Status := StepCompleted, ss_FinishedAt := we_clock env (rn_tick s),
      ss_Evidence := ss_Evidence (pr_st (oc_p oc)) @ [re_Evidence (oc_res oc)]\<rparr>"
    let ?i = "complete_step inst ?n ?st (pr_epoch (oc_p oc))"
    let ?s = "wf_audit opts ''workflow.step.ok'' ?n ''completed'' s"
    have P1: "P ?s ?i" by (rule P_audit, rule P_complete [OF Cons.prems(1)]) (use Cons.prems(3) in simp_all)
    have rest: "apply_outcomes env opts ?s ?i os = (s', inst')"
      using Cons.prems(4) False by (simp only: apply_outcomes.simps Let_def if_False)
    have others: "oc' \<in> set os \<Longrightarrow> pr_name (oc_p oc') \<noteq> ?n" for oc'
      using Cons.prems(2) by simp (metis image_eqI)
    have "P s' inst' \<and> (\<forall>m. status inst' m = (if \<exists>oc \<in> set os. pr_name (oc_p oc) = m \<and> \<not> failed_outcome oc
        then StepCompleted else status ?i m)) \<and> in_DryRun inst' = in_DryRun ?i"
      by (rule Cons.IH [OF P1 _ _ rest]) (use Cons.prems(2, 3) others in simp_all)
    with False others show ?thesis by auto
  qed
qed simp

lemma cancel_P: "P s inst \<Longrightarrow> cancel_run env d s inst msg = (s', inst', e) \<Longrightarrow> P s' inst' \<and> (\<exists>x. e = Some x)"
  using P_sstate by (auto simp: cancel_run_def split: prod.splits)

lemma lock_P: "P s inst \<Longrightarrow> lock_run env d s inst n = (s', inst', e) \<Longrightarrow> P s' inst' \<and> (\<exists>x. e = Some x)"
  using P_sstate by (auto simp: lock_run_def split: prod.splits)

lemma fail_siblings_P:
  "P s inst \<Longrightarrow> P s (fail_siblings env s f inst os) \<and> status (fail_siblings env s f inst os) f = status inst f
     \<and> in_DryRun (fail_siblings env s f inst os) = in_DryRun inst"
proof (induction os arbitrary: inst)
  case (Cons oc os)
  let ?n = "pr_name (oc_p oc)" and ?st = "step_of (in_Checkpoint inst) (pr_name (oc_p oc))"
  let ?i = "put_step inst ?n (?st\<lparr>ss_Status := StepFailed, ss_Error := ''sibling step failed in parallel group'',
    ss_FinishedAt := we_clock env (rn_tick s)\<rparr>)"
  show ?case
  proof (cases "?n \<noteq> f \<and> ss_Status ?st = StepRunning")
    case True
    have "P s ?i" by (rule P_fail [OF Cons.prems]) (use True in \<open>simp_all add: status_def\<close>)
    from Cons.IH [OF this] True show ?thesis by (auto simp: Let_def)
  next
    case False
    from Cons.IH [OF Cons.prems] show ?thesis by (simp only: fail_siblings.simps Let_def False if_False)
  qed
qed simp

lemma batch_failure_P:
  assumes "P s inst" and "status inst (pr_name (oc_p oc)) = StepRunning"
    and "sd_Name (pr_step (oc_p oc)) = pr_name (oc_p oc)"
    and "batch_failure env d opts s inst os oc = (s', inst', e)"
  shows "P s' inst' \<and> (\<exists>x. e = Some x)"
proof -
  let ?i = "fail_siblings env s (pr_name (oc_p oc)) inst os"
  obtain s1 inst1 where save: "save_quietly env s ?i = (s1, inst1)" by force
  have P1: "P s1 inst1" using P_quiet [OF _ save] fail_siblings_P [OF assms(1)] by blast
  have run: "status inst1 (sd_Name (pr_step (oc_p oc))) = StepRunning"
    using save_quietly_persist [OF save] persist_effect(2) fail_siblings_P [OF assms(1)] assms(2, 3) by metis
  show ?thesis
    using assms(4) cancel_P [OF P1] handleStepFailure_P [OF P1 run]
    by (auto simp: batch_failure_def save Let_def split: option.splits if_splits)
qed

lemma prepare_batch_effect:
  "distinct ns \<Longrightarrow> prepare_batch env d opts now s inst ns = (s', inst', ps) \<Longrightarrow>
     map pr_name ps = ns \<and> in_DryRun inst' = in_DryRun inst \<and> (\<forall>i. P s i \<longrightarrow> P s' i)
     \<and> (\<forall>m. status inst' m = (if m \<in> set ns then StepRunning else status inst m))
     \<and> (\<forall>p \<in> set ps. pr_step p = the_step d (pr_name p))"
proof (induction ns arbitrary: s inst ps)
  case (Cons n ns)
  let ?st = "step_of (in_Checkpoint inst) n"
  let ?st = "?st\<lparr>ss_Name := n, ss_Status := StepRunning, ss_Attempt := ss_Attempt ?st + 1, ss_StartedAt := now\<rparr>"
  obtain ps1 p where rest: "prepare_batch env d opts now (tick s) (put_step inst n ?st) ns = (s', inst', ps1)"
    and ps: "ps = p # ps1" "pr_name p = n" "pr_step p = the_step d n"
    using Cons.prems(2) by (auto simp: Let_def split: prod.splits)
  have "distinct ns" using Cons.prems(1) by simp
  from Cons.IH [OF this rest] Cons.prems(1) ps P_tick show ?case by auto
qed simp

lemma locked_member_P: "P s inst \<Longrightarrow> locked_member env d s ns = (s', r) \<Longrightarrow> P s' inst"
  by (induction ns arbitrary: s) (auto split: if_splits dest: P_tick)

lemma sort_key_outcomes:
  assumes "map oc_p os = ps" and "map pr_name ps = ns" and "distinct ns"
  shows "distinct (map (\<lambda>oc. pr_name (oc_p oc)) (sort_key (\<lambda>oc. pr_name (oc_p oc)) os))"
    and "set (sort_key (\<lambda>oc. pr_name (oc_p oc)) os) = set os"
    and "(\<lambda>oc. pr_name (oc_p oc)) ` set os = set ns"
proof -
  have "map (\<lambda>oc. pr_name (oc_p oc)) os = map pr_name (map oc_p os)" by (simp add: comp_def)
  then have names: "map (\<lambda>oc. pr_name (oc_p oc)) os = ns" using assms(1, 2) by simp
  then show "(\<lambda>oc. pr_name (oc_p oc)) ` set os = set ns" using set_map by metis
  have "mset (map (\<lambda>oc. pr_name (oc_p oc)) (sort_key (\<lambda>oc. pr_name (oc_p oc)) os)) = mset ns"
    by (simp add: names [symmetric])
  then show "distinct (map (\<lambda>oc. pr_name (oc_p oc)) (sort_key (\<lambda>oc. pr_name (oc_p oc)) os))"
    using assms(3) mset_eq_imp_distinct_iff by blast
qed simp

lemma runParallelBatch_P:
  assumes "P s inst" and "distinct ns" and "\<And>n. n \<in> set ns \<Longrightarrow> may d inst n \<and> sd_Name (the_step d n) = n"
    and "runParallelBatch env d opts s inst ns = (s', inst', e)"
  shows "P s' inst'"
    and "e = None \<Longrightarrow> status inst' m = (if m \<in> set ns then StepCompleted else status inst m)"
    and "e = None \<Longrightarrow> in_DryRun inst' = in_DryRun inst"
proof -
  obtain s1 r where lm: "locked_member env d s ns = (s1, r)" by force
  note P1 = locked_member_P [OF assms(1) lm]
  have "P s' inst' \<and> (e = None \<longrightarrow> (\<forall>m. status inst' m = (if m \<in> set ns then StepCompleted else status inst m))
      \<and> in_DryRun inst' = in_DryRun inst)"
  proof (cases r)
    case (Some n)
    then show ?thesis using lock_P [OF P1] assms(4) by (auto simp: runParallelBatch_def lm)
  next
    case None
    let ?now = "we_clock env (rn_tick s1)"
    obtain s2 inst2 ps where prep: "prepare_batch env d opts ?now s1 inst ns = (s2, inst2, ps)"
      by (metis prod_cases3)
    note pb = prepare_batch_effect [OF assms(2) prep]
    obtain s3 inst3 e3 where pers: "persist env s2 inst2 = (s3, inst3, e3)" by (metis prod_cases3)
    note pe = persist_effect [OF pers]
    have start: "A (filter (\<lambda>n. e3 = None \<or> group_of d n = '''') ns) s3 inst3"
      by (rule A_start [OF _ assms(2) _ _ _ _ pers, where inst = inst]) (use pb P1 assms(3) in auto)
    show ?thesis
    proof (cases e3)
      case (Some x)
      then show ?thesis using assms(4) A_P [OF start]
        by (auto simp: runParallelBatch_def lm None Let_def prep pers)
    next
      case saved: None
      have A3: "A ns s3 inst3" using start saved by simp
      obtain s4 os where run: "run_batch env ?now inst3 s3 ps = (s4, os)" by force
      let ?os = "sort_key (\<lambda>oc. pr_name (oc_p oc)) os"
      have rb: "P s4 inst3" "map oc_p os = ps" using run_batch_A [OF _ run] A3 pb by auto
      note so = sort_key_outcomes [OF rb(2) conjunct1 [OF pb] assms(2)]
      have running: "status inst3 (pr_name (oc_p oc)) = StepRunning" if "oc \<in> set ?os" for oc
        using that so(2, 3) pb by (auto simp: pe(2))
      obtain s5 inst5 where ap: "apply_outcomes env opts s4 inst3 ?os = (s5, inst5)" by force
      note ao = apply_outcomes_P [OF rb(1) so(1) running ap]
      obtain s6 inst6 where save: "save_quietly env s5 inst5 = (s6, inst6)" by force
      have P6: "P s6 inst6" using P_quiet [OF _ save] ao by blast
      have eff6: "status inst6 = status inst5" "in_DryRun inst6 = in_DryRun inst5"
        using save_quietly_persist [OF save] persist_effect(2, 3) by metis+
      have res: "(s', inst', e) = (case List.find failed_outcome ?os of None \<Rightarrow> (s6, inst6, None)
          | Some oc \<Rightarrow> batch_failure env d opts s6 inst6 ?os oc)"
        using assms(4) by (simp add: runParallelBatch_def lm None Let_def prep pers saved run ap save)
      show ?thesis
      proof (cases "List.find failed_outcome ?os")
        case none: None
        then have "\<not> failed_outcome oc" if "oc \<in> set os" for oc using that so(2) by (auto simp: find_None_iff)
        then have "(\<exists>oc \<in> set ?os. pr_name (oc_p oc) = m \<and> \<not> failed_outcome oc) \<longleftrightarrow> m \<in> set ns" for m
          by (auto simp: so(2) so(3) [symmetric] image_iff)
        then have "status inst6 m = (if m \<in> set ns then StepCompleted else status inst m)" for m
          using ao pb by (simp add: eff6 pe(2))
        with res none P6 ao pb show ?thesis by (simp add: eff6 pe(3))
      next
        case (Some oc)
        then have oc: "oc \<in> set ?os" "failed_outcome oc" by (metis find_Some_iff nth_mem)+
        have "\<not> (\<exists>oc' \<in> set ?os. pr_name (oc_p oc') = pr_name (oc_p oc) \<and> \<not> failed_outcome oc')"
          using oc so(1) by (auto simp: distinct_map dest: inj_onD)
        then have run6: "status inst6 (pr_name (oc_p oc)) = StepRunning"
          using ao running [OF oc(1)] by (simp add: eff6)
        have name: "sd_Name (pr_step (oc_p oc)) = pr_name (oc_p oc)"
          using oc(1) so(2, 3) rb(2) pb assms(3) by auto
        have "batch_failure env d opts s6 inst6 ?os oc = (s', inst', e)" using res Some by simp
        from batch_failure_P [OF P6 run6 name this] show ?thesis by auto
      qed
    qed
  qed
  then show "P s' inst'" "e = None \<Longrightarrow> status inst' m = (if m \<in> set ns then StepCompleted else status inst m)"
    "e = None \<Longrightarrow> in_DryRun inst' = in_DryRun inst"
    by blast+
qed

lemma finish_P:
  assumes "P s inst" and "finish_run env s inst = (s', inst', e)"
  shows "P s' inst' \<and> in_State inst' = StateCompleted \<and> status inst' = status inst"
  using P_save [OF P_state [OF assms(1)]] assms(2) persist_effect(2, 4) by (fastforce simp: finish_run_def)

section \<open>The loops\<close>

lemma sequential_loop_P:
  assumes "P s inst" and "sequential_loop env d opts s inst ns = (s', inst', e)"
    and "\<And>n. n \<in> set ns \<Longrightarrow> sd_Name (the_step d n) = n \<and> group_of d n = ''''"
    and "\<And>m. m \<in> set pre \<Longrightarrow> step_done (status inst m)"
    and "topological (\<lambda>n. sd_DependsOn (the_step d n)) (pre @ ns)" and "distinct (pre @ ns)"
  shows "P s' inst' \<and> (e = None \<longrightarrow> in_State inst' = StateCompleted \<and> (\<forall>n \<in> set (pre @ ns). step_done (status inst' n)))"
  using assms
proof (induction ns arbitrary: s inst pre)
  case Nil
  then show ?case using finish_P [OF Nil.prems(1)] by simp
next
  case (Cons n ns)
  show ?case
  proof (cases "we_ctx env (rn_tick s)")
    case (Some msg)
    then show ?thesis using cancel_P [OF Cons.prems(1)] Cons.prems(2) by auto
  next
    case ctx: None
    obtain s1 inst1 skip e1 where prep: "prepareStepResume env d opts (tick s) inst n = (s1, inst1, skip, e1)"
      by (metis prod_cases4)
    have name: "sd_Name (the_step d n) = n" and group: "group_of d n = ''''"
      using Cons.prems(3) [of n] by simp_all
    note pr = prepareStepResume_P [OF P_tick [OF Cons.prems(1)] prep name]
    have topo: "topological (\<lambda>n. sd_DependsOn (the_step d n)) ((pre @ [n]) @ ns)" "distinct ((pre @ [n]) @ ns)"
      using Cons.prems(5, 6) by simp_all
    have deps: "set (sd_DependsOn (the_step d n)) \<subseteq> set pre"
      using Cons.prems(5) unfolding topological_def by (auto dest!: spec [of _ "length pre"])
    show ?thesis
    proof (cases e1)
      case (Some x)
      then show ?thesis using Cons.prems(2) pr(1) ctx prep by (cases skip) auto
    next
      case none: None
      show ?thesis
      proof (cases skip)
        case True
        have "step_done (status inst1 m)" if "m \<in> set (pre @ [n])" for m
          using that pr(2) [OF none True] Cons.prems(4) by auto
        from Cons.IH [OF pr(1) _ _ this topo] Cons.prems(2, 3) ctx prep none True show ?thesis by simp
      next
        case False
        have old: "step_done (status inst1 m)" if "m \<in> set pre" for m
        proof -
          have "m \<noteq> n" using that Cons.prems(6) by auto
          then show ?thesis using pr(4) [OF none, of m] Cons.prems(4) [OF that] by simp
        qed
        have may: "may d inst1 n" using pr(3) [OF none False] old deps by (auto simp: may_def)
        show ?thesis
        proof (cases "locked env s1 (the_step d n)")
          case True
          then show ?thesis
            using lock_P [OF P_tick [OF pr(1)]] Cons.prems(2) ctx prep none False by auto
        next
          case unlocked: False
          obtain s2 inst2 e2 where run: "runStep env d opts (tick s1) inst1 (the_step d n) = (s2, inst2, e2)"
            by (metis prod_cases3)
          note rs = runStep_P [OF P_tick [OF pr(1)] _ _ run, unfolded name, OF refl may group]
          show ?thesis
          proof (cases e2)
            case (Some x)
            then show ?thesis using Cons.prems(2) rs(1) ctx prep none False unlocked run by auto
          next
            case ok: None
            have "step_done (status inst2 m)" if "m \<in> set (pre @ [n])" for m
              using that old rs(2) [OF ok] by (auto simp: step_done_def)
            from Cons.IH [OF rs(1) _ _ this topo] Cons.prems(2, 3) ctx prep none False unlocked run ok
            show ?thesis by simp
          qed
        qed
      qed
    qed
  qed
qed

lemma ready_loop_P:
  assumes "P s inst" and "ready_loop env d opts s inst dn rd ns = (s', inst', dn', rd', e)"
    and "\<And>n. n \<in> set ns \<Longrightarrow> sd_Name (the_step d n) = n" and "ready_inv d inst dn rd ns"
  shows "P s' inst' \<and> (e = None \<longrightarrow> ready_inv d inst' dn' rd' [] \<and> set dn \<subseteq> set dn'
    \<and> set dn' \<subseteq> set dn \<union> set ns \<and> length dn \<le> length dn' \<and> set rd' \<subseteq> set rd \<union> set ns)"
  using assms
proof (induction ns arbitrary: s inst dn rd)
  case (Cons n ns)
  have names: "sd_Name (the_step d m) = m" if "m \<in> set ns" for m using Cons.prems(3) that by simp
  show ?case
  proof (cases "n \<in> set dn \<or> status inst n = StepFailed \<or> status inst n = StepReconcile
         \<or> \<not> list_all (\<lambda>m. m \<in> set dn) (sd_DependsOn (the_step d n))")
    case True
    then have rest: "ready_loop env d opts s inst dn rd ns = (s', inst', dn', rd', e)"
      using Cons.prems(2) by simp
    from Cons.IH [OF Cons.prems(1) rest names ready_inv_skip [OF Cons.prems(4)]] show ?thesis by auto
  next
    case False
    obtain s1 inst1 skip e1 where prep: "prepareStepResume env d opts s inst n = (s1, inst1, skip, e1)"
      by (metis prod_cases4)
    have name: "sd_Name (the_step d n) = n" by (rule Cons.prems(3)) simp
    note pr = prepareStepResume_P [OF Cons.prems(1) prep name]
    note step = Cons.prems(2) [unfolded ready_loop.simps if_not_P [OF False] prep]
    show ?thesis
    proof (cases e1)
      case (Some x)
      then show ?thesis using step pr(1) by (cases skip) auto
    next
      case none: None
      show ?thesis
      proof (cases skip)
        case True
        have same: "inst1 = inst" "step_done (status inst n)" using pr(2) [OF none True] by auto
        have rest: "ready_loop env d opts s1 inst (dn @ [n]) rd ns = (s', inst', dn', rd', e)"
          using step none True same by simp
        have "ready_inv d inst (dn @ [n]) rd ns"
          by (rule ready_inv_done [OF Cons.prems(4) same(2)]) (use False in simp)
        from Cons.IH [OF pr(1) [unfolded same(1)] rest names this] show ?thesis by auto
      next
        case run: False
        have rest: "ready_loop env d opts s1 inst1 dn (rd @ [n]) ns = (s', inst', dn', rd', e)"
          using step none run by simp
        have "ready_inv d inst1 dn (rd @ [n]) ns"
          using False by (intro ready_inv_ready [OF Cons.prems(4) pr(6, 3, 4)] none run)
            (auto simp: list_all_iff)
        from Cons.IH [OF pr(1) rest names this] show ?thesis by auto
      qed
    qed
  qed
qed simp

lemma stuck_P:
  "P s inst \<Longrightarrow> stuck env d s inst dn = (s', inst', e) \<Longrightarrow> P s' inst' \<and> (\<exists>x. e = Some x)"
  using P_sstate by (auto simp: stuck_def Let_def split: option.splits if_splits prod.splits)

lemma round_batch_P:
  assumes ok: "def_ok d" and P: "P s inst" and inv: "ready_inv d inst dn rd []"
    and sub: "set dn \<subseteq> set (df_order d)" "set rd \<subseteq> set (df_order d)" and g: "first_group d rd = Some g"
    and r: "runParallelBatch env d opts s inst (filter (\<lambda>n. group_of d n = g) rd) = (s', inst', e)"
  defines "dn' \<equiv> dn @ filter (\<lambda>n. step_done (status inst' n)) (filter (\<lambda>n. group_of d n = g) rd)"
  shows "P s' inst'" and "e = None \<Longrightarrow> ready_inv d inst' dn' [] (df_order d) \<and> set dn' \<subseteq> set (df_order d)
    \<and> length dn < length dn'"
proof -
  let ?b = "filter (\<lambda>n. group_of d n = g) rd"
  have dist: "distinct (df_order d)" "distinct rd" using ok inv by (auto simp: def_ok_def ready_inv_def)
  have may: "may d inst n \<and> sd_Name (the_step d n) = n" if "n \<in> set ?b" for n
    using inv that sub(2) the_step_name [OF ok] by (auto simp: ready_inv_def)
  note batch = runParallelBatch_P [OF P distinct_filter [OF dist(2)] _ r]
  have b: "set ?b \<subseteq> set rd" "distinct ?b" using dist by auto
  show "P s' inst'" by (rule batch(1)) (rule may)
  assume "e = None"
  have st: "status inst' m = (if m \<in> set ?b then StepCompleted else status inst m)" for m
    by (rule batch(2) [OF _ \<open>e = None\<close>]) (rule may)
  note next_inv = ready_inv_batch [OF inv b dist(1) st]
  have "length dn < length (dn @ ?b)" using first_group_batch [OF g] by (simp only: length_append) simp
  then show "ready_inv d inst' dn' [] (df_order d) \<and> set dn' \<subseteq> set (df_order d) \<and> length dn < length dn'"
    unfolding dn'_def next_inv(2) using next_inv(1) sub by auto
qed

lemma round_single_P:
  assumes ok: "def_ok d" and P: "P s inst" and inv: "ready_inv d inst dn rd []" and n: "n \<in> set rd"
    and sub: "set dn \<subseteq> set (df_order d)" "set rd \<subseteq> set (df_order d)"
    and r: "runStep env d opts s inst (the_step d n) = (s', inst', e)" and group: "group_of d n = ''''"
  shows "P s' inst'"
    and "e = None \<Longrightarrow> ready_inv d inst' (dn @ [n]) [] (df_order d) \<and> set (dn @ [n]) \<subseteq> set (df_order d)"
proof -
  have dist: "distinct (df_order d)" using ok by (simp add: def_ok_def)
  have nm: "sd_Name (the_step d n) = n" and may: "may d inst n"
    using inv n sub(2) the_step_name [OF ok] by (auto simp: ready_inv_def)
  note rs = runStep_P [OF P _ _ r, unfolded nm, OF refl may group]
  have b: "set [n] \<subseteq> set rd" "distinct [n]" using n by auto
  show "P s' inst'" by (rule rs(1))
  assume "e = None"
  then have st: "status inst' m = (if m \<in> set [n] then StepCompleted else status inst m)" for m
    using rs(2) by simp
  show "ready_inv d inst' (dn @ [n]) [] (df_order d) \<and> set (dn @ [n]) \<subseteq> set (df_order d)"
    using ready_inv_batch(1) [OF inv b dist st] sub n by auto
qed

text \<open>
  One round of the parallel loop: it returns, or goes on with at least one more step done.
\<close>

lemma parallel_round_P:
  assumes ok: "def_ok d" and P: "P s inst" and inv: "ready_inv d inst dn [] (df_order d)"
    and sub: "set dn \<subseteq> set (df_order d)" and more: "length dn < length (df_order d)"
  obtains s' inst' x where "parallel_loop (Suc fuel) env d opts s inst dn = Some (s', inst', Some x)" "P s' inst'"
  | s' inst' dn' where "parallel_loop (Suc fuel) env d opts s inst dn = parallel_loop fuel env d opts s' inst' dn'"
      "P s' inst'" "ready_inv d inst' dn' [] (df_order d)" "set dn' \<subseteq> set (df_order d)" "length dn < length dn'"
proof (cases "we_ctx env (rn_tick s)")
  case (Some msg)
  obtain s' inst' e where r: "cancel_run env d s inst msg = (s', inst', e)" by (metis prod_cases3)
  show ?thesis using cancel_P [OF P r] that(1) Some r more by auto
next
  case ctx: None
  obtain s1 inst1 dn1 rd e1 where rl: "ready_loop env d opts (tick s) inst dn [] (df_order d) = (s1, inst1, dn1, rd, e1)"
    by (metis prod_cases5)
  note ready = ready_loop_P [OF P_tick [OF P] rl the_step_name [OF ok] inv]
  note unf = parallel_loop.simps(2) [of fuel env d opts s inst dn, unfolded ctx rl, simplified more]
  consider x where "e1 = Some x" | "e1 = None" "rd = []"
    | g where "e1 = None" "rd \<noteq> []" "first_group d rd = Some g"
    | "e1 = None" "rd \<noteq> []" "first_group d rd = None" "locked env s1 (the_step d (hd rd))"
    | "e1 = None" "rd \<noteq> []" "first_group d rd = None" "\<not> locked env s1 (the_step d (hd rd))"
    by (cases e1; cases "rd = []"; cases "first_group d rd") blast+
  then show ?thesis
  proof cases
    case 1
    then show ?thesis using that(1) ready unf by auto
  next
    case 2
    obtain s' inst' e where r: "stuck env d s1 inst1 dn1 = (s', inst', e)" by (metis prod_cases3)
    show ?thesis using stuck_P [OF _ r] ready that(1) 2 r unf by auto
  next
    case (3 g)
    obtain s' inst' e where r: "runParallelBatch env d opts s1 inst1 (filter (\<lambda>n. group_of d n = g) rd) = (s', inst', e)"
      by (metis prod_cases3)
    have "set dn1 \<subseteq> set (df_order d)" "set rd \<subseteq> set (df_order d)" "ready_inv d inst1 dn1 rd []"
      using ready 3 sub by auto
    note batch = round_batch_P [OF ok _ this(3, 1, 2) 3(3) r]
    show ?thesis
    proof (cases e)
      case None
      have "length dn < length (dn1 @ filter (\<lambda>n. step_done (status inst' n)) (filter (\<lambda>n. group_of d n = g) rd))"
        by (rule order.strict_trans1 [of _ "length dn1"]) (use batch(2) [OF _ None] ready 3 in \<open>blast+\<close>)
      then show ?thesis by (intro that(2)) (use batch(1) batch(2) [OF _ None] ready None 3 r unf in auto)
    next
      case (Some x)
      show ?thesis by (rule that(1)) (use batch(1) ready Some 3 r unf in auto)
    qed
  next
    case 4
    obtain s' inst' e where r: "lock_run env d (tick s1) inst1 (hd rd) = (s', inst', e)" by (metis prod_cases3)
    show ?thesis using lock_P [OF P_tick r] ready that(1) 4 r unf by auto
  next
    case 5
    obtain s' inst' e where r: "runStep env d opts (tick s1) inst1 (the_step d (hd rd)) = (s', inst', e)"
      by (metis prod_cases3)
    have "set dn1 \<subseteq> set (df_order d)" "set rd \<subseteq> set (df_order d)" "ready_inv d inst1 dn1 rd []" "hd rd \<in> set rd"
      using ready 5 sub by auto
    note single = round_single_P [OF ok P_tick this(3, 4, 1, 2) r first_group_None [OF 5(3) this(4)]]
    show ?thesis
    proof (cases e)
      case None
      show ?thesis by (rule that(2)) (use single(1) single(2) [OF _ None] ready None 5 r unf in auto)
    next
      case (Some x)
      show ?thesis by (rule that(1)) (use single(1) ready Some 5 r unf in auto)
    qed
  qed
qed

lemma parallel_loop_P:
  assumes ok: "def_ok d"
  shows "P s inst \<Longrightarrow> ready_inv d inst dn [] (df_order d) \<Longrightarrow> set dn \<subseteq> set (df_order d) \<Longrightarrow>
    length (df_order d) < fuel + length dn \<Longrightarrow> length dn \<le> length (df_order d) \<Longrightarrow>
    \<exists>s' inst' e. parallel_loop fuel env d opts s inst dn = Some (s', inst', e) \<and> P s' inst'
      \<and> (e = None \<longrightarrow> in_State inst' = StateCompleted \<and> (\<forall>n \<in> set (df_order d). step_done (status inst' n)))"
proof (induction fuel arbitrary: s inst dn)
  case (Suc fuel)
  show ?case
  proof (cases "length dn < length (df_order d)")
    case False
    obtain s' inst' e where r: "finish_run env s inst = (s', inst', e)" by (metis prod_cases3)
    have "set dn = set (df_order d)"
      using Suc.prems False by (intro all_done) (auto simp: ready_inv_def)
    then show ?thesis
      using finish_P [OF Suc.prems(1) r] Suc.prems(2) False r by (auto simp: ready_inv_def)
  next
    case True
    show ?thesis
    proof (rule parallel_round_P [OF ok Suc.prems(1-3) True, of fuel], goal_cases)
      case (1 s' inst' x)
      then show ?case by auto
    next
      case (2 s' inst' dn')
      have "distinct dn'" "distinct (df_order d)" using 2(3) by (auto simp: ready_inv_def)
      then have "length dn' \<le> length (df_order d)"
        using card_mono [OF _ 2(4)] by (simp add: distinct_card)
      then show ?case using Suc.IH [OF 2(2-4)] 2(1, 5) Suc.prems(4) by auto
    qed
  qed
qed simp

lemma validate_loop_P: "P s inst \<Longrightarrow> validate_loop env d s ns = (s', e) \<Longrightarrow> P s' inst"
  by (induction env d s ns rule: validate_loop.induct) (auto simp: P_tick split: if_splits option.splits)

lemma execute_P:
  assumes ok: "def_ok d" and P: "P s inst"
  shows "\<exists>s' inst' e. execute env d opts s inst = Some (s', inst', e) \<and> P s' inst'
    \<and> (e = None \<longrightarrow> in_State inst' = StateCompleted \<and> (\<forall>n \<in> set (df_order d). step_done (status inst' n)))"
proof -
  obtain s1 inst1 e1 where p1: "persist env s (set_state inst StateValidating) = (s1, inst1, e1)" by (metis prod_cases3)
  obtain s2 e2 where v: "validate_loop env d s1 (df_order d) = (s2, e2)" by force
  obtain s3 inst3 where p3: "save_state env s2 inst1 StateRunning = (s3, inst3)" by force
  obtain s4 inst4 where p4: "save_state env s2 inst1 StateFailed = (s4, inst4)" by force
  note P1 = P_save [OF P_state [OF P] p1]
  note P2 = validate_loop_P [OF P1 v]
  note P3 = P_sstate [OF P2 p3] and P4 = P_sstate [OF P2 p4]
  let ?dn = "filter (\<lambda>n. step_done (status inst3 n)) (df_order d)"
  have deps: "(\<lambda>n. sd_DependsOn (the_step d n)) = step_deps (df_steps d)"
    by (rule ext) (auto simp: step_deps_def the_step_def def_Step_def nil_step_def split: option.splits)
  have dist: "distinct (df_order d)" and topo: "topological (\<lambda>n. sd_DependsOn (the_step d n)) (df_order d)"
    using ok by (simp_all add: def_ok_def deps)
  have "ready_inv d inst3 ?dn [] (df_order d)" using dist by (auto simp: ready_inv_def)
  note par = parallel_loop_P [OF ok P3 this, of "Suc (length (df_order d))"]
  obtain s5 inst5 e5 where sl: "sequential_loop env d opts s3 inst3 (df_order d) = (s5, inst5, e5)" by (metis prod_cases3)
  have seq: "P s5 inst5 \<and> (e5 = None \<longrightarrow> in_State inst5 = StateCompleted
      \<and> (\<forall>n \<in> set ([] @ df_order d). step_done (status inst5 n)))"
    if "\<not> list_ex (\<lambda>n. group_of d n \<noteq> '''') (df_order d)"
    by (rule sequential_loop_P [OF P3 sl])
      (use topo dist that the_step_name [OF ok] in \<open>auto simp: list_ex_iff\<close>)
  show ?thesis
    using P1 P4 par seq p1 v p3 p4 sl
    by (auto simp: execute_def executeParallel_def executeSequential_def trans_le_add2 less_Suc_eq_le
        split: option.splits prod.splits)
qed

end

end
