(* ===== verification/Workflow_Safety.thy ===== *)
theory Workflow_Safety
  imports Workflow_Run
begin

text \<open>
  What the workflow engine guarantees, as interpretations of \<open>run_invariant\<close>: when an action starts,
  the checkpoint the engine last tried to save has its dependencies done; a step that must not be
  retried starts at most
  once, whatever crashes and resumptions happen, as long as it has no compensation; a dry run has no
  effects. A run always returns, and one without an error has done every step. Compensation undoes
  the completed steps in reverse. The last section shows what the guarantee against repetition
  excludes: a run that finds a step compensating starts it again, whatever its idempotency class.
\<close>

section \<open>Steps start after the steps they depend on\<close>

definition cp_status :: "Checkpoint \<Rightarrow> string \<Rightarrow> StepStatus" where
  "cp_status cp n = ss_Status (step_of cp n)"

lemma status_cp: "status inst = cp_status (in_Checkpoint inst)"
  by (rule ext) (simp add: status_def cp_status_def)

text \<open>The last save that a log attempts, with its outcome.\<close>

fun last_save :: "(Checkpoint \<times> werror option) option \<Rightarrow> wevent list \<Rightarrow> (Checkpoint \<times> werror option) option" where
  "last_save cur [] = cur"
| "last_save cur (ESave cp e # l) = last_save (Some (cp, e)) l"
| "last_save cur (_ # l) = last_save cur l"

definition start_ok :: "Definition \<Rightarrow> (Checkpoint \<times> werror option) option \<Rightarrow> string \<Rightarrow> bool" where
  "start_ok d cur n \<longleftrightarrow> (case cur of None \<Rightarrow> False
     | Some (cp, e) \<Rightarrow> cp_status cp n = StepRunning
         \<and> list_all (\<lambda>m. step_done (cp_status cp m)) (sd_DependsOn (the_step d n))
         \<and> (e = None \<or> group_of d n = ''''))"

text \<open>
  Every action of a log follows the attempt to save a checkpoint that has its step running and all
  steps it depends on done, with no other save in between; for a step of a parallel group the save
  succeeded.
\<close>

fun starts_ok :: "Definition \<Rightarrow> (Checkpoint \<times> werror option) option \<Rightarrow> wevent list \<Rightarrow> bool" where
  "starts_ok d cur [] \<longleftrightarrow> True"
| "starts_ok d cur (ESave cp e # l) \<longleftrightarrow> starts_ok d (Some (cp, e)) l"
| "starts_ok d cur (EAct n ec # l) \<longleftrightarrow> start_ok d cur n \<and> starts_ok d cur l"
| "starts_ok d cur (_ # l) \<longleftrightarrow> starts_ok d cur l"

lemma last_save_append [simp]: "last_save cur (l @ l') = last_save (last_save cur l) l'"
  by (induction cur l rule: last_save.induct) simp_all

lemma starts_ok_append [simp]: "starts_ok d cur (l @ l') \<longleftrightarrow> starts_ok d cur l \<and> starts_ok d (last_save cur l) l'"
  by (induction d cur l rule: starts_ok.induct) auto

definition order_inv :: "Definition \<Rightarrow> 'st run \<Rightarrow> Instance \<Rightarrow> bool" where
  "order_inv d s inst \<longleftrightarrow> starts_ok d None (rn_log s)"

definition order_pending :: "Definition \<Rightarrow> string list \<Rightarrow> 'st run \<Rightarrow> Instance \<Rightarrow> bool" where
  "order_pending d ns s inst \<longleftrightarrow> order_inv d s inst \<and> (\<forall>n \<in> set ns. start_ok d (last_save None (rn_log s)) n)"

interpretation ord: run_invariant env d opts "order_inv d" "order_pending d" for env :: "'st wenv" and d and opts
proof (unfold_locales, goal_cases)
  case (14 s inst ns inst2 s' inst' e)
  note save = persist_effect [OF 14(7)]
  have dep: "step_done (status inst2 m)" if "n \<in> set ns" "m \<in> set (sd_DependsOn (the_step d n))" for n m
  proof -
    have "step_done (status inst m)" using 14(3) [OF that(1)] that(2) by (auto simp: may_def)
    moreover from this have "m \<notin> set ns" using 14(3) [of m] by (auto simp: may_def startable_def step_done_def)
    ultimately show ?thesis using 14(5) by simp
  qed
  show ?case
    using 14(1, 4) dep save(1, 2)
    by (auto simp: order_pending_def order_inv_def start_ok_def list_all_iff simp flip: status_cp)
qed (auto simp: order_inv_def order_pending_def dest: persist_effect(1))

section \<open>A step that must not be retried starts at most once\<close>

definition acts :: "string \<Rightarrow> wevent list \<Rightarrow> nat" where
  "acts n log = length (filter (\<lambda>ev. case ev of EAct m _ \<Rightarrow> m = n | _ \<Rightarrow> False) log)"

text \<open>The checkpoint a crash after the events of a log leaves behind, when \<open>cp\<close> was there before.\<close>

fun durable :: "Checkpoint \<Rightarrow> wevent list \<Rightarrow> Checkpoint" where
  "durable cp [] = cp"
| "durable cp (ESave cp' None # l) = durable cp' l"
| "durable cp (_ # l) = durable cp l"

definition used :: "string \<Rightarrow> Checkpoint \<Rightarrow> nat" where
  "used n cp = (if startable (cp_status cp n) then 0 else 1)"

definition saves_ok :: "wevent list \<Rightarrow> bool" where
  "saves_ok log \<longleftrightarrow> list_all (\<lambda>ev. case ev of ESave _ e \<Rightarrow> e = None | _ \<Rightarrow> True) log"

definition once :: "string \<Rightarrow> Checkpoint \<Rightarrow> wevent list \<Rightarrow> bool" where
  "once n cp log \<longleftrightarrow> (saves_ok log \<longrightarrow> acts n log + used n cp \<le> used n (durable cp log))"

lemma acts_simps [simp]:
  "acts n [] = 0" "acts n (l @ l') = acts n l + acts n l'" "acts n [ESave cp e] = 0" "acts n [EComp m ec] = 0"
  "acts n [EAudit a b c o'] = 0" "acts n [EAct m ec] = (if m = n then 1 else 0)"
  by (simp_all add: acts_def)

lemma saves_ok_simps [simp]:
  "saves_ok []" "saves_ok (l @ l') \<longleftrightarrow> saves_ok l \<and> saves_ok l'" "saves_ok [ESave cp e] \<longleftrightarrow> e = None"
  "saves_ok [EComp m ec]" "saves_ok [EAudit a b c o']" "saves_ok [EAct m ec]"
  by (simp_all add: saves_ok_def)

lemma durable_append [simp]: "durable cp (l @ l') = durable (durable cp l) l'"
  by (induction cp l rule: durable.induct) simp_all

lemma used_le [simp]: "used n cp \<le> Suc 0"
  by (simp add: used_def)

definition once_case :: "Definition \<Rightarrow> string \<Rightarrow> bool" where
  "once_case d n \<longleftrightarrow> sd_Idempotency (the_step d n) = NotRetryable \<and> sd_Compensate (the_step d n) = None"

definition always :: "string \<Rightarrow> Checkpoint \<Rightarrow> wevent list \<Rightarrow> bool" where
  "always n cp log \<longleftrightarrow> (\<forall>k. once n cp (take k log))"

definition once_inv :: "Definition \<Rightarrow> string \<Rightarrow> Checkpoint \<Rightarrow> 'st run \<Rightarrow> Instance \<Rightarrow> bool" where
  "once_inv d n cp s inst \<longleftrightarrow> (once_case d n \<longrightarrow> always n cp (rn_log s)
     \<and> (saves_ok (rn_log s) \<longrightarrow> used n (durable cp (rn_log s)) \<le> used n (in_Checkpoint inst)))"

definition once_pending :: "Definition \<Rightarrow> string \<Rightarrow> Checkpoint \<Rightarrow> string list \<Rightarrow> 'st run \<Rightarrow> Instance \<Rightarrow> bool" where
  "once_pending d n cp ns s inst \<longleftrightarrow> once_inv d n cp s inst \<and> distinct ns
     \<and> (once_case d n \<longrightarrow> n \<in> set ns \<longrightarrow> saves_ok (rn_log s) \<longrightarrow>
          acts n (rn_log s) + used n cp = 0 \<and> used n (durable cp (rn_log s)) = 1)"

lemma take_snoc: "take k (l @ [x]) = (if k \<le> length l then take k l else l @ [x])"
  by (cases "k - length l") auto

lemma always_once: "always n cp l \<Longrightarrow> once n cp l"
  unfolding always_def by (metis order_refl take_all)

lemma always_snoc [simp]: "always n cp (l @ [x]) \<longleftrightarrow> always n cp l \<and> once n cp (l @ [x])"
proof
  assume all: "always n cp (l @ [x])"
  have "once n cp (take k l)" for k
    using all [unfolded always_def, rule_format, of "min k (length l)"] by (simp add: take_snoc min_def split: if_splits)
  then show "always n cp l \<and> once n cp (l @ [x])" using always_once [OF all] by (simp add: always_def)
qed (auto simp: always_def take_snoc simp del: take_append)

lemma once_inv_status:
  assumes "once_inv d n cp s inst"
    and "once_case d n \<Longrightarrow> startable (status inst' n) \<Longrightarrow> startable (status inst n)"
  shows "once_inv d n cp s inst'"
  using assms by (auto simp: once_inv_def used_def simp flip: status_cp)

lemma once_inv_quiet:
  assumes "once_inv d n cp s inst" and "rn_log s' = rn_log s @ [ev]"
    and "acts n [ev] = 0" and "\<And>c. durable c [ev] = c"
  shows "once_inv d n cp s' inst"
  using assms always_once [of n cp "rn_log s"] by (auto simp: once_inv_def once_def)

lemma once_inv_save:
  assumes inv: "once_inv d n cp s inst" and save: "persist env s inst = (s', inst', e)"
  shows "once_inv d n cp s' inst'"
proof -
  note eff = persist_effect [OF save]
  have "used n (in_Checkpoint inst') = used n (in_Checkpoint inst)"
    using eff(2) by (simp add: used_def flip: status_cp)
  then show ?thesis
    using inv always_once [of n cp "rn_log s"] eff(1) by (auto simp: once_inv_def once_def)
qed

lemma once_pending_start:
  assumes inv: "once_inv d n cp s inst" and dist: "distinct ns"
    and may: "\<And>m. m \<in> set ns \<Longrightarrow> may d inst m" and run: "\<And>m. m \<in> set ns \<Longrightarrow> status inst2 m = StepRunning"
    and other: "\<And>m. m \<notin> set ns \<Longrightarrow> status inst2 m = status inst m"
    and save: "persist env s inst2 = (s', inst', e)"
  shows "once_pending d n cp ns s' inst'"
proof -
  note eff = persist_effect [OF save]
  have "once_inv d n cp s inst2"
    by (rule once_inv_status [OF inv]) (use run other in \<open>cases "n \<in> set ns"; auto simp: startable_def\<close>)
  note inv' = once_inv_save [OF this save]
  have "acts n (rn_log s') + used n cp = 0 \<and> used n (durable cp (rn_log s')) = 1"
    if oc: "once_case d n" and n: "n \<in> set ns" and sv: "saves_ok (rn_log s')"
  proof -
    have e: "e = None" "saves_ok (rn_log s)" using eff(1) sv by simp_all
    have "used n (in_Checkpoint inst) = 0" using may [OF n] by (simp add: used_def may_def flip: status_cp)
    then have "acts n (rn_log s) + used n cp = 0"
      using inv oc e(2) always_once [of n cp "rn_log s"] by (simp add: once_inv_def once_def)
    moreover have "used n (in_Checkpoint inst') = 1"
      using run [OF n] eff(2) by (simp add: used_def startable_def flip: status_cp)
    ultimately show ?thesis using eff(1) e(1) by simp
  qed
  then show ?thesis using inv' dist by (simp add: once_pending_def)
qed

lemma once_pending_act:
  assumes "once_pending d n cp (m # ns) s inst"
  shows "once_pending d n cp ns (emit (EAct m ec) s) inst"
  using assms always_once [of n cp "rn_log s"] by (auto simp: once_pending_def once_inv_def once_def)

interpretation onc: run_invariant env d opts "once_inv d n cp" "once_pending d n cp"
  for env :: "'st wenv" and d and opts and n and cp
proof (unfold_locales, goal_cases)
  case (1 s inst)
  then show ?case by (simp add: once_inv_def)
next
  case (2 s inst a b c)
  then show ?case by (rule once_inv_quiet [OF _ rn_simps(5)]) simp_all
next
  case (3 s inst sta)
  then show ?case by (rule once_inv_status) simp
next
  case (4 s inst s' inst' e)
  then show ?case by (rule once_inv_save)
next
  case (5 s inst m ec)
  then show ?case by (intro once_inv_quiet [OF _ rn_simps(2)]) simp_all
next
  case (6 s inst m step f st)
  then show ?case
    by (intro once_inv_status [OF 6(1)]) (auto simp: once_case_def the_step_def split: if_splits)
next
  case (7 s inst m st)
  then show ?case
    by (intro once_inv_status [OF 7(1)]) (auto simp: once_case_def split: if_splits)
next
  case (8 s inst m st)
  then show ?case
    by (intro once_inv_status [OF 8(1)]) (auto simp: startable_def split: if_splits)
next
  case (9 s inst m st ep)
  then show ?case
    by (intro once_inv_status [OF 9(1)]) (auto simp: startable_def split: if_splits)
next
  case (12 m ns s inst ec)
  then show ?case by (intro once_pending_act)
next
  case (14 s inst ns inst2 s' inst' e)
  then have "once_pending d n cp ns s' inst'" by (intro once_pending_start)
  then show ?case by (simp add: once_pending_def)
qed (simp_all add: once_pending_def once_inv_def)

text \<open>
  Attempts at an instance, each resuming from the checkpoint the one before left behind and each cut
  off by a crash after an arbitrary part of its effects, or not at all. The number counts how often
  the action of step \<open>n\<close> was started in all of them.
\<close>

inductive attempts :: "(nat \<Rightarrow> 'st \<Rightarrow> Checkpoint \<Rightarrow> 'st \<times> werror option) \<Rightarrow> Definition \<Rightarrow> string \<Rightarrow> Checkpoint \<Rightarrow>
  nat \<Rightarrow> Checkpoint \<Rightarrow> bool" for save d n cp0 where
  no_attempt: "attempts save d n cp0 0 cp0"
| attempt: "attempts save d n cp0 k cp \<Longrightarrow> we_Save env = save \<Longrightarrow> rn_log s = [] \<Longrightarrow>
    execute env d opts s (resumed_instance i cp) = Some (s', inst', e) \<Longrightarrow> p = take j (rn_log s') \<Longrightarrow>
    saves_ok p \<Longrightarrow> attempts save d n cp0 (k + acts n p) (durable cp p)"

lemma execute_once:
  assumes "def_ok d" and "once_case d n" and "rn_log s = []"
    and "execute env d opts s (resumed_instance i cp) = Some (s', inst', e)"
  shows "once n cp (take j (rn_log s'))"
proof -
  have "once_inv d n cp s (resumed_instance i cp)"
    using assms(3) by (simp add: once_inv_def always_def once_def resumed_instance_def)
  from onc.execute_P [OF assms(1) this, of env opts] show ?thesis
    using assms(2, 4) by (auto simp: once_inv_def always_def)
qed

lemma attempts_used:
  assumes "attempts save d n cp0 k cp" and "def_ok d" and "once_case d n"
  shows "k + used n cp0 \<le> used n cp"
  using assms
proof (induction rule: attempts.induct)
  case (attempt k cp env s opts i s' inst' e p j)
  have "once n cp p"
    unfolding attempt.hyps(5) by (rule execute_once [OF attempt.prems attempt.hyps(3, 4)])
  then show ?case using attempt.IH attempt.prems attempt.hyps(6) by (simp add: once_def)
qed simp

section \<open>A dry run has no effects\<close>

definition no_effect :: "wevent \<Rightarrow> bool" where
  "no_effect ev \<longleftrightarrow> (case ev of EAct _ _ \<Rightarrow> False | EComp _ _ \<Rightarrow> False | _ \<Rightarrow> True)"

definition dry_inv :: "'st run \<Rightarrow> Instance \<Rightarrow> bool" where
  "dry_inv s inst \<longleftrightarrow> in_DryRun inst \<and> list_all no_effect (rn_log s)"

interpretation dry: run_invariant env d opts dry_inv "\<lambda>_. dry_inv" for env :: "'st wenv" and d and opts
  by unfold_locales (auto simp: dry_inv_def no_effect_def dest: persist_effect(1, 3))

section \<open>Compensation\<close>

definition comps :: "wevent list \<Rightarrow> string list" where
  "comps log = concat (map (\<lambda>ev. case ev of EComp n _ \<Rightarrow> [n] | _ \<Rightarrow> []) log)"

lemma comps_simps [simp]:
  "comps [] = []" "comps (l @ l') = comps l @ comps l'" "comps (ESave cp e # l) = comps l"
  "comps (EComp m ec # l) = m # comps l" "comps (EAudit a b c o' # l) = comps l" "comps (EAct m ec # l) = comps l"
  by (simp_all add: comps_def)

definition to_undo :: "Definition \<Rightarrow> Instance \<Rightarrow> string \<Rightarrow> bool" where
  "to_undo d inst n \<longleftrightarrow> sd_Compensate (the_step d n) \<noteq> None \<and> status inst n \<noteq> StepCompensated"

lemma save_quietly_effect:
  assumes "save_quietly env s inst = (s', inst')"
  shows "comps (rn_log s') = comps (rn_log s) \<and> status inst' = status inst \<and> in_DryRun inst' = in_DryRun inst"
  using assms persist_effect(1-3) by (fastforce dest: save_quietly_persist)

lemma compensate_step_ok:
  assumes "compensate_step env d opts s inst n = (s', inst', None)" and "\<not> in_DryRun inst"
  shows "comps (rn_log s') = comps (rn_log s) @ (if to_undo d inst n then [n] else [])"
    and "status inst' = (if to_undo d inst n then (status inst)(n := StepCompensated) else status inst)"
    and "\<not> in_DryRun inst'"
proof -
  have "comps (rn_log s') = comps (rn_log s) @ (if to_undo d inst n then [n] else [])
     \<and> (\<forall>m. status inst' m = (if to_undo d inst n then (status inst)(n := StepCompensated) else status inst) m)
     \<and> \<not> in_DryRun inst'"
    using assms
    by (auto simp: compensate_step_def to_undo_def the_step_def nil_step_def Let_def
        split: option.splits if_splits prod.splits dest!: save_quietly_effect)
  then show "comps (rn_log s') = comps (rn_log s) @ (if to_undo d inst n then [n] else [])"
    "status inst' = (if to_undo d inst n then (status inst)(n := StepCompensated) else status inst)" "\<not> in_DryRun inst'"
    by auto
qed

lemma remdups_snoc: "remdups (xs @ [n]) = filter (\<lambda>x. x \<noteq> n) (remdups xs) @ [n]"
  by (induction xs) auto

lemma compensate_loop_ok:
  assumes "compensate_loop env d opts s inst ns = (s', inst', None)" and "\<not> in_DryRun inst"
  shows "comps (rn_log s') = comps (rn_log s) @ filter (to_undo d inst) (rev (remdups (rev ns)))
    \<and> (\<forall>n. status inst' n = (if n \<in> set ns \<and> to_undo d inst n then StepCompensated else status inst n))"
  using assms
proof (induction ns arbitrary: s inst)
  case (Cons n ns)
  obtain s1 inst1 where c: "compensate_step env d opts s inst n = (s1, inst1, None)"
    and rest: "compensate_loop env d opts s1 inst1 ns = (s', inst', None)"
    using Cons.prems(1) by (auto split: prod.splits option.splits)
  note st = compensate_step_ok [OF c Cons.prems(2)]
  have undo: "to_undo d inst1 m \<longleftrightarrow> m \<noteq> n \<and> to_undo d inst m" for m
    using st(2) by (auto simp: to_undo_def split: if_splits)
  show ?case
    using Cons.IH [OF rest st(3)] st(1, 2) by (auto simp: undo remdups_snoc rev_filter conj_commute)
qed simp

section \<open>The engine\<close>

text \<open>The invariant that asks for nothing: what is left of the lemmas is that a run returns.\<close>

interpretation ret: run_invariant env d opts "\<lambda>_ _. True" "\<lambda>_ _ _. True" for env :: "'st wenv" and d and opts
  by unfold_locales simp_all

definition engine_ok :: "Engine \<Rightarrow> bool" where
  "engine_ok e \<longleftrightarrow> (\<forall>(nm, d) \<in> set (eg_defs e). def_ok d)"

lemma engine_ok_new: "engine_ok (NewEngine m p)"
  by (simp add: engine_ok_def NewEngine_def)

lemma engine_ok_register:
  assumes "engine_ok e" and "builder_ok b" and "Build b = Inl d"
  shows "engine_ok (fst (engine_Register e (Some d)))"
  using assms(1) Build_ok(1) [OF assms(2, 3)] set_alist_update [of "df_Name d" d "eg_defs e"]
  by (fastforce simp: engine_ok_def engine_Register_def)

lemma engine_ok_def_ok: "engine_ok e \<Longrightarrow> map_of (eg_defs e) nm = Some d \<Longrightarrow> def_ok d"
  by (auto simp: engine_ok_def dest: map_of_SomeD)

text \<open>What a run of the engine appends to the log is what \<open>execute\<close> does between two audit records.\<close>

lemma engine_Run_cases:
  assumes "engine_Run load env newID e s name opts = Some (e', s', r, err)"
  obtains "s' = s" "r = None" "\<exists>x. err = Some x"
  | d inst s1 inst1 where "map_of (eg_defs e) name = Some d"
      "execute env d opts (wf_audit opts ''workflow.run'' name ''start'' s) inst = Some (s1, inst1, err)"
      "r = Some inst1" "\<exists>res. s' = wf_audit opts ''workflow.run'' name res s1"
      "if op_Resume opts then \<exists>i cp. load (rn_store s) i = Inl cp \<and> inst = resumed_instance i cp
       else \<exists>i. inst = fresh_instance i name opts"
  using assms unfolding engine_Run_def Let_def
  by (fastforce split: if_splits option.splits sum.splits)

lemma engine_Run_returns:
  assumes "\<And>d s inst. map_of (eg_defs e) name = Some d \<Longrightarrow> execute env d opts s inst \<noteq> None"
  shows "engine_Run load env newID e s name opts \<noteq> None"
proof (cases "map_of (eg_defs e) name")
  case (Some d)
  let ?i = "if op_InstanceID opts = '''' then newID else op_InstanceID opts"
  let ?start = "if op_Resume opts then (case load (rn_store s) ?i of Inl cp \<Rightarrow> Inl (resumed_instance ?i cp) | Inr err \<Rightarrow> Inr err)
     else Inl (fresh_instance ?i name opts)"
  show ?thesis
  proof (cases ?start)
    case (Inl inst)
    obtain s1 inst1 err where "execute env d opts (wf_audit opts ''workflow.run'' name ''start'' s) inst = Some (s1, inst1, err)"
      using assms [OF Some] by (metis option.exhaust prod_cases3)
    then show ?thesis unfolding engine_Run_def Let_def Inl by (simp add: Some)
  next
    case (Inr err)
    show ?thesis unfolding engine_Run_def Let_def Inr by (simp add: Some)
  qed
qed (simp add: engine_Run_def)

text \<open>
  C9. Every run of the engine returns: neither loop can run forever, whatever the actions, the store,
  the context and the lockdown gate answer. A run that reports no error leaves the instance
  completed, with every step of the definition done.
\<close>

theorem workflow_returns:
  assumes "engine_ok e"
  shows "\<exists>e' s' r err. engine_Run load env newID e s name opts = Some (e', s', r, err)
    \<and> (err = None \<longrightarrow> (\<exists>d inst. map_of (eg_defs e) name = Some d \<and> r = Some inst
        \<and> in_State inst = StateCompleted \<and> (\<forall>n \<in> set (df_order d). step_done (status inst n))))"
proof -
  have "execute env d opts s inst \<noteq> None" if "map_of (eg_defs e) name = Some d" for d s inst
    using ret.execute_P [OF engine_ok_def_ok [OF assms that] TrueI, of env opts s inst] by auto
  then have "engine_Run load env newID e s name opts \<noteq> None" by (rule engine_Run_returns)
  then obtain e' s' r err where run: "engine_Run load env newID e s name opts = Some (e', s', r, err)" by auto
  have "\<exists>d inst. map_of (eg_defs e) name = Some d \<and> r = Some inst \<and> in_State inst = StateCompleted
      \<and> (\<forall>n \<in> set (df_order d). step_done (status inst n))" if "err = None"
    using run
  proof (cases rule: engine_Run_cases)
    case (2 d inst s1 inst1)
    obtain s2 inst2 err2 where "execute env d opts (wf_audit opts ''workflow.run'' name ''start'' s) inst = Some (s2, inst2, err2)"
      "err2 = None \<longrightarrow> in_State inst2 = StateCompleted \<and> (\<forall>n \<in> set (df_order d). step_done (status inst2 n))"
      using ret.execute_P [OF engine_ok_def_ok [OF assms 2(1)] TrueI] by blast
    then show ?thesis using 2(1-3) that by simp
  qed (use that in simp)
  then show ?thesis using run by blast
qed

text \<open>
  C8. In every run, fresh or resumed, an action is started only when the engine's last save attempt was
  of a checkpoint in which the step is running and every step it depends on is done. For a step
  of a parallel group that save succeeded. For any other step the engine drops the error of the save
  and starts the action all the same, so the stored checkpoint shows the start only if the save
  succeeded.
\<close>

theorem workflow_starts_in_order:
  assumes "engine_ok e" and "map_of (eg_defs e) name = Some d" and "rn_log s = []"
    and "engine_Run load env newID e s name opts = Some (e', s', r, err)"
  shows "starts_ok d None (rn_log s')"
  using assms(4)
proof (cases rule: engine_Run_cases)
  case (2 d' inst s1 inst1)
  let ?s = "wf_audit opts ''workflow.run'' name ''start'' s"
  have "d' = d" using 2(1) assms(2) by simp
  moreover have "order_inv d ?s inst" using assms(3) by (simp add: order_inv_def)
  ultimately have "order_inv d s1 inst1"
    using ord.execute_P [OF engine_ok_def_ok [OF assms(1, 2)], of ?s inst env opts] 2(2) by auto
  then show ?thesis using 2(4) by (auto simp: order_inv_def)
qed (use assms(3) in simp)

text \<open>
  C5. A step that must not be retried and has no compensation is started at most once over all
  attempts at an instance, wherever each of them crashes, provided the saves before the crash
  succeed; if the checkpoint the attempts begin with has the step running, ended or skipped, it is
  never started.
\<close>

theorem not_retryable_at_most_once:
  assumes "attempts save d n cp0 k cp" and "def_ok d"
    and "sd_Idempotency (the_step d n) = NotRetryable" and "sd_Compensate (the_step d n) = None"
  shows "k \<le> 1 \<and> (\<not> startable (cp_status cp0 n) \<longrightarrow> k = 0)"
proof -
  have "k + used n cp0 \<le> used n cp"
    using attempts_used [OF assms(1, 2)] assms(3, 4) by (simp add: once_case_def)
  moreover have "used n cp \<le> 1" by simp
  ultimately show ?thesis by (auto simp: used_def split: if_splits)
qed

text \<open>
  A fresh dry run calls neither an action nor a compensation.
\<close>

theorem dry_run_no_effects:
  assumes "engine_ok e" and "op_DryRun opts" and "\<not> op_Resume opts" and "rn_log s = []"
    and "engine_Run load env newID e s name opts = Some (e', s', r, err)"
  shows "list_all no_effect (rn_log s')"
  using assms(5)
proof (cases rule: engine_Run_cases)
  case (2 d inst s1 inst1)
  let ?s = "wf_audit opts ''workflow.run'' name ''start'' s"
  have "dry_inv ?s inst"
    using 2(5) assms(2-4) by (auto simp: dry_inv_def no_effect_def fresh_instance_def)
  then have "dry_inv s1 inst1"
    using dry.execute_P [OF engine_ok_def_ok [OF assms(1) 2(1)], of ?s inst env opts] 2(2) by auto
  then show ?thesis using 2(4) by (auto simp: dry_inv_def no_effect_def)
qed (use assms(4) in simp)

text \<open>
  C20. A compensation that reports no error calls the compensations of the completed steps that have
  one and are not compensated yet, each once, in the reverse order of completion, and leaves them
  compensated.
\<close>

theorem compensate_reverse:
  assumes "compensate env d opts s inst = (s', inst', None)" and "\<not> in_DryRun inst"
  shows "comps (rn_log s') = comps (rn_log s) @
      filter (to_undo d inst) (rev (remdups (cp_CompletedSteps (in_Checkpoint inst))))
    \<and> (\<forall>n \<in> set (cp_CompletedSteps (in_Checkpoint inst)). sd_Compensate (the_step d n) \<noteq> None \<longrightarrow>
         status inst' n = StepCompensated)"
proof -
  obtain s1 inst1 e1 where p: "persist env s (set_state inst StateCompensating) = (s1, inst1, e1)" by (metis prod_cases3)
  note eff = persist_effect [OF p]
  have done_steps: "cp_CompletedSteps (in_Checkpoint inst1) = cp_CompletedSteps (in_Checkpoint inst)"
    using eff(5) by (simp add: set_state_def)
  have "to_undo d inst1 = to_undo d inst" using eff(2) by (simp add: to_undo_def fun_eq_iff)
  moreover have "compensate_loop env d opts s1 inst1 (rev (cp_CompletedSteps (in_Checkpoint inst))) = (s', inst', None)"
    using assms(1) p done_steps by (simp add: compensate_def save_state_def)
  ultimately show ?thesis
    using compensate_loop_ok [of env d opts s1 inst1] eff(1-3) assms(2) by (auto simp: to_undo_def)
qed

section \<open>Concrete runs\<close>

definition calm :: "MemoryStore wenv" where
  "calm = \<lparr>we_Save = \<lambda>_. ms_Save 0, we_clock = \<lambda>_. 0, we_ctx = \<lambda>_. None, we_blocks = \<lambda>_. False,
     we_Resources = None, we_gate = \<lambda>_. None\<rparr>"

definition idle :: "MemoryStore run" where
  "idle = \<lparr>rn_store = NewMemoryStore 0, rn_tick = 0, rn_log = []\<rparr>"

definition plain :: RunOptions where
  "plain = \<lparr>op_InstanceID = ''i'', op_DryRun = False, op_OperationID = '''', op_Attrs = [], op_Resume = False\<rparr>"

definition decline :: ActionFunc where
  "decline n ec = (\<lparr>re_Evidence = no_evidence, re_Ambiguous = False\<rparr>,
     Some (werr ''ship'' '''' '''' ErrInvalidState ''no stock''))"

definition built :: "builder_op list \<Rightarrow> Definition" where
  "built ops = projl (Build (foldl builder_act (Define ''pay'') ops))"

definition pay :: Definition where
  "pay = built [BStep ''charge'' (Some succeed), BIdempotency ''charge'' NotRetryable,
     BStep ''ship'' (Some succeed), BDepend ''ship'' [''charge'']]"

definition pay_back :: Definition where
  "pay_back = built [BStep ''charge'' (Some succeed), BIdempotency ''charge'' NotRetryable,
     BCompensate ''charge'' (Some succeed), BStep ''ship'' (Some decline), BDepend ''ship'' [''charge'']]"

definition shop :: "Definition \<Rightarrow> Engine" where
  "shop d = fst (engine_Register (NewEngine 0 0) (Some d))"

lemma built_ok:
  assumes "isl (Build (foldl builder_act (Define ''pay'') ops))"
  shows "def_ok (built ops)" and "engine_ok (shop (built ops))"
proof -
  let ?b = "foldl builder_act (Define ''pay'') ops"
  have b: "builder_ok ?b" by (rule builder_ok_run) (simp add: builder_ok_def Define_def)
  have d: "Build ?b = Inl (built ops)" using assms by (auto simp: built_def isl_def)
  show "def_ok (built ops)" by (rule Build_ok(1) [OF b d])
  show "engine_ok (shop (built ops))"
    unfolding shop_def by (rule engine_ok_register [OF engine_ok_new b d])
qed

lemma pay_ok: "def_ok pay" "engine_ok (shop pay)" "def_ok pay_back"
  unfolding pay_def pay_back_def by (rule built_ok; code_simp)+

definition log_of :: "Definition \<Rightarrow> Checkpoint \<Rightarrow> wevent list" where
  "log_of d cp = (case execute calm d plain idle (resumed_instance ''i'' cp) of Some (s, _, _) \<Rightarrow> rn_log s | None \<Rightarrow> [])"

lemma attempt_calm:
  assumes "attempts (we_Save calm) d n cp0 k cp" and "def_ok d" and "saves_ok (take j (log_of d cp))"
  shows "attempts (we_Save calm) d n cp0 (k + acts n (take j (log_of d cp))) (durable cp (take j (log_of d cp)))"
proof -
  obtain s' inst' e where ex: "execute calm d plain idle (resumed_instance ''i'' cp) = Some (s', inst', e)"
    using ret.execute_P [OF assms(2) TrueI] by blast
  then have "log_of d cp = rn_log s'" by (simp add: log_of_def)
  then show ?thesis using attempt [OF assms(1) refl _ ex refl] assms(3) by (simp add: idle_def)
qed

theorem workflow_returns_witness:
  "engine_ok (shop pay) \<and> (\<exists>e' s' inst. engine_Run ms_Load calm ''x'' (shop pay) idle ''pay'' plain = Some (e', s', Some inst, None)
     \<and> in_State inst = StateCompleted)"
proof -
  have "case engine_Run ms_Load calm ''x'' (shop pay) idle ''pay'' plain of Some (_, _, _, err) \<Rightarrow> err = None | None \<Rightarrow> False"
    by code_simp
  with workflow_returns [OF pay_ok(2), of ms_Load calm "''x''" idle "''pay''" plain] pay_ok(2)
  show ?thesis by auto
qed

lemma shop_defs: "df_Name d \<noteq> '''' \<Longrightarrow> map_of (eg_defs (shop d)) (df_Name d) = Some d"
  by (simp add: shop_def engine_Register_def NewEngine_def update_conv)

lemma pay_name: "df_Name pay = ''pay''"
  by code_simp

theorem workflow_starts_in_order_witness:
  "\<exists>e' s' r err. engine_Run ms_Load calm ''x'' (shop pay) idle ''pay'' plain = Some (e', s', r, err)
     \<and> starts_ok pay None (rn_log s') \<and> acts ''ship'' (rn_log s') = 1"
proof -
  have acts: "case engine_Run ms_Load calm ''x'' (shop pay) idle ''pay'' plain of
      Some (_, s', _, _) \<Rightarrow> acts ''ship'' (rn_log s') = 1 | None \<Rightarrow> False" by code_simp
  then obtain e' s' r err where run: "engine_Run ms_Load calm ''x'' (shop pay) idle ''pay'' plain = Some (e', s', r, err)"
    by (auto split: option.splits)
  have "map_of (eg_defs (shop pay)) ''pay'' = Some pay" using shop_defs [of pay] by (simp add: pay_name)
  from workflow_starts_in_order [OF pay_ok(2) this _ run] acts run show ?thesis by (simp add: idle_def)
qed

theorem not_retryable_at_most_once_witness:
  "\<exists>cp k. attempts (we_Save calm) pay ''charge'' zero_checkpoint k cp \<and> 0 < k \<and> k \<le> 1"
proof -
  let ?p = "take 4 (log_of pay zero_checkpoint)"
  have "saves_ok ?p" and acts: "acts ''charge'' ?p = 1" by code_simp+
  note att = attempt_calm [OF no_attempt pay_ok(1) this(1)]
  have "sd_Idempotency (the_step pay ''charge'') = NotRetryable" by code_simp
  moreover have "Option.is_none (sd_Compensate (the_step pay ''charge''))" by code_simp
  ultimately show ?thesis
    using not_retryable_at_most_once [OF att [where n = "''charge''"] pay_ok(1)] att [where n = "''charge''"] acts
    by (auto simp: Option.is_none_def)
qed

theorem dry_run_no_effects_witness:
  "\<exists>e' s' r. engine_Run ms_Load calm ''x'' (shop pay) idle ''pay'' (plain\<lparr>op_DryRun := True\<rparr>) = Some (e', s', r, None)
     \<and> list_all no_effect (rn_log s')"
proof -
  have "case engine_Run ms_Load calm ''x'' (shop pay) idle ''pay'' (plain\<lparr>op_DryRun := True\<rparr>) of
      Some (_, _, _, err) \<Rightarrow> err = None | None \<Rightarrow> False" by code_simp
  then obtain e' s' r where run:
    "engine_Run ms_Load calm ''x'' (shop pay) idle ''pay'' (plain\<lparr>op_DryRun := True\<rparr>) = Some (e', s', r, None)"
    by (auto split: option.splits)
  from dry_run_no_effects [OF pay_ok(2) _ _ _ run] run show ?thesis by (simp add: idle_def plain_def)
qed

definition charged :: Instance where
  "charged = (resumed_instance ''i'' (zero_checkpoint\<lparr>cp_CompletedSteps := [''charge'']\<rparr>))"

theorem compensate_reverse_witness:
  "\<exists>s' inst'. compensate calm pay_back plain idle charged = (s', inst', None) \<and> comps (rn_log s') = [''charge'']
     \<and> status inst' ''charge'' = StepCompensated"
proof -
  have "case compensate calm pay_back plain idle charged of (_, _, e) \<Rightarrow> e = None" by code_simp
  then obtain s' inst' where c: "compensate calm pay_back plain idle charged = (s', inst', None)"
    by (auto split: prod.splits)
  have "\<not> in_DryRun charged" "cp_CompletedSteps (in_Checkpoint charged) = [''charge'']"
    "to_undo pay_back charged ''charge'' \<longleftrightarrow> \<not> Option.is_none (sd_Compensate (the_step pay_back ''charge''))"
    by (simp_all add: charged_def resumed_instance_def zero_checkpoint_def to_undo_def status_def step_of_def
        zero_step_def Option.is_none_def)
  moreover have "\<not> Option.is_none (sd_Compensate (the_step pay_back ''charge''))" by code_simp
  ultimately show ?thesis
    using compensate_reverse [OF c] c by (simp add: idle_def Option.is_none_def)
qed

section \<open>What a compensation changes\<close>

text \<open>A run only ever adds to the starts of an action, and \<open>runStep\<close> adds one.\<close>

interpretation grow: run_invariant env d opts "\<lambda>s inst. K \<le> acts n (rn_log s)" "\<lambda>ns s inst. K \<le> acts n (rn_log s)"
  for env :: "'st wenv" and d and opts and K and n
proof (unfold_locales, goal_cases)
  case (14 s inst ns inst2 s' inst' e)
  then show ?case by (simp add: persist_effect(1) [OF 14(7)])
qed (simp_all add: persist_effect(1))

lemma runStep_starts:
  assumes "\<not> in_DryRun inst" and "runStep env d opts s inst step = (s', inst', e)"
  shows "acts (sd_Name step) (rn_log s) < acts (sd_Name step) (rn_log s')"
proof -
  let ?n = "sd_Name step" and ?now = "we_clock env (rn_tick s)"
  let ?st = "step_of (in_Checkpoint inst) ?n"
  let ?st = "?st\<lparr>ss_Name := ?n, ss_Status := StepRunning, ss_Attempt := ss_Attempt ?st + 1, ss_StartedAt := ?now\<rparr>"
  obtain s1 inst1 where save: "save_quietly env s (put_step inst ?n ?st) = (s1, inst1)" by force
  then obtain e1 where pers: "persist env s (put_step inst ?n ?st) = (s1, inst1, e1)"
    using save_quietly_persist by blast
  note eff = persist_effect [OF pers]
  let ?ep = "lookup_epoch env s1 step"
  let ?ec = "exec_context d opts inst1 step ?n (ss_Attempt ?st) ?ep"
  let ?r = "if in_DryRun inst1 then (tick s1, dry_result ?now ''dry-run'' ''skipped side effects'', None)
    else (case sd_Action step (rn_tick (tick s1)) ?ec of (res, err) \<Rightarrow> (emit (EAct ?n ?ec) (tick s1), res, err))"
  obtain s2 res err where run: "?r = (s2, res, err)" by (metis prod_cases3)
  have "\<not> in_DryRun inst1" using assms(1) eff(3) by simp
  then have "rn_log s2 = rn_log s @ [ESave (in_Checkpoint inst1) e1] @ [EAct ?n ?ec]"
    using run eff(1) by (auto split: prod.splits)
  then have started: "Suc (acts ?n (rn_log s)) \<le> acts ?n (rn_log s2)" by (simp only: acts_simps) simp
  have running: "status inst1 ?n = StepRunning" by (simp add: eff(2))
  have "runStep env d opts s inst step =
     (if err \<noteq> None \<or> re_Ambiguous res then handleStepFailure env d opts s2 inst1 step ?st res err
      else persist env (wf_audit opts ''workflow.step.ok'' ?n ''completed'' s2)
        (complete_step inst1 ?n (?st\<lparr>ss_Status := StepCompleted, ss_FinishedAt := we_clock env (rn_tick s2),
           ss_Evidence := ss_Evidence ?st @ [re_Evidence res]\<rparr>) ?ep))"
    by (simp add: runStep_def Let_def save run)
  then consider "handleStepFailure env d opts s2 inst1 step ?st res err = (s', inst', e)"
    | inst2 where "persist env (wf_audit opts ''workflow.step.ok'' ?n ''completed'' s2) inst2 = (s', inst', e)"
    using assms(2) by (auto split: if_splits)
  then have "Suc (acts ?n (rn_log s)) \<le> acts ?n (rn_log s')"
  proof cases
    case 1
    then show ?thesis by (rule grow.handleStepFailure_P(1) [OF started running])
  next
    case (2 inst2)
    with started show ?thesis by (simp add: persist_effect(1))
  qed
  then show ?thesis by simp
qed

text \<open>
  C36. The guarantee against repetition does not extend to steps with a compensation. Take any
  definition without parallel groups and a run that reaches a step its checkpoint has as
  compensating, every step before it being done, with the context live and no lockdown in the way.
  Whatever the step's idempotency class, \<open>NotRetryable\<close> included, the run starts its action again.
\<close>

theorem compensating_step_restarts:
  assumes "def_ok d" and "df_order d = pre @ n # ns" and "\<not> list_ex (\<lambda>m. group_of d m \<noteq> '''') (df_order d)"
    and "list_all (\<lambda>m. step_done (status inst m)) pre" and "status inst n = StepCompensating"
    and "\<not> in_DryRun inst" and "we_ctx env (rn_tick s) = None" and "\<not> locked env (tick s) (the_step d n)"
  shows "acts n (rn_log s) < acts n (rn_log (fst (sequential_loop env d opts s inst (n # ns))))"
proof -
  have name: "sd_Name (the_step d m) = m \<and> group_of d m = ''''" if "m \<in> set (df_order d)" for m
    using that assms(3) the_step_name [OF assms(1)] by (auto simp: list_ex_iff)
  have nm: "sd_Name (the_step d n) = n" using name [of n] assms(2) by simp
  have deps: "(\<lambda>n. sd_DependsOn (the_step d n)) = step_deps (df_steps d)"
    by (rule ext) (auto simp: step_deps_def the_step_def def_Step_def nil_step_def split: option.splits)
  have topo: "topological (\<lambda>n. sd_DependsOn (the_step d n)) ((pre @ [n]) @ ns)" "distinct ((pre @ [n]) @ ns)"
    using assms(1, 2) by (simp_all add: def_ok_def deps)
  have prep: "prepareStepResume env d opts (tick s) inst n = (tick s, inst, False, None)"
    using assms(5) by (simp add: prepareStepResume_def Let_def status_def)
  obtain s1 inst1 e1 where run: "runStep env d opts (tick (tick s)) inst (the_step d n) = (s1, inst1, e1)"
    by (metis prod_cases3)
  have started: "Suc (acts n (rn_log s)) \<le> acts n (rn_log s1)"
    using runStep_starts [OF assms(6) run] nm by simp
  have "set (sd_DependsOn (the_step d n)) \<subseteq> set pre"
    using topo(1) unfolding topological_def by (auto dest!: spec [of _ "length pre"])
  then have may: "may d inst n" using assms(4, 5) by (auto simp: may_def startable_def list_all_iff)
  note rs = ret.runStep_P [OF TrueI _ _ run, unfolded nm, OF refl may name [THEN conjunct2]]
  show ?thesis
  proof (cases e1)
    case (Some x)
    then show ?thesis using started assms(7, 8) prep run by simp
  next
    case None
    obtain s2 inst2 e2 where rest: "sequential_loop env d opts s1 inst1 ns = (s2, inst2, e2)"
      by (metis prod_cases3)
    have "step_done (status inst1 m)" if "m \<in> set (pre @ [n])" for m
      using that assms(2, 4) rs(2) [OF _ None] by (auto simp: step_done_def list_all_iff)
    then have "Suc (acts n (rn_log s)) \<le> acts n (rn_log s2)"
      using grow.sequential_loop_P [OF started rest _ _ topo] name assms(2) by simp
    then show ?thesis using None assms(7, 8) prep run rest by simp
  qed
qed

definition interrupted :: Instance where
  "interrupted = resumed_instance ''i'' (durable zero_checkpoint (take 10 (log_of pay_back zero_checkpoint)))"

theorem compensating_step_restarts_witness:
  "sd_Idempotency (the_step pay_back ''charge'') = NotRetryable
   \<and> 0 < acts ''charge'' (rn_log (fst (sequential_loop calm pay_back plain idle interrupted [''charge'', ''ship''])))"
proof -
  have ev: "df_order pay_back = [] @ ''charge'' # [''ship'']"
    "list_all (\<lambda>m. group_of pay_back m = '''') (df_order pay_back)"
    "status interrupted ''charge'' = StepCompensating" "\<not> in_DryRun interrupted"
    "sd_Idempotency (the_step pay_back ''charge'') = NotRetryable"
    by code_simp+
  moreover have "\<not> locked calm (tick idle) (the_step pay_back ''charge'')"
    and "we_ctx calm (rn_tick idle) = None"
    by (simp_all add: locked_def calm_def)
  ultimately show ?thesis
    using compensating_step_restarts [OF pay_ok(3) ev(1), of interrupted calm idle plain]
    by (auto simp: list_all_iff list_ex_iff)
qed

text \<open>
  Such a checkpoint arises: a step that must not be retried completes, a later step fails, and the
  process dies after the checkpoint that marks the first step as compensating; over the two
  attempts the action is started twice.
\<close>

theorem crash_in_compensation_repeats:
  "def_ok pay_back \<and> sd_Idempotency (the_step pay_back ''charge'') = NotRetryable
   \<and> (\<exists>cp. attempts (we_Save calm) pay_back ''charge'' zero_checkpoint 2 cp)"
proof -
  define p1 where "p1 = take 10 (log_of pay_back zero_checkpoint)"
  define cp1 where "cp1 = durable zero_checkpoint p1"
  define p2 where "p2 = take 4 (log_of pay_back cp1)"
  have p1: "saves_ok p1" "acts ''charge'' p1 = 1" unfolding p1_def by code_simp+
  have p2: "saves_ok p2" "acts ''charge'' p2 = 1" unfolding p2_def cp1_def p1_def by code_simp+
  have "attempts (we_Save calm) pay_back ''charge'' zero_checkpoint 1 cp1"
    using attempt_calm [OF no_attempt pay_ok(3) p1(1) [unfolded p1_def], of "''charge''"] p1(2)
    by (simp add: p1_def cp1_def)
  from attempt_calm [OF this pay_ok(3) p2(1) [unfolded p2_def]] p2(2)
  have "attempts (we_Save calm) pay_back ''charge'' zero_checkpoint 2 (durable cp1 p2)"
    by (simp add: p2_def numeral_2_eq_2)
  moreover have "sd_Idempotency (the_step pay_back ''charge'') = NotRetryable" by code_simp
  ultimately show ?thesis using pay_ok(3) by blast
qed

end
