(* ===== verification/Replay_Cache.thy ===== *)
theory Replay_Cache
  imports Go_Errors
begin

unbundle bit_operations_syntax

text \<open>
  The two anti-replay caches: \<open>security/antireplay/antireplay.go\<close>, bound to a security epoch and
  refusing new entries when full, and \<open>anti_replay.go\<close> of the root package, which drops its oldest
  entry when full. The Go maps are association lists; the instant a method reads is an argument.
  Shown: the text of an epoch determines it, so that entries of different epochs and identifiers
  never share a key; an accepted identifier is refused until it expires or the epoch is left,
  whatever is called in between; the root cache never indexes an empty order, stays within its
  bound, and forgets an unexpired key only after as many newer keys as it can hold.
\<close>

section \<open>The epoch-bound cache\<close>

datatype cache_error = CErrReplay | CErrExpired | CErrEmptyID | CErrEpochRollback | CErrCapacity | CErrOverflow

record entry =
  en_expires :: time
  en_epoch :: u64

record Cache =
  ca_max :: nat
  ca_entries :: "(string \<times> entry) list"
  ca_epoch :: u64

definition NewCache :: "int \<Rightarrow> Cache" where
  "NewCache maxEntries = \<lparr>ca_max = (if maxEntries \<le> 0 then 4096 else nat maxEntries), ca_entries = [], ca_epoch = 0\<rparr>"

definition cache_AdvanceEpoch :: "Cache \<Rightarrow> Cache \<times> (u64 + cache_error)" where
  "cache_AdvanceEpoch c =
     (if ca_epoch c = NOT 0 then (c, Inr CErrOverflow)
      else (c\<lparr>ca_epoch := ca_epoch c + 1, ca_entries := []\<rparr>, Inl (ca_epoch c + 1)))"

definition cache_SetEpoch :: "u64 \<Rightarrow> Cache \<Rightarrow> Cache \<times> cache_error option" where
  "cache_SetEpoch e c =
     (if e < ca_epoch c then (c, Some CErrEpochRollback)
      else if ca_epoch c < e then (c\<lparr>ca_epoch := e, ca_entries := []\<rparr>, None)
      else (c, None))"

text \<open>The loop of \<open>formatEpoch\<close> fills sixteen digits from the right, four bits at a time.\<close>

definition hexdigits :: string where "hexdigits = ''0123456789abcdef''"

primrec hex_loop :: "nat \<Rightarrow> u64 \<Rightarrow> string" where
  "hex_loop 0 v = []"
| "hex_loop (Suc n) v = hex_loop n (drop_bit 4 v) @ [hexdigits ! unat (v AND 15)]"

definition formatEpoch :: "u64 \<Rightarrow> string" where
  "formatEpoch e = hex_loop 16 e"

definition cacheKey :: "u64 \<Rightarrow> string \<Rightarrow> string" where
  "cacheKey e i = formatEpoch e @ [CHR 0x00] @ i"

definition purgeLocked :: "time \<Rightarrow> Cache \<Rightarrow> Cache" where
  "purgeLocked now c =
     c\<lparr>ca_entries := filter (\<lambda>(k, e). \<not> (en_expires e < now \<or> en_epoch e \<noteq> ca_epoch c)) (ca_entries c)\<rparr>"

definition cache_CheckAndStore :: "time \<Rightarrow> string \<Rightarrow> duration \<Rightarrow> Cache \<Rightarrow> Cache \<times> cache_error option" where
  "cache_CheckAndStore now i ttl c =
     (if i = '''' then (c, Some CErrEmptyID)
      else
        (let ttl = (if ttl \<le> 0 then Minute else ttl);
             expires = now + ttl
         in if \<not> now < expires then (c, Some CErrExpired)
            else
              (let c = purgeLocked now c;
                   k = cacheKey (ca_epoch c) i;
                   (c, seen) =
                     (case map_of (ca_entries c) k of
                        None \<Rightarrow> (c, False)
                      | Some e \<Rightarrow> if en_expires e < now then (c\<lparr>ca_entries := AList.delete k (ca_entries c)\<rparr>, False)
                                  else (c, True))
               in if seen then (c, Some CErrReplay)
                  else if length (ca_entries c) \<ge> ca_max c then (c, Some CErrCapacity)
                  else (c\<lparr>ca_entries := AList.update k \<lparr>en_expires = expires, en_epoch = ca_epoch c\<rparr> (ca_entries c)\<rparr>, None))))"

definition cache_Seen :: "time \<Rightarrow> string \<Rightarrow> Cache \<Rightarrow> Cache \<times> bool" where
  "cache_Seen now i c =
     (let c = purgeLocked now c
      in (c, case map_of (ca_entries c) (cacheKey (ca_epoch c) i) of None \<Rightarrow> False | Some e \<Rightarrow> \<not> en_expires e < now))"

definition cache_Len :: "time \<Rightarrow> Cache \<Rightarrow> Cache \<times> nat" where
  "cache_Len now c = (let c = purgeLocked now c in (c, length (ca_entries c)))"

section \<open>The cache that drops its oldest entry\<close>

record ReplayCache =
  rc_max :: nat
  rc_entries :: "(string \<times> time) list"
  rc_order :: "string list"

definition NewReplayCache :: "int \<Rightarrow> ReplayCache" where
  "NewReplayCache maxEntries =
     \<lparr>rc_max = (if maxEntries \<le> 0 then 1024 else nat maxEntries), rc_entries = [], rc_order = []\<rparr>"

fun evict_loop :: "time \<Rightarrow> (string \<times> time) list \<Rightarrow> string list \<Rightarrow> (string \<times> time) list \<times> string list" where
  "evict_loop now es [] = (es, [])"
| "evict_loop now es (k # ks) =
     (case map_of es k of
        None \<Rightarrow> evict_loop now es ks
      | Some exp \<Rightarrow>
          if \<not> now < exp then evict_loop now (AList.delete k es) ks
          else (case evict_loop now es ks of (es, order) \<Rightarrow> (es, k # order)))"

definition evictExpiredLocked :: "time \<Rightarrow> ReplayCache \<Rightarrow> ReplayCache" where
  "evictExpiredLocked now c =
     (if rc_entries c = [] then c
      else (case evict_loop now (rc_entries c) (rc_order c) of (es, order) \<Rightarrow> c\<lparr>rc_entries := es, rc_order := order\<rparr>))"

text \<open>\<open>None\<close> is the panic of \<open>c.order[0]\<close> on an empty order.\<close>

definition storeLocked :: "string \<Rightarrow> time \<Rightarrow> ReplayCache \<Rightarrow> ReplayCache option" where
  "storeLocked key exp c =
     (if map_of (rc_entries c) key \<noteq> None then Some (c\<lparr>rc_entries := AList.update key exp (rc_entries c)\<rparr>)
      else
        (case (if length (rc_entries c) \<ge> rc_max c then
                 (case rc_order c of [] \<Rightarrow> None
                  | old # order \<Rightarrow> Some (c\<lparr>rc_order := order, rc_entries := AList.delete old (rc_entries c)\<rparr>))
               else Some c) of
           None \<Rightarrow> None
         | Some c \<Rightarrow> Some (c\<lparr>rc_order := rc_order c @ [key], rc_entries := AList.update key exp (rc_entries c)\<rparr>)))"

definition replay_error :: "sentinel \<Rightarrow> string \<Rightarrow> string \<Rightarrow> go_error" where
  "replay_error s code msg =
     EError (no_fields\<lparr>er_Op := ''ReplayCache'', er_Code := code, er_Category := ''security'', er_Message := msg\<rparr>)
       (Some (Sentinel s))"

definition replay_CheckAndStore :: "time \<Rightarrow> string \<Rightarrow> duration \<Rightarrow> ReplayCache \<Rightarrow> (ReplayCache \<times> go_error option) option" where
  "replay_CheckAndStore now key ttl c =
     (if key = '''' then Some (c, Some (replay_error ErrPolicy ''invalid_argument'' ''replay key required''))
      else
        (let ttl = (if ttl \<le> 0 then Minute else ttl);
             c = evictExpiredLocked now c
         in if (case map_of (rc_entries c) key of Some exp \<Rightarrow> now < exp | None \<Rightarrow> False) then
              Some (c, Some (replay_error ErrReplay ''replay'' ''replay detected''))
            else (case storeLocked key (now + ttl) c of None \<Rightarrow> None | Some c \<Rightarrow> Some (c, None))))"

definition replay_Seen :: "time \<Rightarrow> string \<Rightarrow> ReplayCache \<Rightarrow> ReplayCache \<times> bool" where
  "replay_Seen now key c =
     (let c = evictExpiredLocked now c
      in (c, case map_of (rc_entries c) key of Some exp \<Rightarrow> now < exp | None \<Rightarrow> False))"

definition replay_Len :: "time \<Rightarrow> ReplayCache \<Rightarrow> ReplayCache \<times> nat" where
  "replay_Len now c = (let c = evictExpiredLocked now c in (c, length (rc_entries c)))"

section \<open>Keys\<close>

fun hex_value :: "nat \<Rightarrow> string \<Rightarrow> nat" where
  "hex_value acc [] = acc"
| "hex_value acc (d # ds) = hex_value (16 * acc + length (takeWhile (\<lambda>c. c \<noteq> d) hexdigits)) ds"

lemma hex_value_append: "hex_value acc (xs @ ys) = hex_value (hex_value acc xs) ys"
  by (induction xs arbitrary: acc) simp_all

lemma hexdigit_value: "n < 16 \<Longrightarrow> length (takeWhile (\<lambda>c. c \<noteq> hexdigits ! n) hexdigits) = n"
  by (simp add: hexdigits_def numeral_nat less_Suc_eq) (elim disjE; simp)

lemma low_nibble: "unat (v AND 15 :: u64) = unat v mod 16"
proof -
  have "v AND 15 = v mod 16" using take_bit_eq_mask [of 4 v] by (simp add: take_bit_eq_mod mask_numeral)
  then show ?thesis by (simp add: unat_mod_distrib)
qed

lemma high_nibbles: "unat (drop_bit 4 v :: u64) = unat v div 16"
  by (simp add: drop_bit_eq_div unat_div_distrib)

lemma hex_loop_value: "hex_value 0 (hex_loop n v) = unat v mod 16 ^ n"
proof (induction n arbitrary: v)
  case (Suc n)
  have "unat v mod 16 < 16" by simp
  note digit = hexdigit_value [OF this]
  show ?case
    by (simp add: hex_value_append Suc.IH low_nibble high_nibbles digit mod_mult2_eq [of _ 16] mult.commute)
qed simp

lemma length_hex_loop: "length (hex_loop n v) = n"
  by (induction n arbitrary: v) simp_all

lemma formatEpoch_value: "hex_value 0 (formatEpoch e) = unat e"
proof -
  have "unat e < 2 ^ 64" using unsigned_less [of e] by simp
  then show ?thesis by (simp add: formatEpoch_def hex_loop_value)
qed

lemma cacheKey_inject [simp]: "cacheKey e i = cacheKey e' i' \<longleftrightarrow> e = e' \<and> i = i'"
proof
  assume eq: "cacheKey e i = cacheKey e' i'"
  then have split: "formatEpoch e @ [CHR 0x00] @ i = formatEpoch e' @ [CHR 0x00] @ i'" by (simp add: cacheKey_def)
  have "length (formatEpoch e) = length (formatEpoch e')" by (simp add: formatEpoch_def length_hex_loop)
  with split have "formatEpoch e = formatEpoch e'" "i = i'" by simp_all
  then show "e = e' \<and> i = i'" by (metis formatEpoch_value unsigned_word_eqI)
qed simp

section \<open>An accepted identifier is refused until it expires\<close>

definition life :: "duration \<Rightarrow> duration" where
  "life ttl = (if ttl \<le> 0 then Minute else ttl)"

lemma life_pos: "0 < life ttl"
  by (simp add: life_def Minute_def Second_def Millisecond_def)

datatype cache_op = CStore string duration | CSeen string | CLen | CAdvance | CSet u64

primrec cache_act :: "Cache \<Rightarrow> time \<times> cache_op \<Rightarrow> Cache" where
  "cache_act c (now, a) =
     (case a of CStore i ttl \<Rightarrow> fst (cache_CheckAndStore now i ttl c) | CSeen i \<Rightarrow> fst (cache_Seen now i c)
      | CLen \<Rightarrow> fst (cache_Len now c) | CAdvance \<Rightarrow> fst (cache_AdvanceEpoch c) | CSet e \<Rightarrow> fst (cache_SetEpoch e c))"

text \<open>The identifier is recorded for the current epoch, to expire at \<open>x\<close>.\<close>

definition recorded :: "string \<Rightarrow> time \<Rightarrow> Cache \<Rightarrow> bool" where
  "recorded i x c \<longleftrightarrow> map_of (ca_entries c) (cacheKey (ca_epoch c) i) = Some \<lparr>en_expires = x, en_epoch = ca_epoch c\<rparr>
     \<and> distinct (map fst (ca_entries c))"

lemma recorded_purge: "recorded i x c \<Longrightarrow> now \<le> x \<Longrightarrow> recorded i x (purgeLocked now c)"
  by (auto simp: recorded_def purgeLocked_def map_of_filter_kept distinct_map_filter)

lemma purge_epoch [simp]: "ca_epoch (purgeLocked now c) = ca_epoch c" "ca_max (purgeLocked now c) = ca_max c"
  by (simp_all add: purgeLocked_def)

lemma CheckAndStore_recorded:
  assumes "recorded i x c" and "now \<le> x"
  shows "recorded i x (fst (cache_CheckAndStore now j ttl c))"
    and "i \<noteq> '''' \<Longrightarrow> snd (cache_CheckAndStore now i ttl c) = Some CErrReplay"
    and "ca_epoch (fst (cache_CheckAndStore now j ttl c)) = ca_epoch c"
proof -
  note rec = recorded_purge [OF assms]
  have life: "0 < (if ttl \<le> 0 then Minute else ttl)" using life_pos [of ttl] by (simp add: life_def)
  show "snd (cache_CheckAndStore now i ttl c) = Some CErrReplay" if "i \<noteq> ''''"
    using rec that life assms(2) by (simp add: cache_CheckAndStore_def recorded_def Let_def)
  have keep: "recorded i x ((purgeLocked now c)\<lparr>ca_entries := AList.update (cacheKey (ca_epoch c) j) v (ca_entries (purgeLocked now c))\<rparr>)"
    if "map_of (ca_entries (purgeLocked now c)) (cacheKey (ca_epoch c) j) = None" for v
    using rec that by (cases "i = j") (auto simp: recorded_def update_conv' distinct_update)
  have drop: "recorded i x ((purgeLocked now c)\<lparr>ca_entries := AList.delete (cacheKey (ca_epoch c) j) (ca_entries (purgeLocked now c))\<rparr>)"
    "recorded i x ((purgeLocked now c)\<lparr>ca_entries := AList.update (cacheKey (ca_epoch c) j) v
        (AList.delete (cacheKey (ca_epoch c) j) (ca_entries (purgeLocked now c)))\<rparr>)"
    if "map_of (ca_entries (purgeLocked now c)) (cacheKey (ca_epoch c) j) = Some e" "en_expires e < now" for e v
    using rec that assms(2) by (auto simp: recorded_def update_conv' delete_conv' distinct_update distinct_delete)
  show "recorded i x (fst (cache_CheckAndStore now j ttl c))"
    using assms(1) rec keep drop by (auto simp: cache_CheckAndStore_def Let_def split: option.splits)
  show "ca_epoch (fst (cache_CheckAndStore now j ttl c)) = ca_epoch c"
    by (auto simp: cache_CheckAndStore_def Let_def split: option.splits)
qed

lemma cache_act_epoch: "ca_epoch c \<le> ca_epoch (cache_act c a)"
proof (cases a)
  case (Pair now op)
  have adv: "ca_epoch c \<le> ca_epoch c + 1" if "ca_epoch c \<noteq> NOT 0"
  proof -
    have "ca_epoch c < - 1" using that by (simp add: word_order.not_eq_extremum)
    then show ?thesis using word_Suc_less by (blast intro: less_imp_le)
  qed
  show ?thesis
    using adv
    by (auto simp: Pair cache_CheckAndStore_def cache_Seen_def cache_Len_def cache_AdvanceEpoch_def cache_SetEpoch_def Let_def
        split: cache_op.splits option.splits)
qed

lemma cache_act_recorded:
  assumes "recorded i x c" and "fst a \<le> x" and "ca_epoch (cache_act c a) = ca_epoch c"
  shows "recorded i x (cache_act c a)"
proof (cases a)
  case (Pair now op)
  have "ca_epoch c + 1 \<noteq> ca_epoch c" by simp
  then show ?thesis
    using assms CheckAndStore_recorded(1) [of i x c now] recorded_purge [of i x c now]
    by (auto simp: Pair cache_Seen_def cache_Len_def cache_AdvanceEpoch_def cache_SetEpoch_def Let_def
        split: cache_op.splits if_splits)
qed

lemma cache_run_epoch: "ca_epoch c \<le> ca_epoch (foldl cache_act c h)"
  by (induction h arbitrary: c) (auto intro: order_trans cache_act_epoch)

lemma cache_run_recorded:
  assumes "recorded i x c" and "\<And>a. a \<in> set h \<Longrightarrow> fst a \<le> x" and "ca_epoch (foldl cache_act c h) = ca_epoch c"
  shows "recorded i x (foldl cache_act c h)"
  using assms
proof (induction h arbitrary: c)
  case (Cons a h)
  have "ca_epoch (cache_act c a) = ca_epoch c"
    using cache_act_epoch [of c a] cache_run_epoch [of "cache_act c a" h] Cons.prems(3) by simp
  moreover from this have "recorded i x (cache_act c a)"
    using cache_act_recorded [OF Cons.prems(1)] Cons.prems(2) by simp
  ultimately show ?case using Cons.IH Cons.prems by simp
qed simp

lemma CheckAndStore_accepts:
  assumes "distinct (map fst (ca_entries c))" and "cache_CheckAndStore now i ttl c = (c', None)"
  shows "recorded i (now + life ttl) c'" and "i \<noteq> ''''" and "ca_epoch c' = ca_epoch c"
    and "length (ca_entries c') \<le> ca_max c"
proof -
  have "distinct (map fst (ca_entries (purgeLocked now c)))"
    using assms(1) by (simp add: purgeLocked_def distinct_map_filter)
  then show "recorded i (now + life ttl) c'" "i \<noteq> ''''" "ca_epoch c' = ca_epoch c" "length (ca_entries c') \<le> ca_max c"
    using assms(2)
    by (auto simp: cache_CheckAndStore_def Let_def recorded_def life_def update_conv' delete_conv' distinct_update
        distinct_delete length_update_new split: option.splits if_splits prod.splits)
qed

definition cache_ok :: "Cache \<Rightarrow> bool" where
  "cache_ok c \<longleftrightarrow> distinct (map fst (ca_entries c)) \<and> length (ca_entries c) \<le> ca_max c"

lemma cache_ok_purge: "cache_ok c \<Longrightarrow> cache_ok (purgeLocked now c)"
  by (auto simp: cache_ok_def purgeLocked_def distinct_map_filter intro: le_trans length_filter_le)

lemma cache_ok_store: "cache_ok c \<Longrightarrow> cache_ok (fst (cache_CheckAndStore now i ttl c))"
  using cache_ok_purge [of c now] length_delete_le [of "cacheKey (ca_epoch c) i" "ca_entries (purgeLocked now c)"]
  by (auto simp: cache_CheckAndStore_def Let_def cache_ok_def distinct_update distinct_delete length_update_new
      delete_conv' split: option.splits)

lemma cache_ok_clear: "cache_ok c \<Longrightarrow> cache_ok (c\<lparr>ca_epoch := e, ca_entries := []\<rparr>)"
  by (simp add: cache_ok_def)

lemma cache_ok_act: "cache_ok c \<Longrightarrow> cache_ok (cache_act c a)"
  by (cases a) (simp add: cache_ok_store cache_ok_purge cache_ok_clear cache_Seen_def cache_Len_def
      cache_AdvanceEpoch_def cache_SetEpoch_def Let_def split: cache_op.split)

lemma cache_ok_run: "cache_ok (foldl cache_act (NewCache m) h)"
proof -
  have "cache_ok (NewCache m)" by (simp add: cache_ok_def NewCache_def)
  then show ?thesis by (induction h rule: rev_induct) (simp_all add: cache_ok_act)
qed

text \<open>
  C17. Once the cache has accepted an identifier, it accepts it again within the time it was given only
  under a greater security epoch: whatever stores, lookups, purges and epoch changes happen in
  between, at whatever instants up to the expiry, the second attempt is refused otherwise.
\<close>

theorem cache_refuses_replay:
  assumes "c = foldl cache_act (NewCache m) h0"
    and "cache_CheckAndStore now i ttl c = (c1, None)"
    and "\<And>a. a \<in> set h \<Longrightarrow> fst a \<le> now + life ttl" and "now' \<le> now + life ttl"
    and "cache_CheckAndStore now' i ttl' (foldl cache_act c1 h) = (c3, None)"
  shows "ca_epoch c < ca_epoch (foldl cache_act c1 h)"
proof (rule ccontr)
  assume "\<not> ca_epoch c < ca_epoch (foldl cache_act c1 h)"
  have "distinct (map fst (ca_entries c))" using cache_ok_run [of m h0] assms(1) by (simp add: cache_ok_def)
  note acc = CheckAndStore_accepts [OF this assms(2)]
  have "ca_epoch (foldl cache_act c1 h) = ca_epoch c1"
    using \<open>\<not> ca_epoch c < _\<close> cache_run_epoch [of c1 h] acc(3) by simp
  note cache_run_recorded [OF acc(1) assms(3) this]
  from CheckAndStore_recorded(2) [OF this assms(4) acc(2), of ttl'] show False using assms(5) by simp
qed

theorem cache_refuses_replay_witness:
  "\<exists>c1 c3. cache_CheckAndStore 10 ''op'' 5 (NewCache 2) = (c1, None)
     \<and> cache_CheckAndStore 12 ''op'' 5 (foldl cache_act c1 [(11, CStore ''other'' 5), (12, CAdvance)]) = (c3, None)
     \<and> ca_epoch (NewCache 2) < ca_epoch (foldl cache_act c1 [(11, CStore ''other'' 5), (12, CAdvance)])"
proof -
  define c1 where "c1 = fst (cache_CheckAndStore 10 ''op'' 5 (NewCache 2))"
  define c3 where "c3 = fst (cache_CheckAndStore 12 ''op'' 5 (foldl cache_act c1 [(11, CStore ''other'' 5), (12, CAdvance)]))"
  have "snd (cache_CheckAndStore 10 ''op'' 5 (NewCache 2)) = None" by code_simp
  then have acc: "cache_CheckAndStore 10 ''op'' 5 (NewCache 2) = (c1, None)" by (simp add: c1_def prod_eq_iff)
  have "snd (cache_CheckAndStore 12 ''op'' 5 (foldl cache_act c1 [(11, CStore ''other'' 5), (12, CAdvance)])) = None"
    unfolding c1_def by code_simp
  then have again: "cache_CheckAndStore 12 ''op'' 5 (foldl cache_act c1 [(11, CStore ''other'' 5), (12, CAdvance)]) = (c3, None)"
    by (simp add: c3_def prod_eq_iff)
  have "ca_epoch (NewCache 2) < ca_epoch (foldl cache_act c1 [(11, CStore ''other'' 5), (12, CAdvance)])"
    by (rule cache_refuses_replay [of "NewCache 2" 2 "[]", OF _ acc _ _ again]) (auto simp: life_def)
  then show ?thesis using acc again by blast
qed

section \<open>The dropping cache\<close>

definition replay_ok :: "ReplayCache \<Rightarrow> bool" where
  "replay_ok c \<longleftrightarrow> distinct (rc_order c) \<and> distinct (map fst (rc_entries c)) \<and> set (rc_order c) = fst ` set (rc_entries c)
     \<and> length (rc_entries c) \<le> rc_max c \<and> 0 < rc_max c"

lemma replay_ok_length: "replay_ok c \<Longrightarrow> length (rc_order c) = length (rc_entries c)"
  unfolding replay_ok_def by (metis distinct_card length_map list.set_map)

text \<open>What the eviction loop keeps: the keys of the order that have not expired.\<close>

definition alive :: "time \<Rightarrow> (string \<times> time) list \<Rightarrow> string \<Rightarrow> bool" where
  "alive now es k \<longleftrightarrow> (case map_of es k of Some x \<Rightarrow> now < x | None \<Rightarrow> False)"

lemma evict_loop_spec:
  assumes "evict_loop now es ks = (es', ks')" and "distinct ks"
  shows "ks' = filter (alive now es) ks"
    and "map_of es' = (\<lambda>k. if k \<in> set ks \<and> \<not> alive now es k then None else map_of es k)"
    and "distinct (map fst es) \<Longrightarrow> distinct (map fst es')" and "length es' \<le> length es"
proof -
  have "ks' = filter (alive now es) ks
    \<and> (\<forall>k. map_of es' k = (if k \<in> set ks \<and> \<not> alive now es k then None else map_of es k))
    \<and> (distinct (map fst es) \<longrightarrow> distinct (map fst es')) \<and> length es' \<le> length es"
    using assms
  proof (induction ks arbitrary: es es' ks')
    case (Cons k ks)
    have k: "k \<notin> set ks" "distinct ks" using Cons.prems(2) by simp_all
    consider "map_of es k = None" | x where "map_of es k = Some x" "now < x" | x where "map_of es k = Some x" "\<not> now < x"
      by (cases "map_of es k") auto
    then show ?case
    proof cases
      case 1
      then have "evict_loop now es ks = (es', ks')" using Cons.prems(1) by simp
      from Cons.IH [OF this k(2)] 1 show ?thesis by (simp add: alive_def)
    next
      case 2
      then obtain ks1 where rest: "evict_loop now es ks = (es', ks1)" and ks': "ks' = k # ks1"
        using Cons.prems(1) by (auto split: prod.splits)
      from Cons.IH [OF rest k(2)] 2 ks' show ?thesis by (simp add: alive_def)
    next
      case 3
      then have rest: "evict_loop now (AList.delete k es) ks = (es', ks')" using Cons.prems(1) by simp
      have dead: "\<not> alive now es k" using 3 by (simp add: alive_def)
      have al: "alive now (AList.delete k es) j \<longleftrightarrow> j \<noteq> k \<and> alive now es j" for j
        by (auto simp: alive_def delete_conv')
      have "filter (\<lambda>a. a \<noteq> k \<and> alive now es a) ks = filter (alive now es) ks"
        by (rule filter_cong [OF refl]) (use k(1) in auto)
      moreover have "length (AList.delete k es) \<le> length es" by (rule length_delete_le)
      ultimately show ?thesis
        using Cons.IH [OF rest k(2)] dead k(1) by (auto simp: al delete_conv' distinct_delete)
    qed
  qed simp
  then show "ks' = filter (alive now es) ks"
    "map_of es' = (\<lambda>k. if k \<in> set ks \<and> \<not> alive now es k then None else map_of es k)"
    "distinct (map fst es) \<Longrightarrow> distinct (map fst es')" "length es' \<le> length es" by auto
qed

lemma evict_spec:
  assumes "replay_ok c"
  shows "replay_ok (evictExpiredLocked now c)"
    and "rc_order (evictExpiredLocked now c) = filter (alive now (rc_entries c)) (rc_order c)"
    and "map_of (rc_entries (evictExpiredLocked now c)) =
      (\<lambda>k. if alive now (rc_entries c) k then map_of (rc_entries c) k else None)"
    and "rc_max (evictExpiredLocked now c) = rc_max c"
proof -
  note ok = assms [unfolded replay_ok_def]
  obtain es order where ev: "evict_loop now (rc_entries c) (rc_order c) = (es, order)" by force
  note spec = evict_loop_spec [OF ev]
  have none: "map_of (rc_entries c) k = None" if "k \<notin> set (rc_order c)" for k
    using ok that by (simp add: map_of_eq_None_iff)
  have shape: "rc_order (evictExpiredLocked now c) = filter (alive now (rc_entries c)) (rc_order c)"
    "map_of (rc_entries (evictExpiredLocked now c)) = (\<lambda>k. if alive now (rc_entries c) k then map_of (rc_entries c) k else None)"
    "rc_max (evictExpiredLocked now c) = rc_max c" "distinct (map fst (rc_entries (evictExpiredLocked now c)))"
    "length (rc_entries (evictExpiredLocked now c)) \<le> length (rc_entries c)"
    using ok spec none ev by (auto simp: evictExpiredLocked_def fun_eq_iff)
  have "fst ` set (rc_entries (evictExpiredLocked now c)) = dom (map_of (rc_entries (evictExpiredLocked now c)))"
    by (simp add: dom_map_of_conv_image_fst)
  also have "\<dots> = set (rc_order (evictExpiredLocked now c))"
    unfolding shape(1, 2) using ok by (auto simp: alive_def dom_def map_of_eq_None_iff split: option.splits if_splits)
  finally show "replay_ok (evictExpiredLocked now c)"
    using ok shape by (simp add: replay_ok_def)
  show "rc_order (evictExpiredLocked now c) = filter (alive now (rc_entries c)) (rc_order c)"
    "map_of (rc_entries (evictExpiredLocked now c)) = (\<lambda>k. if alive now (rc_entries c) k then map_of (rc_entries c) k else None)"
    "rc_max (evictExpiredLocked now c) = rc_max c" by (rule shape)+
qed

lemma storeLocked_spec:
  assumes "replay_ok c" and "map_of (rc_entries c) key = None"
  obtains c' where "storeLocked key exp c = Some c'" "replay_ok c'" "rc_max c' = rc_max c"
    "rc_order c' = (if length (rc_order c) < rc_max c then rc_order c else tl (rc_order c)) @ [key]"
    "\<And>k. k \<in> set (rc_order c') \<Longrightarrow> k \<noteq> key \<Longrightarrow> map_of (rc_entries c') k = map_of (rc_entries c) k"
    "map_of (rc_entries c') key = Some exp"
proof -
  note ok = assms(1) [unfolded replay_ok_def]
  note len = replay_ok_length [OF assms(1)]
  have new: "key \<notin> set (rc_order c)" using ok assms(2) by (simp add: map_of_eq_None_iff)
  show ?thesis
  proof (cases "length (rc_order c) < rc_max c")
    case True
    let ?c = "c\<lparr>rc_order := rc_order c @ [key], rc_entries := AList.update key exp (rc_entries c)\<rparr>"
    have "storeLocked key exp c = Some ?c" using True len assms(2) by (simp add: storeLocked_def)
    moreover have "replay_ok ?c"
      using ok new True len assms(2) by (auto simp: replay_ok_def distinct_update length_update_new dom_update)
    ultimately show ?thesis by (rule that) (use True in \<open>simp_all add: update_conv'\<close>)
  next
    case False
    then obtain old order where ord: "rc_order c = old # order" using ok len by (cases "rc_order c") auto
    let ?es = "AList.delete old (rc_entries c)"
    let ?c = "c\<lparr>rc_order := order @ [key], rc_entries := AList.update key exp ?es\<rparr>"
    have dom: "fst ` set ?es = set order"
      using ok ord arg_cong [OF delete_keys [of old "rc_entries c"], of set] by auto
    have l: "length ?es = length order"
      using ok dom ord distinct_card [of "map fst ?es"] distinct_card [of order] by (simp add: distinct_delete)
    have "map_of ?es key = None" using assms(2) by (simp add: delete_conv')
    note nokey = this
    have "storeLocked key exp c = Some ?c" using False len assms(2) ord by (simp add: storeLocked_def)
    moreover have "replay_ok ?c"
      using ok new False len ord dom l nokey by (auto simp: replay_ok_def distinct_update distinct_delete length_update_new dom_update)
    ultimately show ?thesis
      by (rule that) (use False ord ok in \<open>auto simp: update_conv' delete_conv'\<close>)
  qed
qed

datatype replay_op = RStore string duration | RSeen string | RLen

text \<open>A call and a sequence of calls, with the keys that were accepted; \<open>None\<close> is a panic.\<close>

fun replay_act :: "ReplayCache \<Rightarrow> time \<times> replay_op \<Rightarrow> (ReplayCache \<times> string list) option" where
  "replay_act c (now, RStore k ttl) =
     (case replay_CheckAndStore now k ttl c of None \<Rightarrow> None
      | Some (c, None) \<Rightarrow> Some (c, [k]) | Some (c, Some e) \<Rightarrow> Some (c, []))"
| "replay_act c (now, RSeen k) = Some (fst (replay_Seen now k c), [])"
| "replay_act c (now, RLen) = Some (fst (replay_Len now c), [])"

fun replay_run :: "ReplayCache \<Rightarrow> (time \<times> replay_op) list \<Rightarrow> (ReplayCache \<times> string list) option" where
  "replay_run c [] = Some (c, [])"
| "replay_run c (a # h) =
     (case replay_act c a of None \<Rightarrow> None
      | Some (c, ks) \<Rightarrow> (case replay_run c h of None \<Rightarrow> None | Some (c, ks') \<Rightarrow> Some (c, ks @ ks')))"

text \<open>A key is held, to expire at \<open>x\<close>, with at most \<open>n\<close> newer keys.\<close>

definition held :: "string \<Rightarrow> time \<Rightarrow> nat \<Rightarrow> ReplayCache \<Rightarrow> bool" where
  "held key x n c \<longleftrightarrow> map_of (rc_entries c) key = Some x
     \<and> (\<exists>xs ys. rc_order c = xs @ key # ys \<and> length ys \<le> n)"

lemma held_evict:
  assumes "replay_ok c" and "held key x n c" and "now < x"
  shows "held key x n (evictExpiredLocked now c)"
proof -
  obtain xs ys where h: "rc_order c = xs @ key # ys" "length ys \<le> n" "map_of (rc_entries c) key = Some x"
    using assms(2) by (auto simp: held_def)
  let ?f = "filter (alive now (rc_entries c))"
  have a: "alive now (rc_entries c) key" using assms(3) h(3) by (simp add: alive_def)
  have "rc_order (evictExpiredLocked now c) = ?f xs @ key # ?f ys" using a by (simp add: evict_spec(2) [OF assms(1)] h(1))
  moreover have "length (?f ys) \<le> n" using length_filter_le [of "alive now (rc_entries c)" ys] h(2) by linarith
  moreover have "map_of (rc_entries (evictExpiredLocked now c)) key = Some x"
    by (simp only: evict_spec(3) [OF assms(1)] a h(3) if_True)
  ultimately show ?thesis unfolding held_def by blast
qed

lemma replay_store_cases:
  assumes "replay_ok c"
  obtains e c' where "replay_CheckAndStore now k ttl c = Some (c', Some e)" "c' = c \<or> c' = evictExpiredLocked now c"
  | c' where "replay_CheckAndStore now k ttl c = Some (c', None)" "k \<noteq> ''''"
      "map_of (rc_entries (evictExpiredLocked now c)) k = None"
      "storeLocked k (now + life ttl) (evictExpiredLocked now c) = Some c'"
proof (cases "k = '''' \<or> alive now (rc_entries (evictExpiredLocked now c)) k")
  case True
  then have "\<exists>e. replay_CheckAndStore now k ttl c = Some (c, Some e)
      \<or> replay_CheckAndStore now k ttl c = Some (evictExpiredLocked now c, Some e)"
    by (auto simp: replay_CheckAndStore_def alive_def Let_def split: option.splits)
  then show ?thesis using that(1) by blast
next
  case False
  have m: "map_of (rc_entries (evictExpiredLocked now c)) k =
      (if alive now (rc_entries c) k then map_of (rc_entries c) k else None)"
    by (simp only: evict_spec(3) [OF assms])
  have none: "map_of (rc_entries (evictExpiredLocked now c)) k = None"
  proof (cases "alive now (rc_entries c) k")
    case True
    then have "alive now (rc_entries (evictExpiredLocked now c)) k" using m by (simp add: alive_def)
    then show ?thesis using False by simp
  qed (use m in simp)
  obtain c' where "storeLocked k (now + life ttl) (evictExpiredLocked now c) = Some c'"
    by (rule storeLocked_spec [OF evict_spec(1) [OF assms] none, where exp = "now + life ttl"]) (rule that)
  moreover from this none False have "replay_CheckAndStore now k ttl c = Some (c', None)"
    by (simp add: replay_CheckAndStore_def life_def Let_def)
  ultimately show ?thesis using that(2) none False by blast
qed

lemma replay_CheckAndStore_ok:
  assumes ok: "replay_ok c" and res: "replay_CheckAndStore now k ttl c = Some (c', e)"
  shows "replay_ok c'" and "rc_max c' = rc_max c"
    and "e = None \<Longrightarrow> held k (now + life ttl) 0 c'"
    and "held key x n c \<Longrightarrow> now < x \<Longrightarrow> e \<noteq> None \<Longrightarrow> held key x n c'"
    and "held key x n c \<Longrightarrow> now < x \<Longrightarrow> e = None \<Longrightarrow> k \<noteq> key \<and> (held key x (Suc n) c' \<or> rc_max c \<le> Suc n)"
proof -
  let ?c = "evictExpiredLocked now c"
  note ev = evict_spec [OF ok, of now]
  have "replay_ok c' \<and> rc_max c' = rc_max c \<and> (e = None \<longrightarrow> held k (now + life ttl) 0 c')
    \<and> (held key x n c \<longrightarrow> now < x \<longrightarrow> (if e = None then k \<noteq> key \<and> (held key x (Suc n) c' \<or> rc_max c \<le> Suc n) else held key x n c'))"
    using ok
  proof (cases rule: replay_store_cases [of c now k ttl])
    case (1 e1 c1)
    then show ?thesis using res ok ev(1, 4) held_evict [OF ok] by auto
  next
    case (2 c1)
    then have c1: "c1 = c'" "e = None" using res by simp_all
    obtain c2 where st: "storeLocked k (now + life ttl) ?c = Some c2" "replay_ok c2" "rc_max c2 = rc_max ?c"
      "rc_order c2 = (if length (rc_order ?c) < rc_max ?c then rc_order ?c else tl (rc_order ?c)) @ [k]"
      "\<And>j. j \<in> set (rc_order c2) \<Longrightarrow> j \<noteq> k \<Longrightarrow> map_of (rc_entries c2) j = map_of (rc_entries ?c) j"
      "map_of (rc_entries c2) k = Some (now + life ttl)"
      by (rule storeLocked_spec [OF ev(1) 2(3), where exp = "now + life ttl"]) (rule that)
    have c2: "c2 = c'" using 2(4) st(1) c1 by simp
    have "k \<noteq> key \<and> (held key x (Suc n) c' \<or> rc_max c \<le> Suc n)" if h: "held key x n c" "now < x"
    proof -
      obtain xs ys where ord: "rc_order ?c = xs @ key # ys" "length ys \<le> n" "map_of (rc_entries ?c) key = Some x"
        using held_evict [OF ok h] by (auto simp: held_def)
      have ne: "k \<noteq> key" using 2(3) ord(3) by auto
      show ?thesis
      proof (cases "length (rc_order ?c) < rc_max ?c \<or> xs \<noteq> []")
        case True
        then have o': "rc_order c' = (if length (rc_order ?c) < rc_max ?c then xs else tl xs) @ key # (ys @ [k])"
          using st(4) ord(1) c2 by (cases xs) simp_all
        have "map_of (rc_entries c') key = Some x" using ne st(5) [of key] ord(3) c2 o' by simp
        moreover have "length (ys @ [k]) \<le> Suc n" using ord(2) by simp
        ultimately have "held key x (Suc n) c'" unfolding held_def using o' by blast
        then show ?thesis using ne by simp
      next
        case False
        then show ?thesis using ne ord ev(4) by auto
      qed
    qed
    moreover have "held k (now + life ttl) 0 c'" using st(4, 6) c2 by (auto simp: held_def)
    ultimately show ?thesis using st(2, 3) c1 c2 ev(4) by simp
  qed
  then show "replay_ok c'" "rc_max c' = rc_max c" "e = None \<Longrightarrow> held k (now + life ttl) 0 c'"
    "held key x n c \<Longrightarrow> now < x \<Longrightarrow> e \<noteq> None \<Longrightarrow> held key x n c'"
    "held key x n c \<Longrightarrow> now < x \<Longrightarrow> e = None \<Longrightarrow> k \<noteq> key \<and> (held key x (Suc n) c' \<or> rc_max c \<le> Suc n)"
    by (auto split: if_splits)
qed

lemma replay_act_ok:
  assumes ok: "replay_ok c"
  obtains c' ks where "replay_act c (now, a) = Some (c', ks)" "replay_ok c'" "rc_max c' = rc_max c"
    "\<And>key x n. held key x n c \<Longrightarrow> now < x \<Longrightarrow> held key x (n + length ks) c' \<or> rc_max c \<le> n + length ks"
proof (cases a)
  case (RStore k ttl)
  obtain c' e where r: "replay_CheckAndStore now k ttl c = Some (c', e)"
    by (rule replay_store_cases [OF ok, of now k ttl]) auto
  note st = replay_CheckAndStore_ok [OF ok r]
  show ?thesis
  proof (cases e)
    case None
    show ?thesis by (rule that [of c' "[k]"]) (use st None r RStore in auto)
  next
    case (Some x)
    show ?thesis by (rule that [of c' "[]"]) (use st Some r RStore in auto)
  qed
next
  case (RSeen k)
  show ?thesis
    by (rule that [of "evictExpiredLocked now c" "[]"])
      (use RSeen evict_spec [OF ok] held_evict [OF ok] in \<open>auto simp: replay_Seen_def Let_def\<close>)
next
  case RLen
  show ?thesis
    by (rule that [of "evictExpiredLocked now c" "[]"])
      (use RLen evict_spec [OF ok] held_evict [OF ok] in \<open>auto simp: replay_Len_def Let_def\<close>)
qed

lemma replay_run_ok:
  assumes "replay_ok c"
  shows "\<exists>c' ks. replay_run c h = Some (c', ks) \<and> replay_ok c' \<and> rc_max c' = rc_max c
    \<and> (\<forall>key x n. held key x n c \<longrightarrow> (\<forall>a \<in> set h. fst a < x) \<longrightarrow> held key x (n + length ks) c' \<or> rc_max c \<le> n + length ks)"
  using assms
proof (induction h arbitrary: c)
  case (Cons a h)
  obtain now op where a: "a = (now, op)" by force
  obtain c1 ks1 where act: "replay_act c a = Some (c1, ks1)" "replay_ok c1" "rc_max c1 = rc_max c"
    "\<And>key x n. held key x n c \<Longrightarrow> now < x \<Longrightarrow> held key x (n + length ks1) c1 \<or> rc_max c \<le> n + length ks1"
    using replay_act_ok [OF Cons.prems, of now op] unfolding a by metis
  obtain c2 ks2 where run: "replay_run c1 h = Some (c2, ks2)" "replay_ok c2" "rc_max c2 = rc_max c1"
    "\<And>key x n. held key x n c1 \<Longrightarrow> \<forall>a \<in> set h. fst a < x \<Longrightarrow> held key x (n + length ks2) c2 \<or> rc_max c1 \<le> n + length ks2"
    using Cons.IH [OF act(2)] by blast
  have "held key x (n + length (ks1 @ ks2)) c2 \<or> rc_max c \<le> n + length (ks1 @ ks2)"
    if "held key x n c" "\<forall>b \<in> set (a # h). fst b < x" for key x n
    using act(4) [OF that(1)] run(4) [of key x "n + length ks1"] that(2) act(3) by (auto simp: a add.assoc)
  then show ?case using act run by simp
qed simp

text \<open>
  C32. The dropping cache never panics and never exceeds its bound, and it accepts a key again before
  the key has expired only if it has accepted at least as many keys in between as it can hold.
\<close>

theorem replay_cache_forgets_oldest:
  assumes "replay_run (NewReplayCache m) h0 = Some (c, ks0)"
    and "replay_CheckAndStore now key ttl c = Some (c1, None)"
    and "\<And>a. a \<in> set h \<Longrightarrow> fst a < now + life ttl" and "now' < now + life ttl"
  shows "\<exists>c2 ks r. replay_run c1 h = Some (c2, ks) \<and> length (rc_entries c2) \<le> rc_max c2
    \<and> replay_CheckAndStore now' key ttl' c2 = Some r \<and> (snd r = None \<longrightarrow> rc_max c2 \<le> length ks)"
proof -
  have "replay_ok (NewReplayCache m)" by (simp add: replay_ok_def NewReplayCache_def)
  from replay_run_ok [OF this, of h0] assms(1) have ok: "replay_ok c" by auto
  note first = replay_CheckAndStore_ok [OF ok assms(2)]
  obtain c2 ks where run: "replay_run c1 h = Some (c2, ks)" "replay_ok c2" "rc_max c2 = rc_max c1"
    "held key (now + life ttl) (0 + length ks) c2 \<or> rc_max c1 \<le> 0 + length ks"
    using replay_run_ok [OF first(1), of h] first(3) [OF refl] assms(3) by blast
  obtain c3 e where again: "replay_CheckAndStore now' key ttl' c2 = Some (c3, e)"
    by (rule replay_store_cases [OF run(2), of now' key ttl']) auto
  have "rc_max c2 \<le> length ks" if "e = None"
    using replay_CheckAndStore_ok(5) [OF run(2) again _ assms(4) that] run(3, 4) by auto
  then show ?thesis using run(1, 2) again by (auto simp: replay_ok_def)
qed

theorem replay_cache_forgets_oldest_witness:
  "\<exists>c1 c2 ks r. replay_CheckAndStore 10 ''a'' 5 (NewReplayCache 1) = Some (c1, None)
     \<and> replay_run c1 [(11, RStore ''b'' 5)] = Some (c2, ks) \<and> replay_CheckAndStore 12 ''a'' 5 c2 = Some r
     \<and> snd r = None \<and> rc_max c2 \<le> length ks"
proof -
  define c1 where "c1 = fst (the (replay_CheckAndStore 10 ''a'' 5 (NewReplayCache 1)))"
  have "case replay_CheckAndStore 10 ''a'' 5 (NewReplayCache 1) of Some (_, None) \<Rightarrow> True | _ \<Rightarrow> False" by code_simp
  then have acc: "replay_CheckAndStore 10 ''a'' 5 (NewReplayCache 1) = Some (c1, None)"
    by (auto simp: c1_def split: option.splits prod.splits)
  have start: "replay_run (NewReplayCache 1) [] = Some (NewReplayCache 1, [])" by simp
  have again: "case replay_run c1 [(11, RStore ''b'' 5)] of None \<Rightarrow> False
      | Some (c2, _) \<Rightarrow> (case replay_CheckAndStore 12 ''a'' 5 c2 of Some (_, None) \<Rightarrow> True | _ \<Rightarrow> False)"
    unfolding c1_def by code_simp
  have "\<exists>c2 ks r. replay_run c1 [(11, RStore ''b'' 5)] = Some (c2, ks) \<and> length (rc_entries c2) \<le> rc_max c2
    \<and> replay_CheckAndStore 12 ''a'' 5 c2 = Some r \<and> (snd r = None \<longrightarrow> rc_max c2 \<le> length ks)"
    by (rule replay_cache_forgets_oldest [OF start acc]) (auto simp: life_def)
  with acc again show ?thesis by (force split: option.splits prod.splits)
qed

end
