(* ===== verification/Audit_Log.thy ===== *)
theory Audit_Log
  imports Signing
begin

text \<open>
  \<open>audit/audit.go\<close>: the hash-chained audit log. The hash of a body, SHA-256 over its canonical JSON,
  is a parameter, \<open>None\<close> where the encoder fails; Ed25519 is the parameter of the signing theory. The
  encoder, \<open>CanonicalJSON\<close>, sends bodies to the same bytes that differ only in numbers beyond
  \<open>2^53\<close> or in invalid UTF-8; the hypothesis that no two bodies collide excludes these as well.
  A metadata map is a partial function; the encoder does not tell a nil map from an empty one.
  Shown: what \<open>Append\<close> and \<open>Checkpoint\<close> build verifies; two logs that verify and end in the same hash
  agree in everything that is hashed, if no two of their bodies collide; and the limit of that: every
  log that verifies still verifies with records cut off its end.
\<close>

section \<open>Records\<close>

type_synonym hash = bytes

definition zero_hash :: hash where
  "zero_hash = replicate 32 (CHR 0x00)"

record Actor =
  ac_ID :: string
  ac_Type :: string

record AuditRecord =
  au_Sequence :: u64
  au_PreviousHash :: hash
  au_RecordHash :: hash
  au_Time :: time
  au_Actor :: Actor
  au_Action :: string
  au_Resource :: string
  au_Result :: string
  au_OperationID :: string
  au_Metadata :: "string \<rightharpoonup> string"
  au_Signature :: bytes
  au_KeyID :: string

record bodyForHash =
  bh_Sequence :: u64
  bh_PreviousHash :: string
  bh_Time :: time
  bh_Actor :: Actor
  bh_Action :: string
  bh_Resource :: string
  bh_Result :: string
  bh_OperationID :: string
  bh_Metadata :: "string \<rightharpoonup> string"

definition body_of :: "AuditRecord \<Rightarrow> bodyForHash" where
  "body_of r =
     \<lparr>bh_Sequence = au_Sequence r, bh_PreviousHash = hex_encode (au_PreviousHash r), bh_Time = au_Time r,
      bh_Actor = au_Actor r, bh_Action = au_Action r, bh_Resource = au_Resource r, bh_Result = au_Result r,
      bh_OperationID = au_OperationID r, bh_Metadata = au_Metadata r\<rparr>"

type_synonym hasher = "bodyForHash \<Rightarrow> hash option"

definition hashBody :: "hasher \<Rightarrow> AuditRecord \<Rightarrow> hash option" where
  "hashBody h r = h (body_of r)"

definition ComputeHash :: "hasher \<Rightarrow> AuditRecord \<Rightarrow> AuditRecord option" where
  "ComputeHash h r = (case hashBody h r of None \<Rightarrow> None | Some x \<Rightarrow> Some (r\<lparr>au_RecordHash := x\<rparr>))"

record Finding =
  fi_Code :: string
  fi_Sequence :: u64
  fi_Message :: string

record Report =
  rp_OK :: bool
  rp_Records :: nat
  rp_Findings :: "Finding list"

datatype audit_error = AErrDuplicateOp string u64 | AErrHash | AErrSign sign_error | AErrFile string

section \<open>The store\<close>

text \<open>
  The mirror file is the list of the records written to it, or absent. The environment of an append
  is the instants it reads, for the record and for the signature, and the failure of the file, if any.
\<close>

record AuditStore =
  as_records :: "AuditRecord list"
  as_ops :: "(string \<times> u64) list"
  as_keys :: "KeyRing option"
  as_signer :: "PrivateKey option"
  as_file :: "AuditRecord list option"

record audit_env =
  ae_hash :: hasher
  ae_ed :: ed25519
  ae_now :: time
  ae_sign_now :: time
  ae_file_fault :: "string option"

definition NewAudit :: "KeyRing option \<Rightarrow> PrivateKey option \<Rightarrow> bool \<Rightarrow> AuditStore" where
  "NewAudit keys signer mirror =
     \<lparr>as_records = [], as_ops = [], as_keys = keys, as_signer = signer, as_file = (if mirror then Some [] else None)\<rparr>"

definition sign_record :: "audit_env \<Rightarrow> PrivateKey option \<Rightarrow> AuditRecord \<Rightarrow> AuditRecord + sign_error" where
  "sign_record env signer r =
     (case signer of
        None \<Rightarrow> Inl r
      | Some key \<Rightarrow>
          (case SignBytes (ae_ed env) (ae_sign_now env) key (au_RecordHash r) of
             Inr e \<Rightarrow> Inr e
           | Inl sig \<Rightarrow> Inl (r\<lparr>au_Signature := sg_Sig sig, au_KeyID := sg_KeyID sig\<rparr>)))"

definition Append :: "audit_env \<Rightarrow> Actor \<Rightarrow> string \<Rightarrow> string \<Rightarrow> string \<Rightarrow> string \<Rightarrow> (string \<rightharpoonup> string) \<Rightarrow> AuditStore \<Rightarrow>
  AuditStore \<times> AuditRecord option \<times> audit_error option" where
  "Append env actor action res result opid metadata s =
     (case (if opid \<noteq> '''' then map_of (as_ops s) opid else None) of
        Some seq \<Rightarrow> (s, None, Some (AErrDuplicateOp opid seq))
      | None \<Rightarrow>
          (let prev = (if as_records s = [] then zero_hash else au_RecordHash (last (as_records s)));
               seq = (if as_records s = [] then 1 else au_Sequence (last (as_records s)) + 1);
               rec = \<lparr>au_Sequence = seq, au_PreviousHash = prev, au_RecordHash = zero_hash, au_Time = ae_now env,
                      au_Actor = actor, au_Action = action, au_Resource = res, au_Result = result,
                      au_OperationID = opid, au_Metadata = metadata, au_Signature = [], au_KeyID = ''''\<rparr>
           in case ComputeHash (ae_hash env) rec of
                None \<Rightarrow> (s, None, Some AErrHash)
              | Some rec \<Rightarrow>
                  (case sign_record env (as_signer s) rec of
                     Inr e \<Rightarrow> (s, None, Some (AErrSign e))
                   | Inl rec \<Rightarrow>
                       (let s = s\<lparr>as_records := as_records s @ [rec],
                                  as_ops := (if opid \<noteq> '''' then AList.update opid seq (as_ops s) else as_ops s)\<rparr>
                        in case as_file s of
                             None \<Rightarrow> (s, Some rec, None)
                           | Some f \<Rightarrow>
                               (case ae_file_fault env of
                                  Some e \<Rightarrow> (s, Some rec, Some (AErrFile e))
                                | None \<Rightarrow> (s\<lparr>as_file := Some (f @ [rec])\<rparr>, Some rec, None))))))"

definition audit_Checkpoint :: "audit_env \<Rightarrow> Actor \<Rightarrow> AuditStore \<Rightarrow> AuditStore \<times> AuditRecord option \<times> audit_error option" where
  "audit_Checkpoint env actor s =
     (let tip = (if as_records s = [] then '''' else hex_encode (au_RecordHash (last (as_records s))))
      in Append env actor ''audit.checkpoint'' '''' ''ok'' '''' [''checkpoint'' \<mapsto> ''true'', ''tip_hash'' \<mapsto> tip] s)"

section \<open>Verification\<close>

definition finding :: "string \<Rightarrow> AuditRecord \<Rightarrow> string \<Rightarrow> Finding" where
  "finding code r msg = \<lparr>fi_Code = code, fi_Sequence = au_Sequence r, fi_Message = msg\<rparr>"

definition check_sequence :: "u64 \<Rightarrow> AuditRecord \<Rightarrow> Finding list" where
  "check_sequence expect r =
     (if au_Sequence r = expect then []
      else if expect < au_Sequence r then
        [finding ''sequence_gap'' r (''expected sequence '' @ decimal (unat expect) @ '', got '' @
           decimal (unat (au_Sequence r)) @ '' (possible removal)'')]
      else [finding ''sequence_mismatch'' r (''expected sequence '' @ decimal (unat expect) @ '', got '' @
           decimal (unat (au_Sequence r)))])"

definition check_previous :: "bool \<Rightarrow> hash \<Rightarrow> AuditRecord \<Rightarrow> Finding list" where
  "check_previous first expect r =
     (if au_PreviousHash r = expect then []
      else [finding (if first then ''chain_broken'' else ''mutation_or_removal'') r
              ''previous_hash does not match prior record_hash''])"

definition check_hash :: "hasher \<Rightarrow> AuditRecord \<Rightarrow> Finding list" where
  "check_hash h r =
     (case hashBody h r of
        None \<Rightarrow> [finding ''hash_error'' r ''json'']
      | Some want \<Rightarrow> if want \<noteq> au_RecordHash r
                      then [finding ''mutation'' r ''record_hash does not match canonical body''] else [])"

definition check_time :: "AuditRecord \<Rightarrow> Finding list" where
  "check_time r = (if IsZero (au_Time r) then [finding ''bad_timestamp'' r ''audit: invalid timestamp''] else [])"

definition check_op :: "(string \<times> u64) list \<Rightarrow> AuditRecord \<Rightarrow> (string \<times> u64) list \<times> Finding list" where
  "check_op seen r =
     (if au_OperationID r = '''' then (seen, [])
      else (AList.update (au_OperationID r) (au_Sequence r) seen,
            case map_of seen (au_OperationID r) of
              None \<Rightarrow> []
            | Some prev \<Rightarrow> [finding ''duplicate_op_id'' r (''operation_id '' @ go_quote (au_OperationID r) @
                '' also at sequence '' @ decimal (unat prev))]))"

definition sign_error_text :: "sign_error \<Rightarrow> string" where
  "sign_error_text e = (case e of
      SErrUnknownKey \<Rightarrow> ''signing: unknown key id'' | SErrExpiredKey \<Rightarrow> ''signing: key expired''
    | SErrInvalidSig \<Rightarrow> ''signing: invalid signature'' | SErrEmptyPayload \<Rightarrow> ''signing: empty payload''
    | SErrDuplicateKeyID \<Rightarrow> ''signing: duplicate key id'' | SErrKeyLength \<Rightarrow> ''signing: invalid public key length''
    | SErrAlgorithm a \<Rightarrow> ''signing: unsupported algorithm '' @ go_quote a | SErrEncoding \<Rightarrow> ''json'')"

definition check_signature :: "ed25519 \<Rightarrow> time \<Rightarrow> KeyRing option \<Rightarrow> AuditRecord \<Rightarrow> Finding list" where
  "check_signature ed now keys r =
     (if au_Signature r = [] then []
      else if keys = None \<or> keys = Some [] then [finding ''unknown_key'' r ''audit: unknown signing key'']
      else
        (let sig = \<lparr>sg_KeyID = au_KeyID r, sg_Algorithm = AlgorithmEd25519, sg_Version = 1, sg_SignedAt = au_Time r,
                    sg_Sig = au_Signature r\<rparr>
         in case VerifyBytes ed now keys (au_RecordHash r) sig of
              None \<Rightarrow> []
            | Some e \<Rightarrow> [finding (if e = SErrUnknownKey then ''unknown_key'' else ''invalid_signature'') r (sign_error_text e)]))"

fun verify_loop :: "audit_env \<Rightarrow> KeyRing option \<Rightarrow> bool \<Rightarrow> u64 \<Rightarrow> hash \<Rightarrow> (string \<times> u64) list \<Rightarrow> AuditRecord list \<Rightarrow> Finding list" where
  "verify_loop env keys first expectSeq expectPrev seen [] = []"
| "verify_loop env keys first expectSeq expectPrev seen (r # rs) =
     (let (seen', ops) = check_op seen r
      in check_sequence expectSeq r @ check_previous first expectPrev r @ check_hash (ae_hash env) r @ check_time r @ ops
         @ check_signature (ae_ed env) (ae_now env) keys r
         @ verify_loop env keys False (au_Sequence r + 1) (au_RecordHash r) seen' rs)"

definition check_start :: "AuditRecord list \<Rightarrow> Finding list" where
  "check_start recs =
     (case recs of
        [] \<Rightarrow> []
      | r # _ \<Rightarrow> if au_Sequence r \<noteq> 1 then [finding ''removal'' r ''chain does not start at sequence 1''] else [])"

text \<open>The findings are sorted by sequence and code; a report is fine exactly when there are none.\<close>

definition VerifyRecords :: "audit_env \<Rightarrow> AuditRecord list \<Rightarrow> KeyRing option \<Rightarrow> Report" where
  "VerifyRecords env recs keys =
     (let fs = verify_loop env keys True 1 zero_hash [] recs @ check_start recs
      in \<lparr>rp_OK = (fs = []), rp_Records = length recs,
          rp_Findings = sort_key fi_Sequence (sort_key fi_Code fs)\<rparr>)"

definition audit_Verify :: "audit_env \<Rightarrow> AuditStore \<Rightarrow> Report" where
  "audit_Verify env s = VerifyRecords env (as_records s) (as_keys s)"

section \<open>Chains\<close>

abbreviation seen_ops :: "(string \<times> u64) list \<Rightarrow> AuditRecord list \<Rightarrow> (string \<times> u64) list" where
  "seen_ops seen rs \<equiv> foldl (\<lambda>seen r. fst (check_op seen r)) seen rs"

definition next_seq :: "u64 \<Rightarrow> AuditRecord list \<Rightarrow> u64" where
  "next_seq seq rs = (if rs = [] then seq else au_Sequence (last rs) + 1)"

definition tip :: "hash \<Rightarrow> AuditRecord list \<Rightarrow> hash" where
  "tip prev rs = (if rs = [] then prev else au_RecordHash (last rs))"

lemma verify_loop_append:
  "verify_loop env keys first seq prev seen (rs @ rs') =
     verify_loop env keys first seq prev seen rs
     @ verify_loop env keys (first \<and> rs = []) (next_seq seq rs) (tip prev rs) (seen_ops seen rs) rs'"
proof (induction rs arbitrary: first seq prev seen)
  case (Cons r rs)
  show ?case by (simp add: Cons.IH Let_def next_seq_def tip_def split: prod.split)
qed (simp add: next_seq_def tip_def)

definition verifies :: "audit_env \<Rightarrow> KeyRing option \<Rightarrow> AuditRecord list \<Rightarrow> bool" where
  "verifies env keys rs \<longleftrightarrow> verify_loop env keys True 1 zero_hash [] rs = [] \<and> check_start rs = []"

lemma VerifyRecords_OK: "rp_OK (VerifyRecords env rs keys) \<longleftrightarrow> verifies env keys rs"
  by (simp add: VerifyRecords_def verifies_def Let_def)

lemma verifies_snoc:
  "verifies env keys (rs @ [r]) \<longleftrightarrow> verifies env keys rs \<and> au_Sequence r = next_seq 1 rs \<and> au_PreviousHash r = tip zero_hash rs
     \<and> hashBody (ae_hash env) r = Some (au_RecordHash r) \<and> au_Time r \<noteq> 0
     \<and> snd (check_op (seen_ops [] rs) r) = [] \<and> check_signature (ae_ed env) (ae_now env) keys r = []"
proof -
  have start: "au_Sequence r = next_seq 1 rs \<Longrightarrow> check_start (rs @ [r]) = [] \<longleftrightarrow> check_start rs = []"
    by (cases rs) (simp_all add: check_start_def next_seq_def)
  have checks: "check_sequence e r = [] \<longleftrightarrow> au_Sequence r = e" "check_time r = [] \<longleftrightarrow> au_Time r \<noteq> 0"
    "check_previous b p r = [] \<longleftrightarrow> au_PreviousHash r = p" "check_hash h r = [] \<longleftrightarrow> hashBody h r = Some (au_RecordHash r)" for e b p h
    by (auto simp: check_sequence_def check_time_def IsZero_def check_previous_def check_hash_def split: option.splits)
  have "verify_loop env keys b q p s [r] = [] \<longleftrightarrow> au_Sequence r = q \<and> au_PreviousHash r = p
      \<and> hashBody (ae_hash env) r = Some (au_RecordHash r) \<and> au_Time r \<noteq> 0
      \<and> snd (check_op s r) = [] \<and> check_signature (ae_ed env) (ae_now env) keys r = []" for b q p s
    by (simp add: Let_def checks split: prod.split)
  then show ?thesis unfolding verifies_def verify_loop_append using start by auto
qed

lemma verifies_Nil [simp]: "verifies env keys []"
  by (simp add: verifies_def check_start_def)

lemma verifies_prefix: "verifies env keys (rs @ rs') \<Longrightarrow> verifies env keys rs"
  by (induction rs' rule: rev_induct) (auto simp: verifies_snoc simp flip: append_assoc)

lemma verifies_env:
  "ae_hash env' = ae_hash env \<Longrightarrow> ae_ed env' = ae_ed env \<Longrightarrow> verifies env keys rs \<Longrightarrow> verifies env' keys rs"
proof (induction rs rule: rev_induct)
  case (snoc r rs)
  have "check_signature (ae_ed env') (ae_now env') keys r = check_signature (ae_ed env) (ae_now env) keys r"
    if "au_Time r \<noteq> 0" using that snoc.prems(2) by (simp add: check_signature_def VerifyBytes_def IsZero_def Let_def)
  then show ?case using snoc by (simp add: verifies_snoc)
qed simp

section \<open>What is appended verifies\<close>

definition audit_inv :: "audit_env \<Rightarrow> AuditStore \<Rightarrow> bool" where
  "audit_inv env s \<longleftrightarrow> verifies env (as_keys s) (as_records s) \<and> seen_ops [] (as_records s) = as_ops s"

definition trusts_signer :: "ed25519 \<Rightarrow> KeyRing option \<Rightarrow> PrivateKey option \<Rightarrow> bool" where
  "trusts_signer ed keys signer \<longleftrightarrow> (case signer of None \<Rightarrow> True
     | Some key \<Rightarrow> (\<exists>r. keys = Some r \<and> map_of r (sk_ID key) = Some (PublicView key))
         \<and> (\<forall>p. ed_Verify ed (sk_Public key) p (ed_Sign ed (sk_Private key) p)))"

lemma sign_record_fields:
  assumes "sign_record env signer r = Inl r'"
  shows "body_of r' = body_of r" "au_RecordHash r' = au_RecordHash r" "au_OperationID r' = au_OperationID r"
    "au_Sequence r' = au_Sequence r" "au_PreviousHash r' = au_PreviousHash r" "au_Time r' = au_Time r"
  using assms by (auto simp: sign_record_def body_of_def split: option.splits sum.splits)

lemma sign_record_verifies:
  assumes "sign_record env signer r = Inl r'" and "au_Signature r = []" and "trusts_signer (ae_ed env) keys signer"
    and "au_Time r \<noteq> 0" and "au_Time r \<le> ae_sign_now env"
  shows "check_signature (ae_ed env) now keys r' = []"
proof (cases signer)
  case None
  then show ?thesis using assms(1, 2) by (simp add: sign_record_def check_signature_def)
next
  case (Some key)
  obtain ring where ring: "keys = Some ring" "map_of ring (sk_ID key) = Some (PublicView key)"
    and law: "\<And>p. ed_Verify (ae_ed env) (sk_Public key) p (ed_Sign (ae_ed env) (sk_Private key) p)"
    using assms(3) Some by (auto simp: trusts_signer_def)
  obtain sig where sig: "SignBytes (ae_ed env) (ae_sign_now env) key (au_RecordHash r) = Inl sig"
    and r': "r' = r\<lparr>au_Signature := sg_Sig sig, au_KeyID := sg_KeyID sig\<rparr>"
    using assms(1) Some by (auto simp: sign_record_def split: sum.splits)
  have eq: "\<lparr>sg_KeyID = sg_KeyID sig, sg_Algorithm = AlgorithmEd25519, sg_Version = 1, sg_SignedAt = au_Time r,
      sg_Sig = sg_Sig sig\<rparr> = sig\<lparr>sg_SignedAt := au_Time r\<rparr>"
    using sig by (auto simp: SignBytes_def split: if_splits)
  have "VerifyBytes (ae_ed env) now (Some ring) (au_RecordHash r) (sig\<lparr>sg_SignedAt := au_Time r\<rparr>) = None"
    by (rule signed_verifies [OF sig law ring(2) assms(5, 4)])
  moreover have "ring \<noteq> []" using ring(2) by auto
  ultimately show ?thesis using ring(1) by (simp add: check_signature_def r' eq [simplified])
qed

lemma Append_cases:
  assumes app: "Append env actor action res result opid metadata s = (s', rec, err)"
  defines "r0 \<equiv> \<lparr>au_Sequence = next_seq 1 (as_records s), au_PreviousHash = tip zero_hash (as_records s),
      au_RecordHash = zero_hash, au_Time = ae_now env, au_Actor = actor, au_Action = action, au_Resource = res,
      au_Result = result, au_OperationID = opid, au_Metadata = metadata, au_Signature = [], au_KeyID = ''''\<rparr>"
  obtains "s' = s"
  | x r where "hashBody (ae_hash env) r0 = Some x" "sign_record env (as_signer s) (r0\<lparr>au_RecordHash := x\<rparr>) = Inl r"
      "opid \<noteq> '''' \<Longrightarrow> map_of (as_ops s) opid = None" "as_records s' = as_records s @ [r]"
      "as_ops s' = (if opid \<noteq> '''' then AList.update opid (next_seq 1 (as_records s)) (as_ops s) else as_ops s)"
      "as_keys s' = as_keys s" "as_signer s' = as_signer s"
proof (cases "if opid \<noteq> '''' then map_of (as_ops s) opid else None")
  case (Some q)
  show ?thesis by (rule that(1)) (use app in \<open>simp add: Append_def Some\<close>)
next
  case fresh: None
  note app = app [unfolded Append_def fresh, simplified, folded next_seq_def tip_def, unfolded Let_def, folded r0_def]
  show ?thesis
  proof (cases "hashBody (ae_hash env) r0")
    case None
    show ?thesis by (rule that(1)) (use app None in \<open>simp add: ComputeHash_def\<close>)
  next
    case (Some x)
    then have hash: "ComputeHash (ae_hash env) r0 = Some (r0\<lparr>au_RecordHash := x\<rparr>)" by (simp add: ComputeHash_def)
    show ?thesis
    proof (cases "sign_record env (as_signer s) (r0\<lparr>au_RecordHash := x\<rparr>)")
      case (Inr e)
      show ?thesis by (rule that(1)) (use app hash Inr in simp)
    next
      case (Inl r)
      show ?thesis
        by (rule that(2) [OF Some Inl]) (use app hash Inl fresh in \<open>auto split: option.splits if_splits\<close>)
    qed
  qed
qed

lemma Append_inv:
  assumes inv: "audit_inv env0 s" and h: "ae_hash env = ae_hash env0" and ed: "ae_ed env = ae_ed env0"
    and trust: "trusts_signer (ae_ed env) (as_keys s) (as_signer s)"
    and now: "ae_now env \<noteq> 0" "ae_now env \<le> ae_sign_now env"
    and app: "Append env actor action res result opid metadata s = (s', rec, err)"
  shows "audit_inv env0 s' \<and> as_keys s' = as_keys s \<and> as_signer s' = as_signer s"
  using app
proof (cases rule: Append_cases)
  case 1
  then show ?thesis using inv by simp
next
  case (2 x r)
  note f = sign_record_fields [OF 2(2)]
  have sig: "check_signature (ae_ed env0) (ae_now env0) (as_keys s) r = []"
    using sign_record_verifies [OF 2(2) _ trust, of "ae_now env0"] now ed by simp
  have "hashBody (ae_hash env0) r = Some (au_RecordHash r)" using 2(1) f(1, 2) h by (simp add: hashBody_def body_of_def)
  moreover have ops: "check_op (as_ops s) r = (as_ops s', [])" using f 2(3, 5) by (simp add: check_op_def)
  ultimately have "verifies env0 (as_keys s) (as_records s @ [r])"
    using inv f sig now(1) by (simp add: verifies_snoc audit_inv_def)
  then show ?thesis using inv ops 2(4, 6, 7) by (simp add: audit_inv_def)
qed

datatype audit_op =
    AAppend Actor string string string string "string \<rightharpoonup> string"
  | ACheckpoint Actor

primrec audit_act :: "AuditStore \<Rightarrow> audit_env \<times> audit_op \<Rightarrow> AuditStore" where
  "audit_act s (env, a) =
     (case a of AAppend actor action res result opid m \<Rightarrow> fst (Append env actor action res result opid m s)
      | ACheckpoint actor \<Rightarrow> fst (audit_Checkpoint env actor s))"

text \<open>
  The environments of a history: one hash function and one signature scheme, a clock past its zero
  that does not run backwards between a record and its signature.
\<close>

definition fits :: "audit_env \<Rightarrow> audit_env \<Rightarrow> bool" where
  "fits env0 env \<longleftrightarrow> ae_hash env = ae_hash env0 \<and> ae_ed env = ae_ed env0 \<and> ae_now env \<noteq> 0 \<and> ae_now env \<le> ae_sign_now env"

lemma audit_act_inv:
  assumes "audit_inv env0 s" and "fits env0 env" and "trusts_signer (ae_ed env0) (as_keys s) (as_signer s)"
  shows "audit_inv env0 (audit_act s (env, a)) \<and> as_keys (audit_act s (env, a)) = as_keys s
    \<and> as_signer (audit_act s (env, a)) = as_signer s"
proof -
  have "audit_inv env0 (fst (Append env actor action res result opid m s))
      \<and> as_keys (fst (Append env actor action res result opid m s)) = as_keys s
      \<and> as_signer (fst (Append env actor action res result opid m s)) = as_signer s" for actor action res result opid m
    using Append_inv [OF assms(1), of env actor action res result opid m] assms(2, 3)
    by (cases "Append env actor action res result opid m s") (simp add: fits_def)
  then show ?thesis by (simp add: audit_Checkpoint_def Let_def split: audit_op.split)
qed

lemma audit_run_inv:
  assumes "audit_inv env0 s" and "trusts_signer (ae_ed env0) (as_keys s) (as_signer s)"
    and "list_all (\<lambda>(env, a). fits env0 env) ops"
  shows "audit_inv env0 (foldl audit_act s ops) \<and> as_keys (foldl audit_act s ops) = as_keys s"
  using assms
proof (induction ops arbitrary: s)
  case (Cons e ops)
  obtain env a where e: "e = (env, a)" by force
  have "audit_inv env0 (audit_act s e) \<and> as_keys (audit_act s e) = as_keys s \<and> as_signer (audit_act s e) = as_signer s"
    unfolding e by (rule audit_act_inv) (use Cons.prems e in simp_all)
  then show ?case using Cons.IH [of "audit_act s e"] Cons.prems by simp
qed simp

text \<open>
  C16. The log that any sequence of appends and checkpoints builds, whichever of them fail, verifies
  without a finding: sequence numbers, hash chain, operation ids, timestamps and signatures, if the
  ring of the store trusts the key of its signer.
\<close>

theorem audit_log_verifies:
  assumes "trusts_signer (ae_ed env0) keys signer"
    and "list_all (\<lambda>(env, a). fits env0 env) ops"
  shows "rp_OK (audit_Verify env0 (foldl audit_act (NewAudit keys signer mirror) ops))"
proof -
  have "audit_inv env0 (NewAudit keys signer mirror)" by (simp add: audit_inv_def NewAudit_def)
  moreover have "as_keys (NewAudit keys signer mirror) = keys" "as_signer (NewAudit keys signer mirror) = signer"
    by (simp_all add: NewAudit_def)
  ultimately show ?thesis
    using audit_run_inv [of env0 "NewAudit keys signer mirror" ops] assms
    by (auto simp: audit_Verify_def VerifyRecords_OK audit_inv_def)
qed

section \<open>Tampering\<close>

text \<open>A record without the fields that are not hashed.\<close>

definition unsigned :: "AuditRecord \<Rightarrow> AuditRecord" where
  "unsigned r = r\<lparr>au_Signature := [], au_KeyID := ''''\<rparr>"

lemma body_of_inject: "body_of r = body_of r' \<Longrightarrow> au_RecordHash r = au_RecordHash r' \<Longrightarrow> unsigned r = unsigned r'"
  by (cases r; cases r') (simp add: body_of_def unsigned_def)

lemma verifies_last_seq: "verifies env keys rs \<Longrightarrow> rs \<noteq> [] \<Longrightarrow> au_Sequence (last rs) = of_nat (length rs)"
proof (induction rs rule: rev_induct)
  case (snoc r rs)
  have "au_Sequence r = next_seq 1 rs" and "verifies env keys rs" using snoc.prems(1) by (simp_all add: verifies_snoc)
  then show ?case using snoc.IH by (cases "rs = []") (simp_all add: next_seq_def add.commute)
qed simp

lemma verifies_same_length:
  assumes "verifies env keys rs" and "verifies env keys' rs'" and "length rs = length rs'"
    and "tip zero_hash rs = tip zero_hash rs'"
    and "\<And>r r'. r \<in> set rs \<Longrightarrow> r' \<in> set rs' \<Longrightarrow> hashBody (ae_hash env) r = hashBody (ae_hash env) r' \<Longrightarrow> body_of r = body_of r'"
  shows "map unsigned rs = map unsigned rs'"
  using assms
proof (induction rs arbitrary: rs' rule: rev_induct)
  case (snoc r rs)
  obtain r' rs1 where rs': "rs' = rs1 @ [r']" using snoc.prems(3) by (cases rs' rule: rev_cases) auto
  have v: "verifies env keys rs" "verifies env keys' rs1" and l: "length rs = length rs1"
    using snoc.prems(1-3) rs' by (simp_all add: verifies_snoc)
  have h: "au_RecordHash r = au_RecordHash r'" using snoc.prems(4) by (simp add: rs' tip_def)
  have "hashBody (ae_hash env) r = hashBody (ae_hash env) r'"
    using snoc.prems(1, 2) h by (simp add: rs' verifies_snoc)
  then have b: "body_of r = body_of r'" using snoc.prems(5) rs' by simp
  then have "au_PreviousHash r = au_PreviousHash r'" by (simp add: body_of_def)
  then have "tip zero_hash rs = tip zero_hash rs1" using snoc.prems(1, 2) by (simp add: rs' verifies_snoc)
  from snoc.IH [OF v l this] snoc.prems(5) have "map unsigned rs = map unsigned rs1" by (auto simp: rs')
  then show ?case using body_of_inject [OF b h] by (simp add: rs')
qed simp

text \<open>
  C15. Tamper evidence: two logs that both verify and end in a record with the same hash are the same
  log in every hashed field, record by record, unless two of their bodies have the same hash.
\<close>

theorem audit_tamper_evident:
  assumes "rp_OK (VerifyRecords env rs keys)" and "rp_OK (VerifyRecords env rs' keys')"
    and "rs \<noteq> []" and "rs' \<noteq> []" and "au_RecordHash (last rs) = au_RecordHash (last rs')"
    and "length rs < 2 ^ 64" and "length rs' < 2 ^ 64"
    and "\<And>r r'. r \<in> set rs \<Longrightarrow> r' \<in> set rs' \<Longrightarrow> hashBody (ae_hash env) r = hashBody (ae_hash env) r' \<Longrightarrow> body_of r = body_of r'"
  shows "map unsigned rs = map unsigned rs'"
proof -
  have v: "verifies env keys rs" "verifies env keys' rs'" using assms(1, 2) by (simp_all add: VerifyRecords_OK)
  obtain a r where rs: "rs = a @ [r]" using assms(3) by (cases rs rule: rev_cases) auto
  obtain b r' where rs': "rs' = b @ [r']" using assms(4) by (cases rs' rule: rev_cases) auto
  have "hashBody (ae_hash env) r = hashBody (ae_hash env) r'" using v assms(5) by (simp add: rs rs' verifies_snoc)
  then have "body_of r = body_of r'" using assms(8) rs rs' by simp
  then have "au_Sequence (last rs) = au_Sequence (last rs')" by (simp add: rs rs' body_of_def)
  then have "(of_nat (length rs) :: u64) = of_nat (length rs')"
    using verifies_last_seq [OF v(1) assms(3)] verifies_last_seq [OF v(2) assms(4)] by simp
  then have "unat (of_nat (length rs) :: u64) = unat (of_nat (length rs') :: u64)" by simp
  then have "length rs = length rs'" using assms(6, 7) by (simp add: unsigned_of_nat take_bit_nat_eq_self)
  then show ?thesis
    by (rule verifies_same_length [OF v]) (use assms(3-5, 8) in \<open>auto simp: tip_def\<close>)
qed

text \<open>
  C38. What verification cannot see: a log that verifies still verifies after any number of records
  are removed from its end.
\<close>

theorem audit_truncation_unseen:
  assumes "rp_OK (VerifyRecords env rs keys)"
  shows "rp_OK (VerifyRecords env (take k rs) keys)"
  using assms verifies_prefix [of env keys "take k rs" "drop k rs"] by (simp add: VerifyRecords_OK)

section \<open>A sample log\<close>

definition sample_ed :: ed25519 where
  "sample_ed = \<lparr>ed_Sign = \<lambda>k p. k @ p, ed_Verify = \<lambda>k p s. s = k @ p\<rparr>"

definition sample_key :: PrivateKey where
  "sample_key = \<lparr>sk_ID = ''id'', sk_Public = ''k'', sk_Private = ''k'', sk_CreatedAt = 1, sk_ExpiresAt = None\<rparr>"

definition sample_env :: audit_env where
  "sample_env = \<lparr>ae_hash = \<lambda>b. Some (''h'' @ bh_Action b), ae_ed = sample_ed, ae_now = 5, ae_sign_now = 5, ae_file_fault = None\<rparr>"

definition sample_actor :: Actor where
  "sample_actor = \<lparr>ac_ID = ''ops'', ac_Type = ''''\<rparr>"

definition sample_store :: AuditStore where
  "sample_store = foldl audit_act (NewAudit (Some [(''id'', PublicView sample_key)]) (Some sample_key) False)
     [(sample_env, AAppend sample_actor ''lock'' ''db'' ''ok'' ''op1'' Map.empty), (sample_env, ACheckpoint sample_actor)]"

lemma sample_trust: "trusts_signer (ae_ed sample_env) (Some [(''id'', PublicView sample_key)]) (Some sample_key)"
  by (simp add: trusts_signer_def sample_env_def sample_ed_def sample_key_def)

theorem audit_log_verifies_witness:
  "rp_OK (audit_Verify sample_env sample_store) \<and> length (as_records sample_store) = 2"
proof -
  have "rp_OK (audit_Verify sample_env sample_store)"
    unfolding sample_store_def by (rule audit_log_verifies [OF sample_trust]) (simp add: fits_def sample_env_def)
  moreover have "length (as_records sample_store) = 2" by code_simp
  ultimately show ?thesis by blast
qed

theorem audit_tamper_evident_witness:
  "map unsigned (as_records sample_store) = map unsigned (map unsigned (as_records sample_store))
   \<and> length (as_records sample_store) = 2"
proof -
  let ?rs = "as_records sample_store" and ?keys = "Some [(''id'', PublicView sample_key)]"
  have ok: "rp_OK (VerifyRecords sample_env ?rs ?keys)" "rp_OK (VerifyRecords sample_env (map unsigned ?rs) None)"
    by code_simp+
  have len: "length ?rs = 2" by code_simp
  have "distinct (map (hashBody (ae_hash sample_env)) ?rs)" by code_simp
  then have inj: "inj_on (hashBody (ae_hash sample_env)) (set ?rs)" by (simp add: distinct_map)
  have same: "hashBody h (unsigned r) = hashBody h r" "body_of (unsigned r) = body_of r" for h r
    by (simp_all add: hashBody_def body_of_def unsigned_def)
  have "map unsigned ?rs = map unsigned (map unsigned ?rs)"
  proof (rule audit_tamper_evident [OF ok])
    have "?rs \<noteq> []" using len by auto
    then show "?rs \<noteq> []" "map unsigned ?rs \<noteq> []" "au_RecordHash (last ?rs) = au_RecordHash (last (map unsigned ?rs))"
      by (simp_all add: last_map unsigned_def)
    show "length ?rs < 2 ^ 64" "length (map unsigned ?rs) < 2 ^ 64" using len by simp_all
    fix r r' assume "r \<in> set ?rs" "r' \<in> set (map unsigned ?rs)"
      "hashBody (ae_hash sample_env) r = hashBody (ae_hash sample_env) r'"
    then show "body_of r = body_of r'" using inj by (auto simp: same inj_on_def)
  qed
  then show ?thesis using len by blast
qed

theorem audit_truncation_unseen_witness:
  "rp_OK (VerifyRecords sample_env (take 1 (as_records sample_store)) (as_keys sample_store))
   \<and> length (take 1 (as_records sample_store)) = 1"
proof -
  have "rp_OK (VerifyRecords sample_env (as_records sample_store) (as_keys sample_store))" by code_simp
  from audit_truncation_unseen [OF this, of 1] have "rp_OK (VerifyRecords sample_env (take 1 (as_records sample_store)) (as_keys sample_store))" .
  moreover have "length (take 1 (as_records sample_store)) = 1" by code_simp
  ultimately show ?thesis by blast
qed

end
