(* ===== verification/Capability.thy ===== *)
theory Capability
  imports Signing
begin

text \<open>
  \<open>capability/capability.go\<close>: the authority that issues, verifies, revokes and delegates capability
  tokens. Randomness, the instants a call reads and the canonical encoding are arguments. Shown: a
  token with a use limit passes at most that often; a revoked token and one of an earlier epoch never
  pass again; along a chain of delegations permission, resource, epoch and expiry only narrow, the
  expiry up to the time that passes inside the calls. Use limits and revocation do not reach
  delegated tokens, as the last section shows. \<open>Delegate\<close> gives up the lock between verifying the parent
  and issuing the child; here the call is one step.
\<close>

section \<open>Tokens\<close>

datatype cap_error =
    CapDenied | CapExpired | CapRevoked | CapEpochMismatch | CapInvalidSig "sign_error option"
  | CapWidenDelegate | CapSingleUseSpent | CapNotFound | CapRand string | CapSign sign_error | CapCache cache_error
  | CapOverflow

record Constraints =
  cn_SingleUse :: bool
  cn_Environment :: string
  cn_MaxUses :: int
  cn_AllowedResources :: "string list"

record Token =
  ct_ID :: string
  ct_Subject :: string
  ct_Permission :: string
  ct_Resource :: string
  ct_IssuedAt :: time
  ct_ExpiresAt :: time
  ct_Constraints :: Constraints
  ct_Nonce :: string
  ct_Epoch :: u64
  ct_ParentID :: string
  ct_Signature :: bytes
  ct_KeyID :: string

record signBody =
  sb_ID :: string
  sb_Subject :: string
  sb_Permission :: string
  sb_Resource :: string
  sb_IssuedAt :: time
  sb_ExpiresAt :: time
  sb_Constraints :: Constraints
  sb_Nonce :: string
  sb_Epoch :: u64
  sb_ParentID :: string

definition token_body :: "Token \<Rightarrow> signBody" where
  "token_body t =
     \<lparr>sb_ID = ct_ID t, sb_Subject = ct_Subject t, sb_Permission = ct_Permission t, sb_Resource = ct_Resource t,
      sb_IssuedAt = ct_IssuedAt t, sb_ExpiresAt = ct_ExpiresAt t, sb_Constraints = ct_Constraints t,
      sb_Nonce = ct_Nonce t, sb_Epoch = ct_Epoch t, sb_ParentID = ct_ParentID t\<rparr>"

record CapRequest =
  cq_Subject :: string
  cq_Permission :: string
  cq_Resource :: string
  cq_TTL :: duration
  cq_Constraints :: Constraints

record Authority =
  at_signer :: "PrivateKey option"
  at_keys :: "KeyRing option"
  at_epoch :: u64
  at_replay :: "Cache option"
  at_revoked :: "string list"
  at_spent :: "string \<Rightarrow> int"
  at_issued :: "(string \<times> Token) list"
  at_requireSig :: bool

text \<open>
  What a call reads from outside: the scheme and the encoder, the two random byte strings or the
  error of the generator, the instants of the authority's clock, and the wall clock.
\<close>

record cap_env =
  ce_ed :: ed25519
  ce_encode :: "signBody \<Rightarrow> bytes option"
  ce_nonce :: "bytes + string"
  ce_id :: "bytes + string"
  ce_verify :: time
  ce_now :: time
  ce_wall :: time
  ce_issue :: time

definition NewAuthority :: "PrivateKey option \<Rightarrow> KeyRing option \<Rightarrow> Cache option \<Rightarrow> Authority" where
  "NewAuthority signer keys replay =
     \<lparr>at_signer = signer, at_keys = keys, at_epoch = 0, at_replay = replay, at_revoked = [], at_spent = \<lambda>_. 0,
      at_issued = [], at_requireSig = (signer \<noteq> None)\<rparr>"

definition cap_AdvanceEpoch :: "Authority \<Rightarrow> Authority \<times> (u64 + cap_error)" where
  "cap_AdvanceEpoch a =
     (case at_replay a of
        Some c \<Rightarrow>
          (case cache_AdvanceEpoch c of
             (c, Inr e) \<Rightarrow> (a\<lparr>at_replay := Some c\<rparr>, Inr (CapCache e))
           | (c, Inl ep) \<Rightarrow> (a\<lparr>at_replay := Some c, at_epoch := ep\<rparr>, Inl ep))
      | None \<Rightarrow>
          if at_epoch a = - 1 then (a, Inr CapOverflow)
          else (a\<lparr>at_epoch := at_epoch a + 1\<rparr>, Inl (at_epoch a + 1)))"

definition signLocked :: "cap_env \<Rightarrow> Authority \<Rightarrow> Token \<Rightarrow> Token + cap_error" where
  "signLocked env a tok =
     (case at_signer a of
        None \<Rightarrow> Inl tok
      | Some key \<Rightarrow>
          (case SignCanonical (ce_ed env) (ce_wall env) key (ce_encode env (token_body tok)) of
             Inr e \<Rightarrow> Inr (CapSign e)
           | Inl sig \<Rightarrow> Inl (tok\<lparr>ct_Signature := sg_Sig sig, ct_KeyID := sg_KeyID sig\<rparr>)))"

definition Issue :: "cap_env \<Rightarrow> CapRequest \<Rightarrow> Authority \<Rightarrow> Authority \<times> (Token + cap_error)" where
  "Issue env req a =
     (if cq_Permission req = '''' \<or> cq_Permission req = ''*'' then (a, Inr CapDenied)
      else
        (let ttl = (if cq_TTL req \<le> 0 then 5 * Minute else cq_TTL req)
         in case ce_nonce env of
              Inr e \<Rightarrow> (a, Inr (CapRand e))
            | Inl nonce \<Rightarrow>
                (case ce_id env of
                   Inr e \<Rightarrow> (a, Inr (CapRand e))
                 | Inl idBytes \<Rightarrow>
                     (let tok = \<lparr>ct_ID = ''cap_'' @ hex_encode idBytes, ct_Subject = cq_Subject req,
                                 ct_Permission = cq_Permission req, ct_Resource = cq_Resource req,
                                 ct_IssuedAt = ce_issue env, ct_ExpiresAt = ce_issue env + ttl,
                                 ct_Constraints = cq_Constraints req, ct_Nonce = hex_encode nonce, ct_Epoch = at_epoch a,
                                 ct_ParentID = '''', ct_Signature = [], ct_KeyID = ''''\<rparr>
                      in case signLocked env a tok of
                           Inr e \<Rightarrow> (a, Inr e)
                         | Inl tok \<Rightarrow> (a\<lparr>at_issued := AList.update (ct_ID tok) tok (at_issued a)\<rparr>, Inl tok)))))"

definition verify_signature :: "cap_env \<Rightarrow> Authority \<Rightarrow> Token \<Rightarrow> cap_error option" where
  "verify_signature env a tok =
     (if at_requireSig a \<or> ct_Signature tok \<noteq> [] then
        (case at_keys a of
           None \<Rightarrow> Some (CapInvalidSig None)
         | Some ring \<Rightarrow>
             (let sig = \<lparr>sg_KeyID = ct_KeyID tok, sg_Algorithm = AlgorithmEd25519, sg_Version = 1,
                         sg_SignedAt = ct_IssuedAt tok, sg_Sig = ct_Signature tok\<rparr>
              in case VerifyCanonical (ce_ed env) (ce_wall env) (Some ring) (ce_encode env (token_body tok)) sig of
                   None \<Rightarrow> None
                 | Some e \<Rightarrow> Some (CapInvalidSig (Some e))))
      else None)"

definition verifyLocked :: "cap_env \<Rightarrow> Token \<Rightarrow> bool \<Rightarrow> Authority \<Rightarrow> Authority \<times> cap_error option" where
  "verifyLocked env tok consume a =
     (if ct_ID tok \<in> set (at_revoked a) then (a, Some CapRevoked)
      else if ct_Epoch tok \<noteq> at_epoch a then (a, Some CapEpochMismatch)
      else if ct_ExpiresAt tok < ce_verify env then (a, Some CapExpired)
      else case verify_signature env a tok of
        Some e \<Rightarrow> (a, Some e)
      | None \<Rightarrow>
          (let n = at_spent a (ct_ID tok); c = ct_Constraints tok
           in if cn_SingleUse c \<or> cn_MaxUses c = 1 then
                (if n > 0 then (a, Some CapSingleUseSpent)
                 else (if consume then a\<lparr>at_spent := (at_spent a)(ct_ID tok := 1)\<rparr> else a, None))
              else if cn_MaxUses c > 1 then
                (if n \<ge> cn_MaxUses c then (a, Some CapSingleUseSpent)
                 else (if consume then a\<lparr>at_spent := (at_spent a)(ct_ID tok := n + 1)\<rparr> else a, None))
              else (a, None)))"

definition cap_Verify :: "cap_env \<Rightarrow> Token \<Rightarrow> Authority \<Rightarrow> Authority \<times> cap_error option" where
  "cap_Verify env tok a = verifyLocked env tok True a"

definition cap_Revoke :: "string \<Rightarrow> Authority \<Rightarrow> Authority \<times> cap_error option" where
  "cap_Revoke i a =
     (if map_of (at_issued a) i = None then (a, Some CapNotFound)
      else (a\<lparr>at_revoked := i # at_revoked a\<rparr>, None))"

definition permissionReduces :: "string \<Rightarrow> string \<Rightarrow> bool" where
  "permissionReduces parent child \<longleftrightarrow>
     (if parent = child then True
      else if HasSuffix parent ''.*'' then
        HasPrefix child (TrimSuffix parent ''.*'' @ ''.'') \<and> \<not> Contains child ''*''
      else False)"

text \<open>The lifetime a delegation asks \<open>Issue\<close> for, clamped to what is left of the parent.\<close>

definition clamp_ttl :: "cap_env \<Rightarrow> Token \<Rightarrow> duration \<Rightarrow> duration option" where
  "clamp_ttl env parent ttl =
     (if ttl \<le> 0 \<or> ct_ExpiresAt parent < ce_now env + ttl then
        (let rem = ct_ExpiresAt parent - ce_wall env
         in if rem \<le> 0 then None else Some (if ttl \<le> 0 \<or> ttl > rem then rem else ttl))
      else Some ttl)"

definition Delegate :: "cap_env \<Rightarrow> Token \<Rightarrow> CapRequest \<Rightarrow> Authority \<Rightarrow> Authority \<times> (Token + cap_error)" where
  "Delegate env parent req a =
     (case verifyLocked env parent False a of
        (a, Some e) \<Rightarrow> (a, Inr e)
      | (a, None) \<Rightarrow>
          if \<not> permissionReduces (ct_Permission parent) (cq_Permission req) then (a, Inr CapWidenDelegate)
          else if ct_Resource parent \<noteq> '''' \<and> cq_Resource req \<noteq> '''' \<and> ct_Resource parent \<noteq> cq_Resource req then
            (a, Inr CapWidenDelegate)
          else
            (let req = (if ct_Resource parent \<noteq> '''' \<and> cq_Resource req = '''' then req\<lparr>cq_Resource := ct_Resource parent\<rparr> else req)
             in case clamp_ttl env parent (cq_TTL req) of
                  None \<Rightarrow> (a, Inr CapExpired)
                | Some ttl \<Rightarrow>
                    (let req = req\<lparr>cq_TTL := ttl\<rparr>;
                         req = (if cq_Subject req = '''' then req\<lparr>cq_Subject := ct_Subject parent\<rparr> else req)
                     in case Issue env req a of
                          (a, Inr e) \<Rightarrow> (a, Inr e)
                        | (a, Inl child) \<Rightarrow>
                            (let child = child\<lparr>ct_ParentID := ct_ID parent, ct_Epoch := ct_Epoch parent\<rparr>
                             in case signLocked env a child of
                                  Inr e \<Rightarrow> (a, Inr e)
                                | Inl child \<Rightarrow> (a\<lparr>at_issued := AList.update (ct_ID child) child (at_issued a)\<rparr>, Inl child)))))"

section \<open>Histories\<close>

datatype cap_op =
    CIssue cap_env CapRequest
  | CVerify cap_env Token
  | CRevoke string
  | CDelegate cap_env Token CapRequest
  | CAdvanceEpoch
  | CCache "time \<times> cache_op"

primrec cap_act :: "Authority \<Rightarrow> cap_op \<Rightarrow> Authority" where
  "cap_act a (CIssue env req) = fst (Issue env req a)"
| "cap_act a (CVerify env tok) = fst (cap_Verify env tok a)"
| "cap_act a (CRevoke i) = fst (cap_Revoke i a)"
| "cap_act a (CDelegate env p req) = fst (Delegate env p req a)"
| "cap_act a CAdvanceEpoch = fst (cap_AdvanceEpoch a)"
| "cap_act a (CCache op) = a\<lparr>at_replay := (case at_replay a of None \<Rightarrow> None | Some c \<Rightarrow> Some (cache_act c op))\<rparr>"

text \<open>How often a token passed in a history.\<close>

fun passes :: "Token \<Rightarrow> Authority \<Rightarrow> cap_op list \<Rightarrow> nat" where
  "passes tok a [] = 0"
| "passes tok a (op # ops) =
     (case op of CVerify env t \<Rightarrow> if t = tok \<and> snd (cap_Verify env t a) = None then 1 else 0 | _ \<Rightarrow> 0)
     + passes tok (cap_act a op) ops"

definition use_limit :: "Token \<Rightarrow> int" where
  "use_limit tok = (if cn_SingleUse (ct_Constraints tok) then 1 else cn_MaxUses (ct_Constraints tok))"

lemma signLocked_fields:
  assumes "signLocked env a tok = Inl tok'"
  obtains s k where "tok' = tok\<lparr>ct_Signature := s, ct_KeyID := k\<rparr>"
proof (cases "at_signer a")
  case None
  then have "tok' = tok\<lparr>ct_Signature := ct_Signature tok, ct_KeyID := ct_KeyID tok\<rparr>"
    using assms by (simp add: signLocked_def)
  then show ?thesis by (rule that)
next
  case (Some key)
  then show ?thesis using assms that by (auto simp: signLocked_def split: sum.splits)
qed

lemma Issue_cases:
  assumes "Issue env req a = (a', r)"
  obtains iss where "a' = a\<lparr>at_issued := iss\<rparr>"
    and "\<And>tok. r = Inl tok \<Longrightarrow> ct_Permission tok = cq_Permission req \<and> ct_Resource tok = cq_Resource req
      \<and> ct_ExpiresAt tok = ce_issue env + (if cq_TTL req \<le> 0 then 5 * Minute else cq_TTL req)
      \<and> ct_Constraints tok = cq_Constraints req"
proof (cases r)
  case (Inr e)
  then have "a' = a\<lparr>at_issued := at_issued a\<rparr>"
    using assms by (auto simp: Issue_def Let_def split: if_splits sum.splits)
  then show ?thesis using that Inr by blast
next
  case (Inl tok)
  obtain nonce idb tok0 where sgn: "signLocked env a tok0 = Inl tok" and a': "a' = a\<lparr>at_issued := AList.update (ct_ID tok) tok (at_issued a)\<rparr>"
    and tok0: "tok0 = \<lparr>ct_ID = ''cap_'' @ hex_encode idb, ct_Subject = cq_Subject req, ct_Permission = cq_Permission req,
      ct_Resource = cq_Resource req, ct_IssuedAt = ce_issue env,
      ct_ExpiresAt = ce_issue env + (if cq_TTL req \<le> 0 then 5 * Minute else cq_TTL req),
      ct_Constraints = cq_Constraints req, ct_Nonce = hex_encode nonce, ct_Epoch = at_epoch a, ct_ParentID = '''',
      ct_Signature = [], ct_KeyID = ''''\<rparr>"
    using assms Inl by (auto simp: Issue_def Let_def split: if_splits sum.splits)
  from sgn obtain s k where "tok = tok0\<lparr>ct_Signature := s, ct_KeyID := k\<rparr>" by (rule signLocked_fields)
  then show ?thesis using that [OF a'] tok0 Inl by simp
qed

lemma verify_peek: "fst (verifyLocked env tok False a) = a"
  by (auto simp: verifyLocked_def Let_def split: option.split)

lemma Delegate_cases:
  assumes del: "Delegate env parent req a = (a', r)"
  obtains iss where "a' = a\<lparr>at_issued := iss\<rparr>"
    and "\<And>child. r = Inl child \<Longrightarrow> permissionReduces (ct_Permission parent) (ct_Permission child)
      \<and> (ct_Resource parent \<noteq> '''' \<longrightarrow> ct_Resource child = ct_Resource parent) \<and> ct_Epoch child = ct_Epoch parent
      \<and> (\<exists>ttl. clamp_ttl env parent (cq_TTL req) = Some ttl \<and> 0 < ttl \<and> ct_ExpiresAt child = ce_issue env + ttl)
      \<and> ct_Constraints child = cq_Constraints req \<and> map_of iss (ct_ID child) = Some child"
proof -
  have same: "\<exists>e. r = Inr e \<Longrightarrow> a' = a \<Longrightarrow> thesis" using that [of "at_issued a"] by auto
  obtain e where v: "verifyLocked env parent False a = (a, e)" using verify_peek by (metis prod.collapse)
  let ?req = "if ct_Resource parent \<noteq> '''' \<and> cq_Resource req = '''' then req\<lparr>cq_Resource := ct_Resource parent\<rparr> else req"
  let ?sub = "\<lambda>req. if cq_Subject req = '''' then req\<lparr>cq_Subject := ct_Subject parent\<rparr> else req"
  consider x where "e = Some x"
    | "e = None" "\<not> permissionReduces (ct_Permission parent) (cq_Permission req)
        \<or> ct_Resource parent \<noteq> '''' \<and> cq_Resource req \<noteq> '''' \<and> ct_Resource parent \<noteq> cq_Resource req
        \<or> clamp_ttl env parent (cq_TTL req) = None"
    | ttl where "e = None" "permissionReduces (ct_Permission parent) (cq_Permission req)"
        "\<not> (ct_Resource parent \<noteq> '''' \<and> cq_Resource req \<noteq> '''' \<and> ct_Resource parent \<noteq> cq_Resource req)"
        "clamp_ttl env parent (cq_TTL req) = Some ttl"
    by (cases e; cases "clamp_ttl env parent (cq_TTL req)") blast+
  then show ?thesis
  proof cases
    case 1
    then show ?thesis using same del v by (auto simp: Delegate_def)
  next
    case 2
    then show ?thesis using same del v by (auto simp: Delegate_def Let_def split: if_splits option.splits)
  next
    case (3 ttl)
    let ?q = "?sub (?req\<lparr>cq_TTL := ttl\<rparr>)"
    obtain a1 r1 where iss: "Issue env ?q a = (a1, r1)" by force
    have ttl: "0 < ttl" using 3(4) by (auto simp: clamp_ttl_def Let_def split: if_splits)
    have "cq_TTL ?req = cq_TTL req" by simp
    then have del1: "(case (a1, r1) of (a, Inr e) \<Rightarrow> (a, Inr e)
        | (a, Inl child) \<Rightarrow> (let child = child\<lparr>ct_ParentID := ct_ID parent, ct_Epoch := ct_Epoch parent\<rparr>
           in case signLocked env a child of Inr e \<Rightarrow> (a, Inr e)
              | Inl child \<Rightarrow> (a\<lparr>at_issued := AList.update (ct_ID child) child (at_issued a)\<rparr>, Inl child))) = (a', r)"
      using del v 3 iss unfolding Delegate_def Let_def by (simp only: prod.case option.case if_False if_True not_not simp_thms)
    from iss show ?thesis
    proof (cases rule: Issue_cases)
      case (1 i1)
      show ?thesis
      proof (cases r1)
        case (Inr x)
        then show ?thesis using that [of i1] del1 1(1) by auto
      next
        case (Inl c0)
        note f = 1(2) [OF Inl]
        let ?c = "c0\<lparr>ct_ParentID := ct_ID parent, ct_Epoch := ct_Epoch parent\<rparr>"
        show ?thesis
        proof (cases "signLocked env a1 ?c")
          case (Inr x)
          then have "r = Inr x" "a' = a\<lparr>at_issued := i1\<rparr>" using del1 1(1) Inl by auto
          then show ?thesis using that [of i1] by simp
        next
          case signed: (Inl child)
          from signed obtain s k where child: "child = ?c\<lparr>ct_Signature := s, ct_KeyID := k\<rparr>" by (rule signLocked_fields)
          have res: "r = Inl child" "a' = a\<lparr>at_issued := AList.update (ct_ID child) child i1\<rparr>"
            using del1 Inl signed 1(1) by auto
          show ?thesis
            by (rule that [OF res(2)]) (use res(1) child f 3 ttl in \<open>auto simp: update_conv split: if_splits\<close>)
        qed
      qed
    qed
  qed
qed

section \<open>Use limits\<close>

lemma spent_act:
  "at_spent a i \<le> at_spent (cap_act a op) i"
proof (cases op)
  case (CIssue env req)
  obtain a' r where "Issue env req a = (a', r)" by force
  then show ?thesis using CIssue by (cases rule: Issue_cases) (simp add: \<open>Issue env req a = (a', r)\<close>)
next
  case (CDelegate env p req)
  obtain a' r where "Delegate env p req a = (a', r)" by force
  then show ?thesis using CDelegate by (cases rule: Delegate_cases) (simp add: \<open>Delegate env p req a = (a', r)\<close>)
next
  case (CVerify env tok)
  then show ?thesis by (auto simp: cap_Verify_def verifyLocked_def Let_def split: option.split)
qed (auto simp: cap_Revoke_def cap_AdvanceEpoch_def split: option.split sum.split prod.split)

lemma Verify_spends:
  assumes "snd (cap_Verify env tok a) = None" and "1 \<le> use_limit tok" and "0 \<le> at_spent a (ct_ID tok)"
  shows "at_spent a (ct_ID tok) < use_limit tok"
    and "at_spent (fst (cap_Verify env tok a)) (ct_ID tok) = at_spent a (ct_ID tok) + 1"
  using assms
  by (auto simp: cap_Verify_def verifyLocked_def use_limit_def Let_def split: option.splits if_splits)

lemma passes_bound:
  assumes "1 \<le> use_limit tok" and "0 \<le> at_spent a (ct_ID tok)"
  shows "int (passes tok a ops) \<le> max 0 (use_limit tok - at_spent a (ct_ID tok))"
  using assms(2)
proof (induction ops arbitrary: a)
  case (Cons op ops)
  let ?a = "cap_act a op" and ?i = "ct_ID tok"
  have mono: "at_spent a ?i \<le> at_spent ?a ?i" by (rule spent_act)
  then have IH: "int (passes tok ?a ops) \<le> max 0 (use_limit tok - at_spent ?a ?i)" using Cons by simp
  show ?case
  proof (cases "\<exists>env. op = CVerify env tok \<and> snd (cap_Verify env tok a) = None")
    case True
    then obtain env where op: "op = CVerify env tok" "snd (cap_Verify env tok a) = None" by blast
    from Verify_spends [OF op(2) assms(1) Cons.prems] IH op show ?thesis by simp
  next
    case False
    then have "passes tok a (op # ops) = passes tok ?a ops" by (auto split: cap_op.split)
    then show ?thesis using IH mono by simp
  qed
qed simp

lemma spent_new: "0 \<le> at_spent (foldl cap_act (NewAuthority signer keys replay) ops) i"
proof (induction ops rule: rev_induct)
  case (snoc op ops)
  then show ?case using spent_act [of "foldl cap_act (NewAuthority signer keys replay) ops" i op] by simp
qed (simp add: NewAuthority_def)

text \<open>
  C14. A token limited to \<open>n\<close> uses, or to a single one, passes verification at most that often in any
  history of the authority, with any other tokens issued, verified, delegated and revoked in between.
\<close>

theorem capability_use_limit:
  assumes "1 \<le> use_limit tok"
  shows "int (passes tok (foldl cap_act (NewAuthority signer keys replay) ops0) ops) \<le> use_limit tok"
  using passes_bound [OF assms spent_new, of signer keys replay ops0 ops] spent_new [of signer keys replay ops0 "ct_ID tok"] assms
  by linarith

section \<open>Revocation and epochs\<close>

definition epochs_ok :: "Authority \<Rightarrow> bool" where
  "epochs_ok a \<longleftrightarrow> (case at_replay a of None \<Rightarrow> True | Some c \<Rightarrow> at_epoch a \<le> ca_epoch c)"

lemma epochs_ok_issued [simp]: "epochs_ok (a\<lparr>at_issued := i\<rparr>) \<longleftrightarrow> epochs_ok a"
  by (cases "at_replay a") (simp_all add: epochs_ok_def)

lemma epoch_act:
  assumes "epochs_ok a"
  shows "epochs_ok (cap_act a op) \<and> at_epoch a \<le> at_epoch (cap_act a op)
    \<and> set (at_revoked a) \<subseteq> set (at_revoked (cap_act a op))"
proof (cases op)
  case (CIssue env req)
  obtain a' r where "Issue env req a = (a', r)" by force
  then show ?thesis using CIssue assms by (cases rule: Issue_cases) (simp add: \<open>Issue env req a = (a', r)\<close>)
next
  case (CDelegate env p req)
  obtain a' r where "Delegate env p req a = (a', r)" by force
  then show ?thesis using CDelegate assms
    by (cases rule: Delegate_cases) (simp add: \<open>Delegate env p req a = (a', r)\<close>)
next
  case (CVerify env tok)
  then show ?thesis using assms by (auto simp: epochs_ok_def cap_Verify_def verifyLocked_def Let_def split: option.split)
next
  case (CRevoke i)
  then show ?thesis using assms by (auto simp: epochs_ok_def cap_Revoke_def split: option.split)
next
  case CAdvanceEpoch
  have up: "x \<le> x + 1" if "x \<noteq> - 1" for x :: u64
    using that word_Suc_less [of x "- 1"] by (simp add: word_order.not_eq_extremum less_imp_le)
  show ?thesis
  proof (cases "at_replay a")
    case None
    then show ?thesis using CAdvanceEpoch up by (auto simp: epochs_ok_def cap_AdvanceEpoch_def)
  next
    case (Some c)
    then have "at_epoch a \<le> ca_epoch c" using assms by (simp add: epochs_ok_def)
    then show ?thesis
      using CAdvanceEpoch Some up [of "ca_epoch c"] order_trans [of "at_epoch a" "ca_epoch c" "ca_epoch c + 1"]
      by (cases "ca_epoch c = - 1") (simp_all add: epochs_ok_def cap_AdvanceEpoch_def cache_AdvanceEpoch_def)
  qed
next
  case (CCache x)
  then show ?thesis
    using assms order_trans [OF _ cache_act_epoch, of "at_epoch a" _ x] by (cases "at_replay a") (simp_all add: epochs_ok_def)
qed

lemma epoch_run:
  assumes "epochs_ok a"
  shows "epochs_ok (foldl cap_act a ops) \<and> at_epoch a \<le> at_epoch (foldl cap_act a ops)
    \<and> set (at_revoked a) \<subseteq> set (at_revoked (foldl cap_act a ops))"
  using assms
proof (induction ops arbitrary: a)
  case (Cons op ops)
  have "epochs_ok (cap_act a op)" using epoch_act [OF Cons.prems] by simp
  from Cons.IH [OF this] epoch_act [OF Cons.prems, of op] show ?case by auto
qed simp

text \<open>
  C13. Invalidation is final: once a token has been revoked, or the epoch has advanced beyond the one it
  was issued under, no later verification of it passes, whatever happens in between. A token has
  been revoked as soon as a call of \<open>Revoke\<close> with its identifier has returned nil.
\<close>

theorem capability_invalidation_final:
  assumes "a = foldl cap_act (NewAuthority signer keys replay) ops0"
  shows "(ct_ID tok \<in> set (at_revoked a) \<or> ct_Epoch tok < at_epoch a \<longrightarrow>
            snd (cap_Verify env tok (foldl cap_act a ops)) \<noteq> None)
       \<and> (snd (cap_Revoke (ct_ID tok) a) = None \<longrightarrow>
            snd (cap_Verify env tok (foldl cap_act (cap_act a (CRevoke (ct_ID tok))) ops)) \<noteq> None)"
proof -
  have new: "epochs_ok (NewAuthority signer keys replay)"
    by (simp add: epochs_ok_def NewAuthority_def split: option.split)
  have final: "snd (cap_Verify env tok (foldl cap_act b ops)) \<noteq> None"
    if "b = foldl cap_act (NewAuthority signer keys replay) ops1"
      and "ct_ID tok \<in> set (at_revoked b) \<or> ct_Epoch tok < at_epoch b" for b ops1
  proof -
    have "epochs_ok b" using epoch_run [OF new] that(1) by blast
    from epoch_run [OF this, of ops] that(2)
    have "ct_ID tok \<in> set (at_revoked (foldl cap_act b ops)) \<or> ct_Epoch tok \<noteq> at_epoch (foldl cap_act b ops)" by auto
    then show ?thesis by (auto simp: cap_Verify_def verifyLocked_def)
  qed
  have "ct_ID tok \<in> set (at_revoked (cap_act a (CRevoke (ct_ID tok))))" if "snd (cap_Revoke (ct_ID tok) a) = None"
    using that by (auto simp: cap_Revoke_def split: if_splits)
  then show ?thesis
    using final [OF assms] final [of "cap_act a (CRevoke (ct_ID tok))" "ops0 @ [CRevoke (ct_ID tok)]"] assms
    by simp
qed

section \<open>Delegation\<close>

lemma permissionReduces_refl: "permissionReduces p p"
  by (simp add: permissionReduces_def)

lemma permissionReduces_trans:
  assumes "permissionReduces p q" and "permissionReduces q r"
  shows "permissionReduces p r"
proof (cases "p = q \<or> q = r")
  case False
  then have "HasSuffix q ''.*''" "\<not> Contains q ''*''"
    using assms by (auto simp: permissionReduces_def split: if_splits)
  then obtain t where "q = (t @ ''.'') @ ''*'' @ []" by (auto simp: HasSuffix_iff)
  then have "Contains q ''*''" unfolding Contains_iff by blast
  then show ?thesis using \<open>\<not> Contains q ''*''\<close> by simp
qed (use assms in auto)

text \<open>A chain of delegations from a token, with the number of links.\<close>

inductive delegated :: "duration \<Rightarrow> Token \<Rightarrow> nat \<Rightarrow> Token \<Rightarrow> bool" for eps root where
  itself: "delegated eps root 0 root"
| link: "delegated eps root n parent \<Longrightarrow> Delegate env parent req a = (a', Inl child) \<Longrightarrow>
    ce_now env \<le> ce_wall env \<Longrightarrow> ce_wall env \<le> ce_issue env \<Longrightarrow> ce_issue env - ce_now env \<le> eps \<Longrightarrow>
    delegated eps root (Suc n) child"

text \<open>
  C31. Along any chain of delegations, at whatever authorities and in whatever states, the permission
  stays within the one of the first token, a resource it names is kept, the epoch is the same, and
  the expiry exceeds the first one by at most the time that passes between the clock readings of
  each call.
\<close>

theorem delegation_narrows:
  assumes "delegated eps root n tok"
  shows "permissionReduces (ct_Permission root) (ct_Permission tok)
    \<and> (ct_Resource root \<noteq> '''' \<longrightarrow> ct_Resource tok = ct_Resource root) \<and> ct_Epoch tok = ct_Epoch root
    \<and> ct_ExpiresAt tok \<le> ct_ExpiresAt root + int n * eps"
  using assms
proof (induction rule: delegated.induct)
  case itself
  then show ?case by (simp add: permissionReduces_refl)
next
  case (link n parent env req a a' child)
  from link.hyps(2) show ?case
  proof (cases rule: Delegate_cases)
    case (1 iss)
    then obtain ttl where ttl: "clamp_ttl env parent (cq_TTL req) = Some ttl" "ct_ExpiresAt child = ce_issue env + ttl"
      and child: "permissionReduces (ct_Permission parent) (ct_Permission child)"
        "ct_Resource parent \<noteq> '''' \<longrightarrow> ct_Resource child = ct_Resource parent" "ct_Epoch child = ct_Epoch parent"
      by blast
    have "ttl \<le> ct_ExpiresAt parent - ce_now env"
      using ttl(1) link.hyps(3) by (auto simp: clamp_ttl_def Let_def split: if_splits)
    then have "ct_ExpiresAt child \<le> ct_ExpiresAt parent + eps" using ttl(2) link.hyps(5) by linarith
    then have "ct_ExpiresAt child \<le> ct_ExpiresAt root + int (Suc n) * eps" using link.IH by (simp add: algebra_simps)
    then show ?thesis using child link.IH permissionReduces_trans by metis
  qed
qed

section \<open>Samples\<close>

definition no_constraints :: Constraints where
  "no_constraints = \<lparr>cn_SingleUse = False, cn_Environment = '''', cn_MaxUses = 0, cn_AllowedResources = []\<rparr>"

definition sample_cap_env :: "string \<Rightarrow> time \<Rightarrow> cap_env" where
  "sample_cap_env i t =
     \<lparr>ce_ed = \<lparr>ed_Sign = \<lambda>k p. k @ p, ed_Verify = \<lambda>k p s. s = k @ p\<rparr>, ce_encode = \<lambda>b. Some (sb_ID b),
      ce_nonce = Inl ''n'', ce_id = Inl i, ce_verify = t, ce_now = t, ce_wall = t, ce_issue = t + 1\<rparr>"

definition sample_ask :: "string \<Rightarrow> CapRequest" where
  "sample_ask p = \<lparr>cq_Subject = ''ops'', cq_Permission = p, cq_Resource = ''db'', cq_TTL = 100, cq_Constraints = no_constraints\<rparr>"

definition new_authority :: Authority where
  "new_authority = NewAuthority None None (Some (NewCache 4096))"

text \<open>A single-use token of an authority, and the token delegated from it.\<close>

definition single_use :: Token where
  "single_use = projl (snd (Issue (sample_cap_env ''a'' 10)
     ((sample_ask ''claim.*'')\<lparr>cq_Constraints := no_constraints\<lparr>cn_SingleUse := True\<rparr>\<rparr>) new_authority))"

definition issued_single :: Authority where
  "issued_single = fst (Issue (sample_cap_env ''a'' 10)
     ((sample_ask ''claim.*'')\<lparr>cq_Constraints := no_constraints\<lparr>cn_SingleUse := True\<rparr>\<rparr>) new_authority)"

definition child_token :: Token where
  "child_token = projl (snd (Delegate (sample_cap_env ''b'' 20) single_use (sample_ask ''claim.revoke'') issued_single))"

theorem capability_use_limit_witness:
  "1 \<le> use_limit single_use
   \<and> int (passes single_use (foldl cap_act (NewAuthority None None (Some (NewCache 4096))) [])
       [CVerify (sample_cap_env ''c'' 30) single_use, CVerify (sample_cap_env ''c'' 31) single_use]) \<le> use_limit single_use"
proof -
  have "1 \<le> use_limit single_use" by code_simp
  with capability_use_limit [OF this, of None None "Some (NewCache 4096)" "[]"
      "[CVerify (sample_cap_env ''c'' 30) single_use, CVerify (sample_cap_env ''c'' 31) single_use]"]
  show ?thesis by blast
qed

theorem capability_invalidation_final_witness:
  "snd (cap_Verify (sample_cap_env ''c'' 30) single_use new_authority) = None
   \<and> snd (cap_Verify (sample_cap_env ''c'' 30) single_use
        (foldl cap_act (foldl cap_act (NewAuthority None None (Some (NewCache 4096))) [CAdvanceEpoch])
          [CVerify (sample_cap_env ''c'' 29) single_use])) \<noteq> None"
proof -
  let ?a = "foldl cap_act (NewAuthority None None (Some (NewCache 4096))) [CAdvanceEpoch]"
  have "ct_ID single_use \<in> set (at_revoked ?a) \<or> ct_Epoch single_use < at_epoch ?a" by code_simp
  note final = capability_invalidation_final [OF refl, THEN conjunct1, rule_format, OF this,
      of "sample_cap_env ''c'' 30" "[CVerify (sample_cap_env ''c'' 29) single_use]"]
  have "Option.is_none (snd (cap_Verify (sample_cap_env ''c'' 30) single_use new_authority))" by code_simp
  then show ?thesis using final by (simp only: Option.is_none_def) simp
qed

theorem delegation_narrows_witness:
  "delegated 1 single_use 1 child_token \<and> permissionReduces (ct_Permission single_use) (ct_Permission child_token)
   \<and> ct_ExpiresAt child_token \<le> ct_ExpiresAt single_use + 1"
proof -
  let ?r = "Delegate (sample_cap_env ''b'' 20) single_use (sample_ask ''claim.revoke'') issued_single"
  have "isl (snd ?r)" by code_simp
  then have "?r = (fst ?r, Inl child_token)" by (auto simp: child_token_def prod_eq_iff isl_def)
  then have d: "delegated 1 single_use (Suc 0) child_token"
    by (rule link [OF itself]) (simp_all add: sample_cap_env_def)
  from delegation_narrows [OF this] d show ?thesis by simp
qed

section \<open>What delegation does not narrow\<close>

text \<open>
  Two authorities that treat the tokens with one identifier alike: they have issued it, and agree on
  everything a verification of it reads.
\<close>

definition alike :: "string \<Rightarrow> Authority \<Rightarrow> Authority \<Rightarrow> bool" where
  "alike i a b \<longleftrightarrow> at_keys a = at_keys b \<and> at_epoch a = at_epoch b \<and> at_replay a = at_replay b
     \<and> at_requireSig a = at_requireSig b \<and> (i \<in> set (at_revoked a) \<longleftrightarrow> i \<in> set (at_revoked b))
     \<and> at_spent a i = at_spent b i \<and> map_of (at_issued a) i \<noteq> None \<and> map_of (at_issued b) i \<noteq> None"

lemma Issue_keeps:
  assumes "map_of (at_issued a) i \<noteq> None"
  shows "map_of (at_issued (fst (Issue env req a))) i \<noteq> None"
  using assms by (auto simp: Issue_def Let_def update_conv split: sum.splits)

lemma Delegate_keeps:
  assumes "map_of (at_issued a) i \<noteq> None"
  shows "map_of (at_issued (fst (Delegate env p req a))) i \<noteq> None"
proof -
  have peek: "verifyLocked env p False a = (a, snd (verifyLocked env p False a))"
    by (metis prod.collapse verify_peek)
  have "map_of (at_issued (fst (case Issue env q a of (a, Inr e) \<Rightarrow> (a, Inr e)
      | (a, Inl child) \<Rightarrow>
          (let child = child\<lparr>ct_ParentID := ct_ID p, ct_Epoch := ct_Epoch p\<rparr>
           in case signLocked env a child of
                Inr e \<Rightarrow> (a, Inr e)
              | Inl child \<Rightarrow> (a\<lparr>at_issued := AList.update (ct_ID child) child (at_issued a)\<rparr>, Inl child))))) i \<noteq> None" for q
    using Issue_keeps [OF assms, of env q]
    by (auto simp: Let_def update_conv split: prod.splits sum.splits)
  with assms show ?thesis
    unfolding Delegate_def by (subst peek) (auto simp: Let_def split: option.split)
qed

lemma alike_verify:
  assumes "alike i a b" and "ct_ID tok = i"
  shows "snd (verifyLocked env tok c a) = snd (verifyLocked env tok c b)"
    and "alike i (fst (verifyLocked env tok c a)) (fst (verifyLocked env tok c b))"
proof -
  have "verify_signature env a tok = verify_signature env b tok"
    using assms by (simp add: verify_signature_def alike_def)
  then show "snd (verifyLocked env tok c a) = snd (verifyLocked env tok c b)"
    and "alike i (fst (verifyLocked env tok c a)) (fst (verifyLocked env tok c b))"
    using assms by (auto simp: verifyLocked_def alike_def Let_def split: option.split)
qed

lemma alike_other:
  assumes "ct_ID tok \<noteq> i"
  shows "alike i (fst (verifyLocked env tok c a)) b \<longleftrightarrow> alike i a b"
    and "alike i b (fst (verifyLocked env tok c a)) \<longleftrightarrow> alike i b a"
  using assms by (auto simp: verifyLocked_def alike_def Let_def split: option.split)

lemma alike_issued:
  assumes "alike i a b" and "a' = a\<lparr>at_issued := x\<rparr>" and "b' = b\<lparr>at_issued := y\<rparr>"
    and "map_of x i \<noteq> None" and "map_of y i \<noteq> None"
  shows "alike i a' b'"
  using assms by (simp add: alike_def)

lemma alike_act:
  assumes "alike i a b"
  shows "alike i (cap_act a op) (cap_act b op)"
proof (cases op)
  case (CIssue env req)
  obtain x y where "fst (Issue env req a) = a\<lparr>at_issued := x\<rparr>" "fst (Issue env req b) = b\<lparr>at_issued := y\<rparr>"
    by (metis Issue_cases prod.collapse)
  with Issue_keeps [of a i env req] Issue_keeps [of b i env req] assms CIssue show ?thesis
    by (simp add: alike_def)
next
  case (CDelegate env p req)
  obtain x y where "fst (Delegate env p req a) = a\<lparr>at_issued := x\<rparr>" "fst (Delegate env p req b) = b\<lparr>at_issued := y\<rparr>"
    by (metis Delegate_cases prod.collapse)
  with Delegate_keeps [of a i env p req] Delegate_keeps [of b i env p req] assms CDelegate show ?thesis
    by (simp add: alike_def)
next
  case (CVerify env t)
  then show ?thesis
    using assms alike_verify(2) [OF assms, of t] by (cases "ct_ID t = i") (simp_all add: cap_Verify_def alike_other)
qed (use assms in \<open>auto simp: alike_def cap_Revoke_def cap_AdvanceEpoch_def split: option.split prod.split sum.split\<close>)

lemma alike_passes: "alike (ct_ID tok) a b \<Longrightarrow> passes tok a ops = passes tok b ops"
proof (induction ops arbitrary: a b)
  case (Cons op ops)
  have "snd (cap_Verify env tok a) = snd (cap_Verify env tok b)" for env
    unfolding cap_Verify_def by (rule alike_verify(1) [OF Cons.prems refl])
  with Cons.IH [OF alike_act [OF Cons.prems]] show ?case by (auto split: cap_op.split)
qed simp

text \<open>The operations that are about other tokens than those with identifier \<open>i\<close>.\<close>

fun spares :: "string \<Rightarrow> cap_op \<Rightarrow> bool" where
  "spares i (CVerify env tok) \<longleftrightarrow> ct_ID tok \<noteq> i"
| "spares i (CRevoke j) \<longleftrightarrow> j \<noteq> i"
| "spares i (CIssue env req) \<longleftrightarrow> True"
| "spares i (CDelegate env p req) \<longleftrightarrow> True"
| "spares i _ \<longleftrightarrow> False"

lemma spares_alike:
  assumes "map_of (at_issued a) i \<noteq> None" and "list_all (spares i) ops"
  shows "alike i a (foldl cap_act a ops)"
  using assms(2)
proof (induction ops rule: rev_induct)
  case (snoc op ops)
  then have old: "alike i a (foldl cap_act a ops)" and op: "spares i op" by simp_all
  then show ?case
  proof (cases op)
    case (CIssue env req)
    obtain x where "fst (Issue env req (foldl cap_act a ops)) = (foldl cap_act a ops)\<lparr>at_issued := x\<rparr>"
      by (metis Issue_cases prod.collapse)
    with Issue_keeps [of "foldl cap_act a ops" i env req] old CIssue show ?thesis by (simp add: alike_def)
  next
    case (CDelegate env p req)
    obtain x where "fst (Delegate env p req (foldl cap_act a ops)) = (foldl cap_act a ops)\<lparr>at_issued := x\<rparr>"
      by (metis Delegate_cases prod.collapse)
    with Delegate_keeps [of "foldl cap_act a ops" i env p req] old CDelegate show ?thesis by (simp add: alike_def)
  next
    case (CVerify env t)
    with old op show ?thesis by (simp add: cap_Verify_def alike_other)
  next
    case (CRevoke j)
    with old op show ?thesis by (simp add: cap_Revoke_def alike_def)
  qed (use op in simp_all)
qed (use assms(1) in \<open>simp add: alike_def\<close>)

text \<open>
  C39. Delegation escapes use limits and revocation. A delegated token takes its use limit from the
  request of the delegate, whatever limit its parent has. And once it is issued, no verification and
  no revocation of its parent, in any number, mixed with issuing and delegating, changes how often
  the delegated token passes in any history that follows.
\<close>

theorem delegation_escapes_limits:
  assumes "Delegate env parent req a = (a', Inl child)" and "ct_ID child \<noteq> ct_ID parent"
    and "list_all (spares (ct_ID child)) ops"
  shows "ct_Constraints child = cq_Constraints req
       \<and> spares (ct_ID child) (CVerify env' parent) \<and> spares (ct_ID child) (CRevoke (ct_ID parent))
       \<and> passes child (foldl cap_act a' ops) rest = passes child a' rest"
proof -
  have child: "ct_Constraints child = cq_Constraints req" "map_of (at_issued a') (ct_ID child) = Some child"
    using assms(1) by (cases rule: Delegate_cases; simp)+
  have "alike (ct_ID child) a' (foldl cap_act a' ops)"
    by (rule spares_alike [OF _ assms(3)]) (simp add: child(2))
  then show ?thesis using child(1) assms(2) alike_passes by simp
qed

definition spend_parent :: "cap_op list" where
  "spend_parent = [CVerify (sample_cap_env ''c'' 30) single_use, CRevoke (ct_ID single_use)]"

definition child_uses :: "cap_op list" where
  "child_uses = [CVerify (sample_cap_env ''c'' 40) child_token, CVerify (sample_cap_env ''c'' 41) child_token]"

theorem delegation_escapes_limits_witness:
  "use_limit single_use = 1
   \<and> passes child_token (foldl cap_act (cap_act issued_single
        (CDelegate (sample_cap_env ''b'' 20) single_use (sample_ask ''claim.revoke''))) spend_parent) child_uses = 2"
proof -
  let ?d = "Delegate (sample_cap_env ''b'' 20) single_use (sample_ask ''claim.revoke'') issued_single"
  have ev: "use_limit single_use = 1" "isl (snd ?d)" "projl (snd ?d) = child_token"
    "ct_ID child_token \<noteq> ct_ID single_use" "passes child_token (fst ?d) child_uses = 2"
    by code_simp+
  then have "?d = (fst ?d, Inl child_token)" by (metis prod.collapse sum.collapse(1))
  from delegation_escapes_limits [OF this ev(4), of spend_parent _ child_uses] ev
  show ?thesis by (simp add: spend_parent_def)
qed

end
