(* ===== verification/Protocol_Model.thy ===== *)
theory Protocol_Model
  imports Go_Strings
begin

text \<open>
  \<open>model/*.go\<close>: the repository's own model of the protocol, a world of generations and claims with
  one function \<open>Apply\<close> for every action, the invariants its randomised test checks after each
  action, and the generator of the test's sequences. The theory proves for all sequences what the
  test samples, and says which reuse of an operation id makes the test fail.
\<close>

section \<open>State\<close>

datatype GenState =
    GenJoining | GenStandby | GenPreparing | GenActive | GenDraining | GenTransferring | GenRetired | GenFailed

datatype MPhase = PhaseUnowned | PhaseOwned | PhaseReserved | PhaseDraining

record MGeneration =
  mg_ID :: string
  mg_State :: GenState
  mg_Paused :: bool
  mg_Connected :: bool
  mg_Ready :: bool
  mg_Draining :: bool

record opSnap =
  os_Owner :: string
  os_Token :: u64
  os_Phase :: MPhase

record MClaim =
  mc_Name :: string
  mc_Owner :: string
  mc_Token :: u64
  mc_Phase :: MPhase
  mc_PendingSuccessor :: string
  mc_ExpiresAt :: int
  mc_TransferDeadline :: int
  mc_LastOpID :: string
  mc_OpResults :: "string \<rightharpoonup> opSnap"

datatype ActionType =
    ActRegisterGeneration | ActPassReadiness | ActFailReadiness | ActRequestClaim | ActRenewClaim
  | ActBeginDrain | ActCompleteDrain | ActPrepareTransfer | ActCommitTransfer | ActAbortTransfer
  | ActPause | ActResume | ActDisconnect | ActReconnect | ActExpireLease | ActCrashOwner
  | ActCrashCandidate | ActRestartBackend | ActForceRevoke | ActAdvanceTime | ActReleaseClaim
  | ActOther string

record Action =
  ac_Type :: ActionType
  ac_Generation :: string
  ac_Claim :: string
  ac_Successor :: string
  ac_OpID :: string
  ac_Delta :: int

text \<open>The claims are kept in a list because the invariants and the sweep range over the map.\<close>

record World =
  wo_Now :: int
  wo_LeaseTTL :: int
  wo_TransferTO :: int
  wo_Gens :: "string \<rightharpoonup> MGeneration"
  wo_Claims :: "(string \<times> MClaim) list"
  wo_ProtectedEpoch :: "string \<rightharpoonup> u64"
  wo_History :: "Action list"

text \<open>Model times are \<open>int64\<close>.\<close>

definition i64 :: "int \<Rightarrow> int" where
  "i64 x = signed_take_bit 63 x"

definition NewWorld :: "int \<Rightarrow> int \<Rightarrow> World" where
  "NewWorld leaseTTL transferTO =
     \<lparr>wo_Now = 0, wo_LeaseTTL = (if leaseTTL \<le> 0 then 15 else leaseTTL),
      wo_TransferTO = (if transferTO \<le> 0 then 30 else transferTO), wo_Gens = Map.empty, wo_Claims = [],
      wo_ProtectedEpoch = Map.empty, wo_History = []\<rparr>"

section \<open>Transitions\<close>

text \<open>An action succeeds, is refused with an error, or dereferences a nil pointer.\<close>

datatype apply_result = MOk | MErr string | MPanic

definition upd_gen :: "string \<Rightarrow> (MGeneration \<Rightarrow> MGeneration) \<Rightarrow> World \<Rightarrow> World" where
  "upd_gen g f w = (case wo_Gens w g of None \<Rightarrow> w | Some x \<Rightarrow> w\<lparr>wo_Gens := (wo_Gens w)(g \<mapsto> f x)\<rparr>)"

definition put_claim :: "string \<Rightarrow> MClaim \<Rightarrow> World \<Rightarrow> World" where
  "put_claim n cl w = w\<lparr>wo_Claims := AList.update n cl (wo_Claims w)\<rparr>"

definition blank_claim :: "string \<Rightarrow> MClaim" where
  "blank_claim name =
     \<lparr>mc_Name = name, mc_Owner = '''', mc_Token = 0, mc_Phase = PhaseUnowned, mc_PendingSuccessor = '''', mc_ExpiresAt = 0,
      mc_TransferDeadline = 0, mc_LastOpID = '''', mc_OpResults = Map.empty\<rparr>"

definition the_claim :: "World \<Rightarrow> string \<Rightarrow> MClaim" where
  "the_claim w name = (case map_of (wo_Claims w) name of Some cl \<Rightarrow> cl | None \<Rightarrow> blank_claim name)"

definition expireIfNeeded :: "int \<Rightarrow> MClaim \<Rightarrow> MClaim" where
  "expireIfNeeded now cl =
     (if mc_Phase cl = PhaseUnowned then cl
      else
        (let cl1 = (if mc_ExpiresAt cl > 0 \<and> now > mc_ExpiresAt cl
                    then cl\<lparr>mc_Owner := '''', mc_PendingSuccessor := '''', mc_Phase := PhaseUnowned\<rparr> else cl)
         in if mc_Phase cl1 = PhaseReserved \<and> mc_TransferDeadline cl1 > 0 \<and> now > mc_TransferDeadline cl1
            then cl1\<lparr>mc_PendingSuccessor := '''', mc_Phase := PhaseOwned\<rparr> else cl1))"

definition recall_op :: "Action \<Rightarrow> MClaim \<Rightarrow> opSnap option" where
  "recall_op a cl = (if ac_OpID a = '''' then None else mc_OpResults cl (ac_OpID a))"

definition store_op :: "Action \<Rightarrow> opSnap \<Rightarrow> MClaim \<Rightarrow> MClaim" where
  "store_op a s cl = (if ac_OpID a = '''' then cl else cl\<lparr>mc_OpResults := (mc_OpResults cl)(ac_OpID a \<mapsto> s)\<rparr>)"

definition replay_snap :: "opSnap \<Rightarrow> MClaim \<Rightarrow> MClaim" where
  "replay_snap s cl = cl\<lparr>mc_Owner := os_Owner s, mc_Token := os_Token s, mc_Phase := os_Phase s\<rparr>"

definition snap :: "MClaim \<Rightarrow> opSnap" where
  "snap cl = \<lparr>os_Owner = mc_Owner cl, os_Token = mc_Token cl, os_Phase = mc_Phase cl\<rparr>"

definition granted_claim :: "string \<Rightarrow> int \<Rightarrow> MClaim \<Rightarrow> MClaim" where
  "granted_claim g expires cl =
     cl\<lparr>mc_Token := mc_Token cl + 1, mc_Owner := g, mc_Phase := PhaseOwned, mc_ExpiresAt := expires, mc_PendingSuccessor := ''''\<rparr>"

definition requestClaim :: "Action \<Rightarrow> World \<Rightarrow> World \<times> apply_result" where
  "requestClaim a w =
     (let n = ac_Claim a; cl = the_claim w n
      in case recall_op a cl of
           Some s \<Rightarrow> (put_claim n (replay_snap s cl) w, MOk)
         | None \<Rightarrow>
             (let cl = expireIfNeeded (wo_Now w) cl
              in if mc_Phase cl = PhaseOwned \<or> mc_Phase cl = PhaseReserved then
                   if mc_Owner cl = ac_Generation a then
                     (put_claim n (cl\<lparr>mc_ExpiresAt := i64 (wo_Now w + wo_LeaseTTL w)\<rparr>) w, MOk)
                   else (put_claim n cl w, MErr ''held'')
                 else if mc_Token cl \<ge> - 2 then (put_claim n cl w, MErr ''overflow'')
                 else
                   (let cl = granted_claim (ac_Generation a) (i64 (wo_Now w + wo_LeaseTTL w)) cl;
                        w = upd_gen (ac_Generation a) (\<lambda>g. g\<lparr>mg_State := GenActive\<rparr>) w
                    in ((put_claim n (store_op a (snap cl) cl) w)
                          \<lparr>wo_ProtectedEpoch := (wo_ProtectedEpoch w)(n \<mapsto> mc_Token cl)\<rparr>, MOk))))"

definition controls :: "MClaim \<Rightarrow> string \<Rightarrow> bool" where
  "controls cl gen \<longleftrightarrow> mc_Owner cl = gen \<and> mc_Phase cl \<in> {PhaseOwned, PhaseReserved, PhaseDraining}"

definition renewClaim :: "Action \<Rightarrow> World \<Rightarrow> World \<times> apply_result" where
  "renewClaim a w =
     (let n = ac_Claim a; cl = the_claim w n; w' = put_claim n cl w
      in if \<not> controls cl (ac_Generation a) then (w', MErr ''not owner'')
         else case wo_Gens w (ac_Generation a) of
           None \<Rightarrow> (w', MPanic)
         | Some g \<Rightarrow>
             if \<not> mg_Connected g \<or> mg_Paused g then (w', MErr ''disconnected'')
             else (put_claim n (cl\<lparr>mc_ExpiresAt := i64 (wo_Now w + wo_LeaseTTL w)\<rparr>) w, MOk))"

definition vacated :: "MClaim \<Rightarrow> MClaim" where
  "vacated cl = cl\<lparr>mc_Owner := '''', mc_Phase := PhaseUnowned, mc_PendingSuccessor := ''''\<rparr>"

definition epoch_of :: "World \<Rightarrow> string \<Rightarrow> u64" where
  "epoch_of w n = (case wo_ProtectedEpoch w n of None \<Rightarrow> 0 | Some e \<Rightarrow> e)"

definition releaseClaim :: "Action \<Rightarrow> World \<Rightarrow> World \<times> apply_result" where
  "releaseClaim a w =
     (let n = ac_Claim a; cl = the_claim w n; w' = put_claim n cl w
      in if recall_op a cl \<noteq> None then (w', MOk)
         else if mc_Owner cl \<noteq> ac_Generation a then (w', MErr ''not owner'')
         else if mc_Token cl \<noteq> epoch_of w n \<and> epoch_of w n > mc_Token cl then (w', MErr ''stale'')
         else (put_claim n (store_op a (snap (vacated cl)) (vacated cl)) w, MOk))"

definition prepare :: "Action \<Rightarrow> World \<Rightarrow> World \<times> apply_result" where
  "prepare a w =
     (let n = ac_Claim a; cl = expireIfNeeded (wo_Now w) (the_claim w n)
      in if mc_Owner cl \<noteq> ac_Generation a \<or> mc_Phase cl = PhaseUnowned then (put_claim n cl w, MErr ''not owner'')
         else (upd_gen (ac_Generation a) (\<lambda>g. g\<lparr>mg_State := GenTransferring\<rparr>)
                 (put_claim n (cl\<lparr>mc_Phase := PhaseReserved, mc_PendingSuccessor := ac_Successor a,
                    mc_ExpiresAt := (if wo_TransferTO w > wo_LeaseTTL w then i64 (wo_Now w + wo_TransferTO w)
                                     else i64 (wo_Now w + wo_LeaseTTL w)),
                    mc_TransferDeadline := i64 (wo_Now w + wo_TransferTO w)\<rparr>) w), MOk))"

definition commit :: "Action \<Rightarrow> World \<Rightarrow> World \<times> apply_result" where
  "commit a w =
     (let n = ac_Claim a; cl = the_claim w n; w' = put_claim n cl w
      in case recall_op a cl of
           Some s \<Rightarrow> (put_claim n (replay_snap s cl) w, MOk)
         | None \<Rightarrow>
             if mc_Phase cl \<noteq> PhaseReserved \<or> mc_Owner cl \<noteq> ac_Generation a \<or> mc_PendingSuccessor cl \<noteq> ac_Successor a then
               if mc_Phase cl = PhaseOwned \<and> mc_Owner cl = ac_Successor a then (w', MOk) else (w', MErr ''no transfer'')
             else if mc_Token cl \<ge> - 2 then (w', MErr ''overflow'')
             else
               (let cl = granted_claim (ac_Successor a) (i64 (wo_Now w + wo_LeaseTTL w)) cl;
                    w = upd_gen (ac_Successor a) (\<lambda>g. g\<lparr>mg_State := GenActive\<rparr>)
                          (upd_gen (ac_Generation a) (\<lambda>g. g\<lparr>mg_State := GenRetired\<rparr>) w)
                in ((put_claim n (store_op a (snap cl) cl) w)
                      \<lparr>wo_ProtectedEpoch := (wo_ProtectedEpoch w)(n \<mapsto> mc_Token cl)\<rparr>, MOk)))"

definition abort :: "Action \<Rightarrow> World \<Rightarrow> World \<times> apply_result" where
  "abort a w =
     (let n = ac_Claim a; cl = the_claim w n; w' = put_claim n cl w
      in if mc_Phase cl \<noteq> PhaseReserved then
           if mc_Owner cl = ac_Generation a \<and> mc_Phase cl = PhaseOwned then (w', MOk) else (w', MErr ''no transfer'')
         else if mc_Owner cl \<noteq> ac_Generation a then (w', MErr ''not owner'')
         else (upd_gen (ac_Generation a) (\<lambda>g. g\<lparr>mg_State := GenActive\<rparr>)
                 (put_claim n (cl\<lparr>mc_PendingSuccessor := '''', mc_Phase := PhaseOwned\<rparr>) w), MOk))"

definition expire :: "string \<Rightarrow> World \<Rightarrow> World" where
  "expire n w = put_claim n (expireIfNeeded (wo_Now w) (the_claim w n)) w"

definition sweepExpired :: "World \<Rightarrow> World" where
  "sweepExpired w = w\<lparr>wo_Claims := map (\<lambda>(n, cl). (n, expireIfNeeded (wo_Now w) cl)) (wo_Claims w)\<rparr>"

definition crashOwner :: "string \<Rightarrow> World \<Rightarrow> World" where
  "crashOwner n w =
     (let cl = the_claim w n
      in upd_gen (mc_Owner cl) (\<lambda>g. g\<lparr>mg_Connected := False, mg_State := GenFailed\<rparr>) (put_claim n cl w))"

definition forceRevoke :: "Action \<Rightarrow> World \<Rightarrow> World \<times> apply_result" where
  "forceRevoke a w =
     (let n = ac_Claim a; cl = the_claim w n
      in if mc_Owner cl \<noteq> ac_Generation a then (put_claim n cl w, MErr ''expected owner mismatch'')
         else (put_claim n (vacated cl) w, MOk))"

definition crashCandidate :: "string \<Rightarrow> World \<Rightarrow> World" where
  "crashCandidate n w =
     (case map_of (wo_Claims w) n of
        Some cl \<Rightarrow> if mc_Phase cl = PhaseReserved then put_claim n (cl\<lparr>mc_TransferDeadline := wo_Now w\<rparr>) w else w
      | None \<Rightarrow> w)"

definition known_gen :: "string \<Rightarrow> (MGeneration \<Rightarrow> MGeneration) \<Rightarrow> World \<Rightarrow> World \<times> apply_result" where
  "known_gen g f w = (if wo_Gens w g = None then (w, MErr ''unknown gen'') else (upd_gen g f w, MOk))"

definition Apply :: "Action \<Rightarrow> World \<Rightarrow> World \<times> apply_result" where
  "Apply a w0 =
     (let w = w0\<lparr>wo_History := wo_History w0 @ [a]\<rparr>; g = ac_Generation a
      in case ac_Type a of
           ActRegisterGeneration \<Rightarrow>
             (if wo_Gens w g \<noteq> None then w
              else w\<lparr>wo_Gens := (wo_Gens w)(g \<mapsto> \<lparr>mg_ID = g, mg_State = GenStandby, mg_Paused = False,
                     mg_Connected = True, mg_Ready = False, mg_Draining = False\<rparr>)\<rparr>, MOk)
         | ActPassReadiness \<Rightarrow> known_gen g (\<lambda>x. x\<lparr>mg_Ready := True, mg_State := GenStandby\<rparr>) w
         | ActFailReadiness \<Rightarrow> known_gen g (\<lambda>x. x\<lparr>mg_Ready := False, mg_State := GenFailed\<rparr>) w
         | ActRequestClaim \<Rightarrow> requestClaim a w
         | ActRenewClaim \<Rightarrow> renewClaim a w
         | ActReleaseClaim \<Rightarrow> releaseClaim a w
         | ActBeginDrain \<Rightarrow> known_gen g (\<lambda>x. x\<lparr>mg_Draining := True, mg_State := GenDraining\<rparr>) w
         | ActCompleteDrain \<Rightarrow> (upd_gen g (\<lambda>x. x\<lparr>mg_Draining := False\<rparr>) w, MOk)
         | ActPrepareTransfer \<Rightarrow> prepare a w
         | ActCommitTransfer \<Rightarrow> commit a w
         | ActAbortTransfer \<Rightarrow> abort a w
         | ActPause \<Rightarrow> (upd_gen g (\<lambda>x. x\<lparr>mg_Paused := True\<rparr>) w, MOk)
         | ActResume \<Rightarrow> (upd_gen g (\<lambda>x. x\<lparr>mg_Paused := False\<rparr>) w, MOk)
         | ActDisconnect \<Rightarrow> (upd_gen g (\<lambda>x. x\<lparr>mg_Connected := False\<rparr>) w, MOk)
         | ActReconnect \<Rightarrow> (upd_gen g (\<lambda>x. x\<lparr>mg_Connected := True\<rparr>) w, MOk)
         | ActExpireLease \<Rightarrow> (expire (ac_Claim a) w, MOk)
         | ActCrashOwner \<Rightarrow> (crashOwner (ac_Claim a) w, MOk)
         | ActCrashCandidate \<Rightarrow> (crashCandidate (ac_Claim a) w, MOk)
         | ActRestartBackend \<Rightarrow> (w, MOk)
         | ActForceRevoke \<Rightarrow> forceRevoke a w
         | ActAdvanceTime \<Rightarrow> (sweepExpired (w\<lparr>wo_Now := i64 (wo_Now w + ac_Delta a)\<rparr>), MOk)
         | ActOther t \<Rightarrow> (w, MErr (''unknown action '' @ t)))"

section \<open>The invariants\<close>

definition phase_text :: "MPhase \<Rightarrow> string" where
  "phase_text p = (case p of PhaseUnowned \<Rightarrow> ''unowned'' | PhaseOwned \<Rightarrow> ''owned'' | PhaseReserved \<Rightarrow> ''reserved''
     | PhaseDraining \<Rightarrow> ''draining'')"

definition check_claim :: "World \<Rightarrow> string \<Rightarrow> MClaim \<Rightarrow> (string \<times> string) option" where
  "check_claim w name cl =
     (if (mc_Phase cl = PhaseOwned \<or> mc_Phase cl = PhaseReserved) \<and> mc_Owner cl = '''' then
        Some (''reserved_has_owner'', ''claim '' @ name @ '' phase='' @ phase_text (mc_Phase cl) @ '' empty owner'')
      else if mc_Phase cl = PhaseReserved \<and> mc_PendingSuccessor cl = '''' then
        Some (''reserved_has_owner'', ''claim '' @ name @ '' reserved without successor'')
      else if mc_Phase cl = PhaseUnowned \<and> mc_Owner cl \<noteq> '''' then
        Some (''single_committed_owner'', ''claim '' @ name @ '' unowned but owner='' @ mc_Owner cl)
      else if (case wo_ProtectedEpoch w name of None \<Rightarrow> False | Some ep \<Rightarrow> mc_Phase cl = PhaseOwned \<and> mc_Token cl \<noteq> ep) then
        Some (''protected_resource_epoch'', ''claim '' @ name @ '' token='' @ decimal (unat (mc_Token cl))
          @ '' epoch='' @ decimal (unat (epoch_of w name)))
      else if mc_Phase cl = PhaseReserved \<and> mc_TransferDeadline cl > 0
          \<and> wo_Now w > i64 (mc_TransferDeadline cl + wo_TransferTO w) then
        Some (''transfer_not_pending_forever'', ''claim '' @ name @ '' transfer overdue'')
      else None)"

fun check_claims :: "World \<Rightarrow> (string \<times> MClaim) list \<Rightarrow> string \<times> string" where
  "check_claims w [] = ('''', '''')"
| "check_claims w ((name, cl) # cs) = (case check_claim w name cl of Some r \<Rightarrow> r | None \<Rightarrow> check_claims w cs)"

text \<open>The second loop of the function counts at most one owner per claim and reports nothing.\<close>

definition CheckInvariants :: "World \<Rightarrow> string \<times> string" where
  "CheckInvariants w = check_claims w (wo_Claims w)"

definition TokenSnapshot :: "World \<Rightarrow> (string \<times> u64) list" where
  "TokenSnapshot w = map (\<lambda>(k, cl). (k, mc_Token cl)) (wo_Claims w)"

fun CheckTokenMonotonic :: "(string \<times> u64) list \<Rightarrow> (string \<times> u64) list \<Rightarrow> string \<times> string" where
  "CheckTokenMonotonic prev [] = ('''', '''')"
| "CheckTokenMonotonic prev ((k, v) # cur) =
     (case map_of prev k of
        Some p \<Rightarrow> if v < p then (''token_monotonic'', k @ '': '' @ decimal (unat p) @ '' -> '' @ decimal (unat v))
                  else CheckTokenMonotonic prev cur
      | None \<Rightarrow> CheckTokenMonotonic prev cur)"

section \<open>The generator\<close>

text \<open>What the random source answers to one call of \<open>Next\<close>.\<close>

record draw =
  dr_type :: nat
  dr_gen :: nat
  dr_succ :: nat
  dr_delta :: nat
  dr_op :: nat

definition action_types :: "ActionType list" where
  "action_types =
     [ActRegisterGeneration, ActPassReadiness, ActRequestClaim, ActRenewClaim, ActBeginDrain, ActCompleteDrain,
      ActPrepareTransfer, ActCommitTransfer, ActAbortTransfer, ActDisconnect, ActReconnect, ActAdvanceTime,
      ActExpireLease, ActCrashOwner, ActCrashCandidate, ActReleaseClaim, ActPause, ActResume, ActRestartBackend]"

definition model_itoa :: "nat \<Rightarrow> string" where
  "model_itoa n = (if n = 0 then ''0'' else dec_loop n [])"

definition fmtOp :: "int \<Rightarrow> string" where
  "fmtOp n = ''op-'' @ model_itoa (nat \<bar>n\<bar>)"

definition gen_Next :: "string \<Rightarrow> string list \<Rightarrow> draw \<Rightarrow> Action" where
  "gen_Next claim gens d =
     (let t = action_types ! dr_type d
      in \<lparr>ac_Type = t, ac_Generation = gens ! dr_gen d, ac_Claim = claim, ac_Successor = gens ! dr_succ d,
          ac_OpID = (if t \<in> {ActRequestClaim, ActCommitTransfer, ActReleaseClaim} then fmtOp (int (dr_op d)) else ''''),
          ac_Delta = (if t = ActAdvanceTime then int (dr_delta d + 1) * Millisecond else 0)\<rparr>)"

definition plain_action :: "ActionType \<Rightarrow> string \<Rightarrow> Action" where
  "plain_action t g = \<lparr>ac_Type = t, ac_Generation = g, ac_Claim = '''', ac_Successor = '''', ac_OpID = '''', ac_Delta = 0\<rparr>"

definition gen_Sequence :: "string \<Rightarrow> string list \<Rightarrow> draw list \<Rightarrow> Action list" where
  "gen_Sequence claim gens ds =
     concat (map (\<lambda>g. [plain_action ActRegisterGeneration g, plain_action ActPassReadiness g]) gens)
     @ map (gen_Next claim gens) ds"

section \<open>Well-formed worlds\<close>

definition claim_ok :: "int \<Rightarrow> u64 option \<Rightarrow> MClaim \<Rightarrow> bool" where
  "claim_ok now e cl \<longleftrightarrow>
     (mc_Phase cl = PhaseUnowned \<longleftrightarrow> mc_Owner cl = '''')
     \<and> (mc_Phase cl = PhaseReserved \<longrightarrow> mc_PendingSuccessor cl \<noteq> '''' \<and> (0 < mc_TransferDeadline cl \<longrightarrow> now \<le> mc_TransferDeadline cl)
          \<and> mc_TransferDeadline cl \<le> 2 ^ 62)
     \<and> (case e of Some ep \<Rightarrow> mc_Token cl = ep
          | None \<Rightarrow> mc_Token cl = 0 \<and> mc_Phase cl = PhaseUnowned \<and> mc_OpResults cl = Map.empty)
     \<and> (\<forall>i s. mc_OpResults cl i = Some s \<longrightarrow>
          (os_Phase s = PhaseUnowned \<longleftrightarrow> os_Owner s = '''') \<and> os_Phase s \<noteq> PhaseReserved
          \<and> os_Token s \<le> mc_Token cl)"

definition in_time :: "int \<Rightarrow> bool" where
  "in_time t \<longleftrightarrow> \<bar>t\<bar> \<le> 2 ^ 61"

definition world_ok :: "World \<Rightarrow> bool" where
  "world_ok w \<longleftrightarrow> in_time (wo_Now w) \<and> 0 < wo_TransferTO w \<and> in_time (wo_TransferTO w)
     \<and> distinct (map fst (wo_Claims w))
     \<and> (\<forall>n cl. (n, cl) \<in> set (wo_Claims w) \<longrightarrow> claim_ok (wo_Now w) (wo_ProtectedEpoch w n) cl)
     \<and> (\<forall>n. map_of (wo_Claims w) n = None \<longrightarrow> wo_ProtectedEpoch w n = None)"

text \<open>No claim disappears and no token decreases.\<close>

definition tokens_grow :: "World \<Rightarrow> World \<Rightarrow> bool" where
  "tokens_grow w w' \<longleftrightarrow> (\<forall>n cl. map_of (wo_Claims w) n = Some cl \<longrightarrow>
     (\<exists>cl'. map_of (wo_Claims w') n = Some cl' \<and> mc_Token cl \<le> mc_Token cl'))"

text \<open>
  The shape of every action on a claim: claim \<open>n\<close> becomes \<open>cl\<close>, its epoch becomes \<open>e\<close>, and
  the rest of what the invariants speak about stays. Only operation \<open>i\<close> may get an outcome.
\<close>

definition moves :: "string \<Rightarrow> string \<Rightarrow> World \<Rightarrow> World \<Rightarrow> bool" where
  "moves i n w w' \<longleftrightarrow> (\<exists>cl e. wo_Claims w' = AList.update n cl (wo_Claims w) \<and> wo_ProtectedEpoch w' = (wo_ProtectedEpoch w)(n := e)
     \<and> wo_Now w' = wo_Now w \<and> wo_TransferTO w' = wo_TransferTO w
     \<and> claim_ok (wo_Now w) e cl \<and> mc_Token (the_claim w n) \<le> mc_Token cl
     \<and> dom (mc_OpResults cl) \<subseteq> insert i (dom (mc_OpResults (the_claim w n))))"

lemma the_claim_ok:
  assumes "world_ok w"
  shows "claim_ok (wo_Now w) (wo_ProtectedEpoch w n) (the_claim w n)"
proof (cases "map_of (wo_Claims w) n")
  case None
  then show ?thesis using assms by (auto simp: world_ok_def the_claim_def blank_claim_def claim_ok_def)
next
  case (Some cl)
  then show ?thesis using assms map_of_SomeD [OF Some] by (simp add: world_ok_def the_claim_def)
qed

lemma moves_ok:
  assumes "world_ok w" "moves i n w w'"
  shows "world_ok w' \<and> tokens_grow w w'"
proof -
  obtain cl e where m: "wo_Claims w' = AList.update n cl (wo_Claims w)" "wo_ProtectedEpoch w' = (wo_ProtectedEpoch w)(n := e)"
      "wo_Now w' = wo_Now w" "wo_TransferTO w' = wo_TransferTO w" "claim_ok (wo_Now w) e cl" "mc_Token (the_claim w n) \<le> mc_Token cl"
    using assms(2) unfolding moves_def by blast
  have w: "in_time (wo_Now w)" "0 < wo_TransferTO w" "in_time (wo_TransferTO w)" and d: "distinct (map fst (wo_Claims w))"
    and c: "\<And>n cl. map_of (wo_Claims w) n = Some cl \<Longrightarrow> claim_ok (wo_Now w) (wo_ProtectedEpoch w n) cl"
    and no: "\<And>n. map_of (wo_Claims w) n = None \<Longrightarrow> wo_ProtectedEpoch w n = None"
    using assms(1) by (auto simp: world_ok_def dest: map_of_SomeD)
  have d': "distinct (map fst (wo_Claims w'))" unfolding m(1) using d by (rule distinct_update)
  have "claim_ok (wo_Now w') (wo_ProtectedEpoch w' k) x" if "(k, x) \<in> set (wo_Claims w')" for k x
  proof -
    have "map_of (wo_Claims w') k = Some x" using that d' by (rule map_of_is_SomeI [rotated])
    then show ?thesis using m(5) c [of k x] by (auto simp: m(1-3) update_conv' split: if_splits)
  qed
  moreover have "wo_ProtectedEpoch w' k = None" if "map_of (wo_Claims w') k = None" for k
    using that no [of k] by (auto simp: m(1, 2) update_conv' split: if_splits)
  ultimately have "world_ok w'" unfolding world_ok_def using w d' by (simp add: m(3, 4))
  moreover have "tokens_grow w w'"
    using m(6) by (auto simp: tokens_grow_def m(1) update_conv' the_claim_def)
  ultimately show ?thesis by blast
qed

lemma expireIfNeeded_ok:
  "claim_ok now e cl \<Longrightarrow> claim_ok now' e (expireIfNeeded now' cl)" "mc_Token (expireIfNeeded now' cl) = mc_Token cl"
  "mc_OpResults (expireIfNeeded now' cl) = mc_OpResults cl"
  by (auto simp: expireIfNeeded_def claim_ok_def Let_def split: option.splits)

declare expireIfNeeded_ok(2, 3) [simp] subset_insertI [simp]

lemma upd_gen_fields [simp]:
  "wo_Claims (upd_gen g f w) = wo_Claims w" "wo_ProtectedEpoch (upd_gen g f w) = wo_ProtectedEpoch w"
  "wo_Now (upd_gen g f w) = wo_Now w" "wo_TransferTO (upd_gen g f w) = wo_TransferTO w" "wo_LeaseTTL (upd_gen g f w) = wo_LeaseTTL w"
  by (simp_all add: upd_gen_def split: option.split)

lemma put_claim_fields [simp]:
  "wo_Claims (put_claim n cl w) = AList.update n cl (wo_Claims w)" "wo_ProtectedEpoch (put_claim n cl w) = wo_ProtectedEpoch w"
  "wo_Now (put_claim n cl w) = wo_Now w" "wo_TransferTO (put_claim n cl w) = wo_TransferTO w"
  by (simp_all add: put_claim_def)

lemma moves_put:
  assumes "claim_ok (wo_Now w) (wo_ProtectedEpoch w n) cl" "mc_Token (the_claim w n) \<le> mc_Token cl"
    and "wo_Claims w' = AList.update n cl (wo_Claims w)" "wo_ProtectedEpoch w' = wo_ProtectedEpoch w"
    "wo_Now w' = wo_Now w" "wo_TransferTO w' = wo_TransferTO w"
    and "dom (mc_OpResults cl) \<subseteq> insert i (dom (mc_OpResults (the_claim w n)))"
  shows "moves i n w w'"
  unfolding moves_def using assms by (intro exI [of _ cl] exI [of _ "wo_ProtectedEpoch w n"]) simp

section \<open>Every action keeps a world well formed\<close>

lemma i64_id: "- (2 ^ 63) \<le> x \<Longrightarrow> x < 2 ^ 63 \<Longrightarrow> i64 x = x"
  by (simp add: i64_def signed_take_bit_int_eq_self)

lemma claim_ok_expires [simp]: "claim_ok now e (cl\<lparr>mc_ExpiresAt := t\<rparr>) = claim_ok now e cl"
  by (simp add: claim_ok_def split: option.split)

lemma moves_stay: "world_ok w \<Longrightarrow> moves i n w (put_claim n (the_claim w n) w)"
  by (rule moves_put [OF the_claim_ok]) simp_all

definition replay_safe :: "Action \<Rightarrow> World \<Rightarrow> bool" where
  "replay_safe a w \<longleftrightarrow> (\<forall>s. recall_op a (the_claim w (ac_Claim a)) = Some s \<longrightarrow> os_Token s = mc_Token (the_claim w (ac_Claim a)))"

lemma replay_ok:
  assumes "world_ok w" "replay_safe a w" "recall_op a (the_claim w (ac_Claim a)) = Some s"
  shows "moves (ac_OpID a) (ac_Claim a) w (put_claim (ac_Claim a) (replay_snap s (the_claim w (ac_Claim a))) w)"
proof -
  let ?cl = "the_claim w (ac_Claim a)"
  have t: "os_Token s = mc_Token ?cl" using assms(2, 3) by (simp add: replay_safe_def)
  have s: "mc_OpResults ?cl (ac_OpID a) = Some s" using assms(3) by (simp add: recall_op_def split: if_splits)
  have "claim_ok (wo_Now w) (wo_ProtectedEpoch w (ac_Claim a)) (replay_snap s ?cl)"
    using the_claim_ok [OF assms(1), of "ac_Claim a"] s t by (auto simp: claim_ok_def replay_snap_def split: option.splits)
  then show ?thesis by (rule moves_put) (simp_all add: replay_snap_def t)
qed

lemma granted_ok:
  assumes "claim_ok now e cl" "g \<noteq> ''''" "\<not> mc_Token cl \<ge> - 2"
    and "cl' = granted_claim g x cl"
  shows "claim_ok now (Some (mc_Token cl')) (store_op a (snap cl') cl')" "mc_Token cl \<le> mc_Token (store_op a (snap cl') cl')"
proof -
  have "mc_Token cl < - 2" using assms(3) by simp
  then have up: "mc_Token cl \<le> mc_Token cl + 1" using word_Suc_less [of "mc_Token cl" "- 2"] by simp
  then show "mc_Token cl \<le> mc_Token (store_op a (snap cl') cl')" using assms(4) by (simp add: store_op_def granted_claim_def)
  have "\<forall>i s. mc_OpResults cl i = Some s \<longrightarrow> (os_Phase s = PhaseUnowned \<longleftrightarrow> os_Owner s = '''') \<and> os_Phase s \<noteq> PhaseReserved
      \<and> os_Token s \<le> mc_Token cl + 1"
    using assms(1) order_trans [OF _ up] by (simp add: claim_ok_def)
  then show "claim_ok now (Some (mc_Token cl')) (store_op a (snap cl') cl')"
    using assms(2, 4) by (simp add: claim_ok_def store_op_def snap_def granted_claim_def)
qed

lemma moves_grant:
  assumes "claim_ok (wo_Now w) e cl" "g \<noteq> ''''" "\<not> mc_Token cl \<ge> - 2" "mc_Token (the_claim w n) = mc_Token cl"
    and "mc_OpResults cl = mc_OpResults (the_claim w n)"
    and "cl' = granted_claim g x cl"
    and "wo_Claims w' = AList.update n (store_op a (snap cl') cl') (wo_Claims w)"
    and "wo_ProtectedEpoch w' = (wo_ProtectedEpoch w)(n \<mapsto> mc_Token cl')" "wo_Now w' = wo_Now w" "wo_TransferTO w' = wo_TransferTO w"
  shows "moves (ac_OpID a) n w w'"
  unfolding moves_def using granted_ok [OF assms(1-3, 6), of a] assms(4-10)
  by (intro exI [of _ "store_op a (snap cl') cl'"] exI [of _ "Some (mc_Token cl')"]) (auto simp: store_op_def granted_claim_def)

lemma requestClaim_moves:
  assumes "world_ok w" "ac_Generation a \<noteq> ''''" "replay_safe a w"
  shows "moves (ac_OpID a) (ac_Claim a) w (fst (requestClaim a w))"
proof -
  let ?n = "ac_Claim a" and ?cl = "the_claim w (ac_Claim a)"
  let ?x = "expireIfNeeded (wo_Now w) ?cl"
  have x: "claim_ok (wo_Now w) (wo_ProtectedEpoch w ?n) ?x" "mc_Token ?x = mc_Token ?cl"
    by (rule expireIfNeeded_ok(1) [OF the_claim_ok [OF assms(1)]], rule expireIfNeeded_ok(2))
  show ?thesis
  proof (cases "recall_op a ?cl")
    case (Some s)
    then show ?thesis using replay_ok [OF assms(1, 3) Some] by (simp add: requestClaim_def Let_def)
  next
    case None
    consider (held) "mc_Phase ?x = PhaseOwned \<or> mc_Phase ?x = PhaseReserved" | (full) "\<not> (mc_Phase ?x = PhaseOwned \<or> mc_Phase ?x = PhaseReserved)" "mc_Token ?x \<ge> - 2"
      | (free) "\<not> (mc_Phase ?x = PhaseOwned \<or> mc_Phase ?x = PhaseReserved)" "\<not> mc_Token ?x \<ge> - 2" by blast
    then show ?thesis
    proof cases
      case held
      then show ?thesis using None x(1) moves_put [OF x(1)] moves_put [of w ?n "?x\<lparr>mc_ExpiresAt := _\<rparr>"] x(2)
        by (simp add: requestClaim_def Let_def)
    next
      case full
      then show ?thesis using None moves_put [OF x(1)] x(2) by (simp add: requestClaim_def Let_def)
    next
      case free
      show ?thesis
        by (rule moves_grant [OF x(1) assms(2) free(2) x(2) [symmetric] expireIfNeeded_ok(3) refl]) (use None free in \<open>simp_all add: requestClaim_def Let_def\<close>)
    qed
  qed
qed

lemma commit_moves:
  assumes "world_ok w" "replay_safe a w"
  shows "moves (ac_OpID a) (ac_Claim a) w (fst (commit a w))"
proof -
  let ?n = "ac_Claim a" and ?cl = "the_claim w (ac_Claim a)"
  have cl: "claim_ok (wo_Now w) (wo_ProtectedEpoch w ?n) ?cl" using assms(1) by (rule the_claim_ok)
  show ?thesis
  proof (cases "recall_op a ?cl")
    case (Some s)
    then show ?thesis using replay_ok [OF assms(1, 2) Some] by (simp add: commit_def Let_def)
  next
    case None
    show ?thesis
    proof (cases "mc_Phase ?cl \<noteq> PhaseReserved \<or> mc_Owner ?cl \<noteq> ac_Generation a \<or> mc_PendingSuccessor ?cl \<noteq> ac_Successor a \<or> mc_Token ?cl \<ge> - 2")
      case True
      then show ?thesis using None moves_stay [OF assms(1), of "ac_OpID a" ?n] by (auto simp: commit_def Let_def)
    next
      case False
      then have "ac_Successor a \<noteq> ''''" using cl by (auto simp: claim_ok_def)
      from cl this show ?thesis
        by (rule moves_grant [OF _ _ _ _ _ refl, where w = w and a = a and x = "i64 (wo_Now w + wo_LeaseTTL w)"]) (use None False in \<open>simp_all add: commit_def Let_def\<close>)
    qed
  qed
qed

lemma releaseClaim_moves:
  assumes "world_ok w" "ac_Generation a \<noteq> ''''"
  shows "moves (ac_OpID a) (ac_Claim a) w (fst (releaseClaim a w))"
proof -
  let ?n = "ac_Claim a" and ?cl = "the_claim w (ac_Claim a)"
  have cl: "claim_ok (wo_Now w) (wo_ProtectedEpoch w ?n) ?cl" using assms(1) by (rule the_claim_ok)
  show ?thesis
  proof (cases "mc_Owner ?cl = ac_Generation a")
    case True
    then have "claim_ok (wo_Now w) (wo_ProtectedEpoch w ?n) (store_op a (snap (vacated ?cl)) (vacated ?cl))"
      using cl assms(2) by (auto simp: claim_ok_def store_op_def snap_def vacated_def split: option.splits)
    then show ?thesis
      using moves_stay [OF assms(1), of "ac_OpID a" ?n] moves_put [of w ?n "store_op a (snap (vacated ?cl)) (vacated ?cl)"]
      by (simp add: releaseClaim_def Let_def store_op_def vacated_def)
  next
    case False
    then show ?thesis using moves_stay [OF assms(1), of "ac_OpID a" ?n] by (simp add: releaseClaim_def Let_def)
  qed
qed

lemma prepare_moves:
  assumes "world_ok w" "ac_Successor a \<noteq> ''''"
  shows "moves (ac_OpID a) (ac_Claim a) w (fst (prepare a w))"
proof -
  let ?n = "ac_Claim a"
  let ?x = "expireIfNeeded (wo_Now w) (the_claim w ?n)"
  have x: "claim_ok (wo_Now w) (wo_ProtectedEpoch w ?n) ?x" "mc_Token ?x = mc_Token (the_claim w ?n)"
    by (rule expireIfNeeded_ok(1) [OF the_claim_ok [OF assms(1)]], rule expireIfNeeded_ok(2))
  have t: "in_time (wo_Now w)" "in_time (wo_TransferTO w)" "0 < wo_TransferTO w" using assms(1) by (simp_all add: world_ok_def)
  then have "i64 (wo_Now w + wo_TransferTO w) = wo_Now w + wo_TransferTO w" by (intro i64_id) (auto simp: in_time_def)
  moreover have "wo_Now w + wo_TransferTO w \<le> 2 ^ 62" using t by (auto simp: in_time_def)
  ultimately have "claim_ok (wo_Now w) (wo_ProtectedEpoch w ?n) (?x\<lparr>mc_Phase := PhaseReserved, mc_PendingSuccessor := ac_Successor a,
      mc_ExpiresAt := d, mc_TransferDeadline := i64 (wo_Now w + wo_TransferTO w)\<rparr>)" if "mc_Phase ?x \<noteq> PhaseUnowned" for d
    using x(1) t(3) assms(2) that by (auto simp: claim_ok_def split: option.splits)
  then show ?thesis
    using moves_put [OF x(1)] moves_put [of w ?n "?x\<lparr>mc_Phase := PhaseReserved, mc_PendingSuccessor := ac_Successor a,
      mc_ExpiresAt := _, mc_TransferDeadline := i64 (wo_Now w + wo_TransferTO w)\<rparr>"] x(2)
    by (simp add: prepare_def Let_def)
qed

lemma small_moves:
  assumes "world_ok w"
  shows "moves (ac_OpID a) (ac_Claim a) w (fst (renewClaim a w))" "moves (ac_OpID a) (ac_Claim a) w (fst (abort a w))" "moves i n w (expire n w)"
    "moves i n w (crashOwner n w)" "moves (ac_OpID a) (ac_Claim a) w (fst (forceRevoke a w))"
proof -
  have cl: "claim_ok (wo_Now w) (wo_ProtectedEpoch w k) (the_claim w k)" for k using assms by (rule the_claim_ok)
  note stay = moves_stay [OF assms]
  show "moves i n w (expire n w)" unfolding expire_def
    by (rule moves_put [OF expireIfNeeded_ok(1) [OF cl]]) (simp_all add: expireIfNeeded_ok(2))
  show "moves i n w (crashOwner n w)" unfolding crashOwner_def Let_def
    by (rule moves_put [OF cl]) simp_all
  show "moves (ac_OpID a) (ac_Claim a) w (fst (renewClaim a w))"
    using cl stay [of "ac_OpID a" "ac_Claim a"] moves_put [of w "ac_Claim a" "(the_claim w (ac_Claim a))\<lparr>mc_ExpiresAt := _\<rparr>"]
    by (auto simp: renewClaim_def Let_def split: option.split)
  have "claim_ok (wo_Now w) (wo_ProtectedEpoch w k) (vacated (the_claim w k))" for k
    using cl [of k] by (auto simp: claim_ok_def vacated_def split: option.splits)
  then show "moves (ac_OpID a) (ac_Claim a) w (fst (forceRevoke a w))"
    using stay [of "ac_OpID a" "ac_Claim a"] moves_put [of w "ac_Claim a" "vacated (the_claim w (ac_Claim a))"]
    by (simp add: forceRevoke_def Let_def vacated_def)
  have "claim_ok (wo_Now w) (wo_ProtectedEpoch w k) ((the_claim w k)\<lparr>mc_PendingSuccessor := '''', mc_Phase := PhaseOwned\<rparr>)"
    if "mc_Phase (the_claim w k) = PhaseReserved" for k
    using cl [of k] that by (auto simp: claim_ok_def split: option.splits)
  then show "moves (ac_OpID a) (ac_Claim a) w (fst (abort a w))"
    using stay [of "ac_OpID a" "ac_Claim a"]
      moves_put [of w "ac_Claim a" "(the_claim w (ac_Claim a))\<lparr>mc_PendingSuccessor := '''', mc_Phase := PhaseOwned\<rparr>"]
    by (simp add: abort_def Let_def)
qed

text \<open>
  The actions the test may produce: names are not empty, the clock stays far from the limits of
  \<open>int64\<close>, and an operation id is reused only while its claim still has the token of its outcome.
\<close>

definition admissible :: "Action \<Rightarrow> World \<Rightarrow> bool" where
  "admissible a w \<longleftrightarrow> ac_Generation a \<noteq> '''' \<and> (ac_Type a = ActPrepareTransfer \<longrightarrow> ac_Successor a \<noteq> '''')
     \<and> (ac_Type a \<in> {ActRequestClaim, ActCommitTransfer} \<longrightarrow> replay_safe a w)
     \<and> (ac_Type a = ActAdvanceTime \<longrightarrow> in_time (wo_Now w + ac_Delta a))"

definition op_used :: "World \<Rightarrow> string \<Rightarrow> bool" where
  "op_used w i \<longleftrightarrow> (\<exists>n. mc_OpResults (the_claim w n) i \<noteq> None)"

definition step_ok :: "string \<Rightarrow> World \<Rightarrow> World \<Rightarrow> bool" where
  "step_ok i w w' \<longleftrightarrow> world_ok w' \<and> tokens_grow w w' \<and> (\<forall>j. op_used w' j \<longrightarrow> op_used w j \<or> j = i)"

lemma moves_step_ok:
  assumes "world_ok w" "moves i n w w'"
  shows "step_ok i w w'"
proof -
  obtain cl where cl: "wo_Claims w' = AList.update n cl (wo_Claims w)" "dom (mc_OpResults cl) \<subseteq> insert i (dom (mc_OpResults (the_claim w n)))"
    using assms(2) unfolding moves_def by blast
  have "the_claim w' k = (if k = n then cl else the_claim w k)" for k by (simp add: the_claim_def cl(1) update_conv')
  then have "op_used w j \<or> j = i" if "op_used w' j" for j
    using that cl(2) unfolding op_used_def by (metis domIff insert_iff subsetD)
  then show ?thesis using moves_ok [OF assms] by (simp add: step_ok_def)
qed

lemma step_ok_same:
  assumes "world_ok w" "wo_Claims w' = wo_Claims w" "wo_ProtectedEpoch w' = wo_ProtectedEpoch w" "wo_Now w' = wo_Now w"
    "wo_TransferTO w' = wo_TransferTO w"
  shows "step_ok i w w'"
  using assms by (auto simp: step_ok_def world_ok_def tokens_grow_def op_used_def the_claim_def)

lemma map_of_map_snd: "map_of (map (\<lambda>(n, x). (n, f x)) xs) k = map_option f (map_of xs k)"
  by (induction xs) auto

lemma sweep_step_ok:
  assumes "world_ok w" "in_time t"
  shows "step_ok i w (sweepExpired (w\<lparr>wo_Now := t\<rparr>))"
proof -
  let ?w = "sweepExpired (w\<lparr>wo_Now := t\<rparr>)"
  have cs: "wo_Claims ?w = map (\<lambda>(n, cl). (n, expireIfNeeded t cl)) (wo_Claims w)" by (simp add: sweepExpired_def)
  have fst: "map fst (wo_Claims ?w) = map fst (wo_Claims w)" by (simp add: cs comp_def case_prod_beta)
  have "distinct (map fst (wo_Claims ?w))" unfolding fst using assms(1) by (simp add: world_ok_def)
  moreover have "claim_ok t (wo_ProtectedEpoch w n) (expireIfNeeded t cl)" if "(n, cl) \<in> set (wo_Claims w)" for n cl
    using assms(1) that by (intro expireIfNeeded_ok(1)) (auto simp: world_ok_def)
  then have "claim_ok t (wo_ProtectedEpoch w n) cl" if "(n, cl) \<in> set (wo_Claims ?w)" for n cl using that by (auto simp: cs)
  moreover have "wo_ProtectedEpoch w n = None" if "map_of (wo_Claims ?w) n = None" for n
    using assms(1) that by (simp add: cs map_of_map_snd world_ok_def)
  moreover have "wo_Now ?w = t" "wo_TransferTO ?w = wo_TransferTO w" "wo_ProtectedEpoch ?w = wo_ProtectedEpoch w"
    by (simp_all add: sweepExpired_def)
  ultimately have "world_ok ?w" using assms unfolding world_ok_def by simp
  moreover have "tokens_grow w ?w" by (auto simp: tokens_grow_def cs map_of_map_snd)
  moreover have "mc_OpResults (the_claim ?w n) = mc_OpResults (the_claim w n)" for n
    by (auto simp: the_claim_def cs map_of_map_snd split: option.split)
  then have "\<forall>j. op_used ?w j \<longrightarrow> op_used w j \<or> j = i" by (simp add: op_used_def)
  ultimately show ?thesis by (simp add: step_ok_def)
qed

lemma crashCandidate_step_ok:
  assumes "world_ok w"
  shows "step_ok i w (crashCandidate n w)"
proof (cases "map_of (wo_Claims w) n")
  case None
  then show ?thesis using step_ok_same [OF assms, of w] by (simp add: crashCandidate_def)
next
  case (Some cl)
  then have cl: "cl = the_claim w n" by (simp add: the_claim_def)
  have "\<bar>wo_Now w\<bar> \<le> 2 ^ 61" using assms by (simp add: world_ok_def in_time_def)
  then have "claim_ok (wo_Now w) (wo_ProtectedEpoch w n) (cl\<lparr>mc_TransferDeadline := wo_Now w\<rparr>)"
    using the_claim_ok [OF assms, of n] by (auto simp: claim_ok_def cl split: option.splits)
  then have "moves i n w (put_claim n (cl\<lparr>mc_TransferDeadline := wo_Now w\<rparr>) w)" by (rule moves_put) (simp_all add: cl)
  then show ?thesis using moves_step_ok [OF assms] step_ok_same [OF assms, of w] Some by (simp add: crashCandidate_def)
qed

lemma known_gen_fields [simp]:
  "wo_Claims (fst (known_gen g f w)) = wo_Claims w" "wo_ProtectedEpoch (fst (known_gen g f w)) = wo_ProtectedEpoch w"
  "wo_Now (fst (known_gen g f w)) = wo_Now w" "wo_TransferTO (fst (known_gen g f w)) = wo_TransferTO w"
  by (simp_all add: known_gen_def)

lemma world_History [simp]:
  "world_ok (w\<lparr>wo_History := h\<rparr>) = world_ok w" "the_claim (w\<lparr>wo_History := h\<rparr>) n = the_claim w n"
  "step_ok i (w\<lparr>wo_History := h\<rparr>) w' = step_ok i w w'" "replay_safe a (w\<lparr>wo_History := h\<rparr>) = replay_safe a w"
  by (simp_all add: world_ok_def the_claim_def step_ok_def tokens_grow_def op_used_def replay_safe_def)

lemma Apply_step_ok:
  assumes "world_ok w" "admissible a w"
  shows "step_ok (ac_OpID a) w (fst (Apply a w))"
proof -
  define v where "v = w\<lparr>wo_History := wo_History w @ [a]\<rparr>"
  have v: "world_ok v" using assms(1) by (simp add: v_def)
  have ad: "ac_Generation a \<noteq> ''''" "ac_Type a = ActPrepareTransfer \<Longrightarrow> ac_Successor a \<noteq> ''''"
    "ac_Type a \<in> {ActRequestClaim, ActCommitTransfer} \<Longrightarrow> replay_safe a v" "ac_Type a = ActAdvanceTime \<Longrightarrow> in_time (wo_Now v + ac_Delta a)"
    using assms(2) by (auto simp: admissible_def v_def)
  note steps = requestClaim_moves [OF v ad(1)] commit_moves [OF v] releaseClaim_moves [OF v ad(1)] prepare_moves [OF v]
    small_moves [OF v]
  have "i64 (wo_Now v + ac_Delta a) = wo_Now v + ac_Delta a" if "in_time (wo_Now v + ac_Delta a)"
    using that by (intro i64_id) (auto simp: in_time_def)
  then have "step_ok (ac_OpID a) v (fst (Apply a w))"
    using ad steps [THEN moves_step_ok [OF v]] sweep_step_ok [OF v, of "wo_Now v + ac_Delta a" "ac_OpID a"]
      crashCandidate_step_ok [OF v] step_ok_same [OF v]
    unfolding Apply_def Let_def v_def [symmetric] by (cases "ac_Type a") simp_all
  then show ?thesis by (simp add: v_def)
qed

section \<open>The checks report nothing\<close>

lemma check_claim_ok:
  assumes "world_ok w" "(n, cl) \<in> set (wo_Claims w)"
  shows "check_claim w n cl = None"
proof -
  have c: "claim_ok (wo_Now w) (wo_ProtectedEpoch w n) cl" and t: "in_time (wo_TransferTO w)" "0 < wo_TransferTO w"
    using assms by (auto simp: world_ok_def)
  have "wo_Now w \<le> i64 (mc_TransferDeadline cl + wo_TransferTO w)" if "mc_Phase cl = PhaseReserved" "0 < mc_TransferDeadline cl"
  proof -
    have "i64 (mc_TransferDeadline cl + wo_TransferTO w) = mc_TransferDeadline cl + wo_TransferTO w"
      using c t that by (intro i64_id) (auto simp: claim_ok_def in_time_def)
    then show ?thesis using c t that by (simp add: claim_ok_def)
  qed
  then show ?thesis using c by (auto simp: check_claim_def claim_ok_def split: option.splits)
qed

lemma CheckInvariants_ok: "world_ok w \<Longrightarrow> CheckInvariants w = ('''', '''')"
proof -
  assume w: "world_ok w"
  have "set cs \<subseteq> set (wo_Claims w) \<Longrightarrow> check_claims w cs = ('''', '''')" for cs
    by (induction cs) (auto simp: check_claim_ok [OF w])
  then show ?thesis by (simp add: CheckInvariants_def)
qed

lemma CheckTokenMonotonic_ok:
  "(\<And>k v p. (k, v) \<in> set cur \<Longrightarrow> map_of prev k = Some p \<Longrightarrow> p \<le> v) \<Longrightarrow> CheckTokenMonotonic prev cur = ('''', '''')"
  by (induction cur) (force split: option.split)+

lemma snapshot_monotone:
  assumes "tokens_grow w w'" "world_ok w'"
  shows "CheckTokenMonotonic (TokenSnapshot w) (TokenSnapshot w') = ('''', '''')"
proof (rule CheckTokenMonotonic_ok)
  fix k v p
  assume "(k, v) \<in> set (TokenSnapshot w')" and p: "map_of (TokenSnapshot w) k = Some p"
  then obtain cl' where cl': "(k, cl') \<in> set (wo_Claims w')" "v = mc_Token cl'" by (auto simp: TokenSnapshot_def)
  obtain cl where cl: "map_of (wo_Claims w) k = Some cl" "p = mc_Token cl" using p by (auto simp: TokenSnapshot_def map_of_map_snd)
  have "map_of (wo_Claims w') k = Some cl'" using cl'(1) assms(2) by (simp add: world_ok_def map_of_is_SomeI)
  then show "p \<le> v" using assms(1) cl cl'(2) by (fastforce simp: tokens_grow_def)
qed

text \<open>The loop of the randomised test: both checks after every action, the first report ends it.\<close>

fun run_checked :: "World \<Rightarrow> Action list \<Rightarrow> (string \<times> string) option" where
  "run_checked w [] = None"
| "run_checked w (a # as) =
     (let w' = fst (Apply a w); m = CheckTokenMonotonic (TokenSnapshot w) (TokenSnapshot w'); i = CheckInvariants w'
      in if fst m \<noteq> '''' then Some m else if fst i \<noteq> '''' then Some i else run_checked w' as)"

fun admissible_run :: "World \<Rightarrow> Action list \<Rightarrow> bool" where
  "admissible_run w [] = True"
| "admissible_run w (a # as) \<longleftrightarrow> admissible a w \<and> admissible_run (fst (Apply a w)) as"

lemma run_checked_ok: "world_ok w \<Longrightarrow> admissible_run w as \<Longrightarrow> run_checked w as = None"
proof (induction as arbitrary: w)
  case (Cons a as)
  then have "step_ok (ac_OpID a) w (fst (Apply a w))" by (intro Apply_step_ok) simp_all
  then have "world_ok (fst (Apply a w))" "tokens_grow w (fst (Apply a w))" by (simp_all add: step_ok_def)
  then show ?case using Cons by (simp add: Let_def snapshot_monotone CheckInvariants_ok)
qed simp

lemma NewWorld_ok: "in_time transferTO \<Longrightarrow> world_ok (NewWorld leaseTTL transferTO)"
  by (auto simp: world_ok_def NewWorld_def in_time_def)

text \<open>
  The protocol model satisfies its own invariants: from a new world, along any sequence of
  actions with non-empty names and clock values far from the limits of \<open>int64\<close>, in which an operation
  id is reused only while its claim has the token of the recorded outcome, \<open>CheckTokenMonotonic\<close> and
  \<open>CheckInvariants\<close> report nothing after any action, whether it succeeds, fails or panics.
\<close>

theorem model_invariants_hold:
  assumes "in_time transferTO" and "admissible_run (NewWorld leaseTTL transferTO) as"
  shows "run_checked (NewWorld leaseTTL transferTO) as = None"
  using run_checked_ok [OF NewWorld_ok [OF assms(1)] assms(2)] .

text \<open>What is asked of a run whatever it replays: names are not empty and the clock stays in range.\<close>

definition proper :: "Action \<Rightarrow> World \<Rightarrow> bool" where
  "proper a w \<longleftrightarrow> ac_Generation a \<noteq> '''' \<and> (ac_Type a = ActPrepareTransfer \<longrightarrow> ac_Successor a \<noteq> '''')
     \<and> (ac_Type a = ActAdvanceTime \<longrightarrow> in_time (wo_Now w + ac_Delta a))"

fun proper_run :: "World \<Rightarrow> Action list \<Rightarrow> bool" where
  "proper_run w [] = True"
| "proper_run w (a # as) \<longleftrightarrow> proper a w \<and> proper_run (fst (Apply a w)) as"

lemma CheckTokenMonotonic_drop:
  "(k, v) \<in> set cur \<Longrightarrow> map_of prev k = Some p \<Longrightarrow> v < p \<Longrightarrow> fst (CheckTokenMonotonic prev cur) = ''token_monotonic''"
  by (induction cur) (auto split: option.split)

lemma unsafe_replay_reported:
  assumes "world_ok w" and "ac_Type a \<in> {ActRequestClaim, ActCommitTransfer}" and "\<not> replay_safe a w"
  shows "fst (CheckTokenMonotonic (TokenSnapshot w) (TokenSnapshot (fst (Apply a w)))) = ''token_monotonic''"
proof -
  let ?n = "ac_Claim a"
  let ?cl = "the_claim w ?n"
  obtain s where s: "recall_op a ?cl = Some s" "os_Token s \<noteq> mc_Token ?cl"
    using assms(3) by (auto simp: replay_safe_def)
  then have res: "mc_OpResults ?cl (ac_OpID a) = Some s" by (simp add: recall_op_def split: if_splits)
  then have "os_Token s \<le> mc_Token ?cl" using the_claim_ok [OF assms(1), of ?n] by (simp add: claim_ok_def)
  with s(2) have less: "os_Token s < mc_Token ?cl" by simp
  have "map_of (wo_Claims w) ?n \<noteq> None"
    using res by (auto simp: the_claim_def blank_claim_def split: option.splits)
  then have old: "map_of (TokenSnapshot w) ?n = Some (mc_Token ?cl)"
    by (auto simp: TokenSnapshot_def the_claim_def map_of_map_snd)
  have same: "the_claim (w\<lparr>wo_History := h\<rparr>) ?n = ?cl" for h by (simp add: the_claim_def)
  have "wo_Claims (fst (Apply a w)) = AList.update ?n (replay_snap s ?cl) (wo_Claims w)"
    using assms(2) s(1) by (auto simp: Apply_def Let_def requestClaim_def commit_def same put_claim_def)
  then have "map_of (TokenSnapshot (fst (Apply a w))) ?n = Some (os_Token s)"
    by (simp add: TokenSnapshot_def map_of_map_snd update_conv' replay_snap_def)
  then have "(?n, os_Token s) \<in> set (TokenSnapshot (fst (Apply a w)))" by (rule map_of_SomeD)
  then show ?thesis using old less by (rule CheckTokenMonotonic_drop)
qed

lemma run_checked_exact:
  "world_ok w \<Longrightarrow> proper_run w as \<Longrightarrow>
   case run_checked w as of None \<Rightarrow> admissible_run w as | Some r \<Rightarrow> \<not> admissible_run w as \<and> fst r = ''token_monotonic''"
proof (induction as arbitrary: w)
  case (Cons a as)
  show ?case
  proof (cases "admissible a w")
    case True
    then have "step_ok (ac_OpID a) w (fst (Apply a w))" using Cons.prems(1) by (intro Apply_step_ok)
    then have ok: "world_ok (fst (Apply a w))" "tokens_grow w (fst (Apply a w))" by (simp_all add: step_ok_def)
    then have "run_checked w (a # as) = run_checked (fst (Apply a w)) as"
      by (simp add: Let_def snapshot_monotone CheckInvariants_ok)
    with Cons.IH [OF ok(1)] Cons.prems(2) True show ?thesis
      by (cases "run_checked (fst (Apply a w)) as") (simp_all del: run_checked.simps)
  next
    case False
    then have "ac_Type a \<in> {ActRequestClaim, ActCommitTransfer} \<and> \<not> replay_safe a w"
      using Cons.prems(2) by (auto simp: proper_def admissible_def)
    then have "fst (CheckTokenMonotonic (TokenSnapshot w) (TokenSnapshot (fst (Apply a w)))) = ''token_monotonic''"
      using unsafe_replay_reported [OF Cons.prems(1)] by blast
    then show ?thesis using False by (simp add: Let_def)
  qed
qed simp

text \<open>
  C40. The model breaks exactly one of its invariants, and exactly by late replays. Run any sequence
  of actions with non-empty names and clock values in range from a new world, with
  \<open>CheckTokenMonotonic\<close> and \<open>CheckInvariants\<close> after every action. A violation is reported if and only if
  some acquire or commit repeats an operation id whose recorded outcome has another token than
  the claim has by then; and the violation reported is \<open>token_monotonic\<close>, the token going back.
\<close>

theorem model_report_exact:
  assumes "in_time transferTO" and "proper_run (NewWorld leaseTTL transferTO) as"
  shows "case run_checked (NewWorld leaseTTL transferTO) as of
      None \<Rightarrow> admissible_run (NewWorld leaseTTL transferTO) as
    | Some r \<Rightarrow> \<not> admissible_run (NewWorld leaseTTL transferTO) as \<and> fst r = ''token_monotonic''"
  using run_checked_exact [OF NewWorld_ok [OF assms(1)] assms(2)] .

section \<open>The randomised test\<close>

lemma model_itoa_decimal: "model_itoa n = decimal n"
proof (cases "n = 0")
  case True
  have "decimal 0 = ''0''" by code_simp
  then show ?thesis by (simp add: model_itoa_def True)
qed (simp add: model_itoa_def decimal_dec_loop)

lemma fmtOp_inject: "fmtOp (int m) = fmtOp (int n) \<longleftrightarrow> m = n"
  by (simp add: fmtOp_def model_itoa_decimal)

lemma Apply_clock: "wo_Now (fst (Apply a w)) = (if ac_Type a = ActAdvanceTime then i64 (wo_Now w + ac_Delta a) else wo_Now w)"
  by (cases "ac_Type a") (simp_all add: Apply_def Let_def requestClaim_def renewClaim_def releaseClaim_def prepare_def commit_def
      abort_def expire_def crashOwner_def crashCandidate_def forceRevoke_def sweepExpired_def known_gen_def split: option.split)

definition draw_ok :: "string list \<Rightarrow> draw \<Rightarrow> bool" where
  "draw_ok gens d \<longleftrightarrow> dr_type d < length action_types \<and> dr_gen d < length gens \<and> dr_succ d < length gens \<and> dr_delta d < 20"

definition ready :: "draw list \<Rightarrow> World \<Rightarrow> bool" where
  "ready ds w \<longleftrightarrow> world_ok w \<and> 0 \<le> wo_Now w \<and> wo_Now w + int (length ds) * (20 * Millisecond) \<le> 2 ^ 61
     \<and> (\<forall>d\<in>set ds. \<not> op_used w (fmtOp (int (dr_op d))))"

lemma fmtOp_nonempty [simp]: "fmtOp n \<noteq> ''''"
  by (simp add: fmtOp_def)

lemma unused_replay_safe: "\<not> op_used w (ac_OpID a) \<Longrightarrow> replay_safe a w"
  by (simp add: replay_safe_def recall_op_def op_used_def)

lemma register_ready:
  assumes "ready ds w" "g \<noteq> ''''" "t = ActRegisterGeneration \<or> t = ActPassReadiness"
  shows "admissible (plain_action t g) w \<and> ready ds (fst (Apply (plain_action t g) w))"
proof -
  have a: "admissible (plain_action t g) w" using assms(2, 3) by (auto simp: admissible_def plain_action_def)
  have "step_ok '''' w (fst (Apply (plain_action t g) w))"
    using Apply_step_ok [OF _ a] assms(1) by (simp add: ready_def plain_action_def)
  moreover have "wo_Now (fst (Apply (plain_action t g) w)) = wo_Now w" using assms(3) by (auto simp: Apply_clock plain_action_def)
  ultimately show ?thesis using a assms(1) fmtOp_nonempty by (auto simp: ready_def step_ok_def)
qed

lemma registers_run:
  assumes "ready ds w" "\<forall>g\<in>set gens. g \<noteq> ''''" "\<And>w. ready ds w \<Longrightarrow> admissible_run w bs"
  shows "admissible_run w (concat (map (\<lambda>g. [plain_action ActRegisterGeneration g, plain_action ActPassReadiness g]) gens) @ bs)"
  using assms(1, 2)
proof (induction gens arbitrary: w)
  case (Cons g gens)
  have r1: "admissible (plain_action ActRegisterGeneration g) w \<and> ready ds (fst (Apply (plain_action ActRegisterGeneration g) w))"
    using Cons.prems by (intro register_ready) auto
  then have "admissible (plain_action ActPassReadiness g) (fst (Apply (plain_action ActRegisterGeneration g) w))
      \<and> ready ds (fst (Apply (plain_action ActPassReadiness g) (fst (Apply (plain_action ActRegisterGeneration g) w))))"
    using Cons.prems by (intro register_ready) auto
  with r1 show ?case using Cons by simp
qed (simp add: assms(3))

lemma draws_run:
  assumes "ready ds w" "\<forall>g\<in>set gens. g \<noteq> ''''" "\<forall>d\<in>set ds. draw_ok gens d" "distinct (map dr_op ds)"
  shows "admissible_run w (map (gen_Next claim gens) ds)"
  using assms(1, 3, 4)
proof (induction ds arbitrary: w)
  case (Cons d ds)
  let ?a = "gen_Next claim gens d" and ?w' = "fst (Apply (gen_Next claim gens d) w)"
  have d: "draw_ok gens d" "world_ok w" "0 \<le> wo_Now w" "wo_Now w + (1 + int (length ds)) * (20 * Millisecond) \<le> 2 ^ 61"
    "\<not> op_used w (fmtOp (int (dr_op d)))" "\<And>x. x \<in> set ds \<Longrightarrow> \<not> op_used w (fmtOp (int (dr_op x)))"
    using Cons.prems by (auto simp: ready_def algebra_simps)
  have delta: "0 \<le> ac_Delta ?a" "ac_Delta ?a \<le> 20 * Millisecond" using d(1) by (auto simp: gen_Next_def Let_def draw_ok_def Millisecond_def)
  have room: "wo_Now w + ac_Delta ?a + int (length ds) * (20 * Millisecond) \<le> 2 ^ 61" using delta(2) d(4) by (simp add: algebra_simps)
  moreover have "0 \<le> int (length ds) * (20 * Millisecond)" by (simp add: Millisecond_def)
  ultimately have t: "in_time (wo_Now w + ac_Delta ?a)" using delta(1) d(3) unfolding in_time_def by linarith
  have op: "ac_OpID ?a = '''' \<or> ac_OpID ?a = fmtOp (int (dr_op d))" by (simp add: gen_Next_def Let_def)
  have "replay_safe ?a w" if "ac_Type ?a \<in> {ActRequestClaim, ActCommitTransfer}"
    using that d(5) by (intro unused_replay_safe) (auto simp: gen_Next_def Let_def)
  then have adm: "admissible ?a w" using t d(1) assms(2) by (auto simp: admissible_def gen_Next_def Let_def draw_ok_def)
  then have st: "step_ok (ac_OpID ?a) w ?w'" by (rule Apply_step_ok [OF d(2)])
  have "\<not> op_used ?w' (fmtOp (int (dr_op x)))" if x: "x \<in> set ds" for x
  proof -
    have "dr_op x \<noteq> dr_op d" using Cons.prems(3) imageI [OF x, of dr_op] by auto
    then have "fmtOp (int (dr_op x)) \<noteq> ac_OpID ?a" using op fmtOp_inject fmtOp_nonempty by metis
    then show ?thesis using st d(6) [OF x] by (auto simp: step_ok_def)
  qed
  moreover have now: "i64 (wo_Now w + ac_Delta ?a) = wo_Now w + ac_Delta ?a" using t by (intro i64_id) (auto simp: in_time_def)
  then have "0 \<le> wo_Now ?w'" "wo_Now ?w' + int (length ds) * (20 * Millisecond) \<le> 2 ^ 61"
    using room d(3) delta by (simp_all add: Apply_clock)
  ultimately have "ready ds ?w'" using st by (simp add: ready_def step_ok_def)
  then show ?case using Cons.IH [of ?w'] Cons.prems adm by simp
qed simp

text \<open>
  C12. The randomised test of the model cannot fail by chance: whatever the random source answers,
  as long as no two of its 63-bit operation ids coincide, the generated sequence of any length up to
  ten thousand million actions passes both checks after every action.
\<close>

theorem model_random_test_passes:
  assumes "in_time transferTO" and "\<forall>g\<in>set gens. g \<noteq> ''''" and "\<forall>d\<in>set ds. draw_ok gens d"
    and "distinct (map dr_op ds)" and "length ds \<le> 10 ^ 10"
  shows "run_checked (NewWorld leaseTTL transferTO) (gen_Sequence claim gens ds) = None"
proof -
  have n: "ready ds (NewWorld leaseTTL transferTO)"
    using NewWorld_ok [OF assms(1), of leaseTTL] assms(5)
    by (simp add: ready_def op_used_def the_claim_def blank_claim_def) (simp add: NewWorld_def Millisecond_def blank_claim_def)
  have "admissible_run (NewWorld leaseTTL transferTO) (gen_Sequence claim gens ds)"
    unfolding gen_Sequence_def by (rule registers_run [OF n assms(2)]) (rule draws_run [OF _ assms(2-4)])
  then show ?thesis by (rule run_checked_ok [OF NewWorld_ok [OF assms(1)]])
qed

section \<open>Reused operation ids\<close>

definition act :: "ActionType \<Rightarrow> string \<Rightarrow> string \<Rightarrow> string \<Rightarrow> Action" where
  "act t g s i = \<lparr>ac_Type = t, ac_Generation = g, ac_Claim = ''jobs'', ac_Successor = s, ac_OpID = i, ac_Delta = 0\<rparr>"

definition handover :: "Action list" where
  "handover = [act ActRequestClaim ''a'' '''' ''x'', act ActPrepareTransfer ''a'' ''b'' '''', act ActCommitTransfer ''a'' ''b'' ''y'']"

text \<open>
  A late retry undoes a handover in the model: after \<open>a\<close> acquired a claim and handed it to
  \<open>b\<close>, repeating the acquire with its operation id makes \<open>a\<close> the owner again under the old token,
  which \<open>CheckTokenMonotonic\<close> reports. Renewing a claim whose owner was never registered panics.
\<close>

theorem model_replay_undoes_handover:
  "run_checked (NewWorld 15 30) handover = None
   \<and> (let w = foldl (\<lambda>w a. fst (Apply a w)) (NewWorld 15 30) handover; w' = fst (Apply (act ActRequestClaim ''a'' '''' ''x'') w)
      in mc_Owner (the_claim w ''jobs'') = ''b'' \<and> mc_Token (the_claim w ''jobs'') = 2
         \<and> mc_Owner (the_claim w' ''jobs'') = ''a'' \<and> mc_Token (the_claim w' ''jobs'') = 1)
   \<and> run_checked (NewWorld 15 30) (handover @ [act ActRequestClaim ''a'' '''' ''x'']) = Some (''token_monotonic'', ''jobs: 2 -> 1'')
   \<and> snd (Apply (act ActRenewClaim ''a'' '''' '''') (fst (Apply (act ActRequestClaim ''a'' '''' '''') (NewWorld 15 30)))) = MPanic"
  by (intro conjI) code_simp+

theorem model_report_exact_witness:
  "\<not> admissible_run (NewWorld 15 30) (handover @ [act ActRequestClaim ''a'' '''' ''x''])"
proof -
  have "proper_run (NewWorld 15 30) (handover @ [act ActRequestClaim ''a'' '''' ''x''])"
    unfolding handover_def proper_def by code_simp
  moreover have "run_checked (NewWorld 15 30) (handover @ [act ActRequestClaim ''a'' '''' ''x'']) \<noteq> None"
    by code_simp
  ultimately show ?thesis
    using model_report_exact [of 30 15 "handover @ [act ActRequestClaim ''a'' '''' ''x'']"]
    by (auto simp: in_time_def split: option.splits)
qed

theorem model_invariants_hold_witness: "run_checked (NewWorld 15 30) handover = None"
proof (rule model_invariants_hold)
  show "in_time 30" by (simp add: in_time_def)
  have "(\<forall>s. X = Some s \<longrightarrow> P s) \<longleftrightarrow> (case X of Some s \<Rightarrow> P s | None \<Rightarrow> True)" for X :: "opSnap option" and P by (cases X) auto
  note safe = replay_safe_def [unfolded this]
  show "admissible_run (NewWorld 15 30) handover" unfolding admissible_run.simps handover_def admissible_def safe by code_simp
qed

definition sample_draws :: "draw list" where
  "sample_draws = map (\<lambda>(t, i). \<lparr>dr_type = t, dr_gen = 0, dr_succ = 1, dr_delta = 3, dr_op = i\<rparr>) [(2, 7), (6, 8), (7, 9), (11, 10)]"

theorem model_random_test_passes_witness:
  "run_checked (NewWorld 15 30) (gen_Sequence ''jobs'' [''g0'', ''g1''] sample_draws) = None
   \<and> map ac_Type (gen_Sequence ''jobs'' [''g0'', ''g1''] sample_draws)
     = [ActRegisterGeneration, ActPassReadiness, ActRegisterGeneration, ActPassReadiness,
        ActRequestClaim, ActPrepareTransfer, ActCommitTransfer, ActAdvanceTime]"
proof
  show "run_checked (NewWorld 15 30) (gen_Sequence ''jobs'' [''g0'', ''g1''] sample_draws) = None"
    by (rule model_random_test_passes) (simp_all add: in_time_def sample_draws_def draw_ok_def action_types_def)
qed (simp add: gen_Sequence_def sample_draws_def gen_Next_def action_types_def plain_action_def Let_def)

end
