(* ===== verification/Spec2Isabelle.thy ===== *)
theory Spec2Isabelle
  imports Memory_Safety Kubernetes_Safety Redis_Local Fault_Injection Fencing Drain Events Fleet Resource_Lease Workflow_Safety Audit_Log Capability Protocol_Model
begin

text \<open>
  A verification library for \<open>shiftlock\<close>, a Go library that hands ownership of named claims from
  one process generation to the next during a deployment. Paths below are relative to \<open>src/\<close>.

  \<^bold>\<open>The program.\<close> A \<^emph>\<open>backend\<close> stores, per claim, who owns it and under which \<^emph>\<open>fencing token\<close>, a
  64-bit number that grows with every change of hands. A \<^emph>\<open>coordinator\<close> is one process
  generation: it acquires claims, renews their leases in the background, and gives its workers local
  leases that it cancels as soon as ownership is lost. A \<^emph>\<open>handoff\<close> moves all claims of a
  generation to a successor: drain the work in flight, reserve each claim, commit or abort. Resources
  that are written under a claim check the token, so that a process that lost its claim without
  noticing is refused. Around this core there are a resource fabric (identifiers, a registry with a
  dependency graph, in-process leases), a workflow engine with checkpoints and compensation, and
  security services (replay caches, signing, an audit log, capability tokens). The repository also
  has a small executable model of its own protocol with a randomised test.

  \<^bold>\<open>Conventions.\<close> A struct is a record, an enumeration a datatype, an interface a record of
  functions; a method is a function from the state and its arguments to the new state and the
  results, errors as values. Go strings are lists of bytes. Tokens, record versions, epochs and
  sequence numbers are 64-bit words, so wrap-around is real; instants and durations are unbounded integers (nanoseconds), except
  in \<open>Protocol_Model\<close>, where the code computes with \<open>int64\<close> ticks and the model wraps. Go maps are
  functions where the order does not matter and association lists where it does. What the program
  gets from outside is an argument: clocks, contexts, random bytes, other processes, the file
  system, user callbacks. SHA-256, Ed25519 and JSON encoders are arguments as well, with the laws
  that are used of them as hypotheses; the witnesses instantiate them.

  \<^bold>\<open>Theories.\<close> \<open>Prelude\<close> and \<open>Go_Strings\<close> hold the shared vocabulary: words, maps, lists, decimal
  numerals, UTF-8, \<open>strings.*\<close>.

  \<^item> \<open>Lifecycle\<close> (\<open>state.go\<close>, \<open>generation.go\<close>, \<open>internal/stategraph\<close>), \<open>Go_Errors\<close> (\<open>errors.go\<close>),
    \<open>Ownership\<close> (\<open>ownership.go\<close>, \<open>config.go\<close>, \<open>policy.go\<close> and the data of \<open>backend.go\<close>): states, errors,
    claim records, defaulting and validation of configurations.
  \<^item> \<open>Backend_Spec\<close> (\<open>backend.go\<close>): the interface as a record of operations, and its contract. A claim
    is seen as holder, token and pending successor; \<open>fence_step\<close> lists what may happen to it. The
    locale \<open>fenced_store\<close> says that every call moves only its claim and only along these steps, the
    locale \<open>fenced_backend\<close> adds what a reported success means. One holder per token and strictly
    growing tokens at a change of hands are proved in the locale, once for all stores.
  \<^item> \<open>Memory_Backend\<close>, \<open>Memory_Safety\<close> (\<open>backend/memory\<close>) and \<open>Redis_Local\<close> (\<open>backend/redis/local.go\<close>)
    model the two in-process stores and interpret the contract on them. Over histories with faults:
    exclusive ownership per token, idempotent retries of successes and refusals, and that calls with
    the token of a former owner leave the successor's record alone.
  \<^item> \<open>Fault_Injection\<close> (\<open>backend/faultinject\<close>) wraps any backend. Inside the locales it is shown that
    the contract survives; over the memory store, that an operation retried through any faults is
    applied once and that a lost response is resolved by the retry.
  \<^item> \<open>Kubernetes_Backend\<close>, \<open>Kubernetes_Safety\<close> (\<open>backend/kubernetes\<close>): here a method is a program of
    server requests, a tree whose inner nodes are requests, so that the calls of many processes
    interleave at every request and requests or replies may be lost. The locale \<open>lease_server\<close> is what
    the server promises about versions; it is interpreted on the in-process client. Shown: replies
    with the same token name the same owner, stored leases are well-formed, and a record with a phase
    and reason of the package and representable times survives the codec to annotations and back.
  \<^item> \<open>Fencing\<close> (\<open>fencing.go\<close>, \<open>fencing/memory\<close>): the token validator at the granularity of its atomic
    operations, linearizable and bounded in its retries; the fenced resource.
  \<^item> \<open>Drain\<close> (\<open>drain.go\<close>) and \<open>Events\<close> (\<open>event.go\<close>): the drain group, whose gate opens exactly when
    nothing is in flight, and the event bus, which accounts for every event.
  \<^item> \<open>Coordinator\<close>, \<open>Coordinator_Safety\<close> (\<open>coordinator.go\<close>, \<open>claim.go\<close>), \<open>Handoff\<close>, \<open>Handoff_Safety\<close>
    (\<open>handoff.go\<close>) and \<open>Fleet\<close>: the coordinator with its leases in a heap, the operations of a
    handoff with their compensation, and a fleet of coordinators over one store. The invariant (every
    lease token was granted to this generation, one live lease per claim) is proved from the
    contract of the backend and lifted to the fleet: no two generations have leases of a claim
    under the same token, and a \<open>Commit\<close> that returns nil has moved every reserved claim.
  \<^item> \<open>Topo_Sort\<close>, \<open>Resource_Core\<close>, \<open>Resource_Graph\<close>, \<open>Resource_Registry\<close>, \<open>Resource_Lease\<close>
    (\<open>resource/\<close>): identifiers and their parser, Kahn's algorithm as the code has it, the registry
    with its dependency graph, the lease manager. Startup orders are complete and respect
    dependencies, exclusive leases exclude, \<open>AcquireAll\<close> is all or nothing. The locale \<open>undoable\<close> is
    what a caller of the generic \<open>AcquireAll\<close> owes for the rollback to work; it is interpreted on
    the lease manager.
  \<^item> \<open>Workflow_Defs\<close>, \<open>Workflow_Store\<close>, \<open>Workflow_Engine\<close>, \<open>Workflow_Run\<close>, \<open>Workflow_Safety\<close> (\<open>workflow/\<close>):
    the builder, the memory, file and journal stores for checkpoints (the locale \<open>checkpoint_store\<close>,
    interpreted on the memory and the journal store), and the engine, whose
    effects are a log of saves, actions, compensations and audit records. The locale \<open>run_invariant\<close>
    is the proof rule for runs: a predicate kept by the elementary changes is kept by a run. Its
    interpretations give the order of starts, at most one start of a step that must not be
    retried, termination, dry runs and growing logs.
  \<^item> \<open>Replay_Cache\<close>, \<open>Signing\<close>, \<open>Audit_Log\<close>, \<open>Capability\<close> (\<open>anti_replay.go\<close>, \<open>security/antireplay\<close>,
    \<open>security/signing\<close>, \<open>audit/\<close>, \<open>capability/\<close>): refusal of replays, verification of signatures,
    tamper evidence of the hash chain and its limit at the end of the log, use limits, finality
    of invalidation, and what delegation narrows and what it does not.
  \<^item> \<open>Protocol_Model\<close> (\<open>model/\<close>): the repository's own model, with an exact description of when its
    checks report a violation.

  \<^bold>\<open>Bounds and fuel.\<close> One definition has fuel: \<open>parallel_loop\<close> gets one round more than there are
  steps, and \<open>workflow_returns\<close> shows that it never runs out. The loop of \<open>Accept\<close> is a step machine,
  and \<open>Accept_returns\<close> bounds the steps of a call. \<open>kahn\<close> and the flush of the event bus have termination
  proofs; all other recursion is primitive or has a termination order that \<open>fun\<close> finds by itself. The
  fleet theorems assume that the operation identifiers a history can use number fewer than \<open>2^64\<close>
  (\<open>fleet_weight\<close>), the invariants of \<open>Protocol_Model\<close> that clock values are within \<open>2^61\<close> of zero.

  \<^bold>\<open>Granularity.\<close> A method that holds a lock is one step. Where the source gives the lock up within a
  method, the model says what it merges: \<open>beforeMutate\<close> of the memory store and the body that
  follows it, the lookup and the locked part of \<open>LeaseManager.Lease\<close>, verification and issue in
  \<open>Delegate\<close>, the reads of the fault configuration in one decorated call. Inside an operation of a
  coordinator other clients of the store may act before every backend call; the renewal goroutines
  of the same process act between its operations. The actions of a parallel workflow batch are
  logged in the order of the batch.

  \<^bold>\<open>Not modelled.\<close> The Postgres and Redis backends and fences, whose logic is SQL and Lua text run by
  other programs; \<open>runtime.go\<close> and the HTTP handlers, which wire components together;
  \<open>Coordinator.Run\<close> and diagnostics, which compose callbacks and format a report; resource adapters,
  which talk to outside services; command-line tools, integrations, examples and test drivers.
  Outside the scope, though much of it could be modelled in the same way: the control plane
  (lockdown, maintenance, commands, configuration bundles), failover, promotion, playbooks,
  supervision, migration, barriers, budgets, election, the policy engine and synchronisation,
  resource bundles, drift and snapshot reports, health analysis, journals, secrets, attestation and
  scanners. The modelled files import none of these
  packages and call none of these operations. Of the goroutine supervisor
  (\<open>internal/supervisor\<close>) the coordinator model keeps whether its context is cancelled. JSON and text encodings are modelled only where a
  property rests on them: lease annotations and identifiers.
\<close>

end
